(* ===== verification/Ycsb_Prelude.thy ===== *)
theory Ycsb_Prelude
  imports Complex_Main "HOL-Library.Word"
begin

text \<open>
  Shared vocabulary of the development: machine integers, C++ exceptions and aborts as
  values, and the parts of the C and C++ standard libraries that the sources call
  (\<^verbatim>\<open>std::to_string\<close>, \<^verbatim>\<open>std::stoi\<close>, \<^verbatim>\<open>c_str\<close>, \<^verbatim>\<open>isspace\<close>, \<^verbatim>\<open>tolower\<close>), with the generic
  lemmas on strings and decimal numerals that the component theories share.
\<close>

declare of_nat_unat [simp del]

type_synonym u8 = "8 word"
type_synonym u32 = "32 word"
type_synonym u64 = "64 word"

text \<open>
  What can end a call other than by returning: a C++ exception, a failed \<^verbatim>\<open>assert\<close>,
  \<^verbatim>\<open>exit(n)\<close>, a trap (division by zero, access outside the mapped memory),
  or waiting for a lock that the thread itself holds.
\<close>

datatype exn =
    Exception string
  | InvalidArgument
  | OutOfRange
  | AssertFailure
  | DivisionByZero
  | InvalidAccess
  | Deadlock
  | Exit int

type_synonym 'a result = "exn + 'a"

definition rbind :: "'a result \<Rightarrow> ('a \<Rightarrow> 'b result) \<Rightarrow> 'b result" where
  "rbind m f = (case m of Inl e \<Rightarrow> Inl e | Inr x \<Rightarrow> f x)"

named_theorems result_simps \<open>equations of the result monad\<close>

lemma rbind_simps [simp, result_simps]:
  "rbind (Inl e) f = Inl e"
  "rbind (Inr x) f = f x"
  by (simp_all add: rbind_def)

lemma rbind_eq_Inr_iff [result_simps]:
  "rbind m f = Inr y \<longleftrightarrow> (\<exists>x. m = Inr x \<and> f x = Inr y)"
  by (cases m) simp_all

lemma rbind_eq_Inl_iff [result_simps]:
  "rbind m f = Inl e \<longleftrightarrow> m = Inl e \<or> (\<exists>x. m = Inr x \<and> f x = Inl e)"
  by (cases m) simp_all

lemma rbind_assoc: "rbind (rbind m f) g = rbind m (\<lambda>x. rbind (f x) g)"
  by (cases m) simp_all

subsection \<open>Characters and C strings\<close>

definition isspace :: "char \<Rightarrow> bool" where
  "isspace c = (let n = (of_char c :: nat) in n = 32 \<or> (9 \<le> n \<and> n \<le> 13))"

definition isdigit :: "char \<Rightarrow> bool" where
  "isdigit c = (let n = (of_char c :: nat) in 48 \<le> n \<and> n \<le> 57)"

definition tolower :: "char \<Rightarrow> char" where
  "tolower c = (let n = (of_char c :: nat) in
     if 65 \<le> n \<and> n \<le> 90 then char_of (n + 32) else c)"

text \<open>The bytes a \<^verbatim>\<open>const char *\<close> reader sees: everything before the first NUL.\<close>

definition c_str :: "string \<Rightarrow> string" where
  "c_str s = takeWhile (\<lambda>c. c \<noteq> CHR 0x00) s"

lemma c_str_idem [simp]: "c_str (c_str s) = c_str s"
  by (auto simp: c_str_def takeWhile_eq_all_conv dest: set_takeWhileD)

lemma c_str_no_nul: "CHR 0x00 \<notin> set s \<Longrightarrow> c_str s = s"
  by (auto simp: c_str_def takeWhile_eq_all_conv)

text \<open>The segments of a string between the occurrences of a separator.\<close>

fun split_on :: "char \<Rightarrow> string \<Rightarrow> string list" where
  "split_on d [] = [[]]"
| "split_on d (c # cs) =
     (if c = d then [] # split_on d cs
      else (case split_on d cs of [] \<Rightarrow> [[c]] | l # ls \<Rightarrow> (c # l) # ls))"

lemma split_on_not_Nil [simp]: "split_on d s \<noteq> []"
  by (cases s) (simp_all split: list.split)

lemma split_on_append_sep:
  "d \<notin> set l \<Longrightarrow> split_on d (l @ d # s) = l # split_on d s"
  by (induction l) auto

subsection \<open>Decimal numerals\<close>

definition digit_char :: "nat \<Rightarrow> char" where
  "digit_char n = char_of (48 + n)"

text \<open>\<^verbatim>\<open>std::to_string\<close> on unsigned values.\<close>

fun to_string :: "nat \<Rightarrow> string" where
  "to_string n =
     (if n < 10 then [digit_char n] else to_string (n div 10) @ [digit_char (n mod 10)])"

declare to_string.simps [simp del]

text \<open>Signed integers, as \<^verbatim>\<open>cout\<close> and \<^verbatim>\<open>%d\<close> print them.\<close>

definition int_to_string :: "int \<Rightarrow> string" where
  "int_to_string i = (if i < 0 then CHR ''-'' # to_string (nat (- i)) else to_string (nat i))"

definition digit_val :: "char \<Rightarrow> nat" where
  "digit_val c = of_char c - 48"

definition digits_val :: "string \<Rightarrow> nat" where
  "digits_val s = foldl (\<lambda>a c. 10 * a + digit_val c) 0 s"

lemma of_char_digit_char [simp]: "n < 10 \<Longrightarrow> (of_char (digit_char n) :: nat) = 48 + n"
  by (simp add: digit_char_def)

lemma digit_val_digit_char [simp]: "n < 10 \<Longrightarrow> digit_val (digit_char n) = n"
  by (simp add: digit_val_def)

lemma isdigit_digit_char [simp]: "n < 10 \<Longrightarrow> isdigit (digit_char n)"
  by (simp add: isdigit_def)

lemma to_string_not_Nil [simp]: "to_string n \<noteq> []"
  by (subst to_string.simps) simp

lemma digits_val_append: "digits_val (s @ [c]) = 10 * digits_val s + digit_val c"
  by (simp add: digits_val_def)

lemma digits_val_to_string [simp]: "digits_val (to_string n) = n"
proof (induction n rule: to_string.induct)
  case (1 n)
  then show ?case
    by (subst to_string.simps) (auto simp: digits_val_append, simp add: digits_val_def)
qed

lemma to_string_digits: "c \<in> set (to_string n) \<Longrightarrow> isdigit c"
proof (induction n arbitrary: c rule: to_string.induct)
  case (1 n)
  then show ?case
    by (subst (asm) (2) to_string.simps) (auto split: if_splits)
qed

lemma to_string_inject [simp]: "to_string m = to_string n \<longleftrightarrow> m = n"
  by (metis digits_val_to_string)

lemma isdigit_not_space: "isdigit c \<Longrightarrow> \<not> isspace c"
  by (auto simp: isdigit_def isspace_def Let_def)

lemma isdigit_not_sign: "isdigit c \<Longrightarrow> c \<noteq> CHR ''-'' \<and> c \<noteq> CHR ''+'' \<and> c \<noteq> CHR 0x00"
  by (auto simp: isdigit_def Let_def)

text \<open>
  \<^verbatim>\<open>std::stoi\<close>: leading white space is skipped, an optional sign, then the longest run of
  digits; no digit raises \<^verbatim>\<open>invalid_argument\<close>, a value outside \<^verbatim>\<open>int\<close> raises
  \<^verbatim>\<open>out_of_range\<close>, and what follows the digits is ignored.
\<close>

fun split_sign :: "string \<Rightarrow> bool \<times> string" where
  "split_sign (c # cs) =
     (if c = CHR ''-'' then (True, cs) else if c = CHR ''+'' then (False, cs) else (False, c # cs))"
| "split_sign [] = (False, [])"

definition stoi :: "string \<Rightarrow> int result" where
  "stoi s =
     (let (neg, t) = split_sign (dropWhile isspace s);
          ds = takeWhile isdigit t;
          v = (if neg then - int (digits_val ds) else int (digits_val ds))
      in if ds = [] then Inl InvalidArgument
         else if v < - (2 ^ 31) \<or> 2 ^ 31 \<le> v then Inl OutOfRange
         else Inr v)"

lemma split_sign_to_string: "split_sign (to_string n) = (False, to_string n)"
proof (cases "to_string n")
  case Nil
  then show ?thesis by simp
next
  case (Cons c cs)
  then have "isdigit c" using to_string_digits [of c n] by simp
  with Cons show ?thesis by (auto dest: isdigit_not_sign)
qed

lemma dropWhile_space_to_string: "dropWhile isspace (to_string n) = to_string n"
  using to_string_digits [of "hd (to_string n)" n] isdigit_not_space
  by (simp add: dropWhile_eq_self_iff)

lemma takeWhile_isdigit_to_string [simp]: "takeWhile isdigit (to_string n) = to_string n"
  by (simp add: takeWhile_eq_all_conv to_string_digits)

text \<open>Reading back a printed number.\<close>

lemma stoi_to_string: "n < 2 ^ 31 \<Longrightarrow> stoi (to_string n) = Inr (int n)"
  by (simp add: stoi_def dropWhile_space_to_string split_sign_to_string Let_def)

lemma stoi_to_string_OutOfRange: "2 ^ 31 \<le> n \<Longrightarrow> stoi (to_string n) = Inl OutOfRange"
  by (simp add: stoi_def dropWhile_space_to_string split_sign_to_string Let_def)

lemma stoi_range: "stoi s = Inr v \<Longrightarrow> - (2 ^ 31) \<le> v \<and> v < 2 ^ 31"
  by (auto simp: stoi_def Let_def split: prod.splits if_splits)

subsection \<open>Machine integers\<close>

text \<open>The implicit conversion of a C \<^verbatim>\<open>int\<close> to \<^verbatim>\<open>uint64_t\<close> or \<^verbatim>\<open>size_t\<close>: sign extension.\<close>

definition int_to_u64 :: "int \<Rightarrow> u64" where
  "int_to_u64 i = word_of_int i"

lemma unat_int_to_u64: "0 \<le> i \<Longrightarrow> i < 2 ^ 64 \<Longrightarrow> unat (int_to_u64 i) = nat i"
  by (simp add: int_to_u64_def unsigned_of_int nat_take_bit_eq)
    (simp add: take_bit_int_eq_self nat_take_bit_eq [symmetric])

lemma unat_u64_less [simp]: "unat (w :: u64) < 18446744073709551616"
  using unsigned_less [of w] by simp

lemma unat_add_u64: "unat a + unat b < 2 ^ 64 \<Longrightarrow> unat (a + b :: u64) = unat a + unat b"
  using unat_add_lem [of a b] by simp

lemma unat_add_u64_le:
  assumes "unat a + unat b \<le> unat (c :: u64)"
  shows "unat (a + b :: u64) = unat a + unat b"
proof (rule unat_add_u64)
  have "unat c < 2 ^ 64" using unat_u64_less [of c] by simp
  with assms show "unat a + unat b < 2 ^ 64" by (rule order_le_less_trans)
qed

lemma word_less_eq_unat: "(a :: u64) \<le> b \<longleftrightarrow> unat a \<le> unat b"
  by (rule word_le_nat_alt)

end
