(* ===== verification/Utils.thy ===== *)
theory Utils
  imports Ycsb_Prelude
begin

text \<open>
  \<^verbatim>\<open>core/utils.h\<close>: the FNV hashes, \<^verbatim>\<open>StrToBool\<close>, \<^verbatim>\<open>Trim\<close>, \<^verbatim>\<open>RandomPrintChar\<close> and \<^verbatim>\<open>RandomDouble\<close>.
\<close>

unbundle bit_operations_syntax

subsection \<open>FNV hashes\<close>

definition kFNVOffsetBasis64 :: u64 where "kFNVOffsetBasis64 = 0xCBF29CE484222325"
definition kFNVPrime64 :: u64 where "kFNVPrime64 = 1099511628211"

text \<open>The loop of \<^verbatim>\<open>FNVHash64\<close>, \<open>n\<close> iterations from \<open>(val, hash)\<close>.\<close>

fun FNVHash64_loop :: "nat \<Rightarrow> u64 \<Rightarrow> u64 \<Rightarrow> u64" where
  "FNVHash64_loop 0 val hash = hash"
| "FNVHash64_loop (Suc n) val hash =
     (let octet = val AND 0x00ff;
          val' = drop_bit 8 val
      in FNVHash64_loop n val' ((hash XOR octet) * kFNVPrime64))"

definition FNVHash64 :: "u64 \<Rightarrow> u64" where
  "FNVHash64 val = FNVHash64_loop 8 val kFNVOffsetBasis64"

definition kFNVOffsetBasis32 :: u32 where "kFNVOffsetBasis32 = 2166136261"
definition kFNVPrime32 :: u32 where "kFNVPrime32 = 16777619"

fun FNVHash32_loop :: "nat \<Rightarrow> u32 \<Rightarrow> u32 \<Rightarrow> u32" where
  "FNVHash32_loop 0 val hash = hash"
| "FNVHash32_loop (Suc n) val hash =
     (let octet = val AND 0xff;
          val' = drop_bit 8 val
      in FNVHash32_loop n val' ((hash XOR octet) * kFNVPrime32))"

definition FNVHash32 :: "u32 \<Rightarrow> u32" where
  "FNVHash32 val = FNVHash32_loop 4 val kFNVOffsetBasis32"

text \<open>\<^verbatim>\<open>Hash\<close> narrows its argument to 32 bits and widens the result back to 64.\<close>

definition Hash :: "u64 \<Rightarrow> u64" where
  "Hash val = ucast (FNVHash32 (ucast val))"

subsection \<open>Strings\<close>

definition StrToBool :: "string \<Rightarrow> bool result" where
  "StrToBool s =
     (let str = map tolower s in
      if str = ''true'' \<or> str = ''1'' then Inr True
      else if str = ''false'' \<or> str = ''0'' then Inr False
      else Inl (Exception (''Invalid bool string: '' @ str)))"

definition Trim :: "string \<Rightarrow> string" where
  "Trim str = (let front = dropWhile isspace str in rev (dropWhile isspace (rev front)))"

subsection \<open>Random characters and doubles\<close>

text \<open>\<^verbatim>\<open>rand() % 94 + 33\<close>, for the value \<open>r\<close> that \<^verbatim>\<open>rand()\<close> returned.\<close>

definition RandomPrintChar :: "nat \<Rightarrow> char" where
  "RandomPrintChar r = char_of (r mod 94 + 33)"

text \<open>
  \<^verbatim>\<open>RandomDouble(min, max)\<close> keeps its distribution in a function-local static, so the
  bounds of the first call are those of every later call. \<open>st\<close> is that static and
  \<open>x\<close> the canonical draw from \<open>[0, 1)\<close>; the result is scaled as the library does.
\<close>

definition RandomDouble ::
  "(real \<times> real) option \<Rightarrow> real \<Rightarrow> real \<Rightarrow> real \<Rightarrow> real \<times> (real \<times> real) option" where
  "RandomDouble st mn mx x =
     (let (a, b) = (case st of None \<Rightarrow> (mn, mx) | Some ab \<Rightarrow> ab)
      in (x * (b - a) + a, Some (a, b)))"

subsection \<open>Lemmas\<close>

text \<open>
  FNV-1a in its usual presentation: fold the octets of the value, least significant
  first, into the hash. The shift-and-mask loops compute it.
\<close>

definition octet64 :: "u64 \<Rightarrow> nat \<Rightarrow> u64" where
  "octet64 v i = drop_bit (8 * i) v AND 0xff"

definition fnv64_spec :: "u64 list \<Rightarrow> u64" where
  "fnv64_spec bs = foldl (\<lambda>h b. (h XOR b) * kFNVPrime64) kFNVOffsetBasis64 bs"

lemma FNVHash64_loop_foldl:
  "FNVHash64_loop n v h =
     foldl (\<lambda>h b. (h XOR b) * kFNVPrime64) h (map (octet64 v) [0..<n])"
proof (induction n arbitrary: v h)
  case 0
  then show ?case by simp
next
  case (Suc n)
  have "map (octet64 (drop_bit 8 v)) [0..<n] = map (octet64 v) (map Suc [0..<n])"
    by (simp add: octet64_def add.commute)
  with Suc show ?case
    by (simp add: Let_def upt_conv_Cons map_Suc_upt del: upt_Suc) (simp add: octet64_def)
qed

lemma FNVHash64_eq_spec: "FNVHash64 v = fnv64_spec (map (octet64 v) [0..<8])"
  by (simp only: FNVHash64_def fnv64_spec_def FNVHash64_loop_foldl)

lemma Hash_less: "unat (Hash v) < 2 ^ 32"
proof -
  have "unat (FNVHash32 (ucast v)) < 2 ^ 32"
    using unsigned_less [of "FNVHash32 (ucast v)", where ?'a = nat] by simp
  then show ?thesis by (simp add: Hash_def unsigned_ucast_eq take_bit_nat_eq_self)
qed

lemma Trim_Nil [simp]: "Trim [] = []"
  by (simp add: Trim_def)

lemma Trim_space_id:
  assumes "s \<noteq> []" and "\<not> isspace (hd s)" and "\<not> isspace (last s)"
  shows "Trim s = s"
proof -
  have "dropWhile isspace s = s" "dropWhile isspace (rev s) = rev s"
    using assms by (simp_all add: dropWhile_eq_self_iff hd_rev)
  then show ?thesis by (simp add: Trim_def)
qed

lemma Trim_surround:
  assumes "\<forall>c\<in>set a. isspace c" and "\<forall>c\<in>set b. isspace c"
  shows "Trim (a @ s @ b) = Trim s"
proof (cases "\<forall>c\<in>set s. isspace c")
  case True
  then have "dropWhile isspace (a @ s @ b) = []" "dropWhile isspace s = []"
    using assms by (auto simp: dropWhile_eq_Nil_conv)
  then show ?thesis by (simp only: Trim_def Let_def)
next
  case False
  then obtain c where c: "c \<in> set s" "\<not> isspace c" by blast
  have "dropWhile isspace (a @ s @ b) = dropWhile isspace (s @ b)"
    using assms(1) by (simp add: dropWhile_append2)
  also have "\<dots> = dropWhile isspace s @ b"
    using c by (rule dropWhile_append1)
  finally have "dropWhile isspace (a @ s @ b) = dropWhile isspace s @ b" .
  moreover have "dropWhile isspace (rev b @ t) = dropWhile isspace t" for t
    using assms(2) by (subst dropWhile_append2) auto
  ultimately show ?thesis by (simp add: Trim_def)
qed

lemma Trim_ends: "Trim s = [] \<or> (\<not> isspace (hd (Trim s)) \<and> \<not> isspace (last (Trim s)))"
proof (cases "Trim s = []")
  case False
  let ?f = "dropWhile isspace s"
  have ne: "dropWhile isspace (rev ?f) \<noteq> []" using False by (simp add: Trim_def Let_def)
  have l: "\<not> isspace (last (Trim s))"
    using hd_dropWhile [OF ne] ne by (simp add: Trim_def Let_def last_rev)
  obtain p where p: "?f = Trim s @ p"
    using takeWhile_dropWhile_id [of isspace "rev ?f"]
    by (metis Trim_def rev_append rev_rev_ident)
  then have "hd ?f = hd (Trim s)" "?f \<noteq> []" using False by simp_all
  then have "\<not> isspace (hd (Trim s))" using hd_dropWhile [of isspace s] by simp
  with l show ?thesis by simp
qed simp

lemma RandomPrintChar_range:
  "33 \<le> (of_char (RandomPrintChar r) :: nat) \<and> (of_char (RandomPrintChar r) :: nat) \<le> 126"
proof -
  have "r mod 94 < 94" by simp
  then have "r mod 94 + 33 < 256" "r mod 94 + 33 \<le> 126" by linarith+
  then show ?thesis by (simp add: RandomPrintChar_def)
qed

lemma RandomPrintChar_no_space: "\<not> isspace (RandomPrintChar r) \<and> RandomPrintChar r \<noteq> CHR 0x00"
  using RandomPrintChar_range [of r] by (auto simp: isspace_def Let_def)

lemma RandomDouble_default_range:
  assumes "st = None \<or> st = Some (0, 1)" and "0 \<le> x" and "x < 1"
  shows "fst (RandomDouble st 0 1 x) = x \<and> snd (RandomDouble st 0 1 x) = Some (0, 1)"
  using assms by (auto simp: RandomDouble_def)

end
