(* ===== verification/Properties.thy ===== *)
theory Properties
  imports Utils
begin

text \<open>
  \<^verbatim>\<open>core/properties.h\<close>: the benchmark phase, the property map and the property-file
  reader \<^verbatim>\<open>Properties::Load\<close>, with the round trip between a printed property list and
  what \<^verbatim>\<open>Load\<close> stores.
\<close>

datatype Phase = INVALID | LOAD | TRANSACTION

type_synonym properties = "string \<rightharpoonup> string"

definition GetProperty :: "properties \<Rightarrow> string \<Rightarrow> string \<Rightarrow> string" where
  "GetProperty p key default_value =
     (case p key of None \<Rightarrow> default_value | Some v \<Rightarrow> v)"

text \<open>\<^verbatim>\<open>operator[]\<close> is \<^verbatim>\<open>std::map::at\<close>, which raises \<^verbatim>\<open>out_of_range\<close> for a missing key.\<close>

definition Properties_at :: "properties \<Rightarrow> string \<Rightarrow> string result" where
  "Properties_at p key = (case p key of None \<Rightarrow> Inl OutOfRange | Some v \<Rightarrow> Inr v)"

definition SetProperty :: "properties \<Rightarrow> string \<Rightarrow> string \<Rightarrow> properties" where
  "SetProperty p key v = p(key \<mapsto> v)"

text \<open>
  \<^verbatim>\<open>std::getline\<close> on the unread part of the file: the line, what is left, and whether the
  end of the file was reached while looking for the newline.
\<close>

fun getline :: "string \<Rightarrow> string \<times> string \<times> bool" where
  "getline [] = ([], [], True)"
| "getline (c # cs) =
     (if c = CHR 0x0A then ([], cs, False)
      else (let (line, rest, eof) = getline cs in (c # line, rest, eof)))"

definition Load_line :: "properties \<Rightarrow> string \<Rightarrow> properties" where
  "Load_line p line =
     (if line \<noteq> [] \<and> hd line = CHR ''#'' then p
      else if CHR ''='' \<notin> set line then p
      else SetProperty p (Trim (takeWhile (\<lambda>c. c \<noteq> CHR ''='') line))
                         (Trim (tl (dropWhile (\<lambda>c. c \<noteq> CHR ''='') line))))"

lemma getline_rest_less: "getline s = (line, rest, False) \<Longrightarrow> length rest < length s"
  by (induction s arbitrary: line) (auto split: if_splits prod.splits)

function Load_loop :: "properties \<Rightarrow> string \<Rightarrow> properties" where
  "Load_loop p input =
     (case getline input of (line, rest, eof) \<Rightarrow>
        if eof then Load_line p line else Load_loop (Load_line p line) rest)"
  by pat_completeness auto
termination
  by (relation "measure (\<lambda>(p, input). length input)") (auto dest: getline_rest_less [OF sym])

declare Load_loop.simps [simp del]

definition Properties_Load :: "bool \<Rightarrow> string \<Rightarrow> properties \<Rightarrow> properties result" where
  "Properties_Load is_open input p =
     (if \<not> is_open then Inl (Exception ''File not open!'') else Inr (Load_loop p input))"

subsection \<open>Lemmas\<close>

lemma getline_split_on:
  "getline s = (line, rest, eof) \<Longrightarrow>
   split_on (CHR 0x0A) s = line # (if eof then [] else split_on (CHR 0x0A) rest)"
  by (induction s arbitrary: line rest eof) (auto split: if_splits prod.splits list.splits)

text \<open>The \<^verbatim>\<open>eof\<close>-driven loop handles every newline-separated segment once, in order.\<close>

lemma Load_loop_foldl: "Load_loop p s = foldl Load_line p (split_on (CHR 0x0A) s)"
proof (induction p s rule: Load_loop.induct)
  case (1 p s)
  obtain line rest eof where g: "getline s = (line, rest, eof)" by (metis prod_cases3)
  show ?case
    using 1 [OF g [symmetric] refl] getline_split_on [OF g]
    by (simp add: Load_loop.simps [of p s] g)
qed

definition clean_key :: "string \<Rightarrow> bool" where
  "clean_key k \<longleftrightarrow> CHR ''='' \<notin> set k \<and> CHR 0x0A \<notin> set k \<and> Trim k = k \<and>
     (k = [] \<or> hd k \<noteq> CHR ''#'')"

definition clean_value :: "string \<Rightarrow> bool" where
  "clean_value v \<longleftrightarrow> CHR 0x0A \<notin> set v \<and> Trim v = v"

definition print_property :: "string \<times> string \<Rightarrow> string" where
  "print_property kv = fst kv @ ''='' @ snd kv"

definition print_properties :: "(string \<times> string) list \<Rightarrow> string" where
  "print_properties kvs = concat (map (\<lambda>kv. print_property kv @ [CHR 0x0A]) kvs)"

lemma Load_line_print_property:
  assumes "clean_key k" and "clean_value v"
  shows "Load_line p (print_property (k, v)) = p(k \<mapsto> v)"
proof -
  have "hd (print_property (k, v)) \<noteq> CHR ''#''"
    using assms(1) by (auto simp: clean_key_def print_property_def hd_append)
  moreover have "takeWhile (\<lambda>c. c \<noteq> CHR ''='') (print_property (k, v)) = k"
    and "dropWhile (\<lambda>c. c \<noteq> CHR ''='') (print_property (k, v)) = CHR ''='' # v"
    using assms(1) by (auto simp: clean_key_def print_property_def takeWhile_tail
      dropWhile_append3 takeWhile_append dropWhile_append)
  ultimately show ?thesis
    using assms by (simp add: Load_line_def SetProperty_def clean_key_def clean_value_def
      print_property_def)
qed

lemma split_on_print_properties:
  assumes "\<forall>(k, v) \<in> set kvs. clean_key k \<and> clean_value v"
  shows "split_on (CHR 0x0A) (print_properties kvs) = map print_property kvs @ [[]]"
  using assms
proof (induction kvs)
  case Nil
  then show ?case by (simp add: print_properties_def)
next
  case (Cons kv kvs)
  have "CHR 0x0A \<notin> set (print_property kv)"
    using Cons.prems by (auto simp: clean_key_def clean_value_def print_property_def)
  with Cons show ?case
    by (simp add: print_properties_def split_on_append_sep)
qed

lemma Load_loop_print_properties:
  assumes "\<forall>(k, v) \<in> set kvs. clean_key k \<and> clean_value v"
  shows "Load_loop p (print_properties kvs) = p ++ map_of (rev kvs)"
proof -
  have "foldl Load_line p (map print_property kvs) = p ++ map_of (rev kvs)"
    using assms
  proof (induction kvs rule: rev_induct)
    case Nil
    then show ?case by simp
  next
    case (snoc kv kvs)
    then show ?case
      by (cases kv) (auto simp: Load_line_print_property map_add_def fun_eq_iff)
  qed
  then show ?thesis
    by (simp add: Load_loop_foldl split_on_print_properties [OF assms] Load_line_def)
qed

lemma Load_line_comment [simp]: "Load_line p (CHR ''#'' # l) = p"
  by (simp add: Load_line_def)

lemma Load_line_no_eq: "CHR ''='' \<notin> set l \<Longrightarrow> Load_line p l = p"
  by (simp add: Load_line_def)

lemma Load_loop_comment_line:
  "CHR 0x0A \<notin> set l \<Longrightarrow> Load_loop p (CHR ''#'' # l @ CHR 0x0A # s) = Load_loop p s"
  using split_on_append_sep [of "CHR 0x0A" "CHR ''#'' # l" s] by (simp add: Load_loop_foldl)

text \<open>
  C10. Reading back a printed property file: for clean keys and values, \<^verbatim>\<open>Load\<close> on the
  text of a list of properties adds exactly those bindings to the map, a later line
  overriding an earlier one of the same key and earlier bindings of other keys kept.
\<close>

theorem Properties_Load_roundtrip:
  assumes "\<forall>(k, v) \<in> set kvs. clean_key k \<and> clean_value v"
  shows "Properties_Load True (print_properties kvs) p = Inr (p ++ map_of (rev kvs))"
  using assms by (simp add: Properties_Load_def Load_loop_print_properties)

theorem Properties_Load_roundtrip_witness:
  "Properties_Load True ''readproportion=0.5
recordcount=10
recordcount=20
'' Map.empty = Inr [''readproportion'' \<mapsto> ''0.5'', ''recordcount'' \<mapsto> ''20'']"
proof -
  let ?kvs = "[(''readproportion'', ''0.5''), (''recordcount'', ''10''), (''recordcount'', ''20'')]"
  have c: "\<forall>(k, v) \<in> set ?kvs. clean_key k \<and> clean_value v"
    by (simp add: clean_key_def clean_value_def Trim_def isspace_def)
  have "print_properties ?kvs = ''readproportion=0.5
recordcount=10
recordcount=20
''" by (simp add: print_properties_def print_property_def)
  then show ?thesis
    using Properties_Load_roundtrip [OF c, of Map.empty] by (simp add: fun_upd_twist)
qed

end
