(* ===== verification/Binary64.thy ===== *)
theory Binary64
  imports Ycsb_Prelude
begin

text \<open>
  Floating-point arithmetic. Every C++ \<^verbatim>\<open>double\<close> operation of the sources is the exact real
  operation followed by a rounding, as IEEE 754 prescribes; \<^verbatim>\<open>std::pow\<close> is only specified
  up to its accuracy. The definitions of the generators therefore take the rounding and
  the power function as an argument of type \<open>fpu\<close>. The locale \<open>fp_arith\<close> lists the laws the
  proofs use; it is interpreted on binary64 rounding to nearest, ties to even (without the
  overflow and underflow ranges, which the generators never reach).
\<close>

record fpu =
  fp_rnd :: "real \<Rightarrow> real"
  fp_pow :: "real \<Rightarrow> real \<Rightarrow> real"

definition fadd :: "fpu \<Rightarrow> real \<Rightarrow> real \<Rightarrow> real" where "fadd F x y = fp_rnd F (x + y)"
definition fsub :: "fpu \<Rightarrow> real \<Rightarrow> real \<Rightarrow> real" where "fsub F x y = fp_rnd F (x - y)"
definition fmul :: "fpu \<Rightarrow> real \<Rightarrow> real \<Rightarrow> real" where "fmul F x y = fp_rnd F (x * y)"
definition fdiv :: "fpu \<Rightarrow> real \<Rightarrow> real \<Rightarrow> real" where "fdiv F x y = fp_rnd F (x / y)"
definition fpow :: "fpu \<Rightarrow> real \<Rightarrow> real \<Rightarrow> real" where "fpow F x y = fp_pow F x y"

text \<open>Conversions between \<^verbatim>\<open>uint64_t\<close> and \<^verbatim>\<open>double\<close>: rounding one way, truncation the other.\<close>

definition u64_to_double :: "fpu \<Rightarrow> u64 \<Rightarrow> real" where
  "u64_to_double F w = fp_rnd F (real (unat w))"

definition double_to_u64 :: "real \<Rightarrow> u64" where
  "double_to_u64 x = word_of_int (if x < 0 then \<lceil>x\<rceil> else \<lfloor>x\<rfloor>)"

named_theorems fp_defs \<open>the floating-point operations over the rounding function\<close>

lemmas [fp_defs] = fadd_def fsub_def fmul_def fdiv_def fpow_def u64_to_double_def

locale fp_arith =
  fixes F :: fpu
  assumes rnd_mono: "x \<le> y \<Longrightarrow> fp_rnd F x \<le> fp_rnd F y"
    and rnd_int: "\<bar>k\<bar> \<le> 2 ^ 53 \<Longrightarrow> fp_rnd F (of_int k) = of_int k"
    and rnd_idem: "fp_rnd F (fp_rnd F x) = fp_rnd F x"
    and pow_rnd: "fp_rnd F (fp_pow F x y) = fp_pow F x y"
    and pow_le_1: "0 \<le> x \<Longrightarrow> x \<le> 1 \<Longrightarrow> 0 \<le> y \<Longrightarrow> 0 \<le> fp_pow F x y \<and> fp_pow F x y \<le> 1"
    and pow_nonneg: "0 \<le> x \<Longrightarrow> 0 \<le> fp_pow F x y"
begin

lemma rnd_0 [simp]: "fp_rnd F 0 = 0"
  using rnd_int [of 0] by simp

lemma rnd_1 [simp]: "fp_rnd F 1 = 1"
  using rnd_int [of 1] by simp

lemma rnd_nonneg: "0 \<le> x \<Longrightarrow> 0 \<le> fp_rnd F x"
  using rnd_mono [of 0 x] by simp

lemma rnd_nonpos: "x \<le> 0 \<Longrightarrow> fp_rnd F x \<le> 0"
  using rnd_mono [of x 0] by simp

lemma rnd_le_1: "x \<le> 1 \<Longrightarrow> fp_rnd F x \<le> 1"
  using rnd_mono [of x 1] by simp

lemma rnd_le_rnd: "x \<le> fp_rnd F y \<Longrightarrow> fp_rnd F x \<le> fp_rnd F y"
  using rnd_mono [of x "fp_rnd F y"] by (simp add: rnd_idem)

lemma rnd_nat: "n \<le> 2 ^ 53 \<Longrightarrow> fp_rnd F (real n) = real n"
  using rnd_int [of "int n"] by simp

lemma rnd_le_nat: "n \<le> 2 ^ 53 \<Longrightarrow> x \<le> real n \<Longrightarrow> fp_rnd F x \<le> real n"
  using rnd_mono [of x "real n"] by (simp add: rnd_nat)

lemma u64_to_double_exact: "unat w \<le> 2 ^ 53 \<Longrightarrow> u64_to_double F w = real (unat w)"
  unfolding u64_to_double_def by (rule rnd_nat)

end

subsection \<open>Rounding to nearest, ties to even\<close>

definition round_even :: "real \<Rightarrow> int" where
  "round_even y = (let f = \<lfloor>y\<rfloor> in
     if y - of_int f < 1 / 2 then f
     else if 1 / 2 < y - of_int f then f + 1
     else if even f then f else f + 1)"

lemma round_even_of_int [simp]: "round_even (of_int k) = k"
  by (simp add: round_even_def)

lemma round_even_mono: "x \<le> y \<Longrightarrow> round_even x \<le> round_even y"
proof (cases "\<lfloor>x\<rfloor> = \<lfloor>y\<rfloor>")
  case True
  assume "x \<le> y"
  with True show ?thesis by (auto simp: round_even_def Let_def)
next
  case False
  assume "x \<le> y"
  with False have "\<lfloor>x\<rfloor> + 1 \<le> \<lfloor>y\<rfloor>" by (smt (verit) floor_mono)
  then show ?thesis by (auto simp: round_even_def Let_def)
qed

lemma round_even_minus: "round_even (- y) = - round_even y"
proof (cases "y = of_int \<lfloor>y\<rfloor>")
  case True
  then show ?thesis by (metis of_int_minus round_even_of_int)
next
  case False
  then have "\<lfloor>- y\<rfloor> = - \<lfloor>y\<rfloor> - 1" by linarith
  then show ?thesis by (auto simp: round_even_def Let_def)
qed

definition binade :: "real \<Rightarrow> int" where
  "binade x = \<lfloor>log 2 \<bar>x\<bar>\<rfloor> - 52"

definition round64 :: "real \<Rightarrow> real" where
  "round64 x = (if x = 0 then 0
     else of_int (round_even (x * 2 powr (- of_int (binade x)))) * 2 powr (of_int (binade x)))"

lemma round64_minus: "round64 (- x) = - round64 x"
  using round_even_minus [of "x * 2 powr (- of_int (binade x))"]
  by (simp add: round64_def binade_def)

lemma scaled_bounds:
  assumes "0 < x"
  shows "2 ^ 52 \<le> x * 2 powr (- of_int (binade x))" (is "_ \<le> ?m")
    and "x * 2 powr (- of_int (binade x)) < 2 ^ 53"
proof -
  let ?l = "log 2 x"
  have m: "?m = 2 powr (?l - of_int (binade x))"
    using assms by (simp add: powr_diff powr_minus_divide)
  have a: "52 \<le> ?l - of_int (binade x)" "?l - of_int (binade x) < 53"
    using assms by (simp_all add: binade_def) linarith+
  have "(2::real) powr 52 \<le> ?m" "?m < 2 powr 53"
    using powr_mono [OF a(1), of 2] powr_less_mono [OF a(2), of 2] unfolding m by auto
  then show "2 ^ 52 \<le> ?m" "?m < 2 ^ 53" by simp_all
qed

text \<open>A number with at most 53 significant bits is a fixed point.\<close>

lemma round64_representable:
  assumes "\<bar>m\<bar> \<le> 2 ^ 53"
  shows "round64 (of_int m * 2 powr (of_int e)) = of_int m * 2 powr (of_int e)"
proof (cases "m = 0")
  case False
  let ?x = "of_int m * 2 powr (of_int e) :: real"
  let ?b = "binade ?x"
  have ax: "\<bar>?x\<bar> = of_int \<bar>m\<bar> * 2 powr of_int e" by (simp add: abs_mult)
  have l: "log 2 \<bar>?x\<bar> = log 2 (of_int \<bar>m\<bar>) + of_int e"
    using False unfolding ax by (subst log_mult) auto
  have int: "\<exists>k. ?x * 2 powr (- of_int ?b) = of_int k"
  proof (cases "\<bar>m\<bar> = 2 ^ 53")
    case True
    then have "log 2 \<bar>?x\<bar> = of_int (53 + e)"
      using l log_pow_cancel [of "2 :: real" 53] by simp
    then have b: "?b = e + 1" by (simp add: binade_def)
    have "?x * 2 powr (- of_int ?b) = of_int m / 2"
      unfolding b by (simp add: powr_diff powr_minus_divide)
    moreover have "m = 2 * (m div 2)"
    proof -
      have "m = 2 ^ 53 \<or> m = - (2 ^ 53)" using True by linarith
      then show ?thesis by auto
    qed
    ultimately show ?thesis by (metis mult.commute nonzero_mult_div_cancel_left of_int_mult of_int_numeral zero_neq_numeral)
  next
    case False': False
    then have "real_of_int \<bar>m\<bar> < 2 ^ 53" using assms by (metis (mono_tags) nless_le of_int_less_numeral_power_cancel_iff)
    then have "log 2 (of_int \<bar>m\<bar>) < 53"
      using False by (subst log_less_iff) (auto simp: powr_numeral)
    then have "?b \<le> e" using l by (simp add: binade_def)
    then obtain d where d: "e = ?b + int d" by (metis zle_iff_zadd)
    have "?x * 2 powr (- of_int ?b) = of_int m * 2 powr (of_int e - of_int ?b)"
      by (simp add: powr_diff powr_minus_divide)
    also have "real_of_int e - of_int ?b = real d" using d by linarith
    also have "of_int m * 2 powr real d = of_int (m * 2 ^ d)"
      by (simp add: powr_realpow)
    finally show ?thesis by blast
  qed
  then obtain k where k: "?x * 2 powr (- of_int ?b) = of_int k" by blast
  have "round64 ?x = of_int k * 2 powr (of_int ?b)"
    using False k by (simp add: round64_def)
  also have "\<dots> = ?x" by (simp flip: k add: powr_minus)
  finally show ?thesis .
qed (simp add: round64_def)

lemma round64_int: "\<bar>k\<bar> \<le> 2 ^ 53 \<Longrightarrow> round64 (of_int k) = of_int k"
  using round64_representable [of k 0] by simp

lemma round_even_scaled:
  assumes "0 < x"
  shows "2 ^ 52 \<le> round_even (x * 2 powr (- of_int (binade x)))" (is "_ \<le> ?r")
    and "round_even (x * 2 powr (- of_int (binade x))) \<le> 2 ^ 53"
    and "2 ^ 52 \<le> real_of_int (round_even (x * 2 powr (- of_int (binade x))))"
    and "real_of_int (round_even (x * 2 powr (- of_int (binade x)))) \<le> 2 ^ 53"
proof -
  show a: "2 ^ 52 \<le> ?r"
    using round_even_mono [of "of_int (2 ^ 52)"] round_even_of_int [of "2 ^ 52"]
      scaled_bounds(1) [OF assms] by simp
  show b: "?r \<le> 2 ^ 53"
    using round_even_mono [of _ "of_int (2 ^ 53)"] round_even_of_int [of "2 ^ 53"]
      scaled_bounds(2) [OF assms] by (simp add: less_imp_le)
  show "2 ^ 52 \<le> real_of_int ?r" using a by simp
  show "real_of_int ?r \<le> 2 ^ 53" using b by simp
qed

lemma round64_mono_pos:
  assumes "0 < x" and "x \<le> y"
  shows "round64 x \<le> round64 y"
proof (cases "binade x = binade y")
  case True
  have "x * 2 powr (- of_int (binade y)) \<le> y * 2 powr (- of_int (binade y))"
    using assms by (simp add: mult_right_mono)
  then show ?thesis using True assms by (simp add: round64_def round_even_mono mult_right_mono)
next
  case False
  have "binade x \<le> binade y" using assms by (simp add: binade_def floor_mono)
  with False have b: "binade x + 1 \<le> binade y" by simp
  have "round64 x \<le> 2 ^ 53 * 2 powr of_int (binade x)"
    using mult_right_mono [OF round_even_scaled(4) [OF assms(1)], of "2 powr of_int (binade x)"]
      assms by (simp add: round64_def)
  also have "\<dots> = 2 ^ 52 * 2 powr (of_int (binade x + 1))" by (simp add: powr_add)
  also have "\<dots> \<le> 2 ^ 52 * 2 powr (of_int (binade y))" using b by (simp del: of_int_add)
  also have "\<dots> \<le> round64 y"
    using mult_right_mono [OF round_even_scaled(3) [of y], of "2 powr of_int (binade y)"]
      assms by (simp add: round64_def)
  finally show ?thesis .
qed

lemma round64_pos_nonneg: "0 \<le> x \<Longrightarrow> 0 \<le> round64 x"
  using round_even_scaled(1) [of x] by (cases "x = 0") (auto simp: round64_def)

lemma round64_mono: "x \<le> y \<Longrightarrow> round64 x \<le> round64 y"
proof (cases "0 < x")
  case True
  assume "x \<le> y"
  with True show ?thesis by (rule round64_mono_pos)
next
  case False
  assume xy: "x \<le> y"
  show ?thesis
  proof (cases "y < 0")
    case True
    then show ?thesis
      using round64_mono_pos [of "- y" "- x"] xy by (simp add: round64_minus)
  next
    case False': False
    then show ?thesis
      using False round64_pos_nonneg [of y] round64_pos_nonneg [of "- x"]
      by (simp add: round64_minus)
  qed
qed

lemma round64_idem: "round64 (round64 x) = round64 x"
proof (cases "x = 0")
  case False
  then consider "0 < x" | "0 < - x" by linarith
  then have "\<bar>round_even (x * 2 powr (- of_int (binade x)))\<bar> \<le> 2 ^ 53"
    using round_even_scaled [of x] round_even_scaled [of "- x"]
      round_even_minus [of "x * 2 powr (- of_int (binade x))"]
    by cases (auto simp: binade_def)
  then show ?thesis
    using False round64_representable by (simp add: round64_def [of x])
qed (simp add: round64_def)

definition binary64 :: fpu where
  "binary64 = \<lparr>fp_rnd = round64, fp_pow = (\<lambda>x y. round64 (x powr y))\<rparr>"

interpretation b64: fp_arith binary64
proof unfold_locales
  show "fp_rnd binary64 x \<le> fp_rnd binary64 y" if "x \<le> y" for x y
    using that by (simp add: binary64_def round64_mono)
  show "fp_rnd binary64 (of_int k) = of_int k" if "\<bar>k\<bar> \<le> 2 ^ 53" for k
    using that by (simp add: binary64_def round64_int)
  show "fp_rnd binary64 (fp_rnd binary64 x) = fp_rnd binary64 x" for x
    by (simp add: binary64_def round64_idem)
  show "fp_rnd binary64 (fp_pow binary64 x y) = fp_pow binary64 x y" for x y
    by (simp add: binary64_def round64_idem)
  show "0 \<le> fp_pow binary64 x y \<and> fp_pow binary64 x y \<le> 1"
    if "0 \<le> x" "x \<le> 1" "0 \<le> y" for x y
    using that round64_mono [of "x powr y" 1] round64_int [of 1]
    by (simp add: binary64_def round64_pos_nonneg powr_le1)
  show "0 \<le> fp_pow binary64 x y" if "0 \<le> x" for x y
    using that by (simp add: binary64_def round64_pos_nonneg)
qed

end
