(* ===== verification/Generators.thy ===== *)
theory Generators
  imports Utils Binary64
begin

text \<open>
  \<^verbatim>\<open>core/*_generator.h\<close>: the number generators of the benchmark. Randomness is an argument:
  a value of type \<open>rand_src\<close> gives the results of the library's random draws by the number of the draw, and
  the state \<open>rng\<close> counts the draws and holds the static of \<^verbatim>\<open>utils::RandomDouble\<close>. A
  generator operation takes the generator and the \<open>rng\<close> and returns the value with the new
  generator and the new \<open>rng\<close>; a failed \<^verbatim>\<open>assert\<close> is the \<open>Inl\<close> branch. The locale \<open>generator\<close>
  is the contract of the abstract class \<^verbatim>\<open>Generator\<close>, with what its users rely on.
\<close>

subsection \<open>Random draws\<close>

record rand_src =
  o_double :: "nat \<Rightarrow> real"
  o_uniform :: "u64 \<Rightarrow> u64 \<Rightarrow> nat \<Rightarrow> u64"
  o_rand :: "nat \<Rightarrow> nat"

record rng =
  rng_tick :: nat
  rng_static :: "(real \<times> real) option"

text \<open>
  What the library documents: canonical doubles lie in \<open>[0, 1)\<close>, a uniform integer
  distribution stays between its inclusive bounds.
\<close>

definition rand_ok :: "rand_src \<Rightarrow> bool" where
  "rand_ok R \<longleftrightarrow> (\<forall>n. 0 \<le> o_double R n \<and> o_double R n < 1) \<and>
     (\<forall>lo hi n. lo \<le> hi \<longrightarrow> lo \<le> o_uniform R lo hi n \<and> o_uniform R lo hi n \<le> hi)"

definition rng_ok :: "rng \<Rightarrow> bool" where
  "rng_ok s \<longleftrightarrow> rng_static s = None \<or> rng_static s = Some (0, 1)"

definition draw_double :: "rand_src \<Rightarrow> rng \<Rightarrow> real \<times> rng" where
  "draw_double R s =
     (let (x, st) = RandomDouble (rng_static s) 0 1 (o_double R (rng_tick s))
      in (x, s\<lparr>rng_tick := Suc (rng_tick s), rng_static := st\<rparr>))"

definition draw_uniform :: "rand_src \<Rightarrow> u64 \<Rightarrow> u64 \<Rightarrow> rng \<Rightarrow> u64 \<times> rng" where
  "draw_uniform R lo hi s = (o_uniform R lo hi (rng_tick s), s\<lparr>rng_tick := Suc (rng_tick s)\<rparr>)"

definition draw_char :: "rand_src \<Rightarrow> rng \<Rightarrow> char \<times> rng" where
  "draw_char R s = (RandomPrintChar (o_rand R (rng_tick s)), s\<lparr>rng_tick := Suc (rng_tick s)\<rparr>)"

lemma draw_double_ok:
  assumes "rand_ok R" and "rng_ok s" and "draw_double R s = (x, s')"
  shows "0 \<le> x \<and> x < 1 \<and> rng_ok s'"
  using assms RandomDouble_default_range [of "rng_static s" "o_double R (rng_tick s)"]
  by (auto simp: draw_double_def rng_ok_def rand_ok_def split: prod.splits)

lemma draw_uniform_ok:
  assumes "rand_ok R" and "rng_ok s" and "lo \<le> hi" and "draw_uniform R lo hi s = (x, s')"
  shows "lo \<le> x \<and> x \<le> hi \<and> rng_ok s'"
  using assms by (auto simp: draw_uniform_def rng_ok_def rand_ok_def)

lemma draw_char_rng_ok: "rng_ok s \<Longrightarrow> rng_ok (snd (draw_char R s))"
  by (simp add: draw_char_def rng_ok_def)

subsection \<open>Constant and counter\<close>

record ConstGenerator =
  cg_constant :: u64

definition ConstGenerator_new :: "int \<Rightarrow> ConstGenerator" where
  "ConstGenerator_new constant = \<lparr>cg_constant = int_to_u64 constant\<rparr>"

definition Const_Next :: "ConstGenerator \<Rightarrow> u64 \<times> ConstGenerator" where
  "Const_Next g = (cg_constant g, g)"

definition Const_Last :: "ConstGenerator \<Rightarrow> u64" where
  "Const_Last g = cg_constant g"

record CounterGenerator =
  cnt_counter :: u64

definition CounterGenerator_new :: "u64 \<Rightarrow> CounterGenerator" where
  "CounterGenerator_new start = \<lparr>cnt_counter = start\<rparr>"

text \<open>\<^verbatim>\<open>counter_.fetch_add(1)\<close>: the old value is returned; the counter wraps.\<close>

definition Counter_Next :: "CounterGenerator \<Rightarrow> u64 \<times> CounterGenerator" where
  "Counter_Next g = (cnt_counter g, g\<lparr>cnt_counter := cnt_counter g + 1\<rparr>)"

definition Counter_Last :: "CounterGenerator \<Rightarrow> u64" where
  "Counter_Last g = cnt_counter g - 1"

definition Counter_Set :: "CounterGenerator \<Rightarrow> u64 \<Rightarrow> CounterGenerator" where
  "Counter_Set g start = g\<lparr>cnt_counter := start\<rparr>"

subsection \<open>Uniform\<close>

record UniformGenerator =
  ug_min :: u64
  ug_max :: u64
  ug_last_int :: u64

definition Uniform_Next :: "rand_src \<Rightarrow> UniformGenerator \<Rightarrow> rng \<Rightarrow> u64 \<times> UniformGenerator \<times> rng" where
  "Uniform_Next R g s =
     (let (v, s') = draw_uniform R (ug_min g) (ug_max g) s in (v, g\<lparr>ug_last_int := v\<rparr>, s'))"

definition Uniform_Last :: "UniformGenerator \<Rightarrow> u64" where
  "Uniform_Last g = ug_last_int g"

text \<open>The constructor calls \<^verbatim>\<open>Next()\<close> once, so \<^verbatim>\<open>last_int_\<close> is never read uninitialised.\<close>

definition UniformGenerator_new :: "rand_src \<Rightarrow> u64 \<Rightarrow> u64 \<Rightarrow> rng \<Rightarrow> UniformGenerator \<times> rng" where
  "UniformGenerator_new R mn mx s =
     snd (Uniform_Next R \<lparr>ug_min = mn, ug_max = mx, ug_last_int = 0\<rparr> s)"

subsection \<open>Discrete\<close>

text \<open>\<^verbatim>\<open>last_\<close> is uninitialised until the first \<^verbatim>\<open>AddValue\<close>: \<open>None\<close>.\<close>

record 'v DiscreteGenerator =
  dg_values :: "('v \<times> real) list"
  dg_sum :: real
  dg_last :: "'v option"

definition DiscreteGenerator_new :: "'v DiscreteGenerator" where
  "DiscreteGenerator_new = \<lparr>dg_values = [], dg_sum = 0, dg_last = None\<rparr>"

definition AddValue :: "fpu \<Rightarrow> 'v DiscreteGenerator \<Rightarrow> 'v \<Rightarrow> real \<Rightarrow> 'v DiscreteGenerator" where
  "AddValue F g v weight =
     \<lparr>dg_values = dg_values g @ [(v, weight)],
      dg_sum = fadd F (dg_sum g) weight,
      dg_last = (if dg_values g = [] then Some v else dg_last g)\<rparr>"

fun Discrete_pick :: "fpu \<Rightarrow> real \<Rightarrow> real \<Rightarrow> ('v \<times> real) list \<Rightarrow> 'v option" where
  "Discrete_pick F sm chooser [] = None"
| "Discrete_pick F sm chooser (p # ps) =
     (if chooser < fdiv F (snd p) sm then Some (fst p)
      else Discrete_pick F sm (fsub F chooser (fdiv F (snd p) sm)) ps)"

definition Discrete_Next ::
  "fpu \<Rightarrow> rand_src \<Rightarrow> 'v DiscreteGenerator \<Rightarrow> rng \<Rightarrow> ('v \<times> 'v DiscreteGenerator \<times> rng) result" where
  "Discrete_Next F R g s =
     (let (chooser, s') = draw_double R s in
      case Discrete_pick F (dg_sum g) chooser (dg_values g) of
        Some v \<Rightarrow> Inr (v, g\<lparr>dg_last := Some v\<rparr>, s')
      | None \<Rightarrow> Inl AssertFailure)"

definition Discrete_Last :: "'v DiscreteGenerator \<Rightarrow> 'v option" where
  "Discrete_Last g = dg_last g"

subsection \<open>Zipfian\<close>

record ZipfianGenerator =
  zg_num_items :: u64
  zg_base :: u64
  zg_theta :: real
  zg_zeta_n :: real
  zg_eta :: real
  zg_alpha :: real
  zg_zeta_2 :: real
  zg_n_for_zeta :: u64
  zg_last_value :: u64

definition kZipfianConst :: "fpu \<Rightarrow> real" where
  "kZipfianConst F = fp_rnd F (99 / 100)"

definition kMaxNumItems :: u64 where
  "kMaxNumItems = drop_bit 24 (- 1)"

text \<open>
  The loop of \<^verbatim>\<open>Zeta\<close>: \<open>i\<close> runs up to \<open>cur\<close>. Every caller has passed the assertion
  \<^verbatim>\<open>num < kMaxNumItems\<close>, so \<^verbatim>\<open>++i\<close> does not wrap and the loop variable is a \<open>nat\<close>.
\<close>

function Zeta_loop :: "fpu \<Rightarrow> nat \<Rightarrow> nat \<Rightarrow> real \<Rightarrow> real \<Rightarrow> real" where
  "Zeta_loop F i cur theta zeta =
     (if i \<le> cur
      then Zeta_loop F (Suc i) cur theta
             (fadd F zeta (fdiv F 1 (fpow F (fp_rnd F (real i)) theta)))
      else zeta)"
  by pat_completeness auto
termination
  by (relation "measure (\<lambda>(F, i, cur, theta, zeta). Suc cur - i)") auto

declare Zeta_loop.simps [simp del]

definition Zeta :: "fpu \<Rightarrow> u64 \<Rightarrow> u64 \<Rightarrow> real \<Rightarrow> real \<Rightarrow> real" where
  "Zeta F last_num cur_num theta last_zeta =
     Zeta_loop F (unat (last_num + 1)) (unat cur_num) theta last_zeta"

definition RaiseZeta :: "fpu \<Rightarrow> u64 \<Rightarrow> ZipfianGenerator \<Rightarrow> ZipfianGenerator result" where
  "RaiseZeta F num g =
     (if num < zg_n_for_zeta g then Inl AssertFailure
      else Inr (g\<lparr>zg_zeta_n := Zeta F (zg_n_for_zeta g) num (zg_theta g) (zg_zeta_n g),
                 zg_n_for_zeta := num\<rparr>))"

definition Eta :: "fpu \<Rightarrow> ZipfianGenerator \<Rightarrow> real" where
  "Eta F g =
     fdiv F (fsub F 1 (fpow F (fdiv F 2 (u64_to_double F (zg_num_items g)))
                              (fsub F 1 (zg_theta g))))
            (fsub F 1 (fdiv F (zg_zeta_2 g) (zg_zeta_n g)))"

text \<open>The value computed from the draw \<open>u\<close>, once \<open>zeta_n\<close> and \<open>eta\<close> are up to date.\<close>

definition Zipfian_value :: "fpu \<Rightarrow> ZipfianGenerator \<Rightarrow> u64 \<Rightarrow> real \<Rightarrow> u64" where
  "Zipfian_value F g num u =
     (let uz = fmul F u (zg_zeta_n g) in
      if uz < 1 then 0
      else if uz < fadd F 1 (fpow F (1 / 2) (zg_theta g)) then 1
      else double_to_u64
             (fadd F (u64_to_double F (zg_base g))
                (fmul F (u64_to_double F num)
                   (fpow F (fadd F (fsub F (fmul F (zg_eta g) u) (zg_eta g)) 1) (zg_alpha g)))))"

definition Zipfian_Next ::
  "fpu \<Rightarrow> rand_src \<Rightarrow> u64 \<Rightarrow> ZipfianGenerator \<Rightarrow> rng \<Rightarrow> (u64 \<times> ZipfianGenerator \<times> rng) result" where
  "Zipfian_Next F R num g s =
     (if \<not> (2 \<le> num \<and> num < kMaxNumItems) then Inl AssertFailure
      else rbind
        (if zg_n_for_zeta g < num
         then rbind (RaiseZeta F num g) (\<lambda>g1. Inr (g1\<lparr>zg_eta := Eta F g1\<rparr>))
         else Inr g)
        (\<lambda>g1. let (u, s') = draw_double R s;
                  v = Zipfian_value F g1 num u
              in Inr (v, g1\<lparr>zg_last_value := v\<rparr>, s')))"

definition Zipfian_Last :: "ZipfianGenerator \<Rightarrow> u64" where
  "Zipfian_Last g = zg_last_value g"

definition ZipfianGenerator_new ::
  "fpu \<Rightarrow> rand_src \<Rightarrow> u64 \<Rightarrow> u64 \<Rightarrow> real \<Rightarrow> rng \<Rightarrow> (ZipfianGenerator \<times> rng) result" where
  "ZipfianGenerator_new F R mn mx zipfian_const s =
     (let num_items = mx - mn + 1 in
      if \<not> (2 \<le> num_items \<and> num_items < kMaxNumItems) then Inl AssertFailure
      else rbind
        (RaiseZeta F num_items
           \<lparr>zg_num_items = num_items, zg_base = mn, zg_theta = zipfian_const, zg_zeta_n = 0,
            zg_eta = 0, zg_alpha = fdiv F 1 (fsub F 1 zipfian_const),
            zg_zeta_2 = Zeta F 0 2 zipfian_const 0, zg_n_for_zeta = 0, zg_last_value = 0\<rparr>)
        (\<lambda>g. rbind (Zipfian_Next F R num_items (g\<lparr>zg_eta := Eta F g\<rparr>) s)
           (\<lambda>(v, g', s'). Inr (g', s'))))"

subsection \<open>Scrambled Zipfian\<close>

record ScrambledZipfianGenerator =
  sz_base :: u64
  sz_num_items :: u64
  sz_generator :: ZipfianGenerator

text \<open>\<^verbatim>\<open>% num_items_\<close> traps when \<^verbatim>\<open>max - min + 1\<close> has wrapped to 0; the Zipfian constructor
  has asserted at least 2 items before that.\<close>

definition Scramble :: "ScrambledZipfianGenerator \<Rightarrow> u64 \<Rightarrow> u64" where
  "Scramble g v = sz_base g + FNVHash64 v mod sz_num_items g"

definition ScrambledZipfianGenerator_new ::
  "fpu \<Rightarrow> rand_src \<Rightarrow> u64 \<Rightarrow> u64 \<Rightarrow> real \<Rightarrow> rng \<Rightarrow> (ScrambledZipfianGenerator \<times> rng) result" where
  "ScrambledZipfianGenerator_new F R mn mx zipfian_const s =
     rbind (ZipfianGenerator_new F R mn mx zipfian_const s)
       (\<lambda>(z, s'). Inr (\<lparr>sz_base = mn, sz_num_items = mx - mn + 1, sz_generator = z\<rparr>, s'))"

definition Scrambled_Next ::
  "fpu \<Rightarrow> rand_src \<Rightarrow> ScrambledZipfianGenerator \<Rightarrow> rng \<Rightarrow>
   (u64 \<times> ScrambledZipfianGenerator \<times> rng) result" where
  "Scrambled_Next F R g s =
     rbind (Zipfian_Next F R (zg_num_items (sz_generator g)) (sz_generator g) s)
       (\<lambda>(v, z, s'). Inr (Scramble g v, g\<lparr>sz_generator := z\<rparr>, s'))"

definition Scrambled_Last :: "ScrambledZipfianGenerator \<Rightarrow> u64" where
  "Scrambled_Last g = Scramble g (Zipfian_Last (sz_generator g))"

subsection \<open>Skewed latest\<close>

text \<open>The reference \<^verbatim>\<open>basis_\<close> to the shared counter is an argument of the operations.\<close>

record SkewedLatestGenerator =
  sl_zipfian :: ZipfianGenerator
  sl_last :: u64

definition SkewedLatest_Next ::
  "fpu \<Rightarrow> rand_src \<Rightarrow> CounterGenerator \<Rightarrow> SkewedLatestGenerator \<Rightarrow> rng \<Rightarrow>
   (u64 \<times> SkewedLatestGenerator \<times> rng) result" where
  "SkewedLatest_Next F R basis g s =
     (let mx = Counter_Last basis in
      rbind (Zipfian_Next F R mx (sl_zipfian g) s)
        (\<lambda>(v, z, s'). Inr (mx - v, g\<lparr>sl_zipfian := z, sl_last := mx - v\<rparr>, s')))"

definition SkewedLatest_Last :: "SkewedLatestGenerator \<Rightarrow> u64" where
  "SkewedLatest_Last g = sl_last g"

definition SkewedLatestGenerator_new ::
  "fpu \<Rightarrow> rand_src \<Rightarrow> CounterGenerator \<Rightarrow> rng \<Rightarrow> (SkewedLatestGenerator \<times> rng) result" where
  "SkewedLatestGenerator_new F R counter s =
     rbind (ZipfianGenerator_new F R 0 (Counter_Last counter - 1) (kZipfianConst F) s)
       (\<lambda>(z, s'). rbind (SkewedLatest_Next F R counter \<lparr>sl_zipfian = z, sl_last = 0\<rparr> s')
         (\<lambda>(v, g, s''). Inr (g, s'')))"

end
