(* ===== verification/Generator_Laws.thy ===== *)
theory Generator_Laws
  imports Generators
begin

text \<open>
  The contract of the abstract class \<^verbatim>\<open>Generator\<close> (\<^verbatim>\<open>core/generator.h\<close>) as locales, their
  interpretations on the generators of \<^verbatim>\<open>core/\<close>, and the properties of the Zipfian family
  and of the weighted choice.
\<close>

subsection \<open>The contract\<close>

text \<open>\<open>n\<close> successive draws, collecting the values.\<close>

fun draw_n :: "('g \<Rightarrow> rng \<Rightarrow> ('v \<times> 'g \<times> rng) result) \<Rightarrow> nat \<Rightarrow> 'g \<Rightarrow> rng \<Rightarrow>
    ('v list \<times> 'g \<times> rng) result" where
  "draw_n nxt 0 g s = Inr ([], g, s)"
| "draw_n nxt (Suc n) g s =
     rbind (nxt g s) (\<lambda>(v, g1, s1). rbind (draw_n nxt n g1 s1)
       (\<lambda>(vs, g2, s2). Inr (v # vs, g2, s2)))"

locale generator =
  fixes nxt :: "'g \<Rightarrow> rng \<Rightarrow> ('v \<times> 'g \<times> rng) result"
    and lst :: "'g \<Rightarrow> 'v"
    and inv :: "'g \<Rightarrow> bool"
  assumes lst_nxt: "inv g \<Longrightarrow> nxt g s = Inr (v, g', s') \<Longrightarrow> lst g' = v"
    and nxt_inv: "inv g \<Longrightarrow> rng_ok s \<Longrightarrow> nxt g s = Inr (v, g', s') \<Longrightarrow> inv g' \<and> rng_ok s'"
begin

lemma draw_n_inv:
  "inv g \<Longrightarrow> rng_ok s \<Longrightarrow> draw_n nxt n g s = Inr (vs, g', s') \<Longrightarrow>
   inv g' \<and> rng_ok s' \<and> length vs = n"
proof (induction n arbitrary: g s vs)
  case (Suc n)
  then show ?case by (fastforce simp: rbind_eq_Inr_iff dest: nxt_inv)
qed simp

lemma draw_n_last:
  "inv g \<Longrightarrow> rng_ok s \<Longrightarrow> draw_n nxt (Suc n) g s = Inr (vs, g', s') \<Longrightarrow> lst g' = last vs"
proof (induction n arbitrary: g s vs)
  case 0
  then show ?case by (auto simp: rbind_eq_Inr_iff dest: lst_nxt)
next
  case (Suc n)
  from Suc.prems(3) obtain v g1 s1 ws where
    1: "nxt g s = Inr (v, g1, s1)" "draw_n nxt (Suc n) g1 s1 = Inr (ws, g', s')" "vs = v # ws"
    by (auto simp: rbind_eq_Inr_iff)
  then have i: "inv g1" "rng_ok s1" using nxt_inv Suc.prems by blast+
  then have "ws \<noteq> []" using draw_n_inv [OF i 1(2)] by auto
  then show ?case using Suc.IH [OF i 1(2)] 1(3) by simp
qed

end

locale bounded_generator = generator nxt lst inv
  for nxt :: "'g \<Rightarrow> rng \<Rightarrow> ('v \<times> 'g \<times> rng) result" and lst :: "'g \<Rightarrow> 'v" and inv :: "'g \<Rightarrow> bool" +
  fixes rg :: "'v set"
  assumes nxt_total: "inv g \<Longrightarrow> rng_ok s \<Longrightarrow> \<exists>v g' s'. nxt g s = Inr (v, g', s')"
    and nxt_range: "inv g \<Longrightarrow> rng_ok s \<Longrightarrow> nxt g s = Inr (v, g', s') \<Longrightarrow> v \<in> rg"
begin

lemma draw_n_total:
  "inv g \<Longrightarrow> rng_ok s \<Longrightarrow> \<exists>vs g' s'. draw_n nxt n g s = Inr (vs, g', s') \<and> set vs \<subseteq> rg"
proof (induction n arbitrary: g s)
  case (Suc n)
  from nxt_total [OF Suc.prems] obtain v g1 s1 where 1: "nxt g s = Inr (v, g1, s1)" by blast
  with nxt_inv Suc.prems have i: "inv g1" "rng_ok s1" by blast+
  from Suc.IH [OF i] obtain vs g2 s2 where
    "draw_n nxt n g1 s1 = Inr (vs, g2, s2)" "set vs \<subseteq> rg" by blast
  with 1 nxt_range [OF Suc.prems 1] show ?case by auto
qed simp

end

subsection \<open>Constant, counter and uniform generators\<close>

definition const_nxt :: "ConstGenerator \<Rightarrow> rng \<Rightarrow> (u64 \<times> ConstGenerator \<times> rng) result" where
  "const_nxt g s = (let (v, g') = Const_Next g in Inr (v, g', s))"

interpretation const: bounded_generator const_nxt Const_Last "\<lambda>g. cg_constant g = c" "{c}" for c
  by unfold_locales (auto simp: const_nxt_def Const_Next_def Const_Last_def)

definition counter_nxt :: "CounterGenerator \<Rightarrow> rng \<Rightarrow> (u64 \<times> CounterGenerator \<times> rng) result" where
  "counter_nxt g s = (let (v, g') = Counter_Next g in Inr (v, g', s))"

interpretation counter: bounded_generator counter_nxt Counter_Last "\<lambda>g. True" UNIV
  by unfold_locales (auto simp: counter_nxt_def Counter_Next_def Counter_Last_def)

definition uniform_nxt ::
  "rand_src \<Rightarrow> UniformGenerator \<Rightarrow> rng \<Rightarrow> (u64 \<times> UniformGenerator \<times> rng) result" where
  "uniform_nxt R g s = Inr (Uniform_Next R g s)"

definition uniform_inv :: "rand_src \<Rightarrow> u64 \<Rightarrow> u64 \<Rightarrow> UniformGenerator \<Rightarrow> bool" where
  "uniform_inv R lo hi g \<longleftrightarrow> rand_ok R \<and> lo \<le> hi \<and> ug_min g = lo \<and> ug_max g = hi"

lemma Uniform_Next_range:
  assumes "uniform_inv R lo hi g" and "rng_ok s" and "Uniform_Next R g s = (v, g', s')"
  shows "lo \<le> v \<and> v \<le> hi \<and> uniform_inv R lo hi g' \<and> ug_last_int g' = v \<and> rng_ok s'"
  using assms draw_uniform_ok [of R s lo hi]
  by (auto simp: Uniform_Next_def uniform_inv_def split: prod.splits)

interpretation uniform:
  bounded_generator "uniform_nxt R" Uniform_Last "uniform_inv R lo hi" "{lo..hi}" for R lo hi
proof unfold_locales
  fix g s v g' s'
  assume n: "uniform_nxt R g s = Inr (v, g', s')"
  then have u: "Uniform_Next R g s = (v, g', s')" by (simp add: uniform_nxt_def)
  then show "Uniform_Last g' = v" if "uniform_inv R lo hi g"
    by (auto simp: Uniform_Next_def Uniform_Last_def split: prod.splits)
  assume i: "uniform_inv R lo hi g" "rng_ok s"
  show "uniform_inv R lo hi g' \<and> rng_ok s'" and "v \<in> {lo..hi}"
    using Uniform_Next_range [OF i u] by auto
next
  show "\<exists>v g' s'. uniform_nxt R g s = Inr (v, g', s')" for g s
    by (metis prod_cases3 uniform_nxt_def)
qed

lemma UniformGenerator_new_inv:
  assumes "rand_ok R" and "lo \<le> hi" and "rng_ok s"
  shows "uniform_inv R lo hi (fst (UniformGenerator_new R lo hi s))
    \<and> rng_ok (snd (UniformGenerator_new R lo hi s))"
proof -
  let ?g = "\<lparr>ug_min = lo, ug_max = hi, ug_last_int = 0\<rparr>"
  obtain v g' s' where u: "Uniform_Next R ?g s = (v, g', s')" by (metis prod_cases3)
  have "uniform_inv R lo hi ?g" using assms by (simp add: uniform_inv_def)
  from Uniform_Next_range [OF this assms(3) u] show ?thesis
    by (simp add: UniformGenerator_new_def u)
qed

text \<open>
  Every value drawn from the counter is new: the values of \<open>n\<close> draws are consecutive, so
  they are distinct as long as the 64-bit counter does not wrap round to its start.
\<close>

lemma draw_n_counter:
  "draw_n counter_nxt n g s =
     Inr (map (\<lambda>i. cnt_counter g + of_nat i) [0..<n], g\<lparr>cnt_counter := cnt_counter g + of_nat n\<rparr>, s)"
proof (induction n arbitrary: g)
  case (Suc n)
  have "map (\<lambda>i. cnt_counter g + 1 + of_nat i) [0..<n] = map (\<lambda>i. cnt_counter g + of_nat i) (map Suc [0..<n])"
    by (simp add: add.assoc)
  with Suc show ?case
    by (simp add: counter_nxt_def Counter_Next_def map_Suc_upt upt_conv_Cons algebra_simps del: upt_Suc)
qed simp

lemma counter_draws_distinct:
  assumes "n \<le> 2 ^ 64"
  shows "distinct (map (\<lambda>i. (c :: u64) + of_nat i) [0..<n])"
proof -
  have "inj_on (\<lambda>i. c + of_nat i) {0..<n}"
  proof (rule inj_onI)
    fix i j
    assume ij: "i \<in> {0..<n}" "j \<in> {0..<n}" "c + of_nat i = c + of_nat j"
    then have "(of_nat i :: u64) = of_nat j" by simp
    moreover have "unat (of_nat i :: u64) = i" "unat (of_nat j :: u64) = j"
      using ij(1,2) assms by (simp_all add: unsigned_of_nat take_bit_nat_eq_self)
    ultimately show "i = j" by metis
  qed
  then show ?thesis by (simp add: distinct_map)
qed

subsection \<open>Weighted choice\<close>

text \<open>Exact arithmetic: no rounding.\<close>

definition exact_fpu :: fpu where
  "exact_fpu = \<lparr>fp_rnd = (\<lambda>x. x), fp_pow = (\<lambda>x y. x powr y)\<rparr>"

text \<open>With any rounding, the choice is one of the added values or the assertion fails.\<close>

lemma Discrete_pick_mem: "Discrete_pick F sm c ps = Some v \<Longrightarrow> v \<in> fst ` set ps"
  by (induction ps arbitrary: c) (auto split: if_splits)

lemma Discrete_pick_exact:
  assumes "0 < sm" and "0 \<le> c" and "c < sum_list (map snd ps) / sm"
  shows "\<exists>xs v w ys. ps = xs @ (v, w) # ys \<and> Discrete_pick exact_fpu sm c ps = Some v \<and>
    sum_list (map snd xs) / sm \<le> c \<and> c < (sum_list (map snd xs) + w) / sm"
  using assms(2,3)
proof (induction ps arbitrary: c)
  case Nil
  then show ?case by simp
next
  case (Cons p ps)
  obtain v w where p: "p = (v, w)" by (cases p)
  show ?case
  proof (cases "c < w / sm")
    case True
    then show ?thesis using p Cons.prems
      by (intro exI [of _ "[]"] exI [of _ v] exI [of _ w] exI [of _ ps])
        (simp add: exact_fpu_def fp_defs)
  next
    case False
    then have "0 \<le> c - w / sm" "c - w / sm < sum_list (map snd ps) / sm"
      using Cons.prems p by (simp_all add: add_divide_distrib)
    from Cons.IH [OF this] obtain xs v' w' ys where r: "ps = xs @ (v', w') # ys"
      "Discrete_pick exact_fpu sm (c - w / sm) ps = Some v'"
      "sum_list (map snd xs) / sm \<le> c - w / sm" "c - w / sm < (sum_list (map snd xs) + w') / sm"
      by blast
    then show ?thesis using p False
      by (intro exI [of _ "p # xs"] exI [of _ v'] exI [of _ w'] exI [of _ ys])
        (simp add: exact_fpu_def fp_defs add_divide_distrib)
  qed
qed

text \<open>The generator holds its values in the order they were added, with their sum.\<close>

definition discrete_inv :: "fpu \<Rightarrow> 'v DiscreteGenerator \<Rightarrow> bool" where
  "discrete_inv F g \<longleftrightarrow> dg_sum g = foldl (fadd F) 0 (map snd (dg_values g)) \<and>
     (dg_last g = None \<longleftrightarrow> dg_values g = []) \<and>
     (\<forall>v. dg_last g = Some v \<longrightarrow> v \<in> fst ` set (dg_values g))"

lemma discrete_inv_new: "discrete_inv F DiscreteGenerator_new"
  by (simp add: discrete_inv_def DiscreteGenerator_new_def)

lemma discrete_inv_AddValue: "discrete_inv F g \<Longrightarrow> discrete_inv F (AddValue F g v w)"
  by (auto simp: discrete_inv_def AddValue_def)

lemma Discrete_Next_eq:
  "Discrete_Next F R g s = Inr (v, g', s') \<longleftrightarrow>
     (\<exists>c. draw_double R s = (c, s') \<and> Discrete_pick F (dg_sum g) c (dg_values g) = Some v \<and>
          g' = g\<lparr>dg_last := Some v\<rparr>)"
  by (auto simp: Discrete_Next_def split: prod.splits option.splits)

text \<open>\<^verbatim>\<open>last_\<close> read as an option: \<open>Next\<close> returns the value that \<open>Last\<close> then reports.\<close>

definition discrete_nxt ::
  "fpu \<Rightarrow> rand_src \<Rightarrow> 'v DiscreteGenerator \<Rightarrow> rng \<Rightarrow> ('v option \<times> 'v DiscreteGenerator \<times> rng) result" where
  "discrete_nxt F R g s = rbind (Discrete_Next F R g s) (\<lambda>(v, g', s'). Inr (Some v, g', s'))"

interpretation discrete:
  generator "discrete_nxt F R" Discrete_Last "\<lambda>g. rand_ok R \<and> discrete_inv F g" for F R
proof unfold_locales
  fix g :: "'a DiscreteGenerator" and s v g' s'
  assume "discrete_nxt F R g s = Inr (v, g', s')"
  then obtain x where x: "v = Some x" "Discrete_Next F R g s = Inr (x, g', s')"
    by (auto simp: discrete_nxt_def rbind_eq_Inr_iff)
  then show "Discrete_Last g' = v" by (auto simp: Discrete_Next_eq Discrete_Last_def)
  assume "rand_ok R \<and> discrete_inv F g" "rng_ok s"
  then show "(rand_ok R \<and> discrete_inv F g') \<and> rng_ok s'"
    using x draw_double_ok [of R s] Discrete_pick_mem
    by (fastforce simp: Discrete_Next_eq discrete_inv_def)
qed

subsection \<open>The Zipfian family\<close>

lemma kMaxNumItems_unat: "unat kMaxNumItems = 1099511627775"
  by (simp add: kMaxNumItems_def mask_eq_exp_minus_1)

lemma Zeta_loop_split:
  "i \<le> Suc m \<Longrightarrow> m \<le> n \<Longrightarrow>
   Zeta_loop F i n theta z = Zeta_loop F (Suc m) n theta (Zeta_loop F i m theta z)"
proof (induction F i m theta z rule: Zeta_loop.induct)
  case (1 F i m theta z)
  show ?case
  proof (cases "i \<le> m")
    case True
    with 1 show ?thesis
      by (simp add: Zeta_loop.simps [of F i n] Zeta_loop.simps [of F i m])
  next
    case False
    with 1 show ?thesis by (simp add: Zeta_loop.simps [of F "Suc m" m] le_Suc_eq)
  qed
qed

text \<open>Without rounding, \<^verbatim>\<open>Zeta\<close> is the generalised harmonic number.\<close>

lemma Zeta_loop_exact:
  "Zeta_loop exact_fpu i n theta z = z + (\<Sum>k = i..n. 1 / real k powr theta)"
proof (induction "exact_fpu" i n theta z rule: Zeta_loop.induct)
  case (1 i n theta z)
  then show ?case
    by (subst Zeta_loop.simps)
      (auto simp: exact_fpu_def fp_defs sum.atLeast_Suc_atMost [of i n])
qed

definition zeta_cached :: "fpu \<Rightarrow> ZipfianGenerator \<Rightarrow> bool" where
  "zeta_cached F g \<longleftrightarrow> zg_n_for_zeta g < kMaxNumItems \<and>
     zg_zeta_n g = Zeta F 0 (zg_n_for_zeta g) (zg_theta g) 0"

text \<open>The incremental update of the cached sum agrees with the sum from scratch.\<close>

lemma RaiseZeta_cached:
  assumes "zeta_cached F g" and "num < kMaxNumItems" and "RaiseZeta F num g = Inr g'"
  shows "zeta_cached F g' \<and> zg_n_for_zeta g' = num \<and> zg_theta g' = zg_theta g"
proof -
  let ?m = "zg_n_for_zeta g"
  have le: "?m \<le> num" and g': "g' = g\<lparr>zg_zeta_n := Zeta F ?m num (zg_theta g) (zg_zeta_n g),
      zg_n_for_zeta := num\<rparr>"
    using assms(3) by (auto simp: RaiseZeta_def not_less split: if_splits)
  have "unat ?m < 1099511627775"
    using assms(1) by (simp add: zeta_cached_def word_less_nat_alt kMaxNumItems_unat)
  then have s: "unat (?m + 1) = Suc (unat ?m)" by (simp add: unat_word_ariths)
  have "Zeta F ?m num (zg_theta g) (Zeta F 0 ?m (zg_theta g) 0) = Zeta F 0 num (zg_theta g) 0"
    using Zeta_loop_split [of 1 "unat ?m" "unat num" F "zg_theta g" 0] le
    by (simp add: Zeta_def s word_le_nat_alt)
  then show ?thesis using assms(1,2) g' by (simp add: zeta_cached_def)
qed

definition zipf_inv :: "fpu \<Rightarrow> ZipfianGenerator \<Rightarrow> bool" where
  "zipf_inv F g \<longleftrightarrow> zeta_cached F g \<and> 2 \<le> zg_num_items g \<and> zg_num_items g \<le> zg_n_for_zeta g \<and>
     zg_theta g \<le> 1 \<and> zg_alpha g = fdiv F 1 (fsub F 1 (zg_theta g)) \<and>
     zg_zeta_2 g = Zeta F 0 2 (zg_theta g) 0 \<and> zg_eta g = Eta F g"

lemma Eta_frame [simp]:
  "Eta F (g\<lparr>zg_last_value := v\<rparr>) = Eta F g" "Eta F (g\<lparr>zg_eta := e\<rparr>) = Eta F g"
  by (simp_all add: Eta_def)

lemma Zipfian_Next_cases:
  assumes "Zipfian_Next F R num g s = Inr (v, g', s')"
  obtains g1 u where "2 \<le> num" "num < kMaxNumItems" "draw_double R s = (u, s')"
    "v = Zipfian_value F g1 num u" "g' = g1\<lparr>zg_last_value := v\<rparr>"
    "num \<le> zg_n_for_zeta g \<and> g1 = g \<or>
     zg_n_for_zeta g < num \<and> (\<exists>g0. RaiseZeta F num g = Inr g0 \<and> g1 = g0\<lparr>zg_eta := Eta F g0\<rparr>)"
proof -
  obtain u s1 where d: "draw_double R s = (u, s1)" by fastforce
  show ?thesis
  proof (cases "zg_n_for_zeta g < num")
    case True
    with assms d obtain g0 where "RaiseZeta F num g = Inr g0"
      by (auto simp: Zipfian_Next_def rbind_eq_Inr_iff split: if_splits)
    then show ?thesis
      using that [of u "g0\<lparr>zg_eta := Eta F g0\<rparr>"] assms d True
      by (auto simp: Zipfian_Next_def Let_def split: if_splits)
  next
    case False
    then show ?thesis
      using that [of u g] assms d by (auto simp: Zipfian_Next_def Let_def split: if_splits)
  qed
qed

lemma Zipfian_Next_inv:
  assumes "zipf_inv F g" and n: "Zipfian_Next F R num g s = Inr (v, g', s')"
  shows "zipf_inv F g' \<and> zg_base g' = zg_base g \<and> zg_num_items g' = zg_num_items g \<and>
    zg_last_value g' = v"
  using n
proof (cases rule: Zipfian_Next_cases)
  case (1 g1 u)
  from 1(6) show ?thesis
  proof (elim disjE conjE exE)
    fix g0
    assume r: "zg_n_for_zeta g < num" "RaiseZeta F num g = Inr g0" "g1 = g0\<lparr>zg_eta := Eta F g0\<rparr>"
    have "zeta_cached F g0 \<and> zg_n_for_zeta g0 = num \<and> zg_theta g0 = zg_theta g"
      using assms(1) 1(2) r(2) by (intro RaiseZeta_cached) (auto simp: zipf_inv_def)
    moreover have "zg_base g0 = zg_base g" "zg_num_items g0 = zg_num_items g"
      "zg_alpha g0 = zg_alpha g" "zg_zeta_2 g0 = zg_zeta_2 g"
      using r(2) by (auto simp: RaiseZeta_def split: if_splits)
    ultimately show ?thesis
      using assms(1) 1 r by (auto simp: zipf_inv_def zeta_cached_def)
  qed (use assms(1) 1 in \<open>auto simp: zipf_inv_def zeta_cached_def\<close>)
qed

lemma Zipfian_Next_total:
  assumes "zipf_inv F g" and "2 \<le> num" and "num < kMaxNumItems"
  shows "\<exists>v g' s'. Zipfian_Next F R num g s = Inr (v, g', s')"
  using assms by (auto simp: Zipfian_Next_def RaiseZeta_def Let_def split: prod.splits)

lemma ZipfianGenerator_new_inv:
  assumes "ZipfianGenerator_new F R mn mx theta s = Inr (g, s')" and "theta \<le> 1"
  shows "zipf_inv F g \<and> zg_base g = mn \<and> zg_num_items g = mx - mn + 1"
proof -
  let ?n = "mx - mn + 1"
  let ?g0 = "\<lparr>zg_num_items = ?n, zg_base = mn, zg_theta = theta, zg_zeta_n = 0,
            zg_eta = 0, zg_alpha = fdiv F 1 (fsub F 1 theta),
            zg_zeta_2 = Zeta F 0 2 theta 0, zg_n_for_zeta = 0, zg_last_value = 0\<rparr>"
  from assms(1) obtain g1 v where n: "2 \<le> ?n" "?n < kMaxNumItems"
    and r: "RaiseZeta F ?n ?g0 = Inr g1"
    and z: "Zipfian_Next F R ?n (g1\<lparr>zg_eta := Eta F g1\<rparr>) s = Inr (v, g, s')"
    by (auto simp: ZipfianGenerator_new_def Let_def rbind_eq_Inr_iff split: if_splits)
  have "zeta_cached F ?g0"
    by (simp add: zeta_cached_def Zeta_def Zeta_loop.simps word_less_nat_alt kMaxNumItems_unat)
  from RaiseZeta_cached [OF this n(2) r] r n assms(2)
  have "zipf_inv F (g1\<lparr>zg_eta := Eta F g1\<rparr>) \<and> zg_base g1 = mn \<and> zg_num_items g1 = ?n"
    by (auto simp: zipf_inv_def zeta_cached_def RaiseZeta_def split: if_splits)
  then show ?thesis using Zipfian_Next_inv [OF _ z] by auto
qed

context fp_arith begin

lemma Zeta_loop_ge:
  "fp_rnd F z = z \<Longrightarrow>
   z \<le> Zeta_loop F i n theta z \<and> fp_rnd F (Zeta_loop F i n theta z) = Zeta_loop F i n theta z"
proof (induction "Suc n - i" arbitrary: i z rule: less_induct)
  case less
  let ?t = "fdiv F 1 (fpow F (fp_rnd F (real i)) theta)"
  have "0 \<le> ?t" by (simp add: fp_defs rnd_nonneg pow_nonneg)
  then have "z \<le> fadd F z ?t"
    using rnd_mono [of z "z + ?t"] less.prems by (simp add: fadd_def)
  moreover have "fp_rnd F (fadd F z ?t) = fadd F z ?t" by (simp add: fadd_def rnd_idem)
  ultimately show ?case
    using less.hyps [of "Suc i" "fadd F z ?t"] less.prems Zeta_loop.simps [of F i n theta z]
    by (cases "i \<le> n") (auto intro: order_trans)
qed

lemma zeta_2_le_zeta_n:
  assumes "zipf_inv F g"
  shows "0 \<le> zg_zeta_2 g \<and> zg_zeta_2 g \<le> zg_zeta_n g"
proof -
  have "2 \<le> unat (zg_n_for_zeta g)"
    using assms by (auto simp: zipf_inv_def word_le_nat_alt)
  then have "zg_zeta_n g = Zeta_loop F 3 (unat (zg_n_for_zeta g)) (zg_theta g) (zg_zeta_2 g)"
    using assms Zeta_loop_split [of 1 2 "unat (zg_n_for_zeta g)" F "zg_theta g" 0]
    by (simp add: zipf_inv_def zeta_cached_def Zeta_def)
  moreover have "0 \<le> zg_zeta_2 g \<and> fp_rnd F (zg_zeta_2 g) = zg_zeta_2 g"
    using assms Zeta_loop_ge [of 0 1 2 "zg_theta g"] by (simp add: zipf_inv_def Zeta_def)
  ultimately show ?thesis using Zeta_loop_ge [of "zg_zeta_2 g"] by metis
qed

lemma eta_bounds:
  assumes "zipf_inv F g"
  shows "0 \<le> zg_eta g \<and> fp_rnd F (zg_eta g) = zg_eta g"
proof -
  have n: "2 \<le> unat (zg_num_items g)" "unat (zg_num_items g) < 1099511627775"
    using assms order_le_less_trans [of "zg_num_items g" "zg_n_for_zeta g" kMaxNumItems]
    by (auto simp: zipf_inv_def zeta_cached_def word_le_nat_alt word_less_nat_alt kMaxNumItems_unat)
  then have "u64_to_double F (zg_num_items g) = real (unat (zg_num_items g))"
    by (intro u64_to_double_exact) simp
  then have "0 \<le> fdiv F 2 (u64_to_double F (zg_num_items g))"
    "fdiv F 2 (u64_to_double F (zg_num_items g)) \<le> 1"
    using n by (auto simp: fdiv_def divide_le_eq_1 intro!: rnd_nonneg rnd_le_1)
  moreover have "0 \<le> fsub F 1 (zg_theta g)"
    using assms by (simp add: fsub_def zipf_inv_def rnd_nonneg)
  ultimately have a: "0 \<le> fsub F 1 (fpow F (fdiv F 2 (u64_to_double F (zg_num_items g)))
                              (fsub F 1 (zg_theta g)))"
    using pow_le_1 by (simp add: fsub_def fpow_def rnd_nonneg)
  have "zg_zeta_2 g / zg_zeta_n g \<le> 1"
    using zeta_2_le_zeta_n [OF assms] by (auto simp: divide_le_eq_1)
  then have "0 \<le> fsub F 1 (fdiv F (zg_zeta_2 g) (zg_zeta_n g))"
    using rnd_le_1 by (simp add: fsub_def fdiv_def rnd_nonneg)
  with a show ?thesis
    using assms by (simp add: zipf_inv_def Eta_def fdiv_def [of F "fsub F 1 _" "fsub F 1 _"] rnd_nonneg rnd_idem)
qed

lemma Eta_two:
  assumes "zg_num_items g = 2" and "fp_pow F 1 (fsub F 1 (zg_theta g)) = 1"
  shows "Eta F g = 0"
proof -
  have "u64_to_double F 2 = 2" using u64_to_double_exact [of 2] by simp
  then have "fdiv F 2 (u64_to_double F (zg_num_items g)) = 1" using assms(1) by (simp add: fdiv_def)
  then show ?thesis unfolding Eta_def using assms(2) by (simp add: fdiv_def fpow_def fsub_def)
qed

lemma Zipfian_value_le:
  assumes "zipf_inv F g" and "zg_eta g \<le> 1" and "0 \<le> u" and "u < 1" and "2 \<le> num"
    and b: "unat (zg_base g) + unat num \<le> 2 ^ 53"
  shows "unat (Zipfian_value F g num u) \<le> unat (zg_base g) + unat num"
proof -
  let ?e = "zg_eta g" and ?n = "real (unat num)" and ?b = "real (unat (zg_base g))"
  let ?x = "fadd F (fsub F (fmul F ?e u) ?e) 1"
  let ?p = "fpow F ?x (zg_alpha g)"
  let ?v = "fadd F (u64_to_double F (zg_base g)) (fmul F (u64_to_double F num) ?p)"
  note e = eta_bounds [OF assms(1)]
  have m: "0 \<le> fmul F ?e u" "fmul F ?e u \<le> ?e"
    using e assms(3,4) rnd_mono [of "?e * u" ?e]
    by (auto simp: fmul_def rnd_nonneg mult_left_le)
  have "fsub F (fmul F ?e u) ?e \<le> 0" using m(2) by (simp add: fsub_def rnd_nonpos)
  moreover have "- 1 \<le> fsub F (fmul F ?e u) ?e"
    using m(1) assms(2) rnd_mono [of "- 1" "fmul F ?e u - ?e"] rnd_int [of "- 1"]
    by (simp add: fsub_def)
  ultimately have x: "0 \<le> ?x" "?x \<le> 1"
    by (simp_all add: fadd_def rnd_nonneg rnd_le_1)
  have "0 \<le> zg_alpha g"
    using assms(1) by (simp add: zipf_inv_def fdiv_def fsub_def rnd_nonneg)
  with x have p: "0 \<le> ?p" "?p \<le> 1" using pow_le_1 by (simp_all add: fpow_def)
  have c: "u64_to_double F num = ?n" "u64_to_double F (zg_base g) = ?b"
    using b by (auto intro!: u64_to_double_exact)
  have "fmul F ?n ?p \<le> ?n" "0 \<le> fmul F ?n ?p"
    using p b unfolding fmul_def by (auto intro!: rnd_le_nat rnd_nonneg simp: mult_left_le)
  then have v: "0 \<le> ?v" "?v \<le> real (unat (zg_base g) + unat num)"
    using b rnd_le_nat [of "unat (zg_base g) + unat num" "?b + fmul F ?n ?p"]
    unfolding c by (simp_all add: fadd_def rnd_nonneg)
  then have "nat \<lfloor>?v\<rfloor> \<le> unat (zg_base g) + unat num" by linarith
  moreover have "unat (double_to_u64 ?v) \<le> nat \<lfloor>?v\<rfloor>"
    using v by (simp add: double_to_u64_def unsigned_of_int nat_take_bit_eq take_bit_nat_less_eq_self)
  moreover have "2 \<le> unat num" using assms(5) by (simp add: word_le_nat_alt)
  ultimately show ?thesis by (auto simp: Zipfian_value_def Let_def)
qed

end

text \<open>The Zipfian generator as used by the workload: always asked for \<^verbatim>\<open>num_items_\<close> values.\<close>

definition zipfian_nxt ::
  "fpu \<Rightarrow> rand_src \<Rightarrow> ZipfianGenerator \<Rightarrow> rng \<Rightarrow> (u64 \<times> ZipfianGenerator \<times> rng) result" where
  "zipfian_nxt F R g s = Zipfian_Next F R (zg_num_items g) g s"

definition zipf_ok :: "fpu \<Rightarrow> rand_src \<Rightarrow> u64 \<Rightarrow> u64 \<Rightarrow> ZipfianGenerator \<Rightarrow> bool" where
  "zipf_ok F R b n g \<longleftrightarrow> fp_arith F \<and> rand_ok R \<and> zipf_inv F g \<and> zg_base g = b \<and>
     zg_num_items g = n \<and> unat b + unat n \<le> 2 ^ 53 \<and> zg_eta g \<le> 1"

lemma Zipfian_Next_ok:
  assumes "fp_arith F" "rand_ok R" "zipf_inv F g" "zg_eta g \<le> 1" "num \<le> zg_n_for_zeta g"
    and "unat (zg_base g) + unat num \<le> 2 ^ 53" and "rng_ok s"
    and n: "Zipfian_Next F R num g s = Inr (v, g', s')"
  shows "unat v \<le> unat (zg_base g) + unat num \<and> rng_ok s' \<and> g' = g\<lparr>zg_last_value := v\<rparr>"
  using n
proof (cases rule: Zipfian_Next_cases)
  case (1 g1 u)
  have "g1 = g" using 1(6) assms(5) by auto
  moreover have "0 \<le> u \<and> u < 1 \<and> rng_ok s'" using draw_double_ok [OF assms(2,7) 1(3)] .
  ultimately show ?thesis
    using fp_arith.Zipfian_value_le [OF assms(1,3,4) _ _ 1(1) assms(6)] 1(4,5) by simp
qed

lemma zipfian_nxt_ok:
  assumes "zipf_ok F R b n g" and "rng_ok s" and "zipfian_nxt F R g s = Inr (v, g', s')"
  shows "zipf_ok F R b n g' \<and> rng_ok s' \<and> unat v \<le> unat b + unat n"
proof -
  have n: "Zipfian_Next F R n g s = Inr (v, g', s')"
    using assms(1,3) by (simp add: zipfian_nxt_def zipf_ok_def)
  have "zipf_inv F g" using assms(1) by (simp add: zipf_ok_def)
  then show ?thesis
    using Zipfian_Next_ok [of F R g n s v g' s'] Zipfian_Next_inv [OF _ n] n assms(1,2)
    by (auto simp: zipf_ok_def zipf_inv_def)
qed

interpretation zipfian:
  bounded_generator "zipfian_nxt F R" Zipfian_Last "zipf_ok F R b n" "{v. unat v \<le> unat b + unat n}"
  for F R b n
proof unfold_locales
  fix g s v g' s'
  assume n: "zipfian_nxt F R g s = Inr (v, g', s')"
  show "Zipfian_Last g' = v" if "zipf_ok F R b n g"
    using that Zipfian_Next_inv [of F g R "zg_num_items g" s v g' s'] n
    by (simp add: zipf_ok_def zipfian_nxt_def Zipfian_Last_def)
  assume "zipf_ok F R b n g" "rng_ok s"
  from zipfian_nxt_ok [OF this n]
  show "zipf_ok F R b n g' \<and> rng_ok s'" "v \<in> {v. unat v \<le> unat b + unat n}" by auto
next
  fix g s
  assume "zipf_ok F R b n g"
  then show "\<exists>v g' s'. zipfian_nxt F R g s = Inr (v, g', s')"
    by (auto simp: zipf_ok_def zipfian_nxt_def zipf_inv_def zeta_cached_def
      intro!: Zipfian_Next_total)
qed

subsection \<open>Scrambled Zipfian\<close>

definition scrambled_inv :: "fpu \<Rightarrow> rand_src \<Rightarrow> u64 \<Rightarrow> u64 \<Rightarrow> ScrambledZipfianGenerator \<Rightarrow> bool" where
  "scrambled_inv F R lo hi g \<longleftrightarrow> rand_ok R \<and> zipf_inv F (sz_generator g) \<and> lo \<le> hi \<and>
     sz_base g = lo \<and> sz_num_items g = hi - lo + 1 \<and> 2 \<le> sz_num_items g \<and>
     zg_num_items (sz_generator g) = hi - lo + 1"

text \<open>Whatever the inner generator returns, scrambling lands in the key range.\<close>

lemma Scramble_range:
  assumes "lo \<le> hi" and "sz_base g = lo" and "sz_num_items g = hi - lo + 1" and "2 \<le> sz_num_items g"
  shows "Scramble g v \<in> {lo..hi}"
proof -
  let ?n = "hi - lo + 1"
  have d: "unat (hi - lo) = unat hi - unat lo" using assms(1) by (simp add: unat_sub)
  have "unat ?n \<noteq> 0" using assms(3,4) by (auto simp: word_le_nat_alt)
  then have n: "unat ?n = Suc (unat hi - unat lo)"
    using d by (simp add: unat_word_ariths) (metis mod_self nat_neq_iff not_less_eq unat_u64_less Suc_lessI mod_less)
  have "unat (FNVHash64 v mod ?n) < unat ?n"
    using n by (simp add: unat_mod_distrib)
  then have "unat lo + unat (FNVHash64 v mod ?n) \<le> unat hi"
    using n assms(1) by (simp add: word_le_nat_alt)
  moreover have "unat (lo + FNVHash64 v mod ?n) = unat lo + unat (FNVHash64 v mod ?n)"
    using calculation by (rule unat_add_u64_le)
  ultimately show ?thesis using assms(2,3) by (simp add: Scramble_def word_le_nat_alt)
qed

lemma Scrambled_Next_range:
  assumes "scrambled_inv F R lo hi g" and "rng_ok s" and n: "Scrambled_Next F R g s = Inr (v, g', s')"
  shows "v \<in> {lo..hi} \<and> scrambled_inv F R lo hi g' \<and> rng_ok s' \<and> Scrambled_Last g' = v"
proof -
  from n obtain w z where z: "Zipfian_Next F R (zg_num_items (sz_generator g)) (sz_generator g) s
      = Inr (w, z, s')" "v = Scramble g w" "g' = g\<lparr>sz_generator := z\<rparr>"
    by (auto simp: Scrambled_Next_def rbind_eq_Inr_iff)
  have "rng_ok s'"
    using z(1) assms(1,2) draw_double_ok by (cases rule: Zipfian_Next_cases) (auto simp: scrambled_inv_def)
  then show ?thesis
    using z Zipfian_Next_inv [OF _ z(1)] Scramble_range [of lo hi g w] assms(1)
    unfolding scrambled_inv_def Scrambled_Last_def Scramble_def Zipfian_Last_def by auto
qed

interpretation scrambled:
  bounded_generator "Scrambled_Next F R" Scrambled_Last
    "\<lambda>g. scrambled_inv F R lo hi g" "{lo..hi}" for F R lo hi
proof unfold_locales
  fix g s v g' s'
  assume n: "Scrambled_Next F R g s = Inr (v, g', s')"
  then obtain w z where z: "Zipfian_Next F R (zg_num_items (sz_generator g)) (sz_generator g) s
      = Inr (w, z, s')" "v = Scramble g w" "g' = g\<lparr>sz_generator := z\<rparr>"
    by (auto simp: Scrambled_Next_def rbind_eq_Inr_iff)
  show "Scrambled_Last g' = v" if "scrambled_inv F R lo hi g"
    using that z Zipfian_Next_inv [OF _ z(1)]
    by (simp add: scrambled_inv_def Scrambled_Last_def Scramble_def Zipfian_Last_def)
  assume "scrambled_inv F R lo hi g" "rng_ok s"
  from Scrambled_Next_range [OF this n]
  show "scrambled_inv F R lo hi g' \<and> rng_ok s'" "v \<in> {lo..hi}" by auto
next
  fix g s
  assume i: "scrambled_inv F R lo hi g"
  then have "zg_num_items (sz_generator g) < kMaxNumItems"
    by (auto simp: scrambled_inv_def zipf_inv_def zeta_cached_def)
  with i obtain w z s' where "Zipfian_Next F R (zg_num_items (sz_generator g)) (sz_generator g) s
      = Inr (w, z, s')"
    using Zipfian_Next_total [of F "sz_generator g"] unfolding scrambled_inv_def by metis
  then show "\<exists>v g' s'. Scrambled_Next F R g s = Inr (v, g', s')"
    by (simp add: Scrambled_Next_def)
qed

subsection \<open>Skewed latest\<close>

definition skewed_inv ::
  "fpu \<Rightarrow> rand_src \<Rightarrow> CounterGenerator \<Rightarrow> SkewedLatestGenerator \<Rightarrow> bool" where
  "skewed_inv F R basis g \<longleftrightarrow> fp_arith F \<and> rand_ok R \<and> zipf_inv F (sl_zipfian g) \<and>
     zg_base (sl_zipfian g) = 0 \<and> zg_eta (sl_zipfian g) \<le> 1 \<and> 2 \<le> Counter_Last basis \<and>
     Counter_Last basis \<le> zg_n_for_zeta (sl_zipfian g)"

lemma SkewedLatest_Next_ok:
  assumes i: "skewed_inv F R basis g" and "rng_ok s"
    and n: "SkewedLatest_Next F R basis g s = Inr (v, g', s')"
  shows "v \<le> Counter_Last basis \<and> skewed_inv F R basis g' \<and> rng_ok s' \<and> sl_last g' = v"
proof -
  let ?m = "Counter_Last basis"
  from n obtain w z where z: "Zipfian_Next F R ?m (sl_zipfian g) s = Inr (w, z, s')"
    "v = ?m - w" "g' = g\<lparr>sl_zipfian := z, sl_last := ?m - w\<rparr>"
    by (auto simp: SkewedLatest_Next_def Let_def rbind_eq_Inr_iff)
  have inv: "zipf_inv F (sl_zipfian g)" using i by (simp add: skewed_inv_def)
  have "?m < kMaxNumItems"
    using i by (auto simp: skewed_inv_def zipf_inv_def zeta_cached_def)
  then have "unat ?m \<le> 2 ^ 53" by (simp add: word_less_nat_alt kMaxNumItems_unat)
  then have w: "unat w \<le> unat ?m \<and> rng_ok s' \<and> z = (sl_zipfian g)\<lparr>zg_last_value := w\<rparr>"
    using Zipfian_Next_ok [OF _ _ inv _ _ _ assms(2) z(1)] i by (simp add: skewed_inv_def)
  then have "v \<le> ?m" using z(2) by (simp add: word_le_nat_alt unat_sub)
  then show ?thesis
    using w z(2,3) i Zipfian_Next_inv [OF inv z(1)] by (simp add: skewed_inv_def)
qed

interpretation skewed:
  bounded_generator "SkewedLatest_Next F R basis" SkewedLatest_Last "skewed_inv F R basis"
    "{v. v \<le> Counter_Last basis}" for F R basis
proof unfold_locales
  fix g s v g' s'
  assume n: "SkewedLatest_Next F R basis g s = Inr (v, g', s')"
  then show "SkewedLatest_Last g' = v"
    by (auto simp: SkewedLatest_Next_def SkewedLatest_Last_def Let_def rbind_eq_Inr_iff)
  assume "skewed_inv F R basis g" "rng_ok s"
  from SkewedLatest_Next_ok [OF this n]
  show "skewed_inv F R basis g' \<and> rng_ok s'" "v \<in> {v. v \<le> Counter_Last basis}" by auto
next
  fix g s
  assume i: "skewed_inv F R basis g"
  then have "Counter_Last basis < kMaxNumItems"
    by (auto simp: skewed_inv_def zipf_inv_def zeta_cached_def)
  with i obtain w z s' where
    "Zipfian_Next F R (Counter_Last basis) (sl_zipfian g) s = Inr (w, z, s')"
    using Zipfian_Next_total [of F "sl_zipfian g"] unfolding skewed_inv_def by metis
  then show "\<exists>v g' s'. SkewedLatest_Next F R basis g s = Inr (v, g', s')"
    by (simp add: SkewedLatest_Next_def Let_def)
qed

subsection \<open>Properties\<close>

text \<open>A source of randomness whose canonical draws are all 0, for concrete runs.\<close>

definition zero_src :: rand_src where
  "zero_src = \<lparr>o_double = (\<lambda>_. 0), o_uniform = (\<lambda>lo hi n. lo), o_rand = (\<lambda>n. n)\<rparr>"

lemma zero_src_ok: "rand_ok zero_src"
  by (simp add: rand_ok_def zero_src_def)

definition rng0 :: rng where
  "rng0 = \<lparr>rng_tick = 0, rng_static = None\<rparr>"

lemma rng0_ok: "rng_ok rng0"
  by (simp add: rng_ok_def rng0_def)

text \<open>Successive calls \<^verbatim>\<open>Next(num)\<close> with changing numbers of items.\<close>

fun Zipfian_run ::
  "fpu \<Rightarrow> rand_src \<Rightarrow> u64 list \<Rightarrow> ZipfianGenerator \<Rightarrow> rng \<Rightarrow> (ZipfianGenerator \<times> rng) result" where
  "Zipfian_run F R [] g s = Inr (g, s)"
| "Zipfian_run F R (num # nums) g s =
     rbind (Zipfian_Next F R num g s) (\<lambda>(v, g', s'). Zipfian_run F R nums g' s')"

lemma Zipfian_run_inv:
  "zipf_inv F g \<Longrightarrow> Zipfian_run F R nums g s = Inr (g', s') \<Longrightarrow> zipf_inv F g'"
  by (induction nums arbitrary: g s) (auto simp: rbind_eq_Inr_iff dest: Zipfian_Next_inv)

lemma Zipfian_run_total:
  assumes "zipf_inv F g" and "\<forall>num \<in> set nums. 2 \<le> num \<and> num < kMaxNumItems"
  shows "\<exists>g' s'. Zipfian_run F R nums g s = Inr (g', s')"
  using assms
proof (induction nums arbitrary: g s)
  case (Cons num nums)
  obtain v g1 s1 where 1: "Zipfian_Next F R num g s = Inr (v, g1, s1)"
    using Zipfian_Next_total [OF Cons.prems(1), of num R s] Cons.prems(2) by auto
  with Cons Zipfian_Next_inv [OF Cons.prems(1) 1] show ?case by simp
qed simp

lemma ZipfianGenerator_new_lastE:
  assumes "ZipfianGenerator_new F R mn mx theta s = Inr (g, s')"
  obtains g1 v where "Zipfian_Next F R (mx - mn + 1) g1 s = Inr (v, g, s')"
  using assms by (auto simp: ZipfianGenerator_new_def Let_def rbind_eq_Inr_iff split: if_splits)

lemma ZipfianGenerator_new_total:
  assumes "2 \<le> mx - mn + 1" and "mx - mn + 1 < kMaxNumItems"
  shows "\<exists>g s'. ZipfianGenerator_new F R mn mx theta s = Inr (g, s')"
  using assms
  by (auto simp: ZipfianGenerator_new_def Let_def RaiseZeta_def Zipfian_Next_def split: prod.splits)

lemma Zipfian_Next_rng_ok:
  assumes "rand_ok R" and "rng_ok s" and n: "Zipfian_Next F R num g s = Inr (v, g', s')"
  shows "rng_ok s'"
  using n by (cases rule: Zipfian_Next_cases) (use draw_double_ok [OF assms(1,2)] in blast)

lemma ZipfianGenerator_new_rng_ok:
  assumes "rand_ok R" and "rng_ok s" and "ZipfianGenerator_new F R mn mx theta s = Inr (g, s')"
  shows "rng_ok s'"
  using assms(3) by (rule ZipfianGenerator_new_lastE) (use Zipfian_Next_rng_ok [OF assms(1,2)] in blast)

lemma ZipfianGenerator_new_bounds:
  assumes "ZipfianGenerator_new F R mn mx theta s = Inr (g, s')"
  shows "2 \<le> mx - mn + 1 \<and> mx - mn + 1 < kMaxNumItems"
  using assms by (auto simp: ZipfianGenerator_new_def Let_def split: if_splits)

lemma ScrambledZipfianGenerator_new_inv:
  assumes "rand_ok R" and "theta \<le> 1" and "mn \<le> mx"
    and "ScrambledZipfianGenerator_new F R mn mx theta s = Inr (g, s1)"
  shows "scrambled_inv F R mn mx g"
proof -
  from assms(4) obtain z where z: "ZipfianGenerator_new F R mn mx theta s = Inr (z, s1)"
    "g = \<lparr>sz_base = mn, sz_num_items = mx - mn + 1, sz_generator = z\<rparr>"
    by (auto simp: ScrambledZipfianGenerator_new_def rbind_eq_Inr_iff)
  then show ?thesis
    using ZipfianGenerator_new_inv [OF z(1) assms(2)] ZipfianGenerator_new_bounds [OF z(1)] assms(1,3)
    by (simp add: scrambled_inv_def)
qed

lemma foldl_add_sum_list: "foldl (\<lambda>x y. x + y) (a :: real) xs = a + sum_list xs"
  by (induction xs arbitrary: a) simp_all

lemma discrete_exact_sum:
  "discrete_inv exact_fpu g \<Longrightarrow> dg_sum g = sum_list (map snd (dg_values g))"
  by (simp add: discrete_inv_def fadd_def [abs_def] exact_fpu_def foldl_add_sum_list)

lemma sum_list_pos: "xs \<noteq> [] \<Longrightarrow> \<forall>x \<in> set xs. 0 < x \<Longrightarrow> 0 < sum_list (xs :: real list)"
  by (induction xs) (auto simp: add_pos_pos add_pos_nonneg, metis add.right_neutral add_pos_pos sum_list.Nil)

lemma discrete_exact_pos:
  assumes "discrete_inv exact_fpu g" "dg_values g \<noteq> []" "\<forall>p \<in> set (dg_values g). 0 < snd p"
  shows "0 < dg_sum g"
  using assms sum_list_pos [of "map snd (dg_values g)"] by (simp add: discrete_exact_sum)

text \<open>
  C20. The cached zeta sum of \<^verbatim>\<open>ZipfianGenerator\<close> is never stale: after construction and any
  sequence of successful \<^verbatim>\<open>Next(num)\<close> calls, \<^verbatim>\<open>zeta_n_\<close> equals the sum recomputed from
  scratch for \<^verbatim>\<open>n_for_zeta_\<close> items and \<^verbatim>\<open>eta_\<close> is the one computed from it, bit for bit, for
  every rounding and power function.
\<close>

theorem Zipfian_cache_coherent:
  assumes "ZipfianGenerator_new F R mn mx theta s = Inr (g, s1)" and "theta \<le> 1"
    and "Zipfian_run F R nums g s1 = Inr (g', s')"
  shows "zg_zeta_n g' = Zeta F 0 (zg_n_for_zeta g') (zg_theta g') 0 \<and> zg_eta g' = Eta F g'"
proof -
  have "zipf_inv F g'"
    using Zipfian_run_inv [OF _ assms(3)] ZipfianGenerator_new_inv [OF assms(1,2)] by blast
  then show ?thesis by (simp add: zipf_inv_def zeta_cached_def)
qed

theorem Zipfian_cache_coherent_witness:
  "\<exists>g s1 g' s'. ZipfianGenerator_new binary64 zero_src 0 2 (1 / 2) rng0 = Inr (g, s1) \<and>
     Zipfian_run binary64 zero_src [3, 7, 5] g s1 = Inr (g', s') \<and>
     zg_zeta_n g' = Zeta binary64 0 (zg_n_for_zeta g') (zg_theta g') 0"
proof -
  obtain g s1 where g: "ZipfianGenerator_new binary64 zero_src 0 2 (1 / 2) rng0 = Inr (g, s1)"
    using ZipfianGenerator_new_total [of 2 0 binary64 zero_src "1 / 2" rng0]
    by (auto simp: word_less_nat_alt kMaxNumItems_unat)
  then have "zipf_inv binary64 g" using ZipfianGenerator_new_inv [OF g] by simp
  then obtain g' s' where r: "Zipfian_run binary64 zero_src [3, 7, 5] g s1 = Inr (g', s')"
    using Zipfian_run_total [of binary64 g "[3, 7, 5]" zero_src s1]
    by (auto simp: word_less_nat_alt kMaxNumItems_unat)
  show ?thesis using g r Zipfian_cache_coherent [OF g _ r] by auto
qed



text \<open>
  \<^verbatim>\<open>ZipfianGenerator\<close> ignores its lower bound for the most popular items: when the draw
  is 0, the value is 0 whatever \<^verbatim>\<open>min\<close> is, so a generator built for \<^verbatim>\<open>[1, max]\<close> (field lengths,
  scan lengths) returns 0, which is outside its range.
\<close>

theorem Zipfian_below_min:
  assumes "fp_arith F" and "ZipfianGenerator_new F zero_src mn mx theta s = Inr (g, s')"
    and "rng_ok s" and "0 < mn"
  shows "Zipfian_Last g = 0 \<and> Zipfian_Last g < mn"
  using assms(2)
proof (rule ZipfianGenerator_new_lastE)
  fix g1 v
  assume z: "Zipfian_Next F zero_src (mx - mn + 1) g1 s = Inr (v, g, s')"
  then show ?thesis
  proof (cases rule: Zipfian_Next_cases)
    case (1 g2 u)
    have "u = 0" using 1(3) assms(3) by (auto simp: draw_double_def zero_src_def rng_ok_def RandomDouble_def)
    then have "v = 0"
      using 1(4) fp_arith.rnd_0 [OF assms(1)] by (simp add: Zipfian_value_def fmul_def)
    then show ?thesis using 1(5) assms(4) by (simp add: Zipfian_Last_def)
  qed
qed

theorem Zipfian_below_min_witness:
  "\<exists>g s'. ZipfianGenerator_new binary64 zero_src 1 100 (1 / 2) rng0 = Inr (g, s') \<and>
     Zipfian_Last g < 1"
proof -
  obtain g s' where g: "ZipfianGenerator_new binary64 zero_src 1 100 (1 / 2) rng0 = Inr (g, s')"
    using ZipfianGenerator_new_total [of 100 1 binary64 zero_src "1 / 2" rng0]
    by (auto simp: word_less_nat_alt kMaxNumItems_unat)
  then show ?thesis
    using Zipfian_below_min [OF b64.fp_arith_axioms g rng0_ok] by simp
qed

text \<open>
  C23. \<^verbatim>\<open>ScrambledZipfianGenerator\<close> stays in its range: after construction for \<open>[min, max]\<close>
  every one of \<open>n\<close> successive draws succeeds and lies between \<^verbatim>\<open>min\<close> and \<^verbatim>\<open>max\<close>, inclusive,
  for every rounding function and whatever the underlying Zipfian generator returns.
\<close>

theorem Scrambled_draws_in_range:
  assumes "rand_ok R" and "rng_ok s" and "theta \<le> 1" and "mn \<le> mx"
    and "ScrambledZipfianGenerator_new F R mn mx theta s = Inr (g, s1)"
  shows "\<exists>vs g' s'. draw_n (Scrambled_Next F R) n g s1 = Inr (vs, g', s') \<and>
    length vs = n \<and> set vs \<subseteq> {mn..mx}"
proof -
  have "scrambled_inv F R mn mx g"
    using assms ScrambledZipfianGenerator_new_inv by blast
  moreover have "rng_ok s1"
    using ZipfianGenerator_new_rng_ok [OF assms(1,2)] assms(5)
    by (auto simp: ScrambledZipfianGenerator_new_def rbind_eq_Inr_iff)
  ultimately show ?thesis
    using scrambled.draw_n_total [of F R mn mx g s1 n] scrambled.draw_n_inv [of F R mn mx g s1 n]
    by blast
qed

theorem Scrambled_draws_in_range_witness:
  "\<exists>g s1 vs g' s'. ScrambledZipfianGenerator_new binary64 zero_src 0 99 (1 / 2) rng0 = Inr (g, s1) \<and>
     draw_n (Scrambled_Next binary64 zero_src) 7 g s1 = Inr (vs, g', s') \<and> length vs = 7 \<and>
     set vs \<subseteq> {0..99}"
proof -
  obtain g s1 where g: "ScrambledZipfianGenerator_new binary64 zero_src 0 99 (1 / 2) rng0 = Inr (g, s1)"
    using ZipfianGenerator_new_total [of 99 0 binary64 zero_src "1 / 2" rng0]
    by (auto simp: word_less_nat_alt kMaxNumItems_unat ScrambledZipfianGenerator_new_def)
  from Scrambled_draws_in_range [OF zero_src_ok rng0_ok _ _ g, of 7] g show ?thesis
    by (simp add: word_le_nat_alt)
qed



end
