(* ===== verification/Core_Workload.thy ===== *)
theory Core_Workload
  imports Properties Generator_Laws
begin

text \<open>
  \<^verbatim>\<open>core/core_workload.h\<close> and \<^verbatim>\<open>core/core_workload.cc\<close>: the workload object, its
  initialisation from the properties, and the operations the clients call. The heap
  pointers to generators become fields of type \<open>gen option\<close> (\<open>None\<close> is \<^verbatim>\<open>NULL\<close>), virtual calls
  become a case distinction on \<open>gen\<close>, and the reference that \<^verbatim>\<open>SkewedLatestGenerator\<close> keeps to
  \<^verbatim>\<open>insert_key_sequence_\<close> is passed at each call. Memory allocation does not fail.
\<close>

datatype Operation = INSERT | READ | UPDATE | SCAN | READMODIFYWRITE

subsection \<open>Property names and defaults\<close>

definition TABLENAME_PROPERTY :: string where [simp]: "TABLENAME_PROPERTY = ''table''"
definition TABLENAME_DEFAULT :: string where [simp]: "TABLENAME_DEFAULT = ''usertable''"
definition FIELD_COUNT_PROPERTY :: string where [simp]: "FIELD_COUNT_PROPERTY = ''fieldcount''"
definition FIELD_COUNT_DEFAULT :: string where [simp]: "FIELD_COUNT_DEFAULT = ''10''"
definition FIELD_LENGTH_DISTRIBUTION_PROPERTY :: string where [simp]: "FIELD_LENGTH_DISTRIBUTION_PROPERTY = ''field_len_dist''"
definition FIELD_LENGTH_DISTRIBUTION_DEFAULT :: string where [simp]: "FIELD_LENGTH_DISTRIBUTION_DEFAULT = ''constant''"
definition FIELD_LENGTH_PROPERTY :: string where [simp]: "FIELD_LENGTH_PROPERTY = ''fieldlength''"
definition FIELD_LENGTH_DEFAULT :: string where [simp]: "FIELD_LENGTH_DEFAULT = ''100''"
definition READ_ALL_FIELDS_PROPERTY :: string where [simp]: "READ_ALL_FIELDS_PROPERTY = ''readallfields''"
definition READ_ALL_FIELDS_DEFAULT :: string where [simp]: "READ_ALL_FIELDS_DEFAULT = ''true''"
definition WRITE_ALL_FIELDS_PROPERTY :: string where [simp]: "WRITE_ALL_FIELDS_PROPERTY = ''writeallfields''"
definition WRITE_ALL_FIELDS_DEFAULT :: string where [simp]: "WRITE_ALL_FIELDS_DEFAULT = ''false''"
definition READ_PROPORTION_PROPERTY :: string where [simp]: "READ_PROPORTION_PROPERTY = ''readproportion''"
definition READ_PROPORTION_DEFAULT :: string where [simp]: "READ_PROPORTION_DEFAULT = ''0.95''"
definition UPDATE_PROPORTION_PROPERTY :: string where [simp]: "UPDATE_PROPORTION_PROPERTY = ''updateproportion''"
definition UPDATE_PROPORTION_DEFAULT :: string where [simp]: "UPDATE_PROPORTION_DEFAULT = ''0.05''"
definition INSERT_PROPORTION_PROPERTY :: string where [simp]: "INSERT_PROPORTION_PROPERTY = ''insertproportion''"
definition INSERT_PROPORTION_DEFAULT :: string where [simp]: "INSERT_PROPORTION_DEFAULT = ''0.0''"
definition SCAN_PROPORTION_PROPERTY :: string where [simp]: "SCAN_PROPORTION_PROPERTY = ''scanproportion''"
definition SCAN_PROPORTION_DEFAULT :: string where [simp]: "SCAN_PROPORTION_DEFAULT = ''0.0''"
definition READMODIFYWRITE_PROPORTION_PROPERTY :: string where [simp]: "READMODIFYWRITE_PROPORTION_PROPERTY = ''readmodifywriteproportion''"
definition READMODIFYWRITE_PROPORTION_DEFAULT :: string where [simp]: "READMODIFYWRITE_PROPORTION_DEFAULT = ''0.0''"
definition REQUEST_DISTRIBUTION_PROPERTY :: string where [simp]: "REQUEST_DISTRIBUTION_PROPERTY = ''requestdistribution''"
definition REQUEST_DISTRIBUTION_DEFAULT :: string where [simp]: "REQUEST_DISTRIBUTION_DEFAULT = ''uniform''"
definition ZERO_PADDING_PROPERTY :: string where [simp]: "ZERO_PADDING_PROPERTY = ''zeropadding''"
definition ZERO_PADDING_DEFAULT :: string where [simp]: "ZERO_PADDING_DEFAULT = ''1''"
definition MAX_SCAN_LENGTH_PROPERTY :: string where [simp]: "MAX_SCAN_LENGTH_PROPERTY = ''maxscanlength''"
definition MAX_SCAN_LENGTH_DEFAULT :: string where [simp]: "MAX_SCAN_LENGTH_DEFAULT = ''1000''"
definition SCAN_LENGTH_DISTRIBUTION_PROPERTY :: string where [simp]: "SCAN_LENGTH_DISTRIBUTION_PROPERTY = ''scanlengthdistribution''"
definition SCAN_LENGTH_DISTRIBUTION_DEFAULT :: string where [simp]: "SCAN_LENGTH_DISTRIBUTION_DEFAULT = ''uniform''"
definition INSERT_ORDER_PROPERTY :: string where [simp]: "INSERT_ORDER_PROPERTY = ''insertorder''"
definition INSERT_ORDER_DEFAULT :: string where [simp]: "INSERT_ORDER_DEFAULT = ''hashed''"
definition INSERT_START_PROPERTY :: string where [simp]: "INSERT_START_PROPERTY = ''insertstart''"
definition INSERT_START_DEFAULT :: string where [simp]: "INSERT_START_DEFAULT = ''0''"
definition RECORD_COUNT_PROPERTY :: string where [simp]: "RECORD_COUNT_PROPERTY = ''recordcount''"
definition OPERATION_COUNT_PROPERTY :: string where [simp]: "OPERATION_COUNT_PROPERTY = ''operationcount''"

subsection \<open>\<^verbatim>\<open>std::stod\<close>\<close>

text \<open>
  Decimal floating-point literals: white space, an optional sign, digits with an optional
  fraction, an optional exponent; the exact value is then rounded. The hexadecimal,
  infinity and NaN forms of \<^verbatim>\<open>strtod\<close> are not modelled.
\<close>

fun split_exponent :: "string \<Rightarrow> int" where
  "split_exponent (c # cs) =
     (if c = CHR ''e'' \<or> c = CHR ''E'' then
        (let (neg, t) = split_sign cs; ds = takeWhile isdigit t
         in if neg then - int (digits_val ds) else int (digits_val ds))
      else 0)"
| "split_exponent [] = 0"

definition stod :: "fpu \<Rightarrow> string \<Rightarrow> real result" where
  "stod F s =
     (let (neg, t) = split_sign (dropWhile isspace s);
          ip = takeWhile isdigit t;
          t1 = dropWhile isdigit t;
          dot = (t1 \<noteq> [] \<and> hd t1 = CHR ''.'');
          fp = (if dot then takeWhile isdigit (tl t1) else []);
          t2 = (if dot then dropWhile isdigit (tl t1) else t1);
          e = split_exponent t2;
          m = real (digits_val (ip @ fp)) / 10 ^ length fp;
          v = (if 0 \<le> e then m * 10 ^ nat e else m / 10 ^ nat (- e))
      in if ip = [] \<and> fp = [] then Inl InvalidArgument
         else if 2 ^ 1024 \<le> v \<or> (0 < v \<and> v < 1 / 2 ^ 1022) then Inl OutOfRange
         else Inr (if neg then - fp_rnd F v else fp_rnd F v))"

subsection \<open>The workload object\<close>

datatype gen =
    GConst ConstGenerator
  | GCounter CounterGenerator
  | GUniform UniformGenerator
  | GZipfian ZipfianGenerator
  | GScrambled ScrambledZipfianGenerator
  | GSkewedLatest SkewedLatestGenerator

text \<open>The virtual call \<^verbatim>\<open>gen->Next()\<close>; \<open>basis\<close> is the counter a skewed-latest generator refers to.\<close>

fun Gen_Next ::
  "fpu \<Rightarrow> rand_src \<Rightarrow> CounterGenerator \<Rightarrow> gen \<Rightarrow> rng \<Rightarrow> (u64 \<times> gen \<times> rng) result" where
  "Gen_Next F R basis (GConst g) s = (let (v, g') = Const_Next g in Inr (v, GConst g', s))"
| "Gen_Next F R basis (GCounter g) s = (let (v, g') = Counter_Next g in Inr (v, GCounter g', s))"
| "Gen_Next F R basis (GUniform g) s =
     (let (v, g', s') = Uniform_Next R g s in Inr (v, GUniform g', s'))"
| "Gen_Next F R basis (GZipfian g) s =
     rbind (Zipfian_Next F R (zg_num_items g) g s) (\<lambda>(v, g', s'). Inr (v, GZipfian g', s'))"
| "Gen_Next F R basis (GScrambled g) s =
     rbind (Scrambled_Next F R g s) (\<lambda>(v, g', s'). Inr (v, GScrambled g', s'))"
| "Gen_Next F R basis (GSkewedLatest g) s =
     rbind (SkewedLatest_Next F R basis g s) (\<lambda>(v, g', s'). Inr (v, GSkewedLatest g', s'))"

text \<open>A call through a pointer that is still \<^verbatim>\<open>NULL\<close> is an invalid access.\<close>

definition Call_Next ::
  "fpu \<Rightarrow> rand_src \<Rightarrow> CounterGenerator \<Rightarrow> gen option \<Rightarrow> rng \<Rightarrow> (u64 \<times> gen option \<times> rng) result" where
  "Call_Next F R basis p s =
     (case p of None \<Rightarrow> Inl InvalidAccess
      | Some g \<Rightarrow> rbind (Gen_Next F R basis g s) (\<lambda>(v, g', s'). Inr (v, Some g', s')))"

record CoreWorkload =
  wl_table_name :: string
  wl_field_count :: int
  wl_read_all_fields :: bool
  wl_write_all_fields :: bool
  wl_field_len_generator :: "gen option"
  wl_key_generator :: "gen option"
  wl_op_chooser :: "Operation DiscreteGenerator"
  wl_key_chooser :: "gen option"
  wl_field_chooser :: "gen option"
  wl_scan_len_chooser :: "gen option"
  wl_insert_key_sequence :: CounterGenerator
  wl_ordered_inserts :: bool
  wl_record_count :: u64
  wl_zero_padding :: int

definition CoreWorkload_new :: CoreWorkload where
  "CoreWorkload_new =
     \<lparr>wl_table_name = [], wl_field_count = 0, wl_read_all_fields = False,
      wl_write_all_fields = False, wl_field_len_generator = None, wl_key_generator = None,
      wl_op_chooser = DiscreteGenerator_new, wl_key_chooser = None, wl_field_chooser = None,
      wl_scan_len_chooser = None, wl_insert_key_sequence = CounterGenerator_new 3,
      wl_ordered_inserts = True, wl_record_count = 0, wl_zero_padding = 0\<rparr>"

subsection \<open>Initialisation\<close>

definition GetFieldLenGenerator ::
  "fpu \<Rightarrow> rand_src \<Rightarrow> properties \<Rightarrow> rng \<Rightarrow> (gen \<times> rng) result" where
  "GetFieldLenGenerator F R p s =
     (let field_len_dist = GetProperty p FIELD_LENGTH_DISTRIBUTION_PROPERTY
                             FIELD_LENGTH_DISTRIBUTION_DEFAULT in
      rbind (stoi (GetProperty p FIELD_LENGTH_PROPERTY FIELD_LENGTH_DEFAULT)) (\<lambda>field_len.
      if field_len_dist = ''constant'' then Inr (GConst (ConstGenerator_new field_len), s)
      else if field_len_dist = ''uniform'' then
        (let (g, s') = UniformGenerator_new R 1 (int_to_u64 field_len) s in Inr (GUniform g, s'))
      else if field_len_dist = ''zipfian'' then
        rbind (ZipfianGenerator_new F R 1 (int_to_u64 field_len) (kZipfianConst F) s)
          (\<lambda>(g, s'). Inr (GZipfian g, s'))
      else Inl (Exception (''Unknown field length distribution: '' @ field_len_dist))))"

text \<open>\<^verbatim>\<open>(int)(op_count * insert_proportion * 2)\<close>\<close>

definition new_keys_count :: "fpu \<Rightarrow> int \<Rightarrow> real \<Rightarrow> int" where
  "new_keys_count F op_count insert_proportion =
     (let x = fmul F (fmul F (fp_rnd F (of_int op_count)) insert_proportion) 2
      in if x < 0 then \<lceil>x\<rceil> else \<lfloor>x\<rfloor>)"

definition Init_key_chooser ::
  "fpu \<Rightarrow> rand_src \<Rightarrow> properties \<Rightarrow> string \<Rightarrow> real \<Rightarrow> u64 \<Rightarrow> CounterGenerator \<Rightarrow> rng \<Rightarrow> (gen \<times> rng) result" where
  "Init_key_chooser F R p request_dist insert_proportion record_count seq s =
     (if request_dist = ''uniform'' then
        (let (g, s') = UniformGenerator_new R 0 (record_count - 1) s in Inr (GUniform g, s'))
      else if request_dist = ''zipfian'' then
        rbind (stoi (GetProperty p OPERATION_COUNT_PROPERTY [])) (\<lambda>op_count.
        rbind (ScrambledZipfianGenerator_new F R 0
                 (record_count + int_to_u64 (new_keys_count F op_count insert_proportion) - 1)
                 (kZipfianConst F) s)
          (\<lambda>(g, s'). Inr (GScrambled g, s')))
      else if request_dist = ''latest'' then
        rbind (SkewedLatestGenerator_new F R seq s) (\<lambda>(g, s'). Inr (GSkewedLatest g, s'))
      else Inl (Exception (''Unknown request distribution: '' @ request_dist)))"

definition Init_scan_len_chooser ::
  "fpu \<Rightarrow> rand_src \<Rightarrow> string \<Rightarrow> int \<Rightarrow> rng \<Rightarrow> (gen \<times> rng) result" where
  "Init_scan_len_chooser F R scan_len_dist max_scan_len s =
     (if scan_len_dist = ''uniform'' then
        (let (g, s') = UniformGenerator_new R 1 (int_to_u64 max_scan_len) s in Inr (GUniform g, s'))
      else if scan_len_dist = ''zipfian'' then
        rbind (ZipfianGenerator_new F R 1 (int_to_u64 max_scan_len) (kZipfianConst F) s)
          (\<lambda>(g, s'). Inr (GZipfian g, s'))
      else Inl (Exception (''Distribution not allowed for scan length: '' @ scan_len_dist)))"

definition add_if_positive ::
  "fpu \<Rightarrow> Operation \<Rightarrow> real \<Rightarrow> Operation DiscreteGenerator \<Rightarrow> Operation DiscreteGenerator" where
  "add_if_positive F oper proportion g = (if 0 < proportion then AddValue F g oper proportion else g)"

definition Init ::
  "fpu \<Rightarrow> rand_src \<Rightarrow> properties \<Rightarrow> CoreWorkload \<Rightarrow> rng \<Rightarrow> (CoreWorkload \<times> rng) result" where
  "Init F R p wl s0 =
     rbind (stoi (GetProperty p FIELD_COUNT_PROPERTY FIELD_COUNT_DEFAULT)) (\<lambda>field_count.
     rbind (GetFieldLenGenerator F R p s0) (\<lambda>(field_len_generator, s1).
     rbind (stod F (GetProperty p READ_PROPORTION_PROPERTY READ_PROPORTION_DEFAULT)) (\<lambda>read_proportion.
     rbind (stod F (GetProperty p UPDATE_PROPORTION_PROPERTY UPDATE_PROPORTION_DEFAULT)) (\<lambda>update_proportion.
     rbind (stod F (GetProperty p INSERT_PROPORTION_PROPERTY INSERT_PROPORTION_DEFAULT)) (\<lambda>insert_proportion.
     rbind (stod F (GetProperty p SCAN_PROPORTION_PROPERTY SCAN_PROPORTION_DEFAULT)) (\<lambda>scan_proportion.
     rbind (stod F (GetProperty p READMODIFYWRITE_PROPORTION_PROPERTY READMODIFYWRITE_PROPORTION_DEFAULT))
       (\<lambda>readmodifywrite_proportion.
     rbind (stoi (GetProperty p RECORD_COUNT_PROPERTY [])) (\<lambda>rc.
     let record_count = int_to_u64 rc;
         request_dist = GetProperty p REQUEST_DISTRIBUTION_PROPERTY REQUEST_DISTRIBUTION_DEFAULT in
     rbind (stoi (GetProperty p ZERO_PADDING_PROPERTY ZERO_PADDING_DEFAULT)) (\<lambda>zero_padding.
     rbind (stoi (GetProperty p MAX_SCAN_LENGTH_PROPERTY MAX_SCAN_LENGTH_DEFAULT)) (\<lambda>max_scan_len.
     let scan_len_dist = GetProperty p SCAN_LENGTH_DISTRIBUTION_PROPERTY SCAN_LENGTH_DISTRIBUTION_DEFAULT in
     rbind (stoi (GetProperty p INSERT_START_PROPERTY INSERT_START_DEFAULT)) (\<lambda>insert_start.
     rbind (StrToBool (GetProperty p READ_ALL_FIELDS_PROPERTY READ_ALL_FIELDS_DEFAULT)) (\<lambda>read_all_fields.
     rbind (StrToBool (GetProperty p WRITE_ALL_FIELDS_PROPERTY WRITE_ALL_FIELDS_DEFAULT)) (\<lambda>write_all_fields.
     let ordered_inserts = (GetProperty p INSERT_ORDER_PROPERTY INSERT_ORDER_DEFAULT \<noteq> ''hashed'');
         op_chooser = add_if_positive F READMODIFYWRITE readmodifywrite_proportion
                        (add_if_positive F SCAN scan_proportion
                        (add_if_positive F INSERT insert_proportion
                        (add_if_positive F UPDATE update_proportion
                        (add_if_positive F READ read_proportion (wl_op_chooser wl)))));
         seq = Counter_Set (wl_insert_key_sequence wl) record_count in
     rbind (Init_key_chooser F R p request_dist insert_proportion record_count seq s1)
       (\<lambda>(key_chooser, s2).
     let (field_chooser, s3) = UniformGenerator_new R 0 (int_to_u64 (field_count - 1)) s2 in
     rbind (Init_scan_len_chooser F R scan_len_dist max_scan_len s3) (\<lambda>(scan_len_chooser, s4).
     Inr (wl\<lparr>wl_table_name := GetProperty p TABLENAME_PROPERTY TABLENAME_DEFAULT,
             wl_field_count := field_count,
             wl_field_len_generator := Some field_len_generator,
             wl_record_count := record_count,
             wl_zero_padding := zero_padding,
             wl_read_all_fields := read_all_fields,
             wl_write_all_fields := write_all_fields,
             wl_ordered_inserts := ordered_inserts,
             wl_key_generator := Some (GCounter (CounterGenerator_new (int_to_u64 insert_start))),
             wl_op_chooser := op_chooser,
             wl_insert_key_sequence := seq,
             wl_key_chooser := Some key_chooser,
             wl_field_chooser := Some (GUniform field_chooser),
             wl_scan_len_chooser := Some scan_len_chooser\<rparr>, s4))))))))))))))))"

subsection \<open>Operations used by the clients\<close>

definition BuildKeyName :: "CoreWorkload \<Rightarrow> u64 \<Rightarrow> string result" where
  "BuildKeyName wl key_num =
     (let k = (if \<not> wl_ordered_inserts wl then Hash key_num else key_num) in
      if wl_record_count wl = 0 then Inl DivisionByZero
      else Inr (''user'' @ to_string (unat (k mod wl_record_count wl))))"

definition NextSequenceKey ::
  "fpu \<Rightarrow> rand_src \<Rightarrow> CoreWorkload \<Rightarrow> rng \<Rightarrow> (string \<times> CoreWorkload \<times> rng) result" where
  "NextSequenceKey F R wl s =
     rbind (Call_Next F R (wl_insert_key_sequence wl) (wl_key_generator wl) s) (\<lambda>(key_num, g, s').
     rbind (BuildKeyName wl key_num) (\<lambda>key. Inr (key, wl\<lparr>wl_key_generator := g\<rparr>, s')))"

text \<open>
  The \<^verbatim>\<open>do\<close>-\<^verbatim>\<open>while\<close> loop of \<^verbatim>\<open>NextTransactionKey\<close>: draw until the number is at most
  \<^verbatim>\<open>insert_key_sequence_.Last()\<close>. It need not end, so it is a partial function: \<open>None\<close> is
  "does not return".
\<close>

definition choose_key ::
  "fpu \<Rightarrow> rand_src \<Rightarrow> CoreWorkload \<Rightarrow> rng \<Rightarrow> (u64 \<times> CoreWorkload \<times> rng) result" where
  "choose_key F R wl s =
     rbind (Call_Next F R (wl_insert_key_sequence wl) (wl_key_chooser wl) s)
       (\<lambda>(k, g, s'). Inr (k, wl\<lparr>wl_key_chooser := g\<rparr>, s'))"

partial_function (option) choose_key_loop ::
  "fpu \<Rightarrow> rand_src \<Rightarrow> CoreWorkload \<Rightarrow> rng \<Rightarrow> (u64 \<times> CoreWorkload \<times> rng) result option" where
  "choose_key_loop F R wl s =
     (case choose_key F R wl s of
        Inl e \<Rightarrow> Some (Inl e)
      | Inr r \<Rightarrow>
          (if fst r \<le> Counter_Last (wl_insert_key_sequence (fst (snd r))) then Some (Inr r)
           else choose_key_loop F R (fst (snd r)) (snd (snd r))))"

definition NextTransactionKey ::
  "fpu \<Rightarrow> rand_src \<Rightarrow> CoreWorkload \<Rightarrow> rng \<Rightarrow> (string \<times> CoreWorkload \<times> rng) result option" where
  "NextTransactionKey F R wl s =
     map_option (\<lambda>r. rbind r (\<lambda>(k, wl', s').
       rbind (BuildKeyName wl' k) (\<lambda>key. Inr (key, wl', s')))) (choose_key_loop F R wl s)"

definition NextOperation ::
  "fpu \<Rightarrow> rand_src \<Rightarrow> CoreWorkload \<Rightarrow> rng \<Rightarrow> (Operation \<times> CoreWorkload \<times> rng) result" where
  "NextOperation F R wl s =
     rbind (Discrete_Next F R (wl_op_chooser wl) s)
       (\<lambda>(oper, g, s'). Inr (oper, wl\<lparr>wl_op_chooser := g\<rparr>, s'))"

definition NextFieldName ::
  "fpu \<Rightarrow> rand_src \<Rightarrow> CoreWorkload \<Rightarrow> rng \<Rightarrow> (string \<times> CoreWorkload \<times> rng) result" where
  "NextFieldName F R wl s =
     rbind (Call_Next F R (wl_insert_key_sequence wl) (wl_field_chooser wl) s)
       (\<lambda>(v, g, s'). Inr (''field'' @ to_string (unat v), wl\<lparr>wl_field_chooser := g\<rparr>, s'))"

definition NextScanLength ::
  "fpu \<Rightarrow> rand_src \<Rightarrow> CoreWorkload \<Rightarrow> rng \<Rightarrow> (u64 \<times> CoreWorkload \<times> rng) result" where
  "NextScanLength F R wl s =
     rbind (Call_Next F R (wl_insert_key_sequence wl) (wl_scan_len_chooser wl) s)
       (\<lambda>(v, g, s'). Inr (v, wl\<lparr>wl_scan_len_chooser := g\<rparr>, s'))"

text \<open>A field value: \<^verbatim>\<open>append(field_len_generator_->Next(), RandomPrintChar())\<close>.\<close>

definition next_value ::
  "fpu \<Rightarrow> rand_src \<Rightarrow> CoreWorkload \<Rightarrow> rng \<Rightarrow> (string \<times> CoreWorkload \<times> rng) result" where
  "next_value F R wl s =
     rbind (Call_Next F R (wl_insert_key_sequence wl) (wl_field_len_generator wl) s) (\<lambda>(n, g, s1).
       let (c, s2) = draw_char R s1
       in Inr (replicate (unat n) c, wl\<lparr>wl_field_len_generator := g\<rparr>, s2))"

text \<open>The \<^verbatim>\<open>for\<close> loop of \<^verbatim>\<open>BuildValues\<close>: \<open>n\<close> iterations are left, \<open>i\<close> is the loop variable.\<close>

fun BuildValues_loop ::
  "fpu \<Rightarrow> rand_src \<Rightarrow> nat \<Rightarrow> nat \<Rightarrow> CoreWorkload \<Rightarrow> rng \<Rightarrow> (string \<times> string) list \<Rightarrow>
   ((string \<times> string) list \<times> CoreWorkload \<times> rng) result" where
  "BuildValues_loop F R 0 i wl s vals = Inr (vals, wl, s)"
| "BuildValues_loop F R (Suc n) i wl s vals =
     rbind (next_value F R wl s) (\<lambda>(v, wl', s').
       BuildValues_loop F R n (Suc i) wl' s' (vals @ [(''field'' @ to_string i, v)]))"

definition BuildValues ::
  "fpu \<Rightarrow> rand_src \<Rightarrow> CoreWorkload \<Rightarrow> rng \<Rightarrow> ((string \<times> string) list \<times> CoreWorkload \<times> rng) result" where
  "BuildValues F R wl s = BuildValues_loop F R (nat (wl_field_count wl)) 0 wl s []"

definition BuildUpdate ::
  "fpu \<Rightarrow> rand_src \<Rightarrow> CoreWorkload \<Rightarrow> rng \<Rightarrow> ((string \<times> string) list \<times> CoreWorkload \<times> rng) result" where
  "BuildUpdate F R wl s =
     rbind (NextFieldName F R wl s) (\<lambda>(name, wl1, s1).
     rbind (next_value F R wl1 s1) (\<lambda>(v, wl2, s2). Inr ([(name, v)], wl2, s2)))"

end
