(* ===== verification/Workload_Laws.thy ===== *)
theory Workload_Laws
  imports Core_Workload
begin

text \<open>
  Properties of \<^verbatim>\<open>CoreWorkload\<close>: what an operation leaves unchanged, the form of the keys,
  termination and correctness of \<^verbatim>\<open>NextTransactionKey\<close>, the keys of the load phase, and the
  values built for inserts and updates.
\<close>

subsection \<open>What the operations leave unchanged\<close>

definition same_setup :: "CoreWorkload \<Rightarrow> CoreWorkload \<Rightarrow> bool" where
  "same_setup a b \<longleftrightarrow> wl_table_name a = wl_table_name b \<and> wl_field_count a = wl_field_count b \<and>
     wl_record_count a = wl_record_count b \<and> wl_ordered_inserts a = wl_ordered_inserts b \<and>
     wl_insert_key_sequence a = wl_insert_key_sequence b \<and>
     wl_read_all_fields a = wl_read_all_fields b \<and> wl_write_all_fields a = wl_write_all_fields b"

lemma same_setup_refl [simp]: "same_setup a a"
  by (simp add: same_setup_def)

lemma same_setup_trans [trans]: "same_setup a b \<Longrightarrow> same_setup b c \<Longrightarrow> same_setup a c"
  by (simp add: same_setup_def)

lemma same_setup_sym: "same_setup a b \<Longrightarrow> same_setup b a"
  by (simp add: same_setup_def)

lemma BuildKeyName_same_setup: "same_setup a b \<Longrightarrow> BuildKeyName a k = BuildKeyName b k"
  by (simp add: same_setup_def BuildKeyName_def)

lemma choose_key_setup: "choose_key F R wl s = Inr (k, wl', s') \<Longrightarrow> same_setup wl wl'"
  by (auto simp: choose_key_def rbind_eq_Inr_iff same_setup_def)

lemma next_value_setup: "next_value F R wl s = Inr (v, wl', s') \<Longrightarrow> same_setup wl wl'"
  by (auto simp: next_value_def rbind_eq_Inr_iff same_setup_def draw_char_def)

lemma NextSequenceKey_setup: "NextSequenceKey F R wl s = Inr (k, wl', s') \<Longrightarrow> same_setup wl wl'"
  by (auto simp: NextSequenceKey_def rbind_eq_Inr_iff same_setup_def)

lemma NextOperation_setup: "NextOperation F R wl s = Inr (k, wl', s') \<Longrightarrow> same_setup wl wl'"
  by (auto simp: NextOperation_def rbind_eq_Inr_iff same_setup_def)

lemma NextFieldName_setup: "NextFieldName F R wl s = Inr (k, wl', s') \<Longrightarrow> same_setup wl wl'"
  by (auto simp: NextFieldName_def rbind_eq_Inr_iff same_setup_def)

lemma NextScanLength_setup: "NextScanLength F R wl s = Inr (k, wl', s') \<Longrightarrow> same_setup wl wl'"
  by (auto simp: NextScanLength_def rbind_eq_Inr_iff same_setup_def)

lemma BuildValues_loop_setup:
  "BuildValues_loop F R n i wl s vals = Inr (vs, wl', s') \<Longrightarrow> same_setup wl wl'"
proof (induction n arbitrary: i wl s vals)
  case (Suc n)
  then show ?case
    by (fastforce simp: rbind_eq_Inr_iff dest: next_value_setup intro: same_setup_trans)
qed simp

lemma BuildValues_setup: "BuildValues F R wl s = Inr (vs, wl', s') \<Longrightarrow> same_setup wl wl'"
  by (simp add: BuildValues_def BuildValues_loop_setup)

lemma BuildUpdate_setup: "BuildUpdate F R wl s = Inr (vs, wl', s') \<Longrightarrow> same_setup wl wl'"
  by (fastforce simp: BuildUpdate_def rbind_eq_Inr_iff
      dest: next_value_setup NextFieldName_setup intro: same_setup_trans)

lemmas workload_setup = NextSequenceKey_setup NextOperation_setup NextFieldName_setup
  NextScanLength_setup BuildValues_setup BuildUpdate_setup

subsection \<open>Keys\<close>

lemma BuildKeyName_form:
  assumes "wl_record_count wl \<noteq> 0"
  shows "\<exists>n < unat (wl_record_count wl). BuildKeyName wl k = Inr (''user'' @ to_string n)"
proof -
  have "0 < unat (wl_record_count wl)" using assms unat_gt_0 by blast
  then show ?thesis
    by (simp add: BuildKeyName_def assms Let_def unat_mod_distrib)
qed

lemma choose_key_loop_correct:
  assumes "choose_key_loop F R wl s = Some r" and "r = Inr (k, wl', s')"
  shows "k \<le> Counter_Last (wl_insert_key_sequence wl) \<and> same_setup wl wl'"
proof -
  let ?P = "\<lambda>F R wl s r. \<forall>k wl' s'. r = Inr (k, wl', s') \<longrightarrow>
    k \<le> Counter_Last (wl_insert_key_sequence wl) \<and> same_setup wl wl'"
  have "?P F R wl s r"
  proof (rule choose_key_loop.raw_induct [where P = ?P, OF _ assms(1)], intro allI impI)
    fix f F R wl s r k wl' s'
    assume IH: "\<And>F R wl s r. f F R wl s = Some r \<Longrightarrow> ?P F R wl s r"
      and eq: "(case choose_key F R wl s of Inl e \<Rightarrow> Some (Inl e)
        | Inr r \<Rightarrow> if fst r \<le> Counter_Last (wl_insert_key_sequence (fst (snd r))) then Some (Inr r)
            else f F R (fst (snd r)) (snd (snd r))) = Some r"
      and r: "r = Inr (k, wl', s')"
    from eq r obtain k1 wl1 s1 where c: "choose_key F R wl s = Inr (k1, wl1, s1)"
      by (cases "choose_key F R wl s") auto
    note st = choose_key_setup [OF c]
    show "k \<le> Counter_Last (wl_insert_key_sequence wl) \<and> same_setup wl wl'"
    proof (cases "k1 \<le> Counter_Last (wl_insert_key_sequence wl1)")
      case True
      then show ?thesis using eq c r st by (auto simp: same_setup_def)
    next
      case False
      then have "f F R wl1 s1 = Some (Inr (k, wl', s'))" using eq c r by simp
      from IH [OF this] st show ?thesis by (auto simp: same_setup_def)
    qed
  qed
  with assms(2) show ?thesis by blast
qed

text \<open>
  The choosers whose range is covered by the loaded keys: uniform over them, scrambled
  Zipfian over them (no new keys expected), and skewed latest.
\<close>

definition chooser_covered :: "fpu \<Rightarrow> rand_src \<Rightarrow> CoreWorkload \<Rightarrow> bool" where
  "chooser_covered F R wl =
     (let seq = wl_insert_key_sequence wl in
      case wl_key_chooser wl of
        Some (GUniform g) \<Rightarrow> uniform_inv R 0 (Counter_Last seq) g
      | Some (GScrambled g) \<Rightarrow> scrambled_inv F R 0 (Counter_Last seq) g
      | Some (GSkewedLatest g) \<Rightarrow> skewed_inv F R seq g
      | _ \<Rightarrow> False)"

lemma chooser_covered_cases:
  assumes "chooser_covered F R wl"
  obtains (uniform) g where "wl_key_chooser wl = Some (GUniform g)"
      "uniform_inv R 0 (Counter_Last (wl_insert_key_sequence wl)) g"
  | (scrambled) g where "wl_key_chooser wl = Some (GScrambled g)"
      "scrambled_inv F R 0 (Counter_Last (wl_insert_key_sequence wl)) g"
  | (skewed) g where "wl_key_chooser wl = Some (GSkewedLatest g)"
      "skewed_inv F R (wl_insert_key_sequence wl) g"
  using assms by (auto simp: chooser_covered_def Let_def split: option.splits gen.splits)

lemma choose_key_covered:
  assumes "chooser_covered F R wl" and "rng_ok s"
  shows "\<exists>k wl' s'. choose_key F R wl s = Inr (k, wl', s') \<and> chooser_covered F R wl' \<and> rng_ok s' \<and>
    k \<le> Counter_Last (wl_insert_key_sequence wl)"
  using assms(1)
proof (cases rule: chooser_covered_cases)
  case (uniform g)
  obtain v g' s' where u: "Uniform_Next R g s = (v, g', s')" by (metis prod_cases3)
  from Uniform_Next_range [OF uniform(2) assms(2) u] show ?thesis
    using uniform u by (simp add: choose_key_def Call_Next_def chooser_covered_def)
next
  case (scrambled g)
  from scrambled.nxt_total [OF scrambled(2) assms(2)] obtain v g' s' where
    n: "Scrambled_Next F R g s = Inr (v, g', s')" by blast
  from Scrambled_Next_range [OF scrambled(2) assms(2) n] show ?thesis
    using scrambled n by (simp add: choose_key_def Call_Next_def chooser_covered_def)
next
  case (skewed g)
  from skewed.nxt_total [OF skewed(2) assms(2)] obtain v g' s' where
    n: "SkewedLatest_Next F R (wl_insert_key_sequence wl) g s = Inr (v, g', s')" by blast
  from SkewedLatest_Next_ok [OF skewed(2) assms(2) n] show ?thesis
    using skewed n by (simp add: choose_key_def Call_Next_def chooser_covered_def)
qed

lemma NextTransactionKey_setup:
  "NextTransactionKey F R wl s = Some (Inr (key, wl', s')) \<Longrightarrow>
   same_setup wl wl' \<and> (\<exists>k \<le> Counter_Last (wl_insert_key_sequence wl). BuildKeyName wl k = Inr key)"
  by (auto simp: NextTransactionKey_def rbind_eq_Inr_iff BuildKeyName_same_setup
      dest!: choose_key_loop_correct [OF _ refl])

lemma NextTransactionKey_covered:
  assumes "chooser_covered F R wl" and "rng_ok s" and "wl_record_count wl \<noteq> 0"
  shows "\<exists>key wl' s'. NextTransactionKey F R wl s = Some (Inr (key, wl', s')) \<and>
    chooser_covered F R wl' \<and> rng_ok s' \<and> same_setup wl wl'"
proof -
  obtain k wl' s' where c: "choose_key F R wl s = Inr (k, wl', s')" "chooser_covered F R wl'" "rng_ok s'"
    "k \<le> Counter_Last (wl_insert_key_sequence wl)"
    using choose_key_covered [OF assms(1,2)] by blast
  note st = choose_key_setup [OF c(1)]
  then have "choose_key_loop F R wl s = Some (Inr (k, wl', s'))"
    using c by (subst choose_key_loop.simps) (simp add: same_setup_def)
  moreover obtain n where "BuildKeyName wl' k = Inr (''user'' @ to_string n)"
    using BuildKeyName_form [of wl' k] st assms(3) by (auto simp: same_setup_def)
  ultimately show ?thesis using c st by (simp add: NextTransactionKey_def)
qed

text \<open>The keys of \<open>n\<close> successive inserts, as the load phase draws them.\<close>

fun load_keys ::
  "fpu \<Rightarrow> rand_src \<Rightarrow> nat \<Rightarrow> CoreWorkload \<Rightarrow> rng \<Rightarrow> (string list \<times> CoreWorkload \<times> rng) result" where
  "load_keys F R 0 wl s = Inr ([], wl, s)"
| "load_keys F R (Suc n) wl s =
     rbind (NextSequenceKey F R wl s) (\<lambda>(k, wl1, s1).
     rbind (load_keys F R n wl1 s1) (\<lambda>(ks, wl2, s2). Inr (k # ks, wl2, s2)))"

definition key_name :: "CoreWorkload \<Rightarrow> u64 \<Rightarrow> string" where
  "key_name wl k =
     ''user'' @ to_string (unat ((if wl_ordered_inserts wl then k else Hash k) mod wl_record_count wl))"

lemma BuildKeyName_key_name: "wl_record_count wl \<noteq> 0 \<Longrightarrow> BuildKeyName wl k = Inr (key_name wl k)"
  by (simp add: BuildKeyName_def key_name_def Let_def)

lemma key_name_frame [simp]: "key_name (wl\<lparr>wl_key_generator := g\<rparr>) = key_name wl"
  by (simp add: key_name_def fun_eq_iff)

lemma load_keys_eq:
  assumes "wl_record_count wl \<noteq> 0" and "wl_key_generator wl = Some (GCounter g)"
  shows "load_keys F R n wl s = Inr (map (\<lambda>i. key_name wl (cnt_counter g + of_nat i)) [0..<n],
    wl\<lparr>wl_key_generator := Some (GCounter (g\<lparr>cnt_counter := cnt_counter g + of_nat n\<rparr>))\<rparr>, s)"
  using assms
proof (induction n arbitrary: wl g)
  case (Suc n)
  let ?wl = "wl\<lparr>wl_key_generator := Some (GCounter (g\<lparr>cnt_counter := cnt_counter g + 1\<rparr>))\<rparr>"
  have "map (\<lambda>i. key_name wl (cnt_counter g + 1 + of_nat i)) [0..<n]
      = map (\<lambda>i. key_name wl (cnt_counter g + of_nat i)) (map Suc [0..<n])"
    by (simp add: add.assoc)
  then show ?case
    using Suc.IH [of ?wl "g\<lparr>cnt_counter := cnt_counter g + 1\<rparr>"] Suc.prems
    by (simp add: NextSequenceKey_def Call_Next_def Counter_Next_def BuildKeyName_key_name
      map_Suc_upt upt_conv_Cons algebra_simps del: upt_Suc)
qed simp

subsection \<open>Initialisation\<close>

lemma Counter_Set_eq: "Counter_Set g x = \<lparr>cnt_counter = x\<rparr>"
  by (cases g) (simp add: Counter_Set_def)

lemma Init_setup:
  assumes "Init F R p wl s = Inr (wl', s')"
  shows "\<exists>rc start. stoi (GetProperty p RECORD_COUNT_PROPERTY []) = Inr rc \<and>
    stoi (GetProperty p INSERT_START_PROPERTY INSERT_START_DEFAULT) = Inr start \<and>
    wl_record_count wl' = int_to_u64 rc \<and>
    wl_insert_key_sequence wl' = \<lparr>cnt_counter = int_to_u64 rc\<rparr> \<and>
    wl_key_generator wl' = Some (GCounter \<lparr>cnt_counter = int_to_u64 start\<rparr>) \<and>
    (\<exists>g ip s1 s2. wl_key_chooser wl' = Some g \<and>
       stod F (GetProperty p INSERT_PROPORTION_PROPERTY INSERT_PROPORTION_DEFAULT) = Inr ip \<and>
       (\<exists>fg. GetFieldLenGenerator F R p s = Inr (fg, s1)) \<and>
       Init_key_chooser F R p
         (GetProperty p REQUEST_DISTRIBUTION_PROPERTY REQUEST_DISTRIBUTION_DEFAULT) ip
         (int_to_u64 rc) \<lparr>cnt_counter = int_to_u64 rc\<rparr> s1 = Inr (g, s2))"
  using assms
  by (auto simp: Init_def rbind_eq_Inr_iff Let_def Counter_Set_eq CounterGenerator_new_def
    case_prod_beta)

lemma UniformGenerator_new_rng_ok:
  "rng_ok s \<Longrightarrow> UniformGenerator_new R lo hi s = (g, s') \<Longrightarrow> rng_ok s'"
  by (auto simp: UniformGenerator_new_def Uniform_Next_def draw_uniform_def rng_ok_def)

lemma GetFieldLenGenerator_rng_ok:
  assumes "rand_ok R" and "rng_ok s" and "GetFieldLenGenerator F R p s = Inr (g, s')"
  shows "rng_ok s'"
  using assms ZipfianGenerator_new_rng_ok [OF assms(1,2)]
  by (auto simp: GetFieldLenGenerator_def Let_def rbind_eq_Inr_iff
      dest: UniformGenerator_new_rng_ok split: if_splits prod.splits)

lemma record_count_word:
  assumes "1 \<le> rc" and "rc < 2 ^ 31"
  shows "unat (int_to_u64 rc) = nat rc" and "int_to_u64 rc \<noteq> 0"
proof -
  show "unat (int_to_u64 rc) = nat rc" using assms by (intro unat_int_to_u64) simp_all
  then show "int_to_u64 rc \<noteq> 0" using assms by auto
qed

text \<open>A uniform request distribution over at least one record is covered by the loaded keys.\<close>

lemma Init_uniform_covered:
  assumes "Init F R p wl s = Inr (wl', s')" and "rand_ok R" and "rng_ok s"
    and "GetProperty p REQUEST_DISTRIBUTION_PROPERTY REQUEST_DISTRIBUTION_DEFAULT = ''uniform''"
  shows "chooser_covered F R wl'"
proof -
  from Init_setup [OF assms(1)] obtain rc g ip s1 s2 fg where i:
    "wl_insert_key_sequence wl' = \<lparr>cnt_counter = int_to_u64 rc\<rparr>" "wl_key_chooser wl' = Some g"
    "GetFieldLenGenerator F R p s = Inr (fg, s1)"
    "Init_key_chooser F R p ''uniform'' ip (int_to_u64 rc) \<lparr>cnt_counter = int_to_u64 rc\<rparr> s1 = Inr (g, s2)"
    unfolding assms(4) by blast
  have s1: "rng_ok s1" using GetFieldLenGenerator_rng_ok [OF assms(2,3) i(3)] .
  show ?thesis
    using i UniformGenerator_new_inv [OF assms(2) _ s1, of 0 "int_to_u64 rc - 1"]
    by (auto simp: Init_key_chooser_def chooser_covered_def Counter_Last_def split: prod.splits)
qed

subsection \<open>A concrete workload\<close>

definition demo_props :: properties where
  "demo_props = [''recordcount'' \<mapsto> ''3'', ''operationcount'' \<mapsto> ''5'', ''insertorder'' \<mapsto> ''hashed'']"

lemma stod_samples:
  "stod exact_fpu ''0.95'' = Inr (95 / 100)" "stod exact_fpu ''0.05'' = Inr (5 / 100)"
  "stod exact_fpu ''0.0'' = Inr 0"
  by (simp_all add: stod_def isspace_def isdigit_def digits_val_def digit_val_def exact_fpu_def Let_def)

lemma stoi_samples:
  "stoi ''10'' = Inr 10" "stoi ''100'' = Inr 100" "stoi ''3'' = Inr 3" "stoi ''1'' = Inr 1"
  "stoi ''1000'' = Inr 1000" "stoi ''0'' = Inr 0" "stoi ''5'' = Inr 5"
  by (simp_all add: stoi_def isspace_def isdigit_def digits_val_def digit_val_def Let_def)

lemma StrToBool_samples: "StrToBool ''true'' = Inr True" "StrToBool ''false'' = Inr False"
  by (simp_all add: StrToBool_def tolower_def)

lemmas init_samples = stod_samples stoi_samples StrToBool_samples

lemma demo_Init:
  "\<exists>wl s. Init exact_fpu zero_src demo_props CoreWorkload_new rng0 = Inr (wl, s) \<and>
     wl_record_count wl = 3 \<and> rng_ok s"
  by (simp add: Init_def demo_props_def GetProperty_def init_samples GetFieldLenGenerator_def
    Init_key_chooser_def Init_scan_len_chooser_def UniformGenerator_new_def Uniform_Next_def
    draw_uniform_def int_to_u64_def rng0_def rng_ok_def)

subsection \<open>Properties\<close>

text \<open>
  C1. Every key a transaction asks for was inserted by the load phase: if the load phase
  draws \<^verbatim>\<open>recordcount\<close> keys from a workload that \<^verbatim>\<open>Init\<close> has set up (with \<^verbatim>\<open>insertstart\<close> 0), then
  whenever \<^verbatim>\<open>NextTransactionKey\<close> returns a key later, with any request distribution and after
  any operations, that key is among the loaded ones.
\<close>

theorem transaction_key_was_loaded:
  assumes "Init F R p wl0 s0 = Inr (wl, s)"
    and "stoi (GetProperty p INSERT_START_PROPERTY INSERT_START_DEFAULT) = Inr 0"
    and "wl_record_count wl \<noteq> 0"
    and "load_keys F R (unat (wl_record_count wl)) wl s = Inr (ks, wl1, s1)"
    and "same_setup wl wl2"
    and "NextTransactionKey F R wl2 s2 = Some (Inr (key, wl3, s3))"
  shows "key \<in> set ks"
proof -
  let ?rc = "wl_record_count wl"
  have seq: "cnt_counter (wl_insert_key_sequence wl) = ?rc"
    and g: "wl_key_generator wl = Some (GCounter \<lparr>cnt_counter = 0\<rparr>)"
    using Init_setup [OF assms(1)] assms(2) by (auto simp: int_to_u64_def)
  have ks: "ks = map (\<lambda>i. key_name wl (of_nat i)) [0..<unat ?rc]"
    using assms(4) load_keys_eq [OF assms(3) g, of F R _ s] by simp
  obtain k where k: "k \<le> ?rc - 1" "BuildKeyName wl2 k = Inr key"
    using NextTransactionKey_setup [OF assms(6)] assms(5) seq
    by (auto simp: same_setup_def Counter_Last_def)
  have "key = key_name wl k"
    using k(2) BuildKeyName_same_setup [OF assms(5), of k]
      BuildKeyName_key_name [OF assms(3), of k] by simp
  moreover have "unat (?rc - 1) = unat ?rc - 1" using assms(3) by (rule unat_minus_one)
  then have "unat k < unat ?rc" using k(1) assms(3) unat_gt_0 [of ?rc] by (simp add: word_le_nat_alt)
  moreover have "k = of_nat (unat k)" by (metis of_nat_unat ucast_id)
  ultimately show ?thesis using ks by (metis atLeastLessThan_iff image_eqI image_set set_upt zero_le)
qed

theorem transaction_key_was_loaded_witness:
  "\<exists>wl s ks wl1 s1 key wl3 s3. Init exact_fpu zero_src demo_props CoreWorkload_new rng0 = Inr (wl, s) \<and>
     load_keys exact_fpu zero_src 3 wl s = Inr (ks, wl1, s1) \<and>
     NextTransactionKey exact_fpu zero_src wl1 s1 = Some (Inr (key, wl3, s3)) \<and> key \<in> set ks"
proof -
  obtain wl s where i: "Init exact_fpu zero_src demo_props CoreWorkload_new rng0 = Inr (wl, s)"
    and rc: "wl_record_count wl = 3" and s: "rng_ok s" using demo_Init by blast
  obtain g where g: "wl_key_generator wl = Some (GCounter g)" using Init_setup [OF i] by blast
  obtain ks wl1 where l: "load_keys exact_fpu zero_src 3 wl s = Inr (ks, wl1, s)" "same_setup wl wl1"
    "wl_key_chooser wl1 = wl_key_chooser wl"
    using load_keys_eq [OF _ g, of exact_fpu zero_src 3 s] rc by (simp add: same_setup_def)
  have "chooser_covered exact_fpu zero_src wl"
    using Init_uniform_covered [OF i zero_src_ok rng0_ok] by (simp add: demo_props_def GetProperty_def)
  then have "chooser_covered exact_fpu zero_src wl1"
    using l by (simp add: chooser_covered_def same_setup_def)
  then obtain key wl3 s3 where t: "NextTransactionKey exact_fpu zero_src wl1 s = Some (Inr (key, wl3, s3))"
    using NextTransactionKey_covered [of exact_fpu zero_src wl1 s] s rc l(2)
    by (auto simp: same_setup_def)
  have "key \<in> set ks"
    using transaction_key_was_loaded [OF i _ _ _ l(2) t] l(1) rc
    by (simp add: demo_props_def GetProperty_def stoi_samples)
  with i l t show ?thesis by blast
qed

text \<open>
  C16. \<^verbatim>\<open>NextTransactionKey\<close> terminates: on a workload that \<^verbatim>\<open>Init\<close> has set up with the uniform
  request distribution and a non-zero record count, the rejection loop always returns a
  key, and so does every later call on the state it leaves.
\<close>

theorem NextTransactionKey_uniform_terminates:
  assumes "Init F R p wl0 s0 = Inr (wl, s)" and "rand_ok R" and "rng_ok s0" and "rng_ok s1"
    and "GetProperty p REQUEST_DISTRIBUTION_PROPERTY REQUEST_DISTRIBUTION_DEFAULT = ''uniform''"
    and "wl_record_count wl \<noteq> 0"
  shows "\<exists>key wl' s'. NextTransactionKey F R wl s1 = Some (Inr (key, wl', s')) \<and>
    (\<exists>key' wl'' s''. NextTransactionKey F R wl' s' = Some (Inr (key', wl'', s'')))"
proof -
  have "chooser_covered F R wl" using Init_uniform_covered [OF assms(1,2,3,5)] .
  from NextTransactionKey_covered [OF this assms(4,6)] obtain key wl' s' where
    1: "NextTransactionKey F R wl s1 = Some (Inr (key, wl', s'))" "chooser_covered F R wl'"
    "rng_ok s'" "same_setup wl wl'" by blast
  then have "wl_record_count wl' \<noteq> 0" using assms(6) by (simp add: same_setup_def)
  from NextTransactionKey_covered [OF 1(2,3) this] 1(1) show ?thesis by blast
qed

theorem NextTransactionKey_uniform_terminates_witness:
  "\<exists>wl s key wl' s'. Init exact_fpu zero_src demo_props CoreWorkload_new rng0 = Inr (wl, s) \<and>
     NextTransactionKey exact_fpu zero_src wl s = Some (Inr (key, wl', s'))"
proof -
  obtain wl s where i: "Init exact_fpu zero_src demo_props CoreWorkload_new rng0 = Inr (wl, s)"
    and rc: "wl_record_count wl = 3" and s: "rng_ok s" using demo_Init by blast
  show ?thesis
    using NextTransactionKey_uniform_terminates [OF i zero_src_ok rng0_ok s] i rc
    by (auto simp: demo_props_def GetProperty_def)
qed

text \<open>
  C21. With ordered inserts the load phase creates \<^verbatim>\<open>recordcount\<close> different records, exactly
  \<^verbatim>\<open>user0\<close> to \<^verbatim>\<open>user(recordcount - 1)\<close>.
\<close>

theorem ordered_load_complete:
  assumes "wl_ordered_inserts wl" and "wl_record_count wl \<noteq> 0"
    and "wl_key_generator wl = Some (GCounter \<lparr>cnt_counter = 0\<rparr>)"
  shows "\<exists>ks wl' s'. load_keys F R (unat (wl_record_count wl)) wl s = Inr (ks, wl', s') \<and>
    distinct ks \<and> set ks = {''user'' @ to_string i |i. i < unat (wl_record_count wl)}"
proof -
  let ?n = "unat (wl_record_count wl)"
  have "key_name wl (of_nat i) = ''user'' @ to_string i" if "i < ?n" for i
  proof -
    have "i < 18446744073709551616"
      using that unat_u64_less [of "wl_record_count wl"] by (rule order_less_trans)
    then have "unat (of_nat i :: u64) = i" by (simp add: unsigned_of_nat take_bit_nat_eq_self)
    then show ?thesis using that assms(1) by (simp add: key_name_def unat_mod_distrib)
  qed
  then have ks: "map (\<lambda>i. key_name wl (of_nat i)) [0..<?n] = map (\<lambda>i. ''user'' @ to_string i) [0..<?n]"
    by simp
  have "\<exists>wl'. load_keys F R ?n wl s = Inr (map (\<lambda>i. key_name wl (of_nat i)) [0..<?n], wl', s)"
    using load_keys_eq [OF assms(2,3), of F R ?n s] by simp
  then obtain wl' where
    l: "load_keys F R ?n wl s = Inr (map (\<lambda>i. ''user'' @ to_string i) [0..<?n], wl', s)"
    unfolding ks by blast
  have "inj_on (\<lambda>i. ''user'' @ to_string i) {0..<?n}" by (simp add: inj_on_def)
  then show ?thesis unfolding l by (auto simp: distinct_map image_def)
qed

theorem ordered_load_complete_witness:
  "\<exists>ks wl' s'. load_keys exact_fpu zero_src 4
     (CoreWorkload_new\<lparr>wl_record_count := 4, wl_key_generator := Some (GCounter \<lparr>cnt_counter = 0\<rparr>)\<rparr>)
     rng0 = Inr (ks, wl', s') \<and> distinct ks"
  using ordered_load_complete [of "CoreWorkload_new\<lparr>wl_record_count := 4,
      wl_key_generator := Some (GCounter \<lparr>cnt_counter = 0\<rparr>)\<rparr>" exact_fpu zero_src rng0]
  by (auto simp: CoreWorkload_new_def)

text \<open>
  C25. With hashed inserts (the default) the load phase may create far fewer records: for
  100 records, as in \<^verbatim>\<open>workloads/myworkload.spec\<close>, the keys drawn are only 75 different ones,
  since the hash is reduced modulo the record count.
\<close>

theorem hashed_load_collides:
  "\<exists>ks wl' s'. load_keys F R 100
     (CoreWorkload_new\<lparr>wl_ordered_inserts := False, wl_record_count := 100,
        wl_key_generator := Some (GCounter \<lparr>cnt_counter = 0\<rparr>)\<rparr>) s = Inr (ks, wl', s') \<and>
     length ks = 100 \<and> card (set ks) = 75"
proof -
  let ?wl = "CoreWorkload_new\<lparr>wl_ordered_inserts := False, wl_record_count := 100,
        wl_key_generator := Some (GCounter \<lparr>cnt_counter = 0\<rparr>)\<rparr>"
  let ?h = "\<lambda>i. unat (Hash (of_nat i) mod 100)"
  have ks: "map (\<lambda>i. key_name ?wl (of_nat i)) [0..<100] = map (\<lambda>m. ''user'' @ to_string m) (map ?h [0..<100])"
    by (simp only: key_name_def map_map comp_def) simp
  have "card (set (map ?h [0..<100])) = 75"
    by (subst length_remdups_card_conv [symmetric]) code_simp
  then have "card ((\<lambda>m. ''user'' @ to_string m) ` set (map ?h [0..<100])) = 75"
    by (subst card_image) (simp_all add: inj_on_def)
  then have c: "card (set (map (\<lambda>m. ''user'' @ to_string m) (map ?h [0..<100]))) = 75"
    by (simp only: set_map)
  have "\<exists>wl'. load_keys F R 100 ?wl s = Inr (map (\<lambda>i. key_name ?wl (of_nat i)) [0..<100], wl', s)"
    using load_keys_eq [of ?wl "\<lparr>cnt_counter = 0\<rparr>" F R 100 s] by simp
  then obtain wl' where
    l: "load_keys F R 100 ?wl s = Inr (map (\<lambda>m. ''user'' @ to_string m) (map ?h [0..<100]), wl', s)"
    unfolding ks by blast
  show ?thesis unfolding l using c by (simp only: sum.inject prod.inject length_map length_upt) simp
qed

end
