(* ===== verification/Db_Client.thy ===== *)
theory Db_Client
  imports Workload_Laws
begin

text \<open>
  \<^verbatim>\<open>core/db.h\<close> (the database interface), \<^verbatim>\<open>core/client.h\<close> (one client: an insert or a
  transaction) and the worker function \<^verbatim>\<open>DelegateClient\<close> of \<^verbatim>\<open>ycsbc.cc\<close>. A database is a
  record of operations over a state of its own; the abstract class's virtual functions
  become the fields of the record. A client step may fail to return, since the choice of a
  transaction key may, so steps have type \<open>result option\<close>.
\<close>

type_synonym KVPair = "string \<times> string"

abbreviation (input) kOK :: int where "kOK \<equiv> 0"
abbreviation (input) kErrorNoData :: int where "kErrorNoData \<equiv> 1"
abbreviation (input) kErrorConflict :: int where "kErrorConflict \<equiv> 2"

record 'd DB =
  db_Init :: "bool \<Rightarrow> 'd \<Rightarrow> 'd"
  db_Read :: "string \<Rightarrow> string \<Rightarrow> string list option \<Rightarrow> 'd \<Rightarrow> (int \<times> KVPair list \<times> 'd) result"
  db_Scan :: "string \<Rightarrow> string \<Rightarrow> int \<Rightarrow> string list option \<Rightarrow> 'd \<Rightarrow>
    (int \<times> KVPair list list \<times> 'd) result"
  db_Update :: "string \<Rightarrow> string \<Rightarrow> KVPair list \<Rightarrow> 'd \<Rightarrow> (int \<times> 'd) result"
  db_Insert :: "string \<Rightarrow> string \<Rightarrow> KVPair list \<Rightarrow> 'd \<Rightarrow> (int \<times> 'd) result"
  db_Delete :: "string \<Rightarrow> string \<Rightarrow> 'd \<Rightarrow> (int \<times> 'd) result"

text \<open>What a client step works on: the shared workload and database, the random draws and
  what has been written to \<^verbatim>\<open>cout\<close>.\<close>

record 'd client_state =
  cl_workload :: CoreWorkload
  cl_db :: 'd
  cl_rng :: rng
  cl_out :: "string list"

type_synonym ('d, 'a) step = "'d client_state \<Rightarrow> ('a \<times> 'd client_state) result option"

definition sbind :: "('d, 'a) step \<Rightarrow> ('a \<Rightarrow> ('d, 'b) step) \<Rightarrow> ('d, 'b) step" where
  "sbind m f st = (case m st of
       None \<Rightarrow> None
     | Some (Inl e) \<Rightarrow> Some (Inl e)
     | Some (Inr (a, st')) \<Rightarrow> f a st')"

definition sreturn :: "'a \<Rightarrow> ('d, 'a) step" where
  "sreturn a st = Some (Inr (a, st))"

definition sfail :: "exn \<Rightarrow> ('d, 'a) step" where
  "sfail e st = Some (Inl e)"

text \<open>Calls of workload and database operations.\<close>

definition on_workload :: "(CoreWorkload \<Rightarrow> rng \<Rightarrow> ('a \<times> CoreWorkload \<times> rng) result) \<Rightarrow> ('d, 'a) step" where
  "on_workload f st = Some (rbind (f (cl_workload st) (cl_rng st))
     (\<lambda>(a, wl, s). Inr (a, st\<lparr>cl_workload := wl, cl_rng := s\<rparr>)))"

definition on_key :: "(CoreWorkload \<Rightarrow> rng \<Rightarrow> ('a \<times> CoreWorkload \<times> rng) result option) \<Rightarrow> ('d, 'a) step" where
  "on_key f st = map_option (\<lambda>r. rbind r
     (\<lambda>(a, wl, s). Inr (a, st\<lparr>cl_workload := wl, cl_rng := s\<rparr>))) (f (cl_workload st) (cl_rng st))"

definition on_db :: "('d \<Rightarrow> ('a \<times> 'd) result) \<Rightarrow> ('d, 'a) step" where
  "on_db f st = Some (rbind (f (cl_db st)) (\<lambda>(a, d). Inr (a, st\<lparr>cl_db := d\<rparr>)))"

definition print_out :: "string \<Rightarrow> ('d, unit) step" where
  "print_out line st = Some (Inr ((), st\<lparr>cl_out := cl_out st @ [line]\<rparr>))"

definition get_workload :: "('d, CoreWorkload) step" where
  "get_workload st = Some (Inr (cl_workload st, st))"

subsection \<open>One insert, one transaction\<close>

text \<open>The result vector of a read is local to the transaction and dropped.\<close>

definition Read_call :: "'d DB \<Rightarrow> string \<Rightarrow> string \<Rightarrow> string list option \<Rightarrow> ('d, int) step" where
  "Read_call D table key flds =
     on_db (\<lambda>d. rbind (db_Read D table key flds d) (\<lambda>(st, res, d'). Inr (st, d')))"

definition Scan_call :: "'d DB \<Rightarrow> string \<Rightarrow> string \<Rightarrow> int \<Rightarrow> string list option \<Rightarrow> ('d, int) step" where
  "Scan_call D table key len flds =
     on_db (\<lambda>d. rbind (db_Scan D table key len flds d) (\<lambda>(st, res, d'). Inr (st, d')))"

definition DoInsert :: "fpu \<Rightarrow> rand_src \<Rightarrow> 'd DB \<Rightarrow> ('d, bool) step" where
  "DoInsert F R D =
     sbind (on_workload (NextSequenceKey F R)) (\<lambda>key.
     sbind (on_workload (BuildValues F R)) (\<lambda>pairs.
     sbind get_workload (\<lambda>wl.
     sbind (on_db (db_Insert D (wl_table_name wl) key pairs)) (\<lambda>status.
     sreturn (status = kOK)))))"

definition TransactionRead :: "fpu \<Rightarrow> rand_src \<Rightarrow> 'd DB \<Rightarrow> ('d, int) step" where
  "TransactionRead F R D =
     sbind get_workload (\<lambda>wl.
     sbind (on_key (NextTransactionKey F R)) (\<lambda>key.
     if \<not> wl_read_all_fields wl then
       sbind (on_workload (NextFieldName F R)) (\<lambda>name.
       Read_call D (wl_table_name wl) key (Some [''field'' @ name]))
     else
       sbind (print_out ''transaction read all fields'') (\<lambda>_.
       Read_call D (wl_table_name wl) key None)))"

definition build_write :: "fpu \<Rightarrow> rand_src \<Rightarrow> ('d, KVPair list) step" where
  "build_write F R =
     sbind get_workload (\<lambda>wl.
     if wl_write_all_fields wl then on_workload (BuildValues F R) else on_workload (BuildUpdate F R))"

definition TransactionReadModifyWrite :: "fpu \<Rightarrow> rand_src \<Rightarrow> 'd DB \<Rightarrow> ('d, int) step" where
  "TransactionReadModifyWrite F R D =
     sbind get_workload (\<lambda>wl.
     sbind (on_key (NextTransactionKey F R)) (\<lambda>key.
     sbind (if \<not> wl_read_all_fields wl then
              sbind (on_workload (NextFieldName F R)) (\<lambda>name.
              Read_call D (wl_table_name wl) key (Some [''field'' @ name]))
            else Read_call D (wl_table_name wl) key None) (\<lambda>_.
     sbind (build_write F R) (\<lambda>values.
     on_db (db_Update D (wl_table_name wl) key values)))))"

text \<open>\<^verbatim>\<open>int len = workload_.NextScanLength()\<close> keeps the low 32 bits.\<close>

definition size_to_int :: "u64 \<Rightarrow> int" where
  "size_to_int w = sint (ucast w :: u32)"

definition TransactionScan :: "fpu \<Rightarrow> rand_src \<Rightarrow> 'd DB \<Rightarrow> ('d, int) step" where
  "TransactionScan F R D =
     sbind get_workload (\<lambda>wl.
     sbind (on_key (NextTransactionKey F R)) (\<lambda>key.
     sbind (on_workload (NextScanLength F R)) (\<lambda>len.
     if \<not> wl_read_all_fields wl then
       sbind (on_workload (NextFieldName F R)) (\<lambda>name.
       Scan_call D (wl_table_name wl) key (size_to_int len) (Some [''field'' @ name]))
     else Scan_call D (wl_table_name wl) key (size_to_int len) None)))"

definition TransactionUpdate :: "fpu \<Rightarrow> rand_src \<Rightarrow> 'd DB \<Rightarrow> ('d, int) step" where
  "TransactionUpdate F R D =
     sbind get_workload (\<lambda>wl.
     sbind (on_key (NextTransactionKey F R)) (\<lambda>key.
     sbind (build_write F R) (\<lambda>values.
     on_db (db_Update D (wl_table_name wl) key values))))"

definition TransactionInsert :: "fpu \<Rightarrow> rand_src \<Rightarrow> 'd DB \<Rightarrow> ('d, int) step" where
  "TransactionInsert F R D =
     sbind get_workload (\<lambda>wl.
     sbind (on_workload (NextSequenceKey F R)) (\<lambda>key.
     sbind (on_workload (BuildValues F R)) (\<lambda>values.
     on_db (db_Insert D (wl_table_name wl) key values))))"

fun Transaction_dispatch :: "fpu \<Rightarrow> rand_src \<Rightarrow> 'd DB \<Rightarrow> Operation \<Rightarrow> ('d, int) step" where
  "Transaction_dispatch F R D READ = TransactionRead F R D"
| "Transaction_dispatch F R D UPDATE = TransactionUpdate F R D"
| "Transaction_dispatch F R D INSERT = TransactionInsert F R D"
| "Transaction_dispatch F R D SCAN = TransactionScan F R D"
| "Transaction_dispatch F R D READMODIFYWRITE = TransactionReadModifyWrite F R D"

definition DoTransaction :: "fpu \<Rightarrow> rand_src \<Rightarrow> 'd DB \<Rightarrow> ('d, bool) step" where
  "DoTransaction F R D =
     sbind (on_workload (NextOperation F R)) (\<lambda>oper.
     sbind (Transaction_dispatch F R D oper) (\<lambda>status.
     if 0 \<le> status then sreturn (status = kOK) else sfail AssertFailure))"

subsection \<open>The worker\<close>

fun DelegateClient_loop :: "fpu \<Rightarrow> rand_src \<Rightarrow> 'd DB \<Rightarrow> bool \<Rightarrow> nat \<Rightarrow> int \<Rightarrow> ('d, int) step" where
  "DelegateClient_loop F R D is_loading 0 oks = sreturn oks"
| "DelegateClient_loop F R D is_loading (Suc n) oks =
     sbind (if is_loading then DoInsert F R D else DoTransaction F R D) (\<lambda>ok.
     DelegateClient_loop F R D is_loading n (oks + (if ok then 1 else 0)))"

definition DelegateClient :: "fpu \<Rightarrow> rand_src \<Rightarrow> 'd DB \<Rightarrow> int \<Rightarrow> bool \<Rightarrow> ('d, int) step" where
  "DelegateClient F R D num_ops is_loading =
     sbind (on_db (\<lambda>d. Inr ((), db_Init D is_loading d))) (\<lambda>_.
     DelegateClient_loop F R D is_loading (nat num_ops) 0)"

subsection \<open>Lemmas\<close>

lemma sbind_eq_Inr_iff:
  "sbind m f st = Some (Inr (b, st'')) \<longleftrightarrow>
     (\<exists>a st'. m st = Some (Inr (a, st')) \<and> f a st' = Some (Inr (b, st'')))"
  by (auto simp: sbind_def split: option.splits sum.splits prod.splits)

lemma sreturn_eq [simp]: "sreturn a st = Some (Inr (b, st')) \<longleftrightarrow> a = b \<and> st = st'"
  by (simp add: sreturn_def)

lemma sfail_not_Inr [simp]: "sfail e st \<noteq> Some (Inr r)"
  by (simp add: sfail_def)

lemma on_db_eq:
  "on_db f st = Some (Inr (a, st')) \<longleftrightarrow> (\<exists>d. f (cl_db st) = Inr (a, d) \<and> st' = st\<lparr>cl_db := d\<rparr>)"
  by (auto simp: on_db_def rbind_eq_Inr_iff)

lemma on_workload_eq:
  "on_workload f st = Some (Inr (a, st')) \<longleftrightarrow>
     (\<exists>wl s. f (cl_workload st) (cl_rng st) = Inr (a, wl, s) \<and> st' = st\<lparr>cl_workload := wl, cl_rng := s\<rparr>)"
  by (auto simp: on_workload_def rbind_eq_Inr_iff)

lemma on_key_eq:
  "on_key f st = Some (Inr (a, st')) \<longleftrightarrow>
     (\<exists>wl s. f (cl_workload st) (cl_rng st) = Some (Inr (a, wl, s)) \<and> st' = st\<lparr>cl_workload := wl, cl_rng := s\<rparr>)"
  by (auto simp: on_key_def rbind_eq_Inr_iff)

lemma print_out_eq [simp]:
  "print_out l st = Some (Inr (a, st')) \<longleftrightarrow> st' = st\<lparr>cl_out := cl_out st @ [l]\<rparr>"
  by (auto simp: print_out_def)

lemma get_workload_eq [simp]:
  "get_workload st = Some (Inr (wl, st')) \<longleftrightarrow> wl = cl_workload st \<and> st' = st"
  by (auto simp: get_workload_def)

lemmas step_simps = sbind_eq_Inr_iff on_db_eq on_workload_eq on_key_eq rbind_eq_Inr_iff

lemma Read_call_eq:
  "Read_call D t k f st = Some (Inr (a, st')) \<longleftrightarrow>
     (\<exists>res d. db_Read D t k f (cl_db st) = Inr (a, res, d) \<and> st' = st\<lparr>cl_db := d\<rparr>)"
  by (auto simp: Read_call_def step_simps)

lemma Scan_call_eq:
  "Scan_call D t k n f st = Some (Inr (a, st')) \<longleftrightarrow>
     (\<exists>res d. db_Scan D t k n f (cl_db st) = Inr (a, res, d) \<and> st' = st\<lparr>cl_db := d\<rparr>)"
  by (auto simp: Scan_call_def step_simps)

end
