(* ===== verification/Vmp_String.thy ===== *)
theory Vmp_String
  imports Ycsb_Prelude
begin

text \<open>
  \<^verbatim>\<open>lib/mem_alloc.h\<close> and \<^verbatim>\<open>lib/string.h\<close>: heap-allocated C strings and the hashed string
  \<^verbatim>\<open>vmp::String\<close>. The characters behind a pointer of this program never change after
  \<^verbatim>\<open>strcpy\<close>, they are only freed; a pointer therefore carries its text, and the memory is the
  set of live addresses. Reading, or freeing, through a dead pointer is an invalid access.
\<close>

unbundle bit_operations_syntax

subsection \<open>Memory\<close>

text \<open>\<open>Temp s\<close> is the buffer of a \<^verbatim>\<open>std::string\<close> that outlives the call it is passed to.\<close>

datatype cstr = Null | Temp string | Heap nat string

record mem =
  m_live :: "nat set"
  m_next :: nat

definition mem_new :: mem where
  "mem_new = \<lparr>m_live = {}, m_next = 0\<rparr>"

text \<open>\<^verbatim>\<open>malloc\<close> or \<^verbatim>\<open>new char[]\<close>, filled by \<^verbatim>\<open>strcpy\<close>; allocation does not fail.\<close>

definition Malloc_copy :: "string \<Rightarrow> mem \<Rightarrow> cstr \<times> mem" where
  "Malloc_copy s m = (Heap (m_next m) s, m\<lparr>m_live := insert (m_next m) (m_live m), m_next := Suc (m_next m)\<rparr>)"

fun Free :: "cstr \<Rightarrow> mem \<Rightarrow> mem result" where
  "Free (Heap a s) m =
     (if a \<in> m_live m then Inr (m\<lparr>m_live := m_live m - {a}\<rparr>) else Inl InvalidAccess)"
| "Free Null m = Inr m"
| "Free (Temp s) m = Inl InvalidAccess"

text \<open>The text a reader of the pointer sees.\<close>

fun deref :: "mem \<Rightarrow> cstr \<Rightarrow> string result" where
  "deref m Null = Inl InvalidAccess"
| "deref m (Temp s) = Inr (c_str s)"
| "deref m (Heap a s) = (if a \<in> m_live m then Inr (c_str s) else Inl InvalidAccess)"

subsection \<open>The hashed string\<close>

record String_obj =
  s_hash :: u64
  s_value :: cstr
  s_len :: u64

definition String_new :: String_obj where
  "String_new = \<lparr>s_hash = 0, s_value = Null, s_len = 0\<rparr>"

text \<open>\<^verbatim>\<open>uint64_t c = *cstr++\<close>: a plain \<^verbatim>\<open>char\<close> is signed and is sign-extended.\<close>

definition char_to_u64 :: "char \<Rightarrow> u64" where
  "char_to_u64 c = scast (of_char c :: u8)"

fun SDBMHash_loop :: "string \<Rightarrow> u64 \<Rightarrow> u64" where
  "SDBMHash_loop [] hash = hash"
| "SDBMHash_loop (ch # cs) hash =
     (let c = char_to_u64 ch
      in SDBMHash_loop cs (c + push_bit 6 hash + push_bit 16 hash - hash))"

definition SDBMHash :: "string \<Rightarrow> u64" where
  "SDBMHash s = SDBMHash_loop s 0"

definition set_value :: "mem \<Rightarrow> cstr \<Rightarrow> String_obj \<Rightarrow> String_obj result" where
  "set_value m v str =
     rbind (deref m v) (\<lambda>s.
     Inr (str\<lparr>s_value := v, s_len := of_nat (length s), s_hash := SDBMHash s\<rparr>))"

definition String_Copy :: "cstr \<Rightarrow> mem \<Rightarrow> (String_obj \<times> mem) result" where
  "String_Copy cstr m =
     (if cstr = Null then Inl AssertFailure
      else rbind (deref m cstr) (\<lambda>s.
        let len = of_nat (length s); (p, m') = Malloc_copy s m in
        rbind (set_value m' p String_new) (\<lambda>hstr.
        if s_len hstr = len then Inr (hstr, m') else Inl AssertFailure)))"

definition String_Wrap :: "cstr \<Rightarrow> mem \<Rightarrow> String_obj result" where
  "String_Wrap cstr m = (if cstr = Null then Inl AssertFailure else set_value m cstr String_new)"

definition String_Free :: "String_obj \<Rightarrow> mem \<Rightarrow> mem result" where
  "String_Free hstr m = Free (s_value hstr) m"

definition String_eq :: "mem \<Rightarrow> String_obj \<Rightarrow> String_obj \<Rightarrow> bool result" where
  "String_eq m a b =
     (if s_hash a \<noteq> s_hash b then Inr False
      else rbind (deref m (s_value a)) (\<lambda>x. rbind (deref m (s_value b)) (\<lambda>y. Inr (x = y))))"

subsection \<open>Equality is equality of the texts\<close>

text \<open>A string that may be compared: its text can be read and its hash is that of the text.\<close>

definition readable :: "mem \<Rightarrow> String_obj \<Rightarrow> bool" where
  "readable m s \<longleftrightarrow> (\<exists>x. deref m (s_value s) = Inr x \<and> s_hash s = SDBMHash x)"

fun ptr_text :: "cstr \<Rightarrow> string" where
  "ptr_text Null = []"
| "ptr_text (Temp s) = c_str s"
| "ptr_text (Heap a s) = c_str s"

definition string_text :: "String_obj \<Rightarrow> string" where
  "string_text s = ptr_text (s_value s)"

lemma deref_text: "deref m p = Inr x \<Longrightarrow> x = ptr_text p"
  by (cases p) (auto split: if_splits)

text \<open>The hash comparison of \<^verbatim>\<open>operator==\<close> is only a short cut: it never changes the answer.\<close>

lemma String_eq_text:
  assumes "readable m a" and "readable m b"
  shows "String_eq m a b = Inr (string_text a = string_text b)"
proof -
  obtain x y where "deref m (s_value a) = Inr x" "s_hash a = SDBMHash x"
    "deref m (s_value b) = Inr y" "s_hash b = SDBMHash y"
    using assms by (auto simp: readable_def)
  then show ?thesis using deref_text [of m] by (auto simp: String_eq_def string_text_def)
qed

lemma Wrap_Temp: "String_Wrap (Temp s) m =
    Inr \<lparr>s_hash = SDBMHash (c_str s), s_value = Temp s, s_len = of_nat (length (c_str s))\<rparr>"
  by (simp add: String_Wrap_def set_value_def String_new_def)

lemma Copy_Temp:
  "String_Copy (Temp s) m =
     Inr (\<lparr>s_hash = SDBMHash (c_str s), s_value = Heap (m_next m) (c_str s), s_len = of_nat (length (c_str s))\<rparr>,
          m\<lparr>m_live := insert (m_next m) (m_live m), m_next := Suc (m_next m)\<rparr>)"
  by (simp add: String_Copy_def set_value_def String_new_def Malloc_copy_def)

text \<open>Addresses below the next one have been handed out; all live addresses are.\<close>

definition mem_ok :: "mem \<Rightarrow> bool" where
  "mem_ok m \<longleftrightarrow> (\<forall>a \<in> m_live m. a < m_next m)"

lemma mem_ok_new [simp]: "mem_ok mem_new"
  by (simp add: mem_ok_def mem_new_def)

lemma mem_ok_alloc [simp]:
  "mem_ok m \<Longrightarrow> mem_ok (m\<lparr>m_live := insert (m_next m) (m_live m), m_next := Suc (m_next m)\<rparr>)"
  by (auto simp: mem_ok_def)

lemma mem_ok_fresh: "mem_ok m \<Longrightarrow> m_next m \<notin> m_live m"
  by (auto simp: mem_ok_def)

lemma mem_ok_sub: "mem_ok m \<Longrightarrow> mem_ok (m\<lparr>m_live := m_live m - A\<rparr>)"
  by (auto simp: mem_ok_def)

text \<open>The hash is a polynomial in the characters with base 65599.\<close>

lemma SDBMHash_loop_eq: "SDBMHash_loop s h = foldl (\<lambda>h c. 65599 * h + char_to_u64 c) h s"
proof (induction s arbitrary: h)
  case (Cons c s)
  have "char_to_u64 c + push_bit 6 h + push_bit 16 h - h = 65599 * h + char_to_u64 c"
    by (simp add: push_bit_eq_mult algebra_simps)
  then show ?case using Cons by (simp only: SDBMHash_loop.simps Let_def foldl_Cons)
qed simp

end
