(* ===== verification/Hashtables.thy ===== *)
theory Hashtables
  imports Vmp_String "HOL-Library.Multiset"
begin

text \<open>
  \<^verbatim>\<open>lib/string_hashtable.h\<close> (the abstract table), \<^verbatim>\<open>lib/stl_hashtable.h\<close>,
  \<^verbatim>\<open>lib/lock_stl_hashtable.h\<close>, \<^verbatim>\<open>lib/tbb_rand_hashtable.h\<close> and \<^verbatim>\<open>lib/tbb_scan_hashtable.h\<close>.
  The containers the classes wrap (\<^verbatim>\<open>std::unordered_map\<close> and the two concurrent maps of the
  Threading Building Blocks) are a record of operations; the locale \<open>container\<close> states their
  documented behaviour over the elements in iteration order, and the model of
  \<^verbatim>\<open>std::unordered_map\<close> below satisfies it for any placement of new elements.
\<close>

subsection \<open>Containers\<close>

record ('c, 'v) container_ops =
  cm_empty :: 'c
  cm_find :: "String_obj \<Rightarrow> mem \<Rightarrow> 'c \<Rightarrow> (String_obj \<times> 'v) option result"
  cm_insert :: "String_obj \<times> 'v \<Rightarrow> mem \<Rightarrow> 'c \<Rightarrow> (bool \<times> 'c) result"
  cm_assign :: "String_obj \<Rightarrow> 'v \<Rightarrow> 'c \<Rightarrow> 'c"
  cm_erase :: "String_obj \<Rightarrow> 'c \<Rightarrow> 'c"
  cm_from :: "String_obj option \<Rightarrow> mem \<Rightarrow> 'c \<Rightarrow> (String_obj \<times> 'v) list result"
  cm_size :: "'c \<Rightarrow> nat"

text \<open>
  \<^verbatim>\<open>std::unordered_map\<close> as the list of its elements in iteration order. The order is not
  specified: \<open>place\<close> says where a new element goes, and may reorder the others (a rehash).
\<close>

fun umap_find :: "String_obj \<Rightarrow> mem \<Rightarrow> (String_obj \<times> 'v) list \<Rightarrow> (String_obj \<times> 'v) option result" where
  "umap_find q m [] = Inr None"
| "umap_find q m (e # es) =
     rbind (String_eq m (fst e) q) (\<lambda>b. if b then Inr (Some e) else umap_find q m es)"

definition umap_insert ::
  "((String_obj \<times> 'v) list \<Rightarrow> String_obj \<times> 'v \<Rightarrow> (String_obj \<times> 'v) list) \<Rightarrow>
   String_obj \<times> 'v \<Rightarrow> mem \<Rightarrow> (String_obj \<times> 'v) list \<Rightarrow> (bool \<times> (String_obj \<times> 'v) list) result" where
  "umap_insert place e m es =
     rbind (umap_find (fst e) m es) (\<lambda>r.
       case r of Some _ \<Rightarrow> Inr (False, es) | None \<Rightarrow> Inr (True, place es e))"

fun umap_from :: "String_obj \<Rightarrow> mem \<Rightarrow> (String_obj \<times> 'v) list \<Rightarrow> (String_obj \<times> 'v) list result" where
  "umap_from q m [] = Inr []"
| "umap_from q m (e # es) =
     rbind (String_eq m (fst e) q) (\<lambda>b. if b then Inr (e # es) else umap_from q m es)"

definition unordered_map ::
  "((String_obj \<times> 'v) list \<Rightarrow> String_obj \<times> 'v \<Rightarrow> (String_obj \<times> 'v) list) \<Rightarrow>
   ((String_obj \<times> 'v) list, 'v) container_ops" where
  "unordered_map place =
     \<lparr>cm_empty = [],
      cm_find = umap_find,
      cm_insert = umap_insert place,
      cm_assign = (\<lambda>q v. map (\<lambda>e. if fst e = q then (q, v) else e)),
      cm_erase = (\<lambda>q. filter (\<lambda>e. fst e \<noteq> q)),
      cm_from = (\<lambda>q m es. case q of None \<Rightarrow> Inr es | Some q \<Rightarrow> umap_from q m es),
      cm_size = length\<rparr>"

text \<open>What the hash tables rely on.\<close>

definition readable_all :: "mem \<Rightarrow> (String_obj \<times> 'v) list \<Rightarrow> bool" where
  "readable_all m es \<longleftrightarrow> (\<forall>e \<in> set es. readable m (fst e))"

definition has_text :: "String_obj \<Rightarrow> String_obj \<times> 'v \<Rightarrow> bool" where
  "has_text q e \<longleftrightarrow> string_text (fst e) = string_text q"

locale container =
  fixes C :: "('c, 'v) container_ops" and elems :: "'c \<Rightarrow> (String_obj \<times> 'v) list"
  assumes empty: "elems (cm_empty C) = []"
    and find: "readable_all m (elems c) \<Longrightarrow> readable m q \<Longrightarrow>
      cm_find C q m c = Inr (List.find (has_text q) (elems c))"
    and insert: "readable_all m (elems c) \<Longrightarrow> readable m (fst e) \<Longrightarrow>
      \<exists>c'. cm_insert C e m c = Inr (\<not> list_ex (has_text (fst e)) (elems c), c') \<and>
        mset (elems c') = (if list_ex (has_text (fst e)) (elems c) then {#} else {#e#}) + mset (elems c) \<and>
        (list_ex (has_text (fst e)) (elems c) \<longrightarrow> c' = c)"
    and assign: "elems (cm_assign C q v c) = map (\<lambda>e. if fst e = q then (q, v) else e) (elems c)"
    and erase: "elems (cm_erase C q c) = filter (\<lambda>e. fst e \<noteq> q) (elems c)"
    and from_begin: "cm_from C None m c = Inr (elems c)"
    and from_key: "readable_all m (elems c) \<Longrightarrow> readable m q \<Longrightarrow>
      cm_from C (Some q) m c = Inr (dropWhile (\<lambda>e. \<not> has_text q e) (elems c))"
    and size: "cm_size C c = length (elems c)"

lemma umap_find_eq:
  "readable_all m es \<Longrightarrow> readable m q \<Longrightarrow> umap_find q m es = Inr (List.find (has_text q) es)"
  by (induction es) (simp_all add: readable_all_def String_eq_text has_text_def)

lemma umap_from_eq:
  "readable_all m es \<Longrightarrow> readable m q \<Longrightarrow>
   umap_from q m es = Inr (dropWhile (\<lambda>e. \<not> has_text q e) es)"
  by (induction es) (simp_all add: readable_all_def String_eq_text has_text_def)

lemma find_None_list_ex: "List.find P xs = None \<longleftrightarrow> \<not> list_ex P xs"
  by (induction xs) simp_all

text \<open>The placement of a node-based hash map keeps the elements and adds the new one.\<close>

lemma unordered_map_container:
  fixes place :: "(String_obj \<times> 'v) list \<Rightarrow> String_obj \<times> 'v \<Rightarrow> (String_obj \<times> 'v) list"
  assumes "\<And>es e. mset (place es e) = add_mset e (mset es)"
  shows "container (unordered_map place) (\<lambda>es. es)"
proof unfold_locales
  fix m and c :: "(String_obj \<times> 'v) list" and e :: "String_obj \<times> 'v"
  assume r: "readable_all m c" "readable m (fst e)"
  show "\<exists>c'. cm_insert (unordered_map place) e m c = Inr (\<not> list_ex (has_text (fst e)) c, c') \<and>
        mset c' = (if list_ex (has_text (fst e)) c then {#} else {#e#}) + mset c \<and>
        (list_ex (has_text (fst e)) c \<longrightarrow> c' = c)"
    using umap_find_eq [OF r] assms find_None_list_ex [of "has_text (fst e)" c]
    by (auto simp: unordered_map_def umap_insert_def split: option.split)
qed (simp_all add: unordered_map_def umap_find_eq umap_from_eq)

text \<open>libstdc++ puts a node whose bucket is empty in front of the others.\<close>

definition push_front :: "'e list \<Rightarrow> 'e \<Rightarrow> 'e list" where
  "push_front es e = e # es"

interpretation umap: container "unordered_map push_front" "\<lambda>es. es"
  by (rule unordered_map_container) (simp add: push_front_def)

subsection \<open>The abstract table\<close>

record ('t, 'v) StringHashtable =
  sh_new :: 't
  sh_Get :: "cstr \<Rightarrow> mem \<Rightarrow> 't \<Rightarrow> 'v option result"
  sh_Insert :: "cstr \<Rightarrow> 'v \<Rightarrow> mem \<Rightarrow> 't \<Rightarrow> (bool \<times> mem \<times> 't) result"
  sh_Update :: "cstr \<Rightarrow> 'v \<Rightarrow> mem \<Rightarrow> 't \<Rightarrow> ('v option \<times> 't) result"
  sh_Remove :: "cstr \<Rightarrow> mem \<Rightarrow> 't \<Rightarrow> ('v option \<times> mem \<times> 't) result"
  sh_Entries :: "cstr \<Rightarrow> u64 \<Rightarrow> mem \<Rightarrow> 't \<Rightarrow> (cstr \<times> 'v) list result"
  sh_Size :: "'t \<Rightarrow> nat result"

subsection \<open>\<^verbatim>\<open>StlHashtable\<close>\<close>

definition Stl_Get :: "('c, 'v) container_ops \<Rightarrow> cstr \<Rightarrow> mem \<Rightarrow> 'c \<Rightarrow> 'v option result" where
  "Stl_Get C key m t =
     rbind (String_Wrap key m) (\<lambda>q.
     rbind (cm_find C q m t) (\<lambda>pos.
     case pos of None \<Rightarrow> Inr None | Some e \<Rightarrow> Inr (Some (snd e))))"

definition Stl_Insert ::
  "('c, 'v) container_ops \<Rightarrow> cstr \<Rightarrow> 'v \<Rightarrow> mem \<Rightarrow> 'c \<Rightarrow> (bool \<times> mem \<times> 'c) result" where
  "Stl_Insert C key value m t =
     (if key = Null then Inr (False, m, t)
      else rbind (String_Copy key m) (\<lambda>(skey, m').
           rbind (cm_insert C (skey, value) m' t) (\<lambda>(ok, t'). Inr (ok, m', t'))))"

definition Stl_Update ::
  "('c, 'v) container_ops \<Rightarrow> cstr \<Rightarrow> 'v \<Rightarrow> mem \<Rightarrow> 'c \<Rightarrow> ('v option \<times> 'c) result" where
  "Stl_Update C key value m t =
     rbind (String_Wrap key m) (\<lambda>q.
     rbind (cm_find C q m t) (\<lambda>pos.
     case pos of None \<Rightarrow> Inr (None, t)
     | Some e \<Rightarrow> Inr (Some (snd e), cm_assign C (fst e) value t)))"

definition Stl_Remove ::
  "('c, 'v) container_ops \<Rightarrow> cstr \<Rightarrow> mem \<Rightarrow> 'c \<Rightarrow> ('v option \<times> mem \<times> 'c) result" where
  "Stl_Remove C key m t =
     rbind (String_Wrap key m) (\<lambda>q.
     rbind (cm_find C q m t) (\<lambda>pos.
     case pos of None \<Rightarrow> Inr (None, m, t)
     | Some e \<Rightarrow> rbind (String_Free (fst e) m) (\<lambda>m'. Inr (Some (snd e), m', cm_erase C (fst e) t))))"

definition Stl_Entries ::
  "('c, 'v) container_ops \<Rightarrow> cstr \<Rightarrow> u64 \<Rightarrow> mem \<Rightarrow> 'c \<Rightarrow> (cstr \<times> 'v) list result" where
  "Stl_Entries C key n m t =
     rbind (if key = Null then cm_from C None m t
            else rbind (String_Wrap key m) (\<lambda>q. cm_from C (Some q) m t)) (\<lambda>es.
     Inr (map (\<lambda>e. (s_value (fst e), snd e)) (take (unat n) es)))"

definition StlHashtable :: "('c, 'v) container_ops \<Rightarrow> ('c, 'v) StringHashtable" where
  "StlHashtable C =
     \<lparr>sh_new = cm_empty C, sh_Get = Stl_Get C, sh_Insert = Stl_Insert C, sh_Update = Stl_Update C,
      sh_Remove = Stl_Remove C, sh_Entries = Stl_Entries C, sh_Size = (\<lambda>t. Inr (cm_size C t))\<rparr>"

subsection \<open>\<^verbatim>\<open>LockStlHashtable\<close>\<close>

text \<open>\<^verbatim>\<open>std::lock_guard\<close>: the mutex is taken on entry and released on every exit, so a call that
  returns leaves it as it was; a thread that already holds it blocks for ever.\<close>

record 'c LockStl =
  ls_table :: 'c
  ls_mutex :: bool

definition lock_guard :: "'c LockStl \<Rightarrow> ('c \<Rightarrow> 'r result) \<Rightarrow> 'r result" where
  "lock_guard t f = (if ls_mutex t then Inl Deadlock else f (ls_table t))"

definition LockStl_Get :: "('c, 'v) container_ops \<Rightarrow> cstr \<Rightarrow> mem \<Rightarrow> 'c LockStl \<Rightarrow> 'v option result" where
  "LockStl_Get C key m t = lock_guard t (Stl_Get C key m)"

definition LockStl_Insert ::
  "('c, 'v) container_ops \<Rightarrow> cstr \<Rightarrow> 'v \<Rightarrow> mem \<Rightarrow> 'c LockStl \<Rightarrow> (bool \<times> mem \<times> 'c LockStl) result" where
  "LockStl_Insert C key value m t =
     rbind (lock_guard t (Stl_Insert C key value m)) (\<lambda>(ok, m', c). Inr (ok, m', t\<lparr>ls_table := c\<rparr>))"

definition LockStl_Update ::
  "('c, 'v) container_ops \<Rightarrow> cstr \<Rightarrow> 'v \<Rightarrow> mem \<Rightarrow> 'c LockStl \<Rightarrow> ('v option \<times> 'c LockStl) result" where
  "LockStl_Update C key value m t =
     rbind (lock_guard t (Stl_Update C key value m)) (\<lambda>(old, c). Inr (old, t\<lparr>ls_table := c\<rparr>))"

definition LockStl_Remove ::
  "('c, 'v) container_ops \<Rightarrow> cstr \<Rightarrow> mem \<Rightarrow> 'c LockStl \<Rightarrow> ('v option \<times> mem \<times> 'c LockStl) result" where
  "LockStl_Remove C key m t =
     rbind (lock_guard t (Stl_Remove C key m)) (\<lambda>(old, m', c). Inr (old, m', t\<lparr>ls_table := c\<rparr>))"

definition LockStl_Entries ::
  "('c, 'v) container_ops \<Rightarrow> cstr \<Rightarrow> u64 \<Rightarrow> mem \<Rightarrow> 'c LockStl \<Rightarrow> (cstr \<times> 'v) list result" where
  "LockStl_Entries C key n m t = lock_guard t (Stl_Entries C key n m)"

definition LockStl_Size :: "('c, 'v) container_ops \<Rightarrow> 'c LockStl \<Rightarrow> nat result" where
  "LockStl_Size C t = lock_guard t (\<lambda>c. Inr (cm_size C c))"

definition LockStlHashtable :: "('c, 'v) container_ops \<Rightarrow> ('c LockStl, 'v) StringHashtable" where
  "LockStlHashtable C =
     \<lparr>sh_new = \<lparr>ls_table = cm_empty C, ls_mutex = False\<rparr>, sh_Get = LockStl_Get C,
      sh_Insert = LockStl_Insert C, sh_Update = LockStl_Update C, sh_Remove = LockStl_Remove C,
      sh_Entries = LockStl_Entries C, sh_Size = LockStl_Size C\<rparr>"

subsection \<open>\<^verbatim>\<open>TbbRandHashtable\<close> and \<^verbatim>\<open>TbbScanHashtable\<close>\<close>

text \<open>Both wrap a concurrent map with a reader-writer lock; \<^verbatim>\<open>scoped_lock(mutex_, false)\<close> reads,
  \<^verbatim>\<open>scoped_lock(mutex_)\<close> writes.\<close>

datatype rw_mutex = Unlocked | Reading nat | Writing

record 'c TbbTable =
  tb_table :: 'c
  tb_mutex :: rw_mutex

definition scoped_lock :: "bool \<Rightarrow> 'c TbbTable \<Rightarrow> ('c \<Rightarrow> 'r result) \<Rightarrow> 'r result" where
  "scoped_lock write t f =
     (if (if write then tb_mutex t \<noteq> Unlocked else tb_mutex t = Writing) then Inl Deadlock
      else f (tb_table t))"

definition Tbb_Get :: "('c, 'v) container_ops \<Rightarrow> cstr \<Rightarrow> mem \<Rightarrow> 'c TbbTable \<Rightarrow> 'v option result" where
  "Tbb_Get C key m t = scoped_lock False t (\<lambda>c.
     rbind (String_Wrap key m) (\<lambda>q.
     rbind (cm_find C q m c) (\<lambda>r. case r of None \<Rightarrow> Inr None | Some e \<Rightarrow> Inr (Some (snd e)))))"

definition Tbb_Insert ::
  "('c, 'v) container_ops \<Rightarrow> cstr \<Rightarrow> 'v \<Rightarrow> mem \<Rightarrow> 'c TbbTable \<Rightarrow> (bool \<times> mem \<times> 'c TbbTable) result" where
  "Tbb_Insert C key value m t =
     (if key = Null then Inr (False, m, t)
      else rbind (String_Copy key m) (\<lambda>(skey, m').
           scoped_lock False t (\<lambda>c.
           rbind (cm_insert C (skey, value) m' c) (\<lambda>(ok, c'). Inr (ok, m', t\<lparr>tb_table := c'\<rparr>)))))"

text \<open>\<^verbatim>\<open>Update\<close> and \<^verbatim>\<open>Remove\<close>: the random-access table locks for reading and relies on the
  accessor of the element, the scan table locks for writing.\<close>

definition Tbb_Update ::
  "bool \<Rightarrow> ('c, 'v) container_ops \<Rightarrow> cstr \<Rightarrow> 'v \<Rightarrow> mem \<Rightarrow> 'c TbbTable \<Rightarrow> ('v option \<times> 'c TbbTable) result" where
  "Tbb_Update write C key value m t = scoped_lock write t (\<lambda>c.
     rbind (String_Wrap key m) (\<lambda>q.
     rbind (cm_find C q m c) (\<lambda>r.
     case r of None \<Rightarrow> Inr (None, t)
     | Some e \<Rightarrow> Inr (Some (snd e), t\<lparr>tb_table := cm_assign C (fst e) value c\<rparr>))))"

definition Tbb_Remove ::
  "bool \<Rightarrow> ('c, 'v) container_ops \<Rightarrow> cstr \<Rightarrow> mem \<Rightarrow> 'c TbbTable \<Rightarrow> ('v option \<times> mem \<times> 'c TbbTable) result" where
  "Tbb_Remove write C key m t = scoped_lock write t (\<lambda>c.
     rbind (String_Wrap key m) (\<lambda>q.
     rbind (cm_find C q m c) (\<lambda>r.
     case r of None \<Rightarrow> Inr (None, m, t)
     | Some e \<Rightarrow> rbind (String_Free (fst e) m) (\<lambda>m'.
         Inr (Some (snd e), m', t\<lparr>tb_table := cm_erase C (fst e) c\<rparr>)))))"

definition Tbb_Entries ::
  "bool \<Rightarrow> ('c, 'v) container_ops \<Rightarrow> cstr \<Rightarrow> u64 \<Rightarrow> mem \<Rightarrow> 'c TbbTable \<Rightarrow> (cstr \<times> 'v) list result" where
  "Tbb_Entries write C key n m t = scoped_lock write t (\<lambda>c.
     rbind (if key \<noteq> Null then rbind (String_Wrap key m) (\<lambda>q. cm_from C (Some q) m c)
            else cm_from C None m c) (\<lambda>es.
     Inr (map (\<lambda>e. (s_value (fst e), snd e)) (take (unat n) es))))"

definition TbbRandHashtable :: "('c, 'v) container_ops \<Rightarrow> ('c TbbTable, 'v) StringHashtable" where
  "TbbRandHashtable C =
     \<lparr>sh_new = \<lparr>tb_table = cm_empty C, tb_mutex = Unlocked\<rparr>, sh_Get = Tbb_Get C,
      sh_Insert = Tbb_Insert C, sh_Update = Tbb_Update False C, sh_Remove = Tbb_Remove False C,
      sh_Entries = Tbb_Entries True C, sh_Size = (\<lambda>t. Inr (cm_size C (tb_table t)))\<rparr>"

definition TbbScanHashtable :: "('c, 'v) container_ops \<Rightarrow> ('c TbbTable, 'v) StringHashtable" where
  "TbbScanHashtable C =
     \<lparr>sh_new = \<lparr>tb_table = cm_empty C, tb_mutex = Unlocked\<rparr>, sh_Get = Tbb_Get C,
      sh_Insert = Tbb_Insert C, sh_Update = Tbb_Update True C, sh_Remove = Tbb_Remove True C,
      sh_Entries = Tbb_Entries False C, sh_Size = (\<lambda>t. Inr (cm_size C (tb_table t)))\<rparr>"

end
