(* ===== verification/Hashtable_Laws.thy ===== *)
theory Hashtable_Laws
  imports Hashtables
begin

text \<open>
  What every string hash table promises (the locale \<open>string_hashtable\<close>), proved once for any
  container and for each of the four classes. The laws speak of the entries of the table in
  iteration order and of the memory: which key copies a call allocates and frees.
\<close>

subsection \<open>Well-formed entries\<close>

fun ptr_addrs :: "cstr \<Rightarrow> nat set" where
  "ptr_addrs (Heap a s) = {a}"
| "ptr_addrs p = {}"

definition key_addrs :: "(String_obj \<times> 'v) list \<Rightarrow> nat set" where
  "key_addrs es = (\<Union>e \<in> set es. ptr_addrs (s_value (fst e)))"

text \<open>A key as \<^verbatim>\<open>String::Copy\<close> makes it, at address \<open>a\<close> and with text \<open>s\<close>.\<close>

definition key_obj :: "nat \<Rightarrow> string \<Rightarrow> String_obj" where
  "key_obj a s = \<lparr>s_hash = SDBMHash s, s_value = Heap a s, s_len = of_nat (length s)\<rparr>"

definition wf_key :: "mem \<Rightarrow> String_obj \<Rightarrow> bool" where
  "wf_key m k \<longleftrightarrow> (\<exists>a s. k = key_obj a s \<and> a \<in> m_live m \<and> c_str s = s)"

abbreviation entry_text :: "String_obj \<times> 'v \<Rightarrow> string" where
  "entry_text e \<equiv> string_text (fst e)"

definition wf_entries :: "mem \<Rightarrow> (String_obj \<times> 'v) list \<Rightarrow> bool" where
  "wf_entries m es \<longleftrightarrow> (\<forall>e \<in> set es. wf_key m (fst e)) \<and> distinct (map entry_text es) \<and>
     distinct (map (\<lambda>e. ptr_addrs (s_value (fst e))) es)"

definition lookup :: "(String_obj \<times> 'v) list \<Rightarrow> string \<Rightarrow> 'v option" where
  "lookup es = map_of (map (\<lambda>e. (entry_text e, snd e)) es)"

definition alloc :: "mem \<Rightarrow> mem" where
  "alloc m = m\<lparr>m_live := insert (m_next m) (m_live m), m_next := Suc (m_next m)\<rparr>"

definition free_addrs :: "nat set \<Rightarrow> mem \<Rightarrow> mem" where
  "free_addrs A m = m\<lparr>m_live := m_live m - A\<rparr>"

lemma key_obj_simps [simp]:
  "s_value (key_obj a s) = Heap a s" "string_text (key_obj a s) = c_str s"
  "key_obj a s = key_obj b t \<longleftrightarrow> a = b \<and> s = t"
  by (auto simp: key_obj_def string_text_def)

lemma wf_key_readable: "wf_key m k \<Longrightarrow> readable m k"
  by (auto simp: wf_key_def readable_def key_obj_def)

lemma wf_entries_readable: "wf_entries m es \<Longrightarrow> readable_all m es"
  by (auto simp: wf_entries_def readable_all_def wf_key_readable)

lemma wf_key_mono: "wf_key m k \<Longrightarrow> ptr_addrs (s_value k) \<subseteq> m_live m' \<Longrightarrow> wf_key m' k"
  by (auto simp: wf_key_def)

lemma wf_entries_mono: "wf_entries m es \<Longrightarrow> key_addrs es \<subseteq> m_live m' \<Longrightarrow> wf_entries m' es"
  using wf_key_mono [of m _ m'] by (simp add: wf_entries_def key_addrs_def UN_subset_iff)

lemma wf_key_live: "wf_key m k \<Longrightarrow> ptr_addrs (s_value k) \<subseteq> m_live m"
  by (auto simp: wf_key_def)

lemma wf_entries_live: "wf_entries m es \<Longrightarrow> key_addrs es \<subseteq> m_live m"
  unfolding wf_entries_def key_addrs_def using wf_key_live by (intro UN_least) blast

lemma mem_simps [simp]:
  "m_live (alloc m) = insert (m_next m) (m_live m)" "m_next (alloc m) = Suc (m_next m)"
  "m_live (free_addrs A m) = m_live m - A" "m_next (free_addrs A m) = m_next m"
  by (simp_all add: alloc_def free_addrs_def)

lemma mem_ok_simps [simp]: "mem_ok m \<Longrightarrow> mem_ok (alloc m)" "mem_ok m \<Longrightarrow> mem_ok (free_addrs A m)"
  by (auto simp: mem_ok_def)

lemma wf_entries_alloc [simp]:
  assumes "wf_entries m es"
  shows "wf_entries (alloc m) es"
  by (rule wf_entries_mono [OF assms]) (use wf_entries_live [OF assms] in auto)

lemma lookup_find: "lookup es s = map_option snd (List.find (\<lambda>e. entry_text e = s) es)"
  by (induction es) (simp_all add: lookup_def)

lemma lookup_None_iff: "lookup es s = None \<longleftrightarrow> \<not> list_ex (\<lambda>e. entry_text e = s) es"
  by (induction es) (auto simp: lookup_def)

lemma lookup_Some_iff:
  "wf_entries m es \<Longrightarrow> lookup es s = Some v \<longleftrightarrow> (\<exists>k. (k, v) \<in> set es \<and> string_text k = s)"
  unfolding lookup_def wf_entries_def
  by (subst map_of_eq_Some_iff) (force simp: comp_def)+

lemma lookup_mset:
  assumes "wf_entries m es" "wf_entries m' fs" "set fs = set es"
  shows "lookup fs = lookup es"
  using assms unfolding lookup_def wf_entries_def
  by (subst map_of_inject_set) (simp_all add: comp_def)

lemma distinct_map_mset: "mset xs = mset ys \<Longrightarrow> distinct (map f xs) = distinct (map f ys)"
  by (metis mset_eq_imp_distinct_iff mset_map)

text \<open>Adding a key copy that is not there yet.\<close>

lemma wf_entries_insert:
  assumes wf: "wf_entries m es" and ok: "mem_ok m" and new: "lookup es (c_str s) = None"
    and ms: "mset fs = add_mset (key_obj (m_next m) (c_str s), v) (mset es)"
  shows "wf_entries (alloc m) fs" and "key_addrs fs = insert (m_next m) (key_addrs es)"
    and "lookup fs = (lookup es)(c_str s \<mapsto> v)"
proof -
  let ?e = "(key_obj (m_next m) (c_str s), v)"
  have mse: "mset fs = mset (?e # es)" using ms by simp
  then have st: "set fs = set (?e # es)" by (rule mset_eq_setD)
  have key: "wf_key (alloc m) (key_obj (m_next m) (c_str s))"
    by (force simp: wf_key_def)
  have fresh: "ptr_addrs (s_value (fst e)) \<noteq> {m_next m}" if "e \<in> set es" for e
    using wf_key_live [of m "fst e"] wf that mem_ok_fresh [OF ok] by (auto simp: wf_entries_def)
  have "entry_text e \<noteq> c_str s" if "e \<in> set es" for e
    using new that by (auto simp: lookup_None_iff list_ex_iff)
  then have wfe: "wf_entries (alloc m) (?e # es)"
    using wf_entries_alloc [OF wf] key fresh unfolding wf_entries_def by (simp add: image_iff) metis
  show wf': "wf_entries (alloc m) fs"
    using wfe st distinct_map_mset [OF mse, of entry_text] distinct_map_mset [OF mse, of "\<lambda>e. ptr_addrs (s_value (fst e))"]
    unfolding wf_entries_def by blast
  show "key_addrs fs = insert (m_next m) (key_addrs es)" using st by (simp add: key_addrs_def)
  show "lookup fs = (lookup es)(c_str s \<mapsto> v)"
    using lookup_mset [OF wfe wf' st] by (simp add: lookup_def)
qed

text \<open>Overwriting a value and removing an entry.\<close>

definition set_entry :: "string \<Rightarrow> 'v \<Rightarrow> (String_obj \<times> 'v) list \<Rightarrow> (String_obj \<times> 'v) list" where
  "set_entry s v = map (\<lambda>e. if entry_text e = s then (fst e, v) else e)"

definition del_entry :: "string \<Rightarrow> (String_obj \<times> 'v) list \<Rightarrow> (String_obj \<times> 'v) list" where
  "del_entry s = filter (\<lambda>e. entry_text e \<noteq> s)"

lemma map_fst_set_entry [simp]: "map (\<lambda>e. f (fst e)) (set_entry s v es) = map (\<lambda>e. f (fst e)) es"
  by (simp add: set_entry_def comp_def if_distrib cong: if_cong)

lemma fst_set_entry: "fst ` set (set_entry s v es) = fst ` set es"
  using map_fst_set_entry [of "\<lambda>k. k" s v es] by (metis list.set_map)

lemma wf_set_entry [simp]: "wf_entries m (set_entry s v es) = wf_entries m es"
  and key_addrs_set_entry [simp]: "key_addrs (set_entry s v es) = key_addrs es"
proof -
  have "(\<forall>e \<in> set (set_entry s v es). P (fst e)) \<longleftrightarrow> (\<forall>e \<in> set es. P (fst e))" for P
    using fst_set_entry [of s v es] by (metis (no_types, lifting) imageE imageI)
  then show "wf_entries m (set_entry s v es) = wf_entries m es"
    using map_fst_set_entry [of "\<lambda>k. ptr_addrs (s_value k)" s v es] by (simp add: wf_entries_def)
  have "(\<Union>k \<in> fst ` set (set_entry s v es). ptr_addrs (s_value k)) = (\<Union>k \<in> fst ` set es. ptr_addrs (s_value k))"
    by (simp add: fst_set_entry)
  then show "key_addrs (set_entry s v es) = key_addrs es" by (simp add: key_addrs_def image_image)
qed

lemma lookup_set_entry_at:
  "lookup (set_entry s v es) x = (if x = s \<and> lookup es s \<noteq> None then Some v else lookup es x)"
  by (induction es) (auto simp: lookup_def set_entry_def)

lemma lookup_set_entry:
  "lookup es s = Some w \<Longrightarrow> lookup (set_entry s v es) = (lookup es)(s \<mapsto> v)"
  by (simp add: fun_eq_iff lookup_set_entry_at)

lemma lookup_del_entry: "lookup (del_entry s es) = (lookup es)(s := None)"
  by (induction es) (auto simp: lookup_def del_entry_def)

lemma wf_del_entry: "wf_entries m es \<Longrightarrow> wf_entries m (del_entry s es)"
  by (auto simp: wf_entries_def del_entry_def distinct_map_filter)

text \<open>The copies of two entries are at different addresses.\<close>

lemma key_addrs_del_entry:
  assumes "wf_entries m es" "(k, v) \<in> set es"
  shows "key_addrs (del_entry (string_text k) es) = key_addrs es - ptr_addrs (s_value k)"
proof -
  have k: "wf_key m k" using assms by (force simp: wf_entries_def)
  have inj: "inj_on (\<lambda>e. ptr_addrs (s_value (fst e))) (set es)"
    using assms(1) by (simp add: wf_entries_def distinct_map)
  have disj: "ptr_addrs (s_value (fst e)) \<inter> ptr_addrs (s_value k) = {}"
    if "e \<in> set es" "entry_text e \<noteq> string_text k" for e
  proof -
    have "wf_key m (fst e)" using assms that by (simp add: wf_entries_def)
    moreover have "ptr_addrs (s_value (fst e)) \<noteq> ptr_addrs (s_value k)"
      using inj_onD [OF inj _ that(1) assms(2)] that(2) by auto
    ultimately show ?thesis using k by (auto simp: wf_key_def)
  qed
  have same: "e = (k, v)" if "e \<in> set es" "entry_text e = string_text k" for e
    using assms that inj_onD [of entry_text "set es" e "(k, v)"] by (auto simp: wf_entries_def distinct_map)
  have "set es = insert (k, v) (set (del_entry (string_text k) es))"
  proof (intro equalityI subsetI)
    fix e
    assume "e \<in> set es"
    with same [of e] show "e \<in> insert (k, v) (set (del_entry (string_text k) es))"
      unfolding del_entry_def by (cases "entry_text e = string_text k") simp_all
  qed (use assms(2) in \<open>auto simp: del_entry_def\<close>)
  then have "key_addrs es = ptr_addrs (s_value k) \<union> key_addrs (del_entry (string_text k) es)"
    by (simp add: key_addrs_def)
  moreover have "key_addrs (del_entry (string_text k) es) \<inter> ptr_addrs (s_value k) = {}"
    using disj by (fastforce simp: key_addrs_def del_entry_def)
  ultimately show ?thesis by blast
qed

subsection \<open>The interface\<close>

text \<open>
  \<open>content t\<close> are the entries in iteration order; \<open>unlocked t\<close> says that no call is in
  progress. Keys are passed as the buffers of strings (\<open>Temp s\<close>).
\<close>

locale string_hashtable =
  fixes H :: "('t, 'v) StringHashtable" and content :: "'t \<Rightarrow> (String_obj \<times> 'v) list"
    and unlocked :: "'t \<Rightarrow> bool"
  assumes new_table: "content (sh_new H) = []" "unlocked (sh_new H)"
    and Get: "unlocked t \<Longrightarrow> wf_entries m (content t) \<Longrightarrow>
      sh_Get H (Temp s) m t = Inr (lookup (content t) (c_str s))"
    and Insert_new: "unlocked t \<Longrightarrow> wf_entries m (content t) \<Longrightarrow> lookup (content t) (c_str s) = None \<Longrightarrow>
      \<exists>t'. sh_Insert H (Temp s) v m t = Inr (True, alloc m, t') \<and> unlocked t' \<and>
        mset (content t') = add_mset (key_obj (m_next m) (c_str s), v) (mset (content t))"
    and Insert_old: "unlocked t \<Longrightarrow> wf_entries m (content t) \<Longrightarrow> lookup (content t) (c_str s) = Some w \<Longrightarrow>
      sh_Insert H (Temp s) v m t = Inr (False, alloc m, t)"
    and Update: "unlocked t \<Longrightarrow> wf_entries m (content t) \<Longrightarrow>
      \<exists>t'. sh_Update H (Temp s) v m t = Inr (lookup (content t) (c_str s), t') \<and> unlocked t' \<and>
        content t' = set_entry (c_str s) v (content t)"
    and Remove_none: "unlocked t \<Longrightarrow> wf_entries m (content t) \<Longrightarrow> lookup (content t) (c_str s) = None \<Longrightarrow>
      sh_Remove H (Temp s) m t = Inr (None, m, t)"
    and Remove: "unlocked t \<Longrightarrow> wf_entries m (content t) \<Longrightarrow> lookup (content t) (c_str s) = Some v \<Longrightarrow>
      \<exists>k. (k, v) \<in> set (content t) \<and> string_text k = c_str s \<and>
        (\<exists>t'. sh_Remove H (Temp s) m t = Inr (Some v, free_addrs (ptr_addrs (s_value k)) m, t') \<and>
          unlocked t' \<and> content t' = del_entry (c_str s) (content t))"
    and Entries_all: "unlocked t \<Longrightarrow>
      sh_Entries H Null n m t = Inr (map (\<lambda>e. (s_value (fst e), snd e)) (take (unat n) (content t)))"
    and Entries_from: "unlocked t \<Longrightarrow> wf_entries m (content t) \<Longrightarrow>
      sh_Entries H (Temp s) n m t = Inr (map (\<lambda>e. (s_value (fst e), snd e))
        (take (unat n) (dropWhile (\<lambda>e. entry_text e \<noteq> c_str s) (content t))))"
    and Size: "unlocked t \<Longrightarrow> sh_Size H t = Inr (length (content t))"

text \<open>The wrapped key has the hash and the text of its buffer.\<close>

lemma readable_Temp:
  "readable m \<lparr>s_hash = SDBMHash (c_str s), s_value = Temp s, s_len = n\<rparr>"
  "string_text \<lparr>s_hash = h, s_value = Temp s, s_len = n\<rparr> = c_str s"
  by (simp_all add: readable_def string_text_def)

lemma Copy_key_obj: "String_Copy (Temp s) m = Inr (key_obj (m_next m) (c_str s), alloc m)"
  by (simp add: Copy_Temp key_obj_def alloc_def)

text \<open>The key found is the one with the wanted text; freeing it frees its copy.\<close>

lemma find_entry:
  assumes "wf_entries m es" and "List.find (\<lambda>e. entry_text e = s) es = Some e"
  shows "e \<in> set es" and "entry_text e = s" and "lookup es s = Some (snd e)"
    and "String_Free (fst e) m = Inr (free_addrs (ptr_addrs (s_value (fst e))) m)"
    and "map (\<lambda>x. if fst x = fst e then (fst e, v) else x) es = set_entry s v es"
    and "filter (\<lambda>x. fst x \<noteq> fst e) es = del_entry s es"
proof -
  show e: "e \<in> set es" "entry_text e = s"
    using assms(2) by (auto simp: find_Some_iff)
  show "lookup es s = Some (snd e)" using assms(2) by (simp add: lookup_find)
  have "wf_key m (fst e)" using e assms(1) by (simp add: wf_entries_def)
  then show "String_Free (fst e) m = Inr (free_addrs (ptr_addrs (s_value (fst e))) m)"
    by (auto simp: wf_key_def String_Free_def free_addrs_def)
  have eq: "fst x = fst e \<longleftrightarrow> entry_text x = s" if "x \<in> set es" for x
    using assms(1) e that inj_onD [of entry_text "set es" x e] by (auto simp: wf_entries_def distinct_map)
  have "(if fst x = fst e then (fst e, v) else x) = (if entry_text x = s then (fst x, v) else x)"
    if "x \<in> set es" for x using eq [OF that] by auto
  then show "map (\<lambda>x. if fst x = fst e then (fst e, v) else x) es = set_entry s v es"
    unfolding set_entry_def by (intro map_cong) simp_all
  show "filter (\<lambda>x. fst x \<noteq> fst e) es = del_entry s es"
    unfolding del_entry_def using eq by (intro filter_cong) simp_all
qed

lemma set_entry_absent: "lookup es s = None \<Longrightarrow> set_entry s v es = es"
  by (auto simp: set_entry_def lookup_None_iff list_ex_iff intro!: map_idI)

subsection \<open>The four classes implement it\<close>

lemma has_text_Temp: "has_text \<lparr>s_hash = h, s_value = Temp s, s_len = n\<rparr> = (\<lambda>e. entry_text e = c_str s)"
  by (simp add: has_text_def readable_Temp fun_eq_iff)

lemma has_text_key_obj: "has_text (key_obj a s) = (\<lambda>e. entry_text e = c_str s)"
  by (simp add: has_text_def fun_eq_iff)

context container begin

lemma find_Temp:
  "wf_entries m (elems c) \<Longrightarrow>
   cm_find C \<lparr>s_hash = SDBMHash (c_str s), s_value = Temp s, s_len = n\<rparr> m c =
     Inr (List.find (\<lambda>e. entry_text e = c_str s) (elems c))"
  by (simp add: find wf_entries_readable readable_Temp has_text_Temp)

lemma Stl_Get_eq: "wf_entries m (elems c) \<Longrightarrow> Stl_Get C (Temp s) m c = Inr (lookup (elems c) (c_str s))"
  by (simp add: Stl_Get_def Wrap_Temp find_Temp lookup_find split: option.split)

lemma Stl_Insert_eq:
  assumes "wf_entries m (elems c)"
  shows "\<exists>c'. Stl_Insert C (Temp s) v m c = Inr (lookup (elems c) (c_str s) = None, alloc m, c') \<and>
    (if lookup (elems c) (c_str s) = None
     then mset (elems c') = add_mset (key_obj (m_next m) (c_str s), v) (mset (elems c)) else c' = c)"
proof -
  let ?k = "key_obj (m_next m) (c_str s)"
  have "readable (alloc m) ?k" by (rule wf_key_readable) (force simp: wf_key_def)
  from insert [of "alloc m" c "(?k, v)"] this wf_entries_readable [OF wf_entries_alloc [OF assms]]
  show ?thesis
    by (auto simp: Stl_Insert_def Copy_key_obj has_text_key_obj lookup_None_iff)
qed

lemma Stl_Update_eq:
  assumes "wf_entries m (elems c)"
  shows "\<exists>c'. Stl_Update C (Temp s) v m c = Inr (lookup (elems c) (c_str s), c') \<and>
    elems c' = set_entry (c_str s) v (elems c)"
proof (cases "List.find (\<lambda>e. entry_text e = c_str s) (elems c)")
  case None
  then show ?thesis
    using assms by (simp add: Stl_Update_def Wrap_Temp find_Temp lookup_find set_entry_absent)
next
  case (Some e)
  then show ?thesis
    using find_entry [OF assms Some] assms
    by (simp add: Stl_Update_def Wrap_Temp find_Temp assign)
qed

lemma Stl_Remove_None:
  assumes "wf_entries m (elems c)" and "lookup (elems c) (c_str s) = None"
  shows "Stl_Remove C (Temp s) m c = Inr (None, m, c)"
  using assms by (simp add: Stl_Remove_def Wrap_Temp find_Temp lookup_find)

lemma Stl_Remove_Some:
  assumes "wf_entries m (elems c)" and "lookup (elems c) (c_str s) = Some v"
  shows "\<exists>k. (k, v) \<in> set (elems c) \<and> string_text k = c_str s \<and>
    (\<exists>c'. Stl_Remove C (Temp s) m c = Inr (Some v, free_addrs (ptr_addrs (s_value k)) m, c') \<and>
      elems c' = del_entry (c_str s) (elems c))"
proof -
  obtain e where e: "List.find (\<lambda>e. entry_text e = c_str s) (elems c) = Some e" "snd e = v"
    using assms(2) by (auto simp: lookup_find)
  then show ?thesis
    using find_entry [OF assms(1) e(1)] assms(1)
    by (intro exI [of _ "fst e"]) (auto simp: Stl_Remove_def Wrap_Temp find_Temp erase)
qed

lemma Stl_Entries_all:
  "Stl_Entries C Null n m c = Inr (map (\<lambda>e. (s_value (fst e), snd e)) (take (unat n) (elems c)))"
  by (simp add: Stl_Entries_def from_begin)

lemma Stl_Entries_from:
  "wf_entries m (elems c) \<Longrightarrow> Stl_Entries C (Temp s) n m c = Inr (map (\<lambda>e. (s_value (fst e), snd e))
     (take (unat n) (dropWhile (\<lambda>e. entry_text e \<noteq> c_str s) (elems c))))"
  by (simp add: Stl_Entries_def Wrap_Temp from_key wf_entries_readable readable_Temp has_text_Temp)

lemmas Stl_eqs = Stl_Get_eq Stl_Remove_None Stl_Entries_all Stl_Entries_from size empty

lemma Tbb_eq_Stl:
  assumes "tb_mutex t = Unlocked"
  shows "Tbb_Get C key m t = Stl_Get C key m (tb_table t)"
    and "Tbb_Insert C key v m t = rbind (Stl_Insert C key v m (tb_table t))
      (\<lambda>(ok, m', c). Inr (ok, m', t\<lparr>tb_table := c\<rparr>))"
    and "Tbb_Update w C key v m t = rbind (Stl_Update C key v m (tb_table t))
      (\<lambda>(old, c). Inr (old, t\<lparr>tb_table := c\<rparr>))"
    and "Tbb_Remove w C key m t = rbind (Stl_Remove C key m (tb_table t))
      (\<lambda>(old, m', c). Inr (old, m', t\<lparr>tb_table := c\<rparr>))"
    and "Tbb_Entries w C key n m t = Stl_Entries C key n m (tb_table t)"
  using assms
  by (simp_all add: Tbb_Get_def Stl_Get_def Tbb_Insert_def Stl_Insert_def Tbb_Update_def Stl_Update_def
      Tbb_Remove_def Stl_Remove_def Tbb_Entries_def Stl_Entries_def scoped_lock_def rbind_def
      case_prod_beta split: sum.split option.split)

end

sublocale container \<subseteq> stl: string_hashtable "StlHashtable C" elems "\<lambda>_. True"
proof unfold_locales
  fix t m s v
  show "wf_entries m (elems t) \<Longrightarrow> lookup (elems t) (c_str s) = None \<Longrightarrow>
    \<exists>t'. sh_Insert (StlHashtable C) (Temp s) v m t = Inr (True, alloc m, t') \<and> True \<and>
      mset (elems t') = add_mset (key_obj (m_next m) (c_str s), v) (mset (elems t))"
    and "wf_entries m (elems t) \<Longrightarrow> lookup (elems t) (c_str s) = Some w \<Longrightarrow>
      sh_Insert (StlHashtable C) (Temp s) v m t = Inr (False, alloc m, t)" for w
    using Stl_Insert_eq [of m t s v] by (auto simp: StlHashtable_def)
qed (simp_all add: StlHashtable_def Stl_eqs Stl_Update_eq Stl_Remove_Some)

sublocale container \<subseteq> lockstl: string_hashtable "LockStlHashtable C" "\<lambda>t. elems (ls_table t)" "\<lambda>t. \<not> ls_mutex t"
proof unfold_locales
  fix t :: "'c LockStl" and m s v
  assume u: "\<not> ls_mutex t"
  show "wf_entries m (elems (ls_table t)) \<Longrightarrow> lookup (elems (ls_table t)) (c_str s) = None \<Longrightarrow>
    \<exists>t'. sh_Insert (LockStlHashtable C) (Temp s) v m t = Inr (True, alloc m, t') \<and> \<not> ls_mutex t' \<and>
      mset (elems (ls_table t')) = add_mset (key_obj (m_next m) (c_str s), v) (mset (elems (ls_table t)))"
    and "wf_entries m (elems (ls_table t)) \<Longrightarrow> lookup (elems (ls_table t)) (c_str s) = Some w \<Longrightarrow>
      sh_Insert (LockStlHashtable C) (Temp s) v m t = Inr (False, alloc m, t)" for w
    using u Stl_Insert_eq [of m "ls_table t" s v]
    by (auto simp: LockStlHashtable_def LockStl_Insert_def lock_guard_def)
next
  fix t :: "'c LockStl" and m s v
  assume u: "\<not> ls_mutex t" and wf: "wf_entries m (elems (ls_table t))"
  show "\<exists>t'. sh_Update (LockStlHashtable C) (Temp s) v m t = Inr (lookup (elems (ls_table t)) (c_str s), t') \<and>
      \<not> ls_mutex t' \<and> elems (ls_table t') = set_entry (c_str s) v (elems (ls_table t))"
    using u Stl_Update_eq [OF wf, of s v] by (auto simp: LockStlHashtable_def LockStl_Update_def lock_guard_def)
  show "lookup (elems (ls_table t)) (c_str s) = Some v \<Longrightarrow>
      \<exists>k. (k, v) \<in> set (elems (ls_table t)) \<and> string_text k = c_str s \<and>
        (\<exists>t'. sh_Remove (LockStlHashtable C) (Temp s) m t = Inr (Some v, free_addrs (ptr_addrs (s_value k)) m, t') \<and>
          \<not> ls_mutex t' \<and> elems (ls_table t') = del_entry (c_str s) (elems (ls_table t)))"
    using u Stl_Remove_Some [OF wf, of s v] by (fastforce simp: LockStlHashtable_def LockStl_Remove_def lock_guard_def)
qed (simp_all add: LockStlHashtable_def LockStl_Get_def LockStl_Remove_def LockStl_Entries_def
    LockStl_Size_def lock_guard_def Stl_eqs)

text \<open>The two classes over concurrent maps differ only in the lock they take.\<close>

context container begin

lemma Tbb_string_hashtable:
  assumes "sh_new H = \<lparr>tb_table = cm_empty C, tb_mutex = Unlocked\<rparr>" "sh_Get H = Tbb_Get C"
    "sh_Insert H = Tbb_Insert C" "sh_Update H = Tbb_Update w1 C" "sh_Remove H = Tbb_Remove w2 C"
    "sh_Entries H = Tbb_Entries w3 C" "sh_Size H = (\<lambda>t. Inr (cm_size C (tb_table t)))"
  shows "string_hashtable H (\<lambda>t. elems (tb_table t)) (\<lambda>t. tb_mutex t = Unlocked)"
proof unfold_locales
  fix t :: "'c TbbTable" and m s v
  assume u: "tb_mutex t = Unlocked"
  show "wf_entries m (elems (tb_table t)) \<Longrightarrow> lookup (elems (tb_table t)) (c_str s) = None \<Longrightarrow>
    \<exists>t'. sh_Insert H (Temp s) v m t = Inr (True, alloc m, t') \<and> tb_mutex t' = Unlocked \<and>
      mset (elems (tb_table t')) = add_mset (key_obj (m_next m) (c_str s), v) (mset (elems (tb_table t)))"
    and "wf_entries m (elems (tb_table t)) \<Longrightarrow> lookup (elems (tb_table t)) (c_str s) = Some w \<Longrightarrow>
      sh_Insert H (Temp s) v m t = Inr (False, alloc m, t)" for w
    using u Stl_Insert_eq [of m "tb_table t" s v] by (auto simp: assms Tbb_eq_Stl [OF u])
next
  fix t :: "'c TbbTable" and m s v
  assume u: "tb_mutex t = Unlocked" and wf: "wf_entries m (elems (tb_table t))"
  show "\<exists>t'. sh_Update H (Temp s) v m t = Inr (lookup (elems (tb_table t)) (c_str s), t') \<and>
      tb_mutex t' = Unlocked \<and> elems (tb_table t') = set_entry (c_str s) v (elems (tb_table t))"
    using u Stl_Update_eq [OF wf, of s v] by (auto simp: assms Tbb_eq_Stl [OF u])
  show "lookup (elems (tb_table t)) (c_str s) = Some v \<Longrightarrow>
      \<exists>k. (k, v) \<in> set (elems (tb_table t)) \<and> string_text k = c_str s \<and>
        (\<exists>t'. sh_Remove H (Temp s) m t = Inr (Some v, free_addrs (ptr_addrs (s_value k)) m, t') \<and>
          tb_mutex t' = Unlocked \<and> elems (tb_table t') = del_entry (c_str s) (elems (tb_table t)))"
    using u Stl_Remove_Some [OF wf, of s v] by (fastforce simp: assms Tbb_eq_Stl [OF u])
qed (simp_all add: assms Tbb_eq_Stl Stl_eqs)

end

sublocale container \<subseteq> tbbrand: string_hashtable "TbbRandHashtable C" "\<lambda>t. elems (tb_table t)" "\<lambda>t. tb_mutex t = Unlocked"
  by (rule Tbb_string_hashtable) (simp_all add: TbbRandHashtable_def)

sublocale container \<subseteq> tbbscan: string_hashtable "TbbScanHashtable C" "\<lambda>t. elems (tb_table t)" "\<lambda>t. tb_mutex t = Unlocked"
  by (rule Tbb_string_hashtable) (simp_all add: TbbScanHashtable_def)

context container begin

lemmas lockstl_table = lockstl.string_hashtable_axioms
lemmas tbbrand_table = tbbrand.string_hashtable_axioms
lemmas tbbscan_table = tbbscan.string_hashtable_axioms

end

end
