(* ===== verification/Hashtable_Db.thy ===== *)
theory Hashtable_Db
  imports Db_Client Hashtable_Laws
begin

text \<open>
  \<^verbatim>\<open>db/hashtable_db.h\<close>, \<^verbatim>\<open>db/hashtable_db.cc\<close> and the three databases built on it
  (\<^verbatim>\<open>db/lock_stl_db.h\<close>, \<^verbatim>\<open>db/tbb_rand_db.h\<close>, \<^verbatim>\<open>db/tbb_scan_db.h\<close>, which differ in the table
  class only). The state is the memory of C strings, the table of keys and a store of field
  tables, which the key table refers to by address. \<^verbatim>\<open>NULL\<close> results of a table are \<open>None\<close>; the
  strings stored as values are never \<^verbatim>\<open>NULL\<close>.
\<close>

record ('kt, 'ft) HashtableDB =
  hd_mem :: mem
  hd_keys :: 'kt
  hd_tabs :: "nat \<rightharpoonup> 'ft"
  hd_next :: nat

definition HashtableDB_new :: "('kt, nat) StringHashtable \<Rightarrow> ('kt, 'ft) HashtableDB" where
  "HashtableDB_new K = \<lparr>hd_mem = mem_new, hd_keys = sh_new K, hd_tabs = (\<lambda>_. None), hd_next = 0\<rparr>"

subsection \<open>Hooks of the concrete databases\<close>

definition NewFieldHashtable ::
  "('ft, cstr) StringHashtable \<Rightarrow> ('kt, 'ft) HashtableDB \<Rightarrow> nat \<times> ('kt, 'ft) HashtableDB" where
  "NewFieldHashtable T d =
     (hd_next d, d\<lparr>hd_tabs := (hd_tabs d)(hd_next d \<mapsto> sh_new T), hd_next := Suc (hd_next d)\<rparr>)"

definition CopyString :: "string \<Rightarrow> mem \<Rightarrow> cstr \<times> mem" where
  "CopyString str m = Malloc_copy (c_str str) m"

definition DeleteString :: "cstr \<Rightarrow> mem \<Rightarrow> mem result" where
  "DeleteString str m = Free str m"

fun DeleteStrings :: "(cstr \<times> cstr) list \<Rightarrow> mem \<Rightarrow> mem result" where
  "DeleteStrings [] m = Inr m"
| "DeleteStrings (p # ps) m = rbind (DeleteString (snd p) m) (DeleteStrings ps)"

text \<open>A field table is used through its address; after \<^verbatim>\<open>delete\<close> that is an invalid access.\<close>

definition field_table :: "('kt, 'ft) HashtableDB \<Rightarrow> nat \<Rightarrow> 'ft result" where
  "field_table d i = (case hd_tabs d i of None \<Rightarrow> Inl InvalidAccess | Some t \<Rightarrow> Inr t)"

definition DeleteFieldHashtable ::
  "('ft, cstr) StringHashtable \<Rightarrow> nat \<Rightarrow> ('kt, 'ft) HashtableDB \<Rightarrow> ('kt, 'ft) HashtableDB result" where
  "DeleteFieldHashtable T i d =
     rbind (field_table d i) (\<lambda>t.
     rbind (sh_Entries T Null (- 1) (hd_mem d) t) (\<lambda>pairs.
     rbind (DeleteStrings pairs (hd_mem d)) (\<lambda>m.
     Inr (d\<lparr>hd_mem := m, hd_tabs := (hd_tabs d)(i := None)\<rparr>))))"

subsection \<open>Reading\<close>

fun read_pairs :: "mem \<Rightarrow> (cstr \<times> cstr) list \<Rightarrow> KVPair list result" where
  "read_pairs m [] = Inr []"
| "read_pairs m (p # ps) =
     rbind (deref m (fst p)) (\<lambda>f. rbind (deref m (snd p)) (\<lambda>v.
     rbind (read_pairs m ps) (\<lambda>r. Inr ((f, v) # r))))"

fun read_fields ::
  "('ft, cstr) StringHashtable \<Rightarrow> mem \<Rightarrow> 'ft \<Rightarrow> string list \<Rightarrow> KVPair list result" where
  "read_fields T m t [] = Inr []"
| "read_fields T m t (f # fs) =
     rbind (sh_Get T (Temp f) m t) (\<lambda>value.
     case value of
       None \<Rightarrow> read_fields T m t fs
     | Some p \<Rightarrow> rbind (deref m p) (\<lambda>v. rbind (read_fields T m t fs) (\<lambda>r. Inr ((f, v) # r))))"

definition read_row ::
  "('ft, cstr) StringHashtable \<Rightarrow> mem \<Rightarrow> 'ft \<Rightarrow> string list option \<Rightarrow> KVPair list result" where
  "read_row T m t flds =
     (case flds of
        None \<Rightarrow> rbind (sh_Entries T Null (- 1) m t) (read_pairs m)
      | Some fs \<Rightarrow> read_fields T m t fs)"

definition HashtableDB_Read ::
  "('kt, nat) StringHashtable \<Rightarrow> ('ft, cstr) StringHashtable \<Rightarrow> string \<Rightarrow> string \<Rightarrow> string list option \<Rightarrow>
   ('kt, 'ft) HashtableDB \<Rightarrow> (int \<times> KVPair list \<times> ('kt, 'ft) HashtableDB) result" where
  "HashtableDB_Read K T table key flds d =
     (let key_index = table @ key in
      rbind (sh_Get K (Temp key_index) (hd_mem d) (hd_keys d)) (\<lambda>r.
      case r of
        None \<Rightarrow> Inr (kErrorNoData, [], d)
      | Some i \<Rightarrow> rbind (field_table d i) (\<lambda>t.
          rbind (read_row T (hd_mem d) t flds) (\<lambda>res. Inr (kOK, res, d)))))"

fun scan_rows ::
  "('ft, cstr) StringHashtable \<Rightarrow> ('kt, 'ft) HashtableDB \<Rightarrow> string list option \<Rightarrow> (cstr \<times> nat) list \<Rightarrow>
   KVPair list list result" where
  "scan_rows T d flds [] = Inr []"
| "scan_rows T d flds (p # ps) =
     rbind (field_table d (snd p)) (\<lambda>t.
     rbind (read_row T (hd_mem d) t flds) (\<lambda>row.
     rbind (scan_rows T d flds ps) (\<lambda>rows. Inr (row # rows))))"

definition HashtableDB_Scan ::
  "('kt, nat) StringHashtable \<Rightarrow> ('ft, cstr) StringHashtable \<Rightarrow> string \<Rightarrow> string \<Rightarrow> int \<Rightarrow> string list option \<Rightarrow>
   ('kt, 'ft) HashtableDB \<Rightarrow> (int \<times> KVPair list list \<times> ('kt, 'ft) HashtableDB) result" where
  "HashtableDB_Scan K T table key len flds d =
     (let key_index = table @ key in
      rbind (sh_Entries K (Temp key_index) (int_to_u64 len) (hd_mem d) (hd_keys d)) (\<lambda>key_pairs.
      rbind (scan_rows T d flds key_pairs) (\<lambda>rows. Inr (kOK, rows, d))))"

subsection \<open>Writing\<close>

text \<open>The loops over the values, on the memory and the field table: into a new table (the
  result of \<^verbatim>\<open>Insert\<close> is ignored), into an existing one, and for \<^verbatim>\<open>Insert\<close>.\<close>

fun fill_new ::
  "('ft, cstr) StringHashtable \<Rightarrow> KVPair list \<Rightarrow> mem \<Rightarrow> 'ft \<Rightarrow> (mem \<times> 'ft) result" where
  "fill_new T [] m t = Inr (m, t)"
| "fill_new T (p # ps) m t =
     (let (value, m1) = CopyString (snd p) m in
      rbind (sh_Insert T (Temp (fst p)) value m1 t) (\<lambda>(_, m2, t'). fill_new T ps m2 t'))"

fun fill_old ::
  "('ft, cstr) StringHashtable \<Rightarrow> KVPair list \<Rightarrow> mem \<Rightarrow> 'ft \<Rightarrow> (mem \<times> 'ft) result" where
  "fill_old T [] m t = Inr (m, t)"
| "fill_old T (p # ps) m t =
     (let (value, m1) = CopyString (snd p) m in
      rbind (sh_Update T (Temp (fst p)) value m1 t) (\<lambda>(old, t1).
      case old of
        None \<Rightarrow> rbind (sh_Insert T (Temp (fst p)) value m1 t1) (\<lambda>(_, m2, t2). fill_old T ps m2 t2)
      | Some o' \<Rightarrow> rbind (DeleteString o' m1) (\<lambda>m2. fill_old T ps m2 t1)))"

fun fill_insert ::
  "('ft, cstr) StringHashtable \<Rightarrow> KVPair list \<Rightarrow> mem \<Rightarrow> 'ft \<Rightarrow> (int \<times> mem \<times> 'ft) result" where
  "fill_insert T [] m t = Inr (kOK, m, t)"
| "fill_insert T (p # ps) m t =
     (let (value, m1) = CopyString (snd p) m in
      rbind (sh_Insert T (Temp (fst p)) value m1 t) (\<lambda>(ok, m2, t').
      if ok then fill_insert T ps m2 t'
      else rbind (DeleteString value m2) (\<lambda>m3. Inr (kErrorConflict, m3, t'))))"

text \<open>\<^verbatim>\<open>NewFieldHashtable\<close> and its entry in the key table, whose result is ignored too.\<close>

definition add_row ::
  "('kt, nat) StringHashtable \<Rightarrow> ('ft, cstr) StringHashtable \<Rightarrow> string \<Rightarrow> ('kt, 'ft) HashtableDB \<Rightarrow>
   (nat \<times> ('kt, 'ft) HashtableDB) result" where
  "add_row K T key_index d =
     (let (i, d1) = NewFieldHashtable T d in
      rbind (sh_Insert K (Temp key_index) i (hd_mem d1) (hd_keys d1)) (\<lambda>(_, m, ks).
      Inr (i, d1\<lparr>hd_mem := m, hd_keys := ks\<rparr>)))"

definition HashtableDB_Update ::
  "('kt, nat) StringHashtable \<Rightarrow> ('ft, cstr) StringHashtable \<Rightarrow> string \<Rightarrow> string \<Rightarrow> KVPair list \<Rightarrow>
   ('kt, 'ft) HashtableDB \<Rightarrow> (int \<times> ('kt, 'ft) HashtableDB) result" where
  "HashtableDB_Update K T table key values d =
     (let key_index = table @ key in
      rbind (sh_Get K (Temp key_index) (hd_mem d) (hd_keys d)) (\<lambda>r.
      case r of
        None \<Rightarrow> rbind (add_row K T key_index d) (\<lambda>(i, d1).
          rbind (field_table d1 i) (\<lambda>t.
          rbind (fill_new T values (hd_mem d1) t) (\<lambda>(m, t').
          Inr (kOK, d1\<lparr>hd_mem := m, hd_tabs := (hd_tabs d1)(i \<mapsto> t')\<rparr>))))
      | Some i \<Rightarrow> rbind (field_table d i) (\<lambda>t.
          rbind (fill_old T values (hd_mem d) t) (\<lambda>(m, t').
          Inr (kOK, d\<lparr>hd_mem := m, hd_tabs := (hd_tabs d)(i \<mapsto> t')\<rparr>)))))"

definition HashtableDB_Insert ::
  "('kt, nat) StringHashtable \<Rightarrow> ('ft, cstr) StringHashtable \<Rightarrow> string \<Rightarrow> string \<Rightarrow> KVPair list \<Rightarrow>
   ('kt, 'ft) HashtableDB \<Rightarrow> (int \<times> ('kt, 'ft) HashtableDB) result" where
  "HashtableDB_Insert K T table key values d =
     (let key_index = table @ key in
      rbind (sh_Get K (Temp key_index) (hd_mem d) (hd_keys d)) (\<lambda>r.
      rbind (case r of None \<Rightarrow> add_row K T key_index d | Some i \<Rightarrow> Inr (i, d)) (\<lambda>(i, d1).
      rbind (field_table d1 i) (\<lambda>t.
      rbind (fill_insert T values (hd_mem d1) t) (\<lambda>(status, m, t').
      Inr (status, d1\<lparr>hd_mem := m, hd_tabs := (hd_tabs d1)(i \<mapsto> t')\<rparr>))))))"

definition HashtableDB_Delete ::
  "('kt, nat) StringHashtable \<Rightarrow> ('ft, cstr) StringHashtable \<Rightarrow> string \<Rightarrow> string \<Rightarrow>
   ('kt, 'ft) HashtableDB \<Rightarrow> (int \<times> ('kt, 'ft) HashtableDB) result" where
  "HashtableDB_Delete K T table key d =
     (let key_index = table @ key in
      rbind (sh_Remove K (Temp key_index) (hd_mem d) (hd_keys d)) (\<lambda>(r, m, ks).
      let d1 = d\<lparr>hd_mem := m, hd_keys := ks\<rparr> in
      case r of
        None \<Rightarrow> Inr (kErrorNoData, d1)
      | Some i \<Rightarrow> rbind (DeleteFieldHashtable T i d1) (\<lambda>d2. Inr (kOK, d2))))"

text \<open>The destructor of the concrete databases.\<close>

fun DeleteFieldHashtables ::
  "('ft, cstr) StringHashtable \<Rightarrow> (cstr \<times> nat) list \<Rightarrow> ('kt, 'ft) HashtableDB \<Rightarrow> ('kt, 'ft) HashtableDB result" where
  "DeleteFieldHashtables T [] d = Inr d"
| "DeleteFieldHashtables T (p # ps) d =
     rbind (DeleteFieldHashtable T (snd p) d) (DeleteFieldHashtables T ps)"

definition HashtableDB_destroy ::
  "('kt, nat) StringHashtable \<Rightarrow> ('ft, cstr) StringHashtable \<Rightarrow>
   ('kt, 'ft) HashtableDB \<Rightarrow> ('kt, 'ft) HashtableDB result" where
  "HashtableDB_destroy K T d =
     rbind (sh_Entries K Null (- 1) (hd_mem d) (hd_keys d)) (\<lambda>key_pairs. DeleteFieldHashtables T key_pairs d)"

definition HashtableDB_DB ::
  "('kt, nat) StringHashtable \<Rightarrow> ('ft, cstr) StringHashtable \<Rightarrow> ('kt, 'ft) HashtableDB DB" where
  "HashtableDB_DB K T =
     \<lparr>db_Init = (\<lambda>flag d. d),
      db_Read = HashtableDB_Read K T,
      db_Scan = HashtableDB_Scan K T,
      db_Update = HashtableDB_Update K T,
      db_Insert = HashtableDB_Insert K T,
      db_Delete = HashtableDB_Delete K T\<rparr>"

definition LockStlDB ::
  "('kc, nat) container_ops \<Rightarrow> ('fc, cstr) container_ops \<Rightarrow> ('kc LockStl, 'fc LockStl) HashtableDB DB" where
  "LockStlDB C1 C2 = HashtableDB_DB (LockStlHashtable C1) (LockStlHashtable C2)"

definition TbbRandDB ::
  "('kc, nat) container_ops \<Rightarrow> ('fc, cstr) container_ops \<Rightarrow> ('kc TbbTable, 'fc TbbTable) HashtableDB DB" where
  "TbbRandDB C1 C2 = HashtableDB_DB (TbbRandHashtable C1) (TbbRandHashtable C2)"

definition TbbScanDB ::
  "('kc, nat) container_ops \<Rightarrow> ('fc, cstr) container_ops \<Rightarrow> ('kc TbbTable, 'fc TbbTable) HashtableDB DB" where
  "TbbScanDB C1 C2 = HashtableDB_DB (TbbScanHashtable C1) (TbbScanHashtable C2)"

end
