(* ===== verification/Hashtable_Rows.thy ===== *)
theory Hashtable_Rows
  imports Hashtable_Db
begin

text \<open>
  One field table (a row of the database) and the strings it owns: the copies of its field
  names and its values. The lemmas follow the loops of \<^verbatim>\<open>HashtableDB\<close> over the values and say
  what becomes of the row, of the strings it owns, and that no other string is freed.
\<close>

subsection \<open>Ownership\<close>

definition val_addrs :: "(String_obj \<times> cstr) list \<Rightarrow> nat set" where
  "val_addrs es = (\<Union>e \<in> set es. ptr_addrs (snd e))"

definition row_addrs :: "(String_obj \<times> cstr) list \<Rightarrow> nat set" where
  "row_addrs es = key_addrs es \<union> val_addrs es"

definition wf_val :: "mem \<Rightarrow> cstr \<Rightarrow> bool" where
  "wf_val m p \<longleftrightarrow> (\<exists>a s. p = Heap a s \<and> a \<in> m_live m \<and> c_str s = s)"

definition row_ok :: "mem \<Rightarrow> (String_obj \<times> cstr) list \<Rightarrow> bool" where
  "row_ok m es \<longleftrightarrow> wf_entries m es \<and> (\<forall>e \<in> set es. wf_val m (snd e)) \<and>
     distinct (map (\<lambda>e. ptr_addrs (snd e)) es) \<and> key_addrs es \<inter> val_addrs es = {}"

definition row :: "(String_obj \<times> cstr) list \<Rightarrow> string \<rightharpoonup> string" where
  "row es f = map_option ptr_text (lookup es f)"

text \<open>Between two memories: the strings outside \<open>A\<close> stay alive, and what is owned afterwards was
  owned before or is new.\<close>

definition evolves :: "mem \<Rightarrow> nat set \<Rightarrow> mem \<Rightarrow> nat set \<Rightarrow> bool" where
  "evolves m A m' A' \<longleftrightarrow> mem_ok m' \<and> A' \<subseteq> A \<union> {a. m_next m \<le> a} \<and> m_live m - A \<subseteq> m_live m' \<and>
     m_next m \<le> m_next m'"

lemma evolves_refl: "mem_ok m \<Longrightarrow> evolves m A m A"
  by (auto simp: evolves_def)

lemma evolves_trans:
  assumes "evolves m A m1 A1" "evolves m1 A1 m2 A2" and "mem_ok m"
  shows "evolves m A m2 A2"
proof -
  have "a \<in> m_live m2" if "a \<in> m_live m - A" for a
  proof -
    have "a \<in> m_live m1" "a < m_next m" using that assms by (auto simp: evolves_def mem_ok_def)
    moreover have "a \<notin> A1" using that assms(1) calculation(2) by (auto simp: evolves_def)
    ultimately show ?thesis using assms(2) by (auto simp: evolves_def)
  qed
  moreover have "A2 \<subseteq> A \<union> {a. m_next m \<le> a}" using assms by (fastforce simp: evolves_def)
  ultimately show ?thesis using assms by (auto simp: evolves_def)
qed

lemma wf_val_live: "wf_val m p \<Longrightarrow> ptr_addrs p \<subseteq> m_live m"
  by (auto simp: wf_val_def)

lemma wf_val_mono: "wf_val m p \<Longrightarrow> ptr_addrs p \<subseteq> m_live m' \<Longrightarrow> wf_val m' p"
  by (auto simp: wf_val_def)

lemma row_addrs_live: "row_ok m es \<Longrightarrow> row_addrs es \<subseteq> m_live m"
  using wf_entries_live [of m es] wf_val_live [of m]
  by (force simp: row_ok_def row_addrs_def val_addrs_def UN_subset_iff)

lemma row_ok_mono:
  assumes "row_ok m es" and "row_addrs es \<subseteq> m_live m'"
  shows "row_ok m' es"
proof -
  have "wf_entries m' es" using assms by (auto simp: row_ok_def row_addrs_def intro: wf_entries_mono)
  moreover have "wf_val m' (snd e)" if "e \<in> set es" for e
  proof (rule wf_val_mono)
    show "wf_val m (snd e)" using assms(1) that by (simp add: row_ok_def)
    show "ptr_addrs (snd e) \<subseteq> m_live m'"
      using assms(2) that unfolding row_addrs_def val_addrs_def by blast
  qed
  ultimately show ?thesis using assms(1) by (simp add: row_ok_def)
qed

lemma row_ok_Nil [simp]: "row_ok m []" "row_addrs [] = {}" "row [] = Map.empty"
  by (simp_all add: row_ok_def row_addrs_def val_addrs_def key_addrs_def wf_entries_def row_def
      lookup_def fun_eq_iff)

lemma row_perm:
  assumes "mset fs = mset es"
  shows "row_ok m fs = row_ok m es" and "row_addrs fs = row_addrs es"
    and "row_ok m es \<Longrightarrow> row fs = row es"
proof -
  have st: "set fs = set es" using assms by (rule mset_eq_setD)
  then show ra: "row_addrs fs = row_addrs es" by (simp add: row_addrs_def key_addrs_def val_addrs_def)
  have wf: "wf_entries m fs = wf_entries m es"
    using st distinct_map_mset [OF assms, of entry_text]
      distinct_map_mset [OF assms, of "\<lambda>e. ptr_addrs (s_value (fst e))"] by (simp add: wf_entries_def)
  then show ok: "row_ok m fs = row_ok m es"
    using st distinct_map_mset [OF assms, of "\<lambda>e. ptr_addrs (snd e)"]
    by (simp add: row_ok_def key_addrs_def val_addrs_def)
  show "row fs = row es" if "row_ok m es"
    using that wf lookup_mset [of m es m fs] st by (simp add: row_ok_def row_def fun_eq_iff)
qed

subsection \<open>One new field, one overwritten value\<close>

lemma row_ok_Cons:
  assumes "row_ok m es" and "row es f = None" and "c_str f = f" "c_str v = v"
    and "a \<noteq> b" and "a \<notin> row_addrs es" and "b \<notin> row_addrs es" and "a \<in> m_live m" "b \<in> m_live m"
  shows "row_ok m ((key_obj a f, Heap b v) # es)"
proof -
  let ?e = "(key_obj a f, Heap b v)"
  have "wf_key m (key_obj a f)" using assms by (auto simp: wf_key_def)
  moreover have "f \<notin> entry_text ` set es"
    using assms(2) by (auto simp: row_def lookup_None_iff list_ex_iff)
  moreover have "{a} \<notin> (\<lambda>e. ptr_addrs (s_value (fst e))) ` set es"
    using assms(6) unfolding row_addrs_def key_addrs_def by auto
  ultimately have "wf_entries m (?e # es)"
    using assms(1,3) by (simp add: row_ok_def wf_entries_def)
  moreover have "wf_val m (Heap b v)" using assms by (auto simp: wf_val_def)
  moreover have "{b} \<notin> (\<lambda>e. ptr_addrs (snd e)) ` set es"
    using assms(7) unfolding row_addrs_def val_addrs_def by auto
  moreover have "key_addrs (?e # es) \<inter> val_addrs (?e # es) = {}"
    using assms(1,5-7) unfolding row_ok_def by (auto simp: row_addrs_def key_addrs_def val_addrs_def)
  ultimately show ?thesis using assms(1) by (simp add: row_ok_def)
qed

lemma row_insert:
  assumes "row_ok m es" and "mem_ok m" and "row es f = None" and "c_str f = f" "c_str v = v"
    and "mset fs = add_mset (key_obj (Suc (m_next m)) f, Heap (m_next m) v) (mset es)"
  shows "row_ok (alloc (alloc m)) fs" and "row fs = (row es)(f \<mapsto> v)"
    and "evolves m (row_addrs es) (alloc (alloc m)) (row_addrs fs)"
proof -
  let ?e = "(key_obj (Suc (m_next m)) f, Heap (m_next m) v)" and ?m = "alloc (alloc m)"
  have fresh: "a \<notin> row_addrs es" if "m_next m \<le> a" for a
    using row_addrs_live [OF assms(1)] assms(2) that by (fastforce simp: mem_ok_def)
  have "row_ok ?m es" using row_addrs_live [OF assms(1)] by (intro row_ok_mono [OF assms(1)]) auto
  then have ok: "row_ok ?m (?e # es)"
    using assms(3-5) fresh by (intro row_ok_Cons) auto
  have ms: "mset fs = mset (?e # es)" using assms(6) by simp
  show "row_ok ?m fs" using ok row_perm(1) [OF ms] by simp
  show "row fs = (row es)(f \<mapsto> v)"
    using row_perm(3) [OF ms ok] assms(4,5) by (simp add: row_def lookup_def fun_eq_iff)
  show "evolves m (row_addrs es) ?m (row_addrs fs)"
    using row_perm(2) [OF ms] assms(2)
    by (auto simp: evolves_def row_addrs_def key_addrs_def val_addrs_def)
qed

lemma set_set_entry:
  assumes "wf_entries m es" and "(k, old) \<in> set es"
  shows "set (set_entry (string_text k) p es) = insert (k, p) (set es - {(k, old)})"
proof -
  have same: "e = (k, old)" if "e \<in> set es" "entry_text e = string_text k" for e
    using assms that inj_onD [of entry_text "set es" e "(k, old)"] by (auto simp: wf_entries_def distinct_map)
  show ?thesis
  proof (intro equalityI subsetI)
    fix x
    assume "x \<in> set (set_entry (string_text k) p es)"
    then obtain e where "e \<in> set es" "x = (if entry_text e = string_text k then (fst e, p) else e)"
      unfolding set_entry_def set_map by blast
    then show "x \<in> insert (k, p) (set es - {(k, old)})"
      using same [of e] by (cases "entry_text e = string_text k") auto
  next
    fix x
    assume "x \<in> insert (k, p) (set es - {(k, old)})"
    then show "x \<in> set (set_entry (string_text k) p es)"
      using assms(2) same [of x] by (force simp: set_entry_def image_iff)
  qed
qed

lemma distinct_vals_set_entry:
  assumes "row_ok m es" and "n \<notin> m_live m"
  shows "distinct (map (\<lambda>e. ptr_addrs (snd e)) (set_entry f (Heap n v) es))"
proof -
  let ?g = "\<lambda>e. ptr_addrs (if entry_text e = f then Heap n v else snd e)"
  have ok: "inj_on entry_text (set es)" "inj_on (\<lambda>e. ptr_addrs (snd e)) (set es)" "distinct es"
    using assms(1) by (auto simp: row_ok_def wf_entries_def distinct_map)
  have fresh: "{n} \<noteq> ptr_addrs (snd e)" if "e \<in> set es" for e
    using assms that wf_val_live [of m "snd e"] by (auto simp: row_ok_def)
  have "inj_on ?g (set es)"
  proof (rule inj_onI)
    fix x y
    assume x: "x \<in> set es" "y \<in> set es" "?g x = ?g y"
    show "x = y"
      using x fresh [OF x(1)] fresh [OF x(2)] inj_onD [OF ok(1) _ x(1,2)] inj_onD [OF ok(2) _ x(1,2)]
      by (auto split: if_splits)
  qed
  moreover have "map (\<lambda>e. ptr_addrs (snd e)) (set_entry f (Heap n v) es) = map ?g es"
    by (simp add: set_entry_def)
  ultimately show ?thesis using ok(3) by (simp add: distinct_map)
qed

lemma row_update:
  assumes ok: "row_ok m es" and m: "mem_ok m" and old: "lookup es f = Some old" and v: "c_str v = v"
  defines "fs \<equiv> set_entry f (Heap (m_next m) v) es"
  shows "\<exists>m'. Free old (alloc m) = Inr m' \<and> row_ok m' fs \<and> row fs = (row es)(f \<mapsto> v) \<and>
    evolves m (row_addrs es) m' (row_addrs fs)"
proof -
  let ?n = "m_next m"
  have wf: "wf_entries m es" using ok by (simp add: row_ok_def)
  obtain k where k: "(k, old) \<in> set es" "string_text k = f" using lookup_Some_iff [OF wf] old by blast
  then obtain a s where a: "old = Heap a s" "a \<in> m_live m" using ok by (force simp: row_ok_def wf_val_def)
  let ?m = "free_addrs {a} (alloc m)"
  have fresh: "?n \<notin> m_live m" using m by (rule mem_ok_fresh)
  have free: "Free old (alloc m) = Inr ?m" using a by (simp add: free_addrs_def)
  have st: "set fs = insert (k, Heap ?n v) (set es - {(k, old)})"
    using set_set_entry [OF wf k(1)] k(2) by (simp add: fs_def)
  have inj: "inj_on (\<lambda>e. ptr_addrs (snd e)) (set es)" using ok by (simp add: row_ok_def distinct_map)
  have va: "val_addrs fs = insert ?n (val_addrs es - {a})"
  proof -
    let ?S = "\<Union>e \<in> set es - {(k, old)}. ptr_addrs (snd e)"
    have "a \<notin> ptr_addrs (snd e)" if e: "e \<in> set es" "e \<noteq> (k, old)" for e
    proof -
      have "wf_val m (snd e)" using ok e by (simp add: row_ok_def)
      then show ?thesis using inj_onD [OF inj _ e(1) k(1)] e(2) a(1) by (auto simp: wf_val_def)
    qed
    then have "a \<notin> ?S" by blast
    moreover have "val_addrs es = insert a ?S"
      using k(1) a(1) UN_insert [of "\<lambda>e. ptr_addrs (snd e)" "(k, old)" "set es - {(k, old)}"]
      by (simp add: val_addrs_def insert_absorb)
    moreover have "val_addrs fs = insert ?n ?S" by (simp add: val_addrs_def st)
    ultimately show ?thesis by simp
  qed
  have ka: "key_addrs fs = key_addrs es" by (simp add: fs_def)
  have disj: "key_addrs es \<inter> val_addrs es = {}" using ok by (simp add: row_ok_def)
  have aval: "a \<in> val_addrs es" using k a(1) by (force simp: val_addrs_def)
  have live: "row_addrs es \<subseteq> m_live m" by (rule row_addrs_live [OF ok])
  have "row_ok ?m fs"
  proof -
    have "key_addrs es \<subseteq> m_live ?m" using live disj aval by (auto simp: row_addrs_def)
    then have "wf_entries ?m fs" using wf_entries_mono [OF wf, of ?m] by (simp add: fs_def)
    moreover have "wf_val ?m (snd e)" if "e \<in> set fs" for e
    proof (rule wf_val_mono)
      show "wf_val (alloc m) (snd e)"
        using that ok v by (auto simp: st row_ok_def wf_val_def)
      show "ptr_addrs (snd e) \<subseteq> m_live ?m"
      proof -
        have "ptr_addrs (snd e) \<subseteq> val_addrs fs" using that by (auto simp: val_addrs_def)
        then show ?thesis using va live fresh a(2) by (auto simp: row_addrs_def)
      qed
    qed
    moreover have "key_addrs fs \<inter> val_addrs fs = {}"
      using ka va disj live fresh by (auto simp: row_addrs_def)
    ultimately show ?thesis using distinct_vals_set_entry [OF ok fresh] by (simp add: row_ok_def fs_def)
  qed
  moreover have "row fs = (row es)(f \<mapsto> v)"
    using lookup_set_entry [OF old] v by (simp add: row_def fs_def fun_eq_iff)
  moreover have "evolves m (row_addrs es) ?m (row_addrs fs)"
    using m ka va aval by (auto simp: evolves_def row_addrs_def)
  ultimately show ?thesis using free by blast
qed

subsection \<open>What the loops compute\<close>

text \<open>On plain maps: a field is kept if it is there already, is overwritten, or ends the loop
  with a conflict. Names and values are C strings: a NUL ends them.\<close>

fun spec_fill_new :: "KVPair list \<Rightarrow> (string \<rightharpoonup> string) \<Rightarrow> (string \<rightharpoonup> string)" where
  "spec_fill_new [] r = r"
| "spec_fill_new (p # ps) r =
     spec_fill_new ps (if r (c_str (fst p)) = None then r(c_str (fst p) \<mapsto> c_str (snd p)) else r)"

fun spec_fill_old :: "KVPair list \<Rightarrow> (string \<rightharpoonup> string) \<Rightarrow> (string \<rightharpoonup> string)" where
  "spec_fill_old [] r = r"
| "spec_fill_old (p # ps) r = spec_fill_old ps (r(c_str (fst p) \<mapsto> c_str (snd p)))"

fun spec_fill_insert :: "KVPair list \<Rightarrow> (string \<rightharpoonup> string) \<Rightarrow> int \<times> (string \<rightharpoonup> string)" where
  "spec_fill_insert [] r = (kOK, r)"
| "spec_fill_insert (p # ps) r =
     (if r (c_str (fst p)) = None then spec_fill_insert ps (r(c_str (fst p) \<mapsto> c_str (snd p)))
      else (kErrorConflict, r))"

lemma CopyString_eq: "CopyString v m = (Heap (m_next m) (c_str v), alloc m)"
  by (simp add: CopyString_def Malloc_copy_def alloc_def)

text \<open>The memory after a copy that was not stored: still fine for the row.\<close>

lemma row_alloc: "row_ok m es \<Longrightarrow> row_ok (alloc m) es"
  by (rule row_ok_mono, assumption) (use row_addrs_live [of m es] in auto)

lemma evolves_alloc: "mem_ok m \<Longrightarrow> evolves m A (alloc m) A"
  by (auto simp: evolves_def)

text \<open>Freeing values that are alive and at different addresses.\<close>

lemma DeleteStrings_ok:
  "\<forall>p \<in> set ps. wf_val m (snd p) \<Longrightarrow> distinct (map (\<lambda>p. ptr_addrs (snd p)) ps) \<Longrightarrow>
   DeleteStrings ps m = Inr (free_addrs (\<Union>p \<in> set ps. ptr_addrs (snd p)) m)"
proof (induction ps arbitrary: m)
  case Nil
  then show ?case by (simp add: free_addrs_def)
next
  case (Cons p ps)
  obtain a s where p: "snd p = Heap a s" "a \<in> m_live m" using Cons.prems(1) by (auto simp: wf_val_def)
  have "wf_val (free_addrs {a} m) (snd q)" if "q \<in> set ps" for q
    using that Cons.prems p by (force simp: wf_val_def)
  with Cons.IH [of "free_addrs {a} m"] Cons.prems(2) p show ?case
    by (simp add: DeleteString_def free_addrs_def Diff_insert2 [symmetric])
qed

lemma read_pairs_ok:
  "\<forall>e \<in> set es. wf_key m (fst e) \<and> wf_val m (snd e) \<Longrightarrow>
   read_pairs m (map (\<lambda>e. (s_value (fst e), snd e)) es) = Inr (map (\<lambda>e. (entry_text e, ptr_text (snd e))) es)"
  by (induction es) (auto simp: wf_key_def wf_val_def)

definition spec_read :: "(string \<rightharpoonup> string) \<Rightarrow> string list \<Rightarrow> KVPair list" where
  "spec_read r fs = concat (map (\<lambda>f. case r (c_str f) of None \<Rightarrow> [] | Some v \<Rightarrow> [(f, v)]) fs)"

locale field_tables = string_hashtable T content unlocked
  for T :: "('ft, cstr) StringHashtable" and content and unlocked
begin

definition tab_ok :: "mem \<Rightarrow> 'ft \<Rightarrow> bool" where
  "tab_ok m t \<longleftrightarrow> unlocked t \<and> row_ok m (content t)"

abbreviation tab_evolves :: "mem \<Rightarrow> 'ft \<Rightarrow> mem \<Rightarrow> 'ft \<Rightarrow> bool" where
  "tab_evolves m t m' t' \<equiv> evolves m (row_addrs (content t)) m' (row_addrs (content t'))"

lemma tab_ok_wf: "tab_ok m t \<Longrightarrow> unlocked t" "tab_ok m t \<Longrightarrow> wf_entries m (content t)"
  by (simp_all add: tab_ok_def row_ok_def)

lemma row_None_iff: "row es f = None \<longleftrightarrow> lookup es f = None"
  by (simp add: row_def)

lemma insert_field_new:
  assumes "tab_ok m t" and "mem_ok m" and "row (content t) (c_str f) = None"
  shows "\<exists>t'. sh_Insert T (Temp f) (Heap (m_next m) (c_str v)) (alloc m) t = Inr (True, alloc (alloc m), t') \<and>
    tab_ok (alloc (alloc m)) t' \<and> row (content t') = (row (content t))(c_str f \<mapsto> c_str v) \<and>
    tab_evolves m t (alloc (alloc m)) t'"
proof -
  have "lookup (content t) (c_str f) = None" using assms(3) by (simp add: row_None_iff)
  from Insert_new [OF tab_ok_wf(1) wf_entries_alloc [OF tab_ok_wf(2)] this] assms(1)
  obtain t' where t': "unlocked t'"
    "sh_Insert T (Temp f) (Heap (m_next m) (c_str v)) (alloc m) t = Inr (True, alloc (alloc m), t')"
    "mset (content t') = add_mset (key_obj (Suc (m_next m)) (c_str f), Heap (m_next m) (c_str v)) (mset (content t))"
    by fastforce
  then show ?thesis
    using row_insert [OF _ assms(2,3) _ _ t'(3)] assms(1) by (auto simp: tab_ok_def)
qed

lemma insert_field_old:
  assumes "tab_ok m t" and "mem_ok m" and "row (content t) (c_str f) = Some w"
  shows "sh_Insert T (Temp f) v (alloc m) t = Inr (False, alloc (alloc m), t)"
    and "tab_ok (alloc (alloc m)) t" and "tab_evolves m t (alloc (alloc m)) t"
proof -
  obtain p where "lookup (content t) (c_str f) = Some p" using assms(3) by (auto simp: row_def)
  then show "sh_Insert T (Temp f) v (alloc m) t = Inr (False, alloc (alloc m), t)"
    using Insert_old [OF tab_ok_wf(1) wf_entries_alloc [OF tab_ok_wf(2)]] assms(1) by blast
  show "tab_ok (alloc (alloc m)) t" using assms(1) by (simp add: tab_ok_def row_alloc)
  show "tab_evolves m t (alloc (alloc m)) t"
    using assms(2) by (intro evolves_trans [OF evolves_alloc evolves_alloc]) simp_all
qed

lemma fill_new_ok:
  assumes "tab_ok m t" and "mem_ok m"
  shows "\<exists>m' t'. fill_new T vs m t = Inr (m', t') \<and> tab_ok m' t' \<and> tab_evolves m t m' t' \<and>
    row (content t') = spec_fill_new vs (row (content t))"
  using assms
proof (induction vs arbitrary: m t)
  case Nil
  then show ?case by (simp add: evolves_refl)
next
  case (Cons p vs)
  let ?m = "alloc (alloc m)" and ?v = "Heap (m_next m) (c_str (snd p))"
  obtain ok t1 where t1: "sh_Insert T (Temp (fst p)) ?v (alloc m) t = Inr (ok, ?m, t1)"
    "tab_ok ?m t1" "tab_evolves m t ?m t1"
    "spec_fill_new (p # vs) (row (content t)) = spec_fill_new vs (row (content t1))"
  proof (cases "row (content t) (c_str (fst p))")
    case None
    show thesis using insert_field_new [OF Cons.prems None, of "snd p"] None by (auto intro: that)
  next
    case (Some w)
    show thesis using insert_field_old [OF Cons.prems Some] Some by (auto intro: that)
  qed
  from Cons.IH [OF t1(2)] Cons.prems(2) obtain m' t' where
    "fill_new T vs ?m t1 = Inr (m', t')" "tab_ok m' t'" "tab_evolves ?m t1 m' t'"
    "row (content t') = spec_fill_new vs (row (content t1))" by auto
  then show ?case
    using t1 Cons.prems(2) evolves_trans [OF t1(3)] by (simp add: CopyString_eq)
qed

lemma fill_insert_ok:
  assumes "tab_ok m t" and "mem_ok m"
  shows "\<exists>st m' t'. fill_insert T vs m t = Inr (st, m', t') \<and> tab_ok m' t' \<and> tab_evolves m t m' t' \<and>
    (st, row (content t')) = spec_fill_insert vs (row (content t))"
  using assms
proof (induction vs arbitrary: m t)
  case Nil
  then show ?case by (simp add: evolves_refl)
next
  case (Cons p vs)
  show ?case
  proof (cases "row (content t) (c_str (fst p))")
    case None
    from insert_field_new [OF Cons.prems None, of "snd p"] obtain t1 where
      t1: "sh_Insert T (Temp (fst p)) (Heap (m_next m) (c_str (snd p))) (alloc m) t = Inr (True, alloc (alloc m), t1)"
      "tab_ok (alloc (alloc m)) t1" "row (content t1) = (row (content t))(c_str (fst p) \<mapsto> c_str (snd p))"
      "tab_evolves m t (alloc (alloc m)) t1" by blast
    from Cons.IH [OF t1(2)] Cons.prems(2) obtain st m' t' where
      "fill_insert T vs (alloc (alloc m)) t1 = Inr (st, m', t')" "tab_ok m' t'"
      "tab_evolves (alloc (alloc m)) t1 m' t'" "(st, row (content t')) = spec_fill_insert vs (row (content t1))"
      by auto
    then show ?thesis
      using t1 None Cons.prems(2) evolves_trans [OF t1(4)] by (simp add: CopyString_eq)
  next
    case (Some w)
    have live: "m_next m \<notin> row_addrs (content t)"
      using row_addrs_live [of m "content t"] mem_ok_fresh [OF Cons.prems(2)] Cons.prems(1) by (auto simp: tab_ok_def)
    let ?m = "free_addrs {m_next m} (alloc (alloc m))"
    have ok: "row_ok m (content t)" using Cons.prems(1) by (simp add: tab_ok_def)
    have "row_ok ?m (content t)"
      by (rule row_ok_mono [OF ok]) (use row_addrs_live [OF ok] live in auto)
    moreover have "tab_evolves m t ?m t"
      using Cons.prems(2) mem_ok_fresh [OF Cons.prems(2)] by (auto simp: evolves_def)
    ultimately show ?thesis
      using insert_field_old [OF Cons.prems Some] Some Cons.prems(1)
      by (simp add: CopyString_eq DeleteString_def tab_ok_def free_addrs_def)
  qed
qed

lemma update_field_old:
  assumes "tab_ok m t" and "mem_ok m" and "lookup (content t) (c_str f) = Some old"
  shows "\<exists>t' m'. sh_Update T (Temp f) (Heap (m_next m) (c_str v)) (alloc m) t = Inr (Some old, t') \<and>
    DeleteString old (alloc m) = Inr m' \<and> tab_ok m' t' \<and> tab_evolves m t m' t' \<and>
    row (content t') = (row (content t))(c_str f \<mapsto> c_str v)"
proof -
  let ?v = "Heap (m_next m) (c_str v)"
  from Update [OF tab_ok_wf(1) wf_entries_alloc [OF tab_ok_wf(2)], OF assms(1) assms(1)] assms(3)
  obtain t' where t': "sh_Update T (Temp f) ?v (alloc m) t = Inr (Some old, t')" "unlocked t'"
    "content t' = set_entry (c_str f) ?v (content t)" by metis
  show ?thesis
    using t' row_update [OF _ assms(2,3), of "c_str v"] assms(1) by (auto simp: tab_ok_def DeleteString_def)
qed

lemma fill_old_ok:
  assumes "tab_ok m t" and "mem_ok m"
  shows "\<exists>m' t'. fill_old T vs m t = Inr (m', t') \<and> tab_ok m' t' \<and> tab_evolves m t m' t' \<and>
    row (content t') = spec_fill_old vs (row (content t))"
  using assms
proof (induction vs arbitrary: m t)
  case Nil
  then show ?case by (simp add: evolves_refl)
next
  case (Cons p vs)
  let ?r = "(row (content t))(c_str (fst p) \<mapsto> c_str (snd p))" and ?v = "Heap (m_next m) (c_str (snd p))"
  obtain m1 t1 where t1: "fill_old T (p # vs) m t = fill_old T vs m1 t1" "tab_ok m1 t1" "tab_evolves m t m1 t1"
    "row (content t1) = ?r"
  proof (cases "lookup (content t) (c_str (fst p))")
    case None
    from Update [OF tab_ok_wf(1) wf_entries_alloc [OF tab_ok_wf(2)], OF Cons.prems(1) Cons.prems(1)] None
    obtain u where u: "sh_Update T (Temp (fst p)) ?v (alloc m) t = Inr (None, u)" "unlocked u"
      "content u = content t" by (metis set_entry_absent)
    moreover have "tab_ok m u" using u Cons.prems(1) by (simp add: tab_ok_def)
    ultimately show thesis
      using insert_field_new [of m u "fst p" "snd p"] None Cons.prems(2) that
      by (auto simp: row_None_iff CopyString_eq)
  next
    case (Some old)
    show thesis
      using update_field_old [OF Cons.prems Some, of "snd p"] by (auto simp: CopyString_eq intro!: that)
  qed
  have "mem_ok m1" using t1(3) by (simp add: evolves_def)
  from Cons.IH [OF t1(2) this] obtain m' t' where
    "fill_old T vs m1 t1 = Inr (m', t')" "tab_ok m' t'" "tab_evolves m1 t1 m' t'"
    "row (content t') = spec_fill_old vs (row (content t1))" by blast
  then show ?case using t1 evolves_trans [OF t1(3) _ Cons.prems(2)] by (simp del: fill_old.simps)
qed

lemma read_fields_ok:
  assumes "tab_ok m t"
  shows "read_fields T m t fs = Inr (spec_read (row (content t)) fs)"
proof (induction fs)
  case (Cons f fs)
  show ?case
  proof (cases "lookup (content t) (c_str f)")
    case None
    then show ?thesis using Cons Get [OF tab_ok_wf, OF assms assms] by (simp add: spec_read_def row_def)
  next
    case (Some p)
    then obtain k where "(k, p) \<in> set (content t)" using lookup_Some_iff [OF tab_ok_wf(2) [OF assms]] by blast
    then have "deref m p = Inr (ptr_text p)" using assms by (force simp: tab_ok_def row_ok_def wf_val_def)
    then show ?thesis using Cons Some Get [OF tab_ok_wf, OF assms assms] by (simp add: spec_read_def row_def)
  qed
qed (simp add: spec_read_def)

text \<open>All fields: the first \<open>2 ^ 64 - 1\<close> entries, in the order of the table.\<close>

lemma read_all_ok:
  assumes "tab_ok m t"
  shows "read_row T m t None =
    Inr (map (\<lambda>e. (entry_text e, ptr_text (snd e))) (take (unat (- 1 :: u64)) (content t)))"
  using assms read_pairs_ok [of "take (unat (- 1 :: u64)) (content t)" m] Entries_all [of t "- 1" m]
  by (auto simp: read_row_def tab_ok_def row_ok_def wf_entries_def dest: in_set_takeD)

lemma read_row_total: "tab_ok m t \<Longrightarrow> \<exists>res. read_row T m t flds = Inr res"
  using read_all_ok read_fields_ok by (cases flds) (auto simp: read_row_def)

end

end
