(* ===== verification/Client_Laws.thy ===== *)
theory Client_Laws
  imports Db_Client
begin

text \<open>
  What the client relies on, and what follows: a workload in good order (\<open>client_ok\<close>) never
  makes an operation fail, and over any database that keeps the contract of the locale
  \<open>database\<close> every insert, transaction and worker run returns, keeps the database's
  invariant and counts at most the operations it was given.
\<close>

subsection \<open>Workloads whose operations do not fail\<close>

text \<open>The generators used for lengths: constant, uniform, or Zipfian with its invariant.\<close>

fun gen_plain :: "fpu \<Rightarrow> gen \<Rightarrow> bool" where
  "gen_plain F (GConst g) = True"
| "gen_plain F (GUniform g) = True"
| "gen_plain F (GZipfian g) = zipf_inv F g"
| "gen_plain F g = False"

lemma Call_Next_plain:
  assumes "gen_plain F g" and "rand_ok R" and "rng_ok s"
  shows "\<exists>v g' s'. Call_Next F R basis (Some g) s = Inr (v, Some g', s') \<and> gen_plain F g' \<and> rng_ok s'"
proof (cases g)
  case (GUniform u)
  then show ?thesis
    using assms by (simp add: Call_Next_def Uniform_Next_def draw_uniform_def rng_ok_def)
next
  case (GZipfian z)
  then have z: "zipf_inv F z" using assms(1) by simp
  then have "2 \<le> zg_num_items z" "zg_num_items z < kMaxNumItems"
    by (auto simp: zipf_inv_def zeta_cached_def)
  with Zipfian_Next_total [OF z] obtain v z' s' where
    n: "Zipfian_Next F R (zg_num_items z) z s = Inr (v, z', s')" by blast
  with z GZipfian Zipfian_Next_inv [OF z n] Zipfian_Next_rng_ok [OF assms(2,3) n] show ?thesis
    by (simp add: Call_Next_def)
qed (use assms in \<open>auto simp: Call_Next_def Const_Next_def\<close>)

text \<open>Every draw selects one of the operations \<open>ops\<close>.\<close>

definition op_covered :: "fpu \<Rightarrow> Operation set \<Rightarrow> Operation DiscreteGenerator \<Rightarrow> bool" where
  "op_covered F ops g \<longleftrightarrow>
     (\<forall>c. 0 \<le> c \<and> c < 1 \<longrightarrow> (\<exists>k \<in> ops. Discrete_pick F (dg_sum g) c (dg_values g) = Some k))"

definition user_keys :: "u64 \<Rightarrow> string set" where
  "user_keys rc = {''user'' @ to_string n | n. n < unat rc}"

definition plain_slot :: "fpu \<Rightarrow> gen option \<Rightarrow> bool" where
  "plain_slot F p \<longleftrightarrow> (\<exists>g. p = Some g \<and> gen_plain F g)"

definition client_ok :: "fpu \<Rightarrow> rand_src \<Rightarrow> Operation set \<Rightarrow> u64 \<Rightarrow> CoreWorkload \<Rightarrow> rng \<Rightarrow> bool" where
  "client_ok F R ops rc wl s \<longleftrightarrow> rand_ok R \<and> rng_ok s \<and> wl_record_count wl = rc \<and> rc \<noteq> 0 \<and>
     (\<exists>g. wl_key_generator wl = Some (GCounter g)) \<and> chooser_covered F R wl \<and>
     plain_slot F (wl_field_len_generator wl) \<and> plain_slot F (wl_field_chooser wl) \<and>
     plain_slot F (wl_scan_len_chooser wl) \<and> op_covered F ops (wl_op_chooser wl)"

lemma chooser_covered_frame [simp]:
  "chooser_covered F R (wl\<lparr>wl_key_generator := a\<rparr>) = chooser_covered F R wl"
  "chooser_covered F R (wl\<lparr>wl_field_len_generator := a\<rparr>) = chooser_covered F R wl"
  "chooser_covered F R (wl\<lparr>wl_field_chooser := a\<rparr>) = chooser_covered F R wl"
  "chooser_covered F R (wl\<lparr>wl_scan_len_chooser := a\<rparr>) = chooser_covered F R wl"
  "chooser_covered F R (wl\<lparr>wl_op_chooser := b\<rparr>) = chooser_covered F R wl"
  by (simp_all add: chooser_covered_def)

text \<open>Field names and values that the text protocols can carry: no white space, no NUL.\<close>

definition printable :: "string \<Rightarrow> bool" where
  "printable s \<longleftrightarrow> (\<forall>c \<in> set s. \<not> isspace c \<and> c \<noteq> CHR 0x00)"

definition vals_ok :: "KVPair list \<Rightarrow> bool" where
  "vals_ok vs \<longleftrightarrow> (\<forall>(f, v) \<in> set vs. printable f \<and> printable v)"

lemma printable_append [simp]: "printable (a @ b) \<longleftrightarrow> printable a \<and> printable b"
  by (auto simp: printable_def)

lemma printable_to_string [simp]: "printable (to_string n)"
  using to_string_digits isdigit_not_space isdigit_not_sign unfolding printable_def by metis

lemma printable_Cons [simp]: "printable (c # s) \<longleftrightarrow> \<not> isspace c \<and> c \<noteq> CHR 0x00 \<and> printable s"
  by (simp add: printable_def)

lemma printable_field [simp]: "printable (''field'' @ to_string n)"
  and printable_user [simp]: "printable (''user'' @ to_string n)"
  by (simp_all add: isspace_def)

lemma next_value_ok:
  assumes "client_ok F R ops rc wl s"
  shows "\<exists>v wl' s'. next_value F R wl s = Inr (v, wl', s') \<and> client_ok F R ops rc wl' s' \<and> printable v"
proof -
  from assms obtain g where g: "wl_field_len_generator wl = Some g" "gen_plain F g"
    by (auto simp: client_ok_def plain_slot_def)
  from Call_Next_plain [OF g(2), of R s "wl_insert_key_sequence wl"] assms obtain v g' s1 where
    n: "Call_Next F R (wl_insert_key_sequence wl) (Some g) s = Inr (v, Some g', s1)" "gen_plain F g'"
    "rng_ok s1" by (auto simp: client_ok_def)
  obtain c s2 where c: "draw_char R s1 = (c, s2)" by fastforce
  then have "rng_ok s2" using draw_char_rng_ok [OF n(3), of R] by simp
  moreover have "\<not> isspace c \<and> c \<noteq> CHR 0x00"
    using c RandomPrintChar_no_space by (auto simp: draw_char_def)
  ultimately show ?thesis
    using assms g n c by (simp add: next_value_def client_ok_def plain_slot_def printable_def)
qed

lemma NextSequenceKey_ok:
  assumes "client_ok F R ops rc wl s"
  shows "\<exists>k wl' s'. NextSequenceKey F R wl s = Inr (k, wl', s') \<and> client_ok F R ops rc wl' s' \<and>
    k \<in> user_keys rc"
proof -
  from assms obtain g where g: "wl_key_generator wl = Some (GCounter g)" and rc: "wl_record_count wl = rc" "rc \<noteq> 0"
    by (auto simp: client_ok_def)
  from BuildKeyName_form [of wl "cnt_counter g"] rc obtain n where
    n: "n < unat rc" "BuildKeyName wl (cnt_counter g) = Inr (''user'' @ to_string n)"
    by blast
  then show ?thesis
    using assms g by (auto simp: NextSequenceKey_def Call_Next_def Counter_Next_def client_ok_def user_keys_def)
qed

lemma NextTransactionKey_ok:
  assumes "client_ok F R ops rc wl s"
  shows "\<exists>k wl' s'. NextTransactionKey F R wl s = Some (Inr (k, wl', s')) \<and> client_ok F R ops rc wl' s' \<and>
    k \<in> user_keys rc"
proof -
  let ?seq = "wl_insert_key_sequence wl"
  have c: "chooser_covered F R wl" "rng_ok s" and rc: "wl_record_count wl = rc" "rc \<noteq> 0"
    using assms by (auto simp: client_ok_def)
  from choose_key_covered [OF c] obtain k wl' s' where
    k: "choose_key F R wl s = Inr (k, wl', s')" "chooser_covered F R wl'" "rng_ok s'"
    "k \<le> Counter_Last ?seq" by blast
  then obtain g where wl': "wl' = wl\<lparr>wl_key_chooser := g\<rparr>"
    by (auto simp: choose_key_def rbind_eq_Inr_iff)
  then have "choose_key_loop F R wl s = Some (Inr (k, wl', s'))"
    using k by (subst choose_key_loop.simps) simp
  moreover obtain n where "n < unat rc" "BuildKeyName wl' k = Inr (''user'' @ to_string n)"
    using BuildKeyName_form [of wl' k] rc wl' by auto
  ultimately show ?thesis using k wl' assms by (auto simp: NextTransactionKey_def client_ok_def user_keys_def)
qed

lemma slot_Next_ok:
  assumes "plain_slot F p" and "rand_ok R" and "rng_ok s"
  shows "\<exists>v p' s'. Call_Next F R basis p s = Inr (v, p', s') \<and> plain_slot F p' \<and> rng_ok s'"
  using assms Call_Next_plain [OF _ assms(2,3)] unfolding plain_slot_def by blast

lemma NextFieldName_ok:
  assumes "client_ok F R ops rc wl s"
  shows "\<exists>k wl' s'. NextFieldName F R wl s = Inr (k, wl', s') \<and> client_ok F R ops rc wl' s' \<and>
    (\<exists>n. k = ''field'' @ to_string n)"
  using assms slot_Next_ok [of F "wl_field_chooser wl" R s "wl_insert_key_sequence wl"]
  by (force simp: NextFieldName_def client_ok_def)

lemma NextScanLength_ok:
  assumes "client_ok F R ops rc wl s"
  shows "\<exists>k wl' s'. NextScanLength F R wl s = Inr (k, wl', s') \<and> client_ok F R ops rc wl' s'"
  using assms slot_Next_ok [of F "wl_scan_len_chooser wl" R s "wl_insert_key_sequence wl"]
  by (force simp: NextScanLength_def client_ok_def)

lemma NextOperation_ok:
  assumes "client_ok F R ops rc wl s"
  shows "\<exists>k wl' s'. NextOperation F R wl s = Inr (k, wl', s') \<and> client_ok F R ops rc wl' s' \<and> k \<in> ops"
proof -
  obtain c s' where d: "draw_double R s = (c, s')" by fastforce
  have "0 \<le> c \<and> c < 1 \<and> rng_ok s'" using draw_double_ok [OF _ _ d] assms by (auto simp: client_ok_def)
  moreover from this obtain k where "k \<in> ops"
    "Discrete_pick F (dg_sum (wl_op_chooser wl)) c (dg_values (wl_op_chooser wl)) = Some k"
    using assms by (auto simp: client_ok_def op_covered_def)
  ultimately show ?thesis
    using assms d by (simp add: NextOperation_def Discrete_Next_def client_ok_def op_covered_def)
qed

lemma BuildValues_loop_ok:
  assumes "client_ok F R ops rc wl s" and "vals_ok vals"
  shows "\<exists>vs wl' s'. BuildValues_loop F R n i wl s vals = Inr (vs, wl', s') \<and> client_ok F R ops rc wl' s' \<and>
    vals_ok vs \<and> map fst vs = map fst vals @ map (\<lambda>j. ''field'' @ to_string j) [i..<i + n]"
  using assms
proof (induction n arbitrary: i wl s vals)
  case (Suc n)
  from next_value_ok [OF Suc.prems(1)] obtain v wl1 s1 where
    v: "next_value F R wl s = Inr (v, wl1, s1)" "client_ok F R ops rc wl1 s1" "printable v" by blast
  have "vals_ok (vals @ [(''field'' @ to_string i, v)])"
    using Suc.prems(2) v(3) printable_field [of i] unfolding vals_ok_def by auto
  from Suc.IH [OF v(2) this, of "Suc i"] v(1) show ?case by (simp add: upt_conv_Cons del: upt_Suc)
qed simp

lemma BuildValues_ok:
  assumes "client_ok F R ops rc wl s"
  shows "\<exists>vs wl' s'. BuildValues F R wl s = Inr (vs, wl', s') \<and> client_ok F R ops rc wl' s' \<and> vals_ok vs \<and>
    map fst vs = map (\<lambda>j. ''field'' @ to_string j) [0..<nat (wl_field_count wl)]"
  using BuildValues_loop_ok [OF assms, of "[]" "nat (wl_field_count wl)" 0]
  by (simp add: BuildValues_def vals_ok_def)

lemma BuildUpdate_ok:
  assumes "client_ok F R ops rc wl s"
  shows "\<exists>vs wl' s'. BuildUpdate F R wl s = Inr (vs, wl', s') \<and> client_ok F R ops rc wl' s' \<and> vals_ok vs"
proof -
  from NextFieldName_ok [OF assms] obtain n wl1 s1 where
    n: "NextFieldName F R wl s = Inr (''field'' @ to_string n, wl1, s1)" "client_ok F R ops rc wl1 s1" by blast
  from next_value_ok [OF n(2)] obtain v wl2 s2 where
    "next_value F R wl1 s1 = Inr (v, wl2, s2)" "client_ok F R ops rc wl2 s2" "printable v" by blast
  with n show ?thesis using printable_field [of n] by (simp add: BuildUpdate_def vals_ok_def)
qed

subsection \<open>Total correctness of steps\<close>

text \<open>\<open>achieves P m Q\<close>: from a state with \<open>P\<close>, the step \<open>m\<close> returns, with \<open>Q\<close> on its value and state.\<close>

definition achieves ::
  "('d client_state \<Rightarrow> bool) \<Rightarrow> ('d, 'a) step \<Rightarrow> ('a \<Rightarrow> 'd client_state \<Rightarrow> bool) \<Rightarrow> bool" where
  "achieves P m Q \<longleftrightarrow> (\<forall>st. P st \<longrightarrow> (\<exists>a st'. m st = Some (Inr (a, st')) \<and> Q a st'))"

lemma achievesD: "achieves P m Q \<Longrightarrow> P st \<Longrightarrow> \<exists>a st'. m st = Some (Inr (a, st')) \<and> Q a st'"
  by (simp add: achieves_def)

lemma achieves_weaken: "achieves P m Q' \<Longrightarrow> (\<And>a st. Q' a st \<Longrightarrow> Q a st) \<Longrightarrow> achieves P m Q"
  unfolding achieves_def by blast

lemma achieves_bind:
  "achieves P m Q' \<Longrightarrow> (\<And>a. achieves (Q' a) (f a) Q) \<Longrightarrow> achieves P (sbind m f) Q"
  unfolding achieves_def by (metis sbind_eq_Inr_iff)

lemma achieves_when: "(b \<Longrightarrow> achieves P m Q) \<Longrightarrow> achieves (\<lambda>st. b \<and> P st) m Q"
  by (auto simp: achieves_def)

lemma achieves_return: "(\<And>st. P st \<Longrightarrow> Q a st) \<Longrightarrow> achieves P (sreturn a) Q"
  by (simp add: achieves_def sreturn_def)

lemma achieves_get: "(\<And>wl. achieves P (f wl) Q) \<Longrightarrow> achieves P (sbind get_workload f) Q"
  by (auto simp: achieves_def step_simps)

lemma achieves_if:
  "(b \<Longrightarrow> achieves P m Q) \<Longrightarrow> (\<not> b \<Longrightarrow> achieves P m' Q) \<Longrightarrow> achieves P (if b then m else m') Q"
  by simp

subsection \<open>The contract between a client and a database\<close>

text \<open>
  \<open>inv\<close> is the database's invariant, \<open>rc\<close> bounds the keys it is asked for and \<open>ops\<close> the operations it
  implements (not every binding has a \<^verbatim>\<open>Scan\<close>). On those, a call returns with a non-negative
  status and keeps the invariant.
\<close>

locale database =
  fixes D :: "'d DB" and inv :: "'d \<Rightarrow> bool" and rc :: u64 and ops :: "Operation set"
  assumes Init_inv: "inv d \<Longrightarrow> inv (db_Init D flag d)"
    and Read_ok: "inv d \<Longrightarrow> k \<in> user_keys rc \<Longrightarrow> READ \<in> ops \<Longrightarrow>
      \<exists>st res d'. db_Read D t k flds d = Inr (st, res, d') \<and> 0 \<le> st \<and> inv d'"
    and Scan_ok: "inv d \<Longrightarrow> k \<in> user_keys rc \<Longrightarrow> SCAN \<in> ops \<Longrightarrow>
      \<exists>st res d'. db_Scan D t k len flds d = Inr (st, res, d') \<and> 0 \<le> st \<and> inv d'"
    and Update_ok: "inv d \<Longrightarrow> k \<in> user_keys rc \<Longrightarrow> UPDATE \<in> ops \<Longrightarrow> vals_ok vs \<Longrightarrow>
      \<exists>st d'. db_Update D t k vs d = Inr (st, d') \<and> 0 \<le> st \<and> inv d'"
    and Insert_ok: "inv d \<Longrightarrow> k \<in> user_keys rc \<Longrightarrow> INSERT \<in> ops \<Longrightarrow> vals_ok vs \<Longrightarrow>
      \<exists>st d'. db_Insert D t k vs d = Inr (st, d') \<and> 0 \<le> st \<and> inv d'"
    and rmw: "READMODIFYWRITE \<in> ops \<Longrightarrow> READ \<in> ops \<and> UPDATE \<in> ops"
begin

text \<open>A state in which a step can start: the workload is in good order and the database keeps
  its invariant.\<close>

definition ready :: "fpu \<Rightarrow> rand_src \<Rightarrow> 'd client_state \<Rightarrow> bool" where
  "ready F R st \<longleftrightarrow> client_ok F R ops rc (cl_workload st) (cl_rng st) \<and> inv (cl_db st)"

abbreviation served :: "string \<Rightarrow> bool" where "served k \<equiv> k \<in> user_keys rc"

lemma on_workload_achieves:
  assumes "\<And>wl s. client_ok F R ops rc wl s \<Longrightarrow>
    \<exists>a wl' s'. f wl s = Inr (a, wl', s') \<and> client_ok F R ops rc wl' s' \<and> A a"
  shows "achieves (ready F R) (on_workload f) (\<lambda>a st. A a \<and> ready F R st)"
  using assms unfolding achieves_def ready_def on_workload_eq by fastforce

lemma NextTransactionKey_achieves:
  "achieves (ready F R) (on_key (NextTransactionKey F R)) (\<lambda>k st. served k \<and> ready F R st)"
  using NextTransactionKey_ok unfolding achieves_def ready_def on_key_eq by fastforce

lemmas NextSequenceKey_achieves =
  on_workload_achieves [where f = "NextSequenceKey F R" and A = served for F R, OF NextSequenceKey_ok]

lemma BuildValues_achieves:
  "achieves (ready F R) (on_workload (BuildValues F R)) (\<lambda>vs st. vals_ok vs \<and> ready F R st)"
  using BuildValues_ok by (intro on_workload_achieves) blast

lemma BuildUpdate_achieves:
  "achieves (ready F R) (on_workload (BuildUpdate F R)) (\<lambda>vs st. vals_ok vs \<and> ready F R st)"
  using BuildUpdate_ok by (intro on_workload_achieves) blast

lemma NextFieldName_achieves:
  "achieves (ready F R) (on_workload (NextFieldName F R)) (\<lambda>_ st. True \<and> ready F R st)"
  using NextFieldName_ok by (intro on_workload_achieves) blast

lemma NextScanLength_achieves:
  "achieves (ready F R) (on_workload (NextScanLength F R)) (\<lambda>_ st. True \<and> ready F R st)"
  using NextScanLength_ok by (intro on_workload_achieves) blast

lemma NextOperation_achieves:
  "achieves (ready F R) (on_workload (NextOperation F R)) (\<lambda>oper st. oper \<in> ops \<and> ready F R st)"
  using NextOperation_ok by (intro on_workload_achieves) blast

lemma build_write_achieves:
  "achieves (ready F R) (build_write F R) (\<lambda>vs st. vals_ok vs \<and> ready F R st)"
  unfolding build_write_def
  by (intro achieves_get achieves_if BuildValues_achieves BuildUpdate_achieves)

lemma Read_achieves:
  "served k \<Longrightarrow> READ \<in> ops \<Longrightarrow>
   achieves (ready F R) (Read_call D t k flds) (\<lambda>status st. 0 \<le> status \<and> ready F R st)"
  using Read_ok unfolding achieves_def ready_def Read_call_eq by fastforce

lemma Scan_achieves:
  "served k \<Longrightarrow> SCAN \<in> ops \<Longrightarrow>
   achieves (ready F R) (Scan_call D t k len flds) (\<lambda>status st. 0 \<le> status \<and> ready F R st)"
  using Scan_ok unfolding achieves_def ready_def Scan_call_eq by fastforce

lemma Update_achieves:
  "served k \<Longrightarrow> UPDATE \<in> ops \<Longrightarrow> vals_ok vs \<Longrightarrow>
   achieves (ready F R) (on_db (db_Update D t k vs)) (\<lambda>status st. 0 \<le> status \<and> ready F R st)"
  using Update_ok unfolding achieves_def ready_def on_db_eq by fastforce

lemma Insert_achieves:
  "served k \<Longrightarrow> INSERT \<in> ops \<Longrightarrow> vals_ok vs \<Longrightarrow>
   achieves (ready F R) (on_db (db_Insert D t k vs)) (\<lambda>status st. 0 \<le> status \<and> ready F R st)"
  using Insert_ok unfolding achieves_def ready_def on_db_eq by fastforce

lemma print_achieves: "achieves (ready F R) (print_out l) (\<lambda>_ st. True \<and> ready F R st)"
  unfolding achieves_def by (auto simp: print_out_def ready_def)

text \<open>Every kind of transaction.\<close>

lemmas step_rules = achieves_get achieves_if
  achieves_bind [OF NextTransactionKey_achieves] achieves_bind [OF NextSequenceKey_achieves]
  achieves_bind [OF NextFieldName_achieves] achieves_bind [OF NextScanLength_achieves]
  achieves_bind [OF build_write_achieves] achieves_bind [OF BuildValues_achieves]
  achieves_bind [OF print_achieves] achieves_when Read_achieves Scan_achieves Update_achieves Insert_achieves

lemma TransactionRead_achieves:
  "READ \<in> ops \<Longrightarrow> achieves (ready F R) (TransactionRead F R D) (\<lambda>status st. 0 \<le> status \<and> ready F R st)"
  unfolding TransactionRead_def by (intro step_rules)

lemma TransactionUpdate_achieves:
  "UPDATE \<in> ops \<Longrightarrow> achieves (ready F R) (TransactionUpdate F R D) (\<lambda>status st. 0 \<le> status \<and> ready F R st)"
  unfolding TransactionUpdate_def by (intro step_rules)

lemma TransactionInsert_achieves:
  "INSERT \<in> ops \<Longrightarrow> achieves (ready F R) (TransactionInsert F R D) (\<lambda>status st. 0 \<le> status \<and> ready F R st)"
  unfolding TransactionInsert_def by (intro step_rules)

lemma TransactionScan_achieves:
  "SCAN \<in> ops \<Longrightarrow> achieves (ready F R) (TransactionScan F R D) (\<lambda>status st. 0 \<le> status \<and> ready F R st)"
  unfolding TransactionScan_def by (intro step_rules)

lemma TransactionReadModifyWrite_achieves:
  assumes "READMODIFYWRITE \<in> ops"
  shows "achieves (ready F R) (TransactionReadModifyWrite F R D) (\<lambda>status st. 0 \<le> status \<and> ready F R st)"
  using rmw [OF assms] unfolding TransactionReadModifyWrite_def
  by (intro step_rules achieves_bind [where Q' = "\<lambda>status st. 0 \<le> status \<and> ready F R st" and P = "ready F R"]) auto

lemma Transaction_dispatch_achieves:
  "oper \<in> ops \<Longrightarrow> achieves (ready F R) (Transaction_dispatch F R D oper) (\<lambda>status st. 0 \<le> status \<and> ready F R st)"
  using TransactionRead_achieves TransactionUpdate_achieves TransactionInsert_achieves
    TransactionScan_achieves TransactionReadModifyWrite_achieves by (cases oper) simp_all

lemma DoTransaction_achieves: "achieves (ready F R) (DoTransaction F R D) (\<lambda>_. ready F R)"
  unfolding DoTransaction_def
  by (intro achieves_bind [OF NextOperation_achieves] achieves_when
      achieves_bind [OF Transaction_dispatch_achieves]) (auto simp: achieves_def sreturn_def)

lemma DoInsert_achieves: "INSERT \<in> ops \<Longrightarrow> achieves (ready F R) (DoInsert F R D) (\<lambda>_. ready F R)"
  unfolding DoInsert_def
  by (intro step_rules achieves_bind [OF Insert_achieves] achieves_return)

lemma DelegateClient_loop_achieves:
  assumes "is_loading \<Longrightarrow> INSERT \<in> ops"
  shows "achieves (ready F R) (DelegateClient_loop F R D is_loading n oks)
    (\<lambda>r st. (oks \<le> r \<and> r \<le> oks + int n) \<and> ready F R st)"
proof (induction n arbitrary: oks)
  case 0
  show ?case by (simp add: achieves_return)
next
  case (Suc n)
  have "achieves (ready F R) (if is_loading then DoInsert F R D else DoTransaction F R D) (\<lambda>_. ready F R)"
    using assms DoInsert_achieves DoTransaction_achieves by (intro achieves_if) blast+
  then show ?case
    unfolding DelegateClient_loop.simps
    by (rule achieves_bind) (rule achieves_weaken [OF Suc.IH], auto split: if_splits)
qed

theorem DelegateClient_achieves:
  assumes "is_loading \<Longrightarrow> INSERT \<in> ops" and "0 \<le> num_ops"
  shows "achieves (ready F R) (DelegateClient F R D num_ops is_loading)
    (\<lambda>oks st. (0 \<le> oks \<and> oks \<le> num_ops) \<and> ready F R st)"
proof -
  have "achieves (ready F R) (on_db (\<lambda>d. Inr ((), db_Init D is_loading d))) (\<lambda>_. ready F R)"
    using Init_inv by (auto simp: achieves_def on_db_def ready_def)
  then show ?thesis
    unfolding DelegateClient_def using DelegateClient_loop_achieves [OF assms(1), where F = F and R = R and n = "nat num_ops" and oks = 0] assms(2)
    by (auto intro!: achieves_bind)
qed

end

text \<open>Databases whose operations never report an error: every operation counts as done.\<close>

locale ok_database = database D inv rc ops
  for D :: "'d DB" and inv and rc and ops +
  assumes Read_status: "db_Read D t k flds d = Inr (st, res, d') \<Longrightarrow> st = kOK"
    and Scan_status: "db_Scan D t k len flds d = Inr (st, sres, d') \<Longrightarrow> st = kOK"
    and Update_status: "db_Update D t k vs d = Inr (st, d') \<Longrightarrow> st = kOK"
    and Insert_status: "db_Insert D t k vs d = Inr (st, d') \<Longrightarrow> st = kOK"
begin

lemma dispatch_status: "Transaction_dispatch F R D oper st = Some (Inr (status, st')) \<Longrightarrow> status = kOK"
  by (cases oper)
    (auto simp: TransactionRead_def TransactionScan_def TransactionUpdate_def TransactionInsert_def
      TransactionReadModifyWrite_def step_simps Read_call_eq Scan_call_eq
      split: if_splits dest: Read_status Scan_status Update_status Insert_status)

lemma DoInsert_status: "DoInsert F R D st = Some (Inr (ok, st')) \<Longrightarrow> ok"
  by (auto simp: DoInsert_def step_simps dest: Insert_status)

lemma DoTransaction_status: "DoTransaction F R D st = Some (Inr (ok, st')) \<Longrightarrow> ok"
  by (auto simp: DoTransaction_def step_simps split: if_splits dest: dispatch_status)

lemma DelegateClient_loop_status:
  "DelegateClient_loop F R D is_loading n oks st = Some (Inr (r, st')) \<Longrightarrow> r = oks + int n"
proof (induction n arbitrary: oks st)
  case (Suc n)
  then obtain ok st1 where
    "(if is_loading then DoInsert F R D else DoTransaction F R D) st = Some (Inr (ok, st1))"
    and rest: "DelegateClient_loop F R D is_loading n (oks + (if ok then 1 else 0)) st1 = Some (Inr (r, st'))"
    by (auto simp: step_simps)
  then have ok by (auto split: if_splits dest: DoInsert_status DoTransaction_status)
  with Suc.IH [OF rest] show ?case by simp
qed simp

theorem DelegateClient_counts_all:
  assumes "is_loading \<Longrightarrow> INSERT \<in> ops" and "0 \<le> num_ops" and "ready F R st"
  shows "\<exists>st'. DelegateClient F R D num_ops is_loading st = Some (Inr (num_ops, st')) \<and> ready F R st'"
proof -
  from achievesD [OF DelegateClient_achieves [OF assms(1,2)] assms(3)] obtain oks st' where
    r: "DelegateClient F R D num_ops is_loading st = Some (Inr (oks, st'))" "ready F R st'" by blast
  then have "oks = num_ops"
    using assms(2) by (auto simp: DelegateClient_def step_simps dest!: DelegateClient_loop_status)
  with r show ?thesis by blast
qed

end

subsection \<open>A workload in good order\<close>

text \<open>The demonstration workload: default distributions and proportions.\<close>

lemma fadd_exact: "fadd exact_fpu x y = x + y"
  by (simp add: fadd_def exact_fpu_def)

lemma demo_client_ok:
  "\<exists>wl s. Init exact_fpu zero_src demo_props CoreWorkload_new rng0 = Inr (wl, s) \<and>
     client_ok exact_fpu zero_src UNIV 3 wl s"
proof -
  obtain wl s where i: "Init exact_fpu zero_src demo_props CoreWorkload_new rng0 = Inr (wl, s)"
    and rc: "wl_record_count wl = 3" and s: "rng_ok s" using demo_Init by blast
  have cov: "chooser_covered exact_fpu zero_src wl"
    using Init_uniform_covered [OF i zero_src_ok rng0_ok] by (simp add: demo_props_def GetProperty_def)
  have pick: "\<exists>k. Discrete_pick exact_fpu (95 / 100 + 5 / 100) c [(READ, 95 / 100), (UPDATE, 5 / 100)] = Some k"
    if "0 \<le> c" "c < 1" for c :: real
    using that by (auto simp: exact_fpu_def fdiv_def fsub_def)
  have "plain_slot exact_fpu (wl_field_len_generator wl) \<and> plain_slot exact_fpu (wl_field_chooser wl) \<and>
      plain_slot exact_fpu (wl_scan_len_chooser wl) \<and> (\<exists>g. wl_key_generator wl = Some (GCounter g)) \<and>
      dg_sum (wl_op_chooser wl) = 95 / 100 + 5 / 100 \<and>
      dg_values (wl_op_chooser wl) = [(READ, 95 / 100), (UPDATE, 5 / 100)]"
    using i
    by (auto simp: Init_def demo_props_def GetProperty_def init_samples GetFieldLenGenerator_def
        Init_key_chooser_def Init_scan_len_chooser_def UniformGenerator_new_def Uniform_Next_def
        draw_uniform_def int_to_u64_def rng0_def plain_slot_def add_if_positive_def AddValue_def
        CoreWorkload_new_def DiscreteGenerator_new_def fadd_exact)
  with pick have "client_ok exact_fpu zero_src UNIV 3 wl s"
    using rc s cov zero_src_ok by (simp add: client_ok_def op_covered_def)
  with i show ?thesis by blast
qed

end
