(* ===== verification/Hashtable_Db_Laws.thy ===== *)
theory Hashtable_Db_Laws
  imports Hashtable_Rows Client_Laws
begin

text \<open>
  The hash-table databases implement a store of rows: a partial map from the concatenation of
  table and key to a partial map from fields to values. The invariant says which strings each
  table owns; with it no operation reads or frees a dead string. Proved for any table class
  that keeps the contract \<open>string_hashtable\<close>, then read off for the three databases.
\<close>

subsection \<open>The store\<close>

type_synonym store = "string \<rightharpoonup> (string \<rightharpoonup> string)"

definition spec_Update :: "string \<Rightarrow> KVPair list \<Rightarrow> store \<Rightarrow> store" where
  "spec_Update k vs st =
     st(k \<mapsto> (case st k of None \<Rightarrow> spec_fill_new vs Map.empty | Some r \<Rightarrow> spec_fill_old vs r))"

definition spec_Insert :: "string \<Rightarrow> KVPair list \<Rightarrow> store \<Rightarrow> int \<times> store" where
  "spec_Insert k vs st =
     (let r = spec_fill_insert vs (case st k of None \<Rightarrow> Map.empty | Some r \<Rightarrow> r)
      in (fst r, st(k \<mapsto> snd r)))"

definition spec_Delete :: "string \<Rightarrow> store \<Rightarrow> int \<times> store" where
  "spec_Delete k st = (if st k = None then kErrorNoData else kOK, st(k := None))"

subsection \<open>Abstraction and invariant\<close>

definition owns :: "('ft \<Rightarrow> (String_obj \<times> cstr) list) \<Rightarrow> ('kt, 'ft) HashtableDB \<Rightarrow> nat \<Rightarrow> nat set" where
  "owns cT d i = (case hd_tabs d i of None \<Rightarrow> {} | Some t \<Rightarrow> row_addrs (cT t))"

definition owned ::
  "('kt \<Rightarrow> (String_obj \<times> nat) list) \<Rightarrow> ('ft \<Rightarrow> (String_obj \<times> cstr) list) \<Rightarrow> ('kt, 'ft) HashtableDB \<Rightarrow> nat set" where
  "owned cK cT d = key_addrs (cK (hd_keys d)) \<union> (\<Union>i \<in> snd ` set (cK (hd_keys d)). owns cT d i)"

definition hdb_abs ::
  "('kt \<Rightarrow> (String_obj \<times> nat) list) \<Rightarrow> ('ft \<Rightarrow> (String_obj \<times> cstr) list) \<Rightarrow> ('kt, 'ft) HashtableDB \<Rightarrow> store" where
  "hdb_abs cK cT d k =
     (case lookup (cK (hd_keys d)) k of
        None \<Rightarrow> None
      | Some i \<Rightarrow> (case hd_tabs d i of None \<Rightarrow> None | Some t \<Rightarrow> Some (row (cT t))))"

definition hdb_inv ::
  "('kt \<Rightarrow> (String_obj \<times> nat) list) \<Rightarrow> ('kt \<Rightarrow> bool) \<Rightarrow> ('ft \<Rightarrow> (String_obj \<times> cstr) list) \<Rightarrow> ('ft \<Rightarrow> bool) \<Rightarrow>
   ('kt, 'ft) HashtableDB \<Rightarrow> bool" where
  "hdb_inv cK uK cT uT d \<longleftrightarrow>
     mem_ok (hd_mem d) \<and> uK (hd_keys d) \<and> wf_entries (hd_mem d) (cK (hd_keys d)) \<and>
     inj_on snd (set (cK (hd_keys d))) \<and>
     (\<forall>i \<in> snd ` set (cK (hd_keys d)). i < hd_next d \<and>
        (\<exists>t. hd_tabs d i = Some t \<and> uT t \<and> row_ok (hd_mem d) (cT t)) \<and>
        owns cT d i \<inter> key_addrs (cK (hd_keys d)) = {} \<and>
        (\<forall>j \<in> snd ` set (cK (hd_keys d)). j \<noteq> i \<longrightarrow> owns cT d i \<inter> owns cT d j = {}))"

locale hashtable_db = K: string_hashtable K cK uK + T: field_tables T cT uT
  for K :: "('kt, nat) StringHashtable" and cK :: "'kt \<Rightarrow> (String_obj \<times> nat) list" and uK :: "'kt \<Rightarrow> bool"
    and T :: "('ft, cstr) StringHashtable" and cT :: "'ft \<Rightarrow> (String_obj \<times> cstr) list" and uT :: "'ft \<Rightarrow> bool"
begin

abbreviation inv :: "('kt, 'ft) HashtableDB \<Rightarrow> bool" where "inv \<equiv> hdb_inv cK uK cT uT"
abbreviation abs_db :: "('kt, 'ft) HashtableDB \<Rightarrow> store" where "abs_db \<equiv> hdb_abs cK cT"
abbreviation ids :: "('kt, 'ft) HashtableDB \<Rightarrow> nat set" where "ids d \<equiv> snd ` set (cK (hd_keys d))"

lemma invD:
  assumes "inv d"
  shows "mem_ok (hd_mem d)" "uK (hd_keys d)" "wf_entries (hd_mem d) (cK (hd_keys d))"
    "inj_on snd (set (cK (hd_keys d)))"
  using assms by (simp_all add: hdb_inv_def)

lemma inv_row:
  assumes "inv d" and "i \<in> ids d"
  shows "i < hd_next d" "\<exists>t. hd_tabs d i = Some t \<and> T.tab_ok (hd_mem d) t"
    "owns cT d i \<inter> key_addrs (cK (hd_keys d)) = {}" "owns cT d i \<subseteq> m_live (hd_mem d)"
    "\<And>j. j \<in> ids d \<Longrightarrow> j \<noteq> i \<Longrightarrow> owns cT d i \<inter> owns cT d j = {}"
proof -
  show t: "\<exists>t. hd_tabs d i = Some t \<and> T.tab_ok (hd_mem d) t"
    using assms unfolding hdb_inv_def T.tab_ok_def by blast
  then show "owns cT d i \<subseteq> m_live (hd_mem d)"
    using row_addrs_live [of "hd_mem d"] by (fastforce simp: owns_def T.tab_ok_def)
qed (use assms in \<open>auto simp: hdb_inv_def\<close>)

lemma found:
  assumes "inv d" and "lookup (cK (hd_keys d)) k = Some i"
  obtains t where "i \<in> ids d" "hd_tabs d i = Some t" "T.tab_ok (hd_mem d) t" "abs_db d k = Some (row (cT t))"
proof -
  have "i \<in> ids d" using assms lookup_Some_iff [OF invD(3)] by force
  with inv_row(2) [OF assms(1) this] assms(2) that show thesis by (auto simp: hdb_abs_def)
qed

lemma abs_None_iff:
  assumes "inv d"
  shows "abs_db d k = None \<longleftrightarrow> lookup (cK (hd_keys d)) k = None"
proof (cases "lookup (cK (hd_keys d)) k")
  case (Some i)
  from found [OF assms Some] show ?thesis using Some by auto
qed (simp add: hdb_abs_def)

text \<open>Two keys never share a row.\<close>

lemma lookup_inj:
  assumes "inv d" "lookup (cK (hd_keys d)) k = Some i" "lookup (cK (hd_keys d)) k' = Some i"
  shows "k = k'"
  using assms lookup_Some_iff [OF invD(3) [OF assms(1)]] inj_onD [OF invD(4) [OF assms(1)]] by fastforce

text \<open>Writing a row: the other rows and the keys do not notice.\<close>

lemma write_row:
  assumes d: "inv d" and k: "lookup (cK (hd_keys d)) k = Some i" and t: "hd_tabs d i = Some t"
    and t': "T.tab_ok m' t'" and ev: "evolves (hd_mem d) (row_addrs (cT t)) m' (row_addrs (cT t'))"
  defines "d' \<equiv> d\<lparr>hd_mem := m', hd_tabs := (hd_tabs d)(i \<mapsto> t')\<rparr>"
  shows "inv d'" and "abs_db d' = (abs_db d)(k \<mapsto> row (cT t'))"
proof -
  have i: "i \<in> ids d" using found [OF d k] by blast
  have oi: "owns cT d i = row_addrs (cT t)" using t by (simp add: owns_def)
  have lt: "a < m_next (hd_mem d)" if "a \<in> m_live (hd_mem d)" for a
    using invD(1) [OF d] that by (simp add: mem_ok_def)
  have keep: "A \<subseteq> m_live m' \<and> row_addrs (cT t') \<inter> A = {}"
    if "A \<subseteq> m_live (hd_mem d)" "A \<inter> row_addrs (cT t) = {}" for A
    using that ev lt unfolding evolves_def by fastforce
  have keys: "key_addrs (cK (hd_keys d)) \<subseteq> m_live (hd_mem d)" by (rule wf_entries_live [OF invD(3) [OF d]])
  have kk: "key_addrs (cK (hd_keys d)) \<subseteq> m_live m' \<and> row_addrs (cT t') \<inter> key_addrs (cK (hd_keys d)) = {}"
    using keep [OF keys] inv_row(3) [OF d i] oi by blast
  have other: "owns cT d' j = owns cT d j" if "j \<noteq> i" for j using that by (simp add: owns_def d'_def)
  have own: "owns cT d' i = row_addrs (cT t')" by (simp add: owns_def d'_def)
  have rows: "row_addrs (cT t') \<inter> owns cT d j = {} \<and> owns cT d j \<subseteq> m_live m'" if "j \<in> ids d" "j \<noteq> i" for j
    using keep [OF inv_row(4) [OF d that(1)]] inv_row(5) [OF d that(1) i] that(2) oi by blast
  show "inv d'"
    unfolding hdb_inv_def
  proof (intro conjI ballI impI)
    show "mem_ok (hd_mem d')" using ev by (simp add: evolves_def d'_def)
    show "uK (hd_keys d')" "inj_on snd (set (cK (hd_keys d')))" using invD [OF d] by (simp_all add: d'_def)
    show "wf_entries (hd_mem d') (cK (hd_keys d'))"
      using wf_entries_mono [OF invD(3) [OF d]] kk by (simp add: d'_def)
  next
    fix j
    assume "j \<in> ids d'"
    then have j: "j \<in> ids d" by (simp add: d'_def)
    show "j < hd_next d'" using inv_row(1) [OF d j] by (simp add: d'_def)
    show "owns cT d' j \<inter> key_addrs (cK (hd_keys d')) = {}"
      using own other kk inv_row(3) [OF d j] by (cases "j = i") (auto simp: d'_def)
    show "\<exists>t. hd_tabs d' j = Some t \<and> uT t \<and> row_ok (hd_mem d') (cT t)"
    proof (cases "j = i")
      case True
      then show ?thesis using t' by (simp add: d'_def T.tab_ok_def)
    next
      case False
      then show ?thesis
        using inv_row(2) [OF d j] rows [OF j False] row_ok_mono [of "hd_mem d" _ m']
        by (auto simp: d'_def T.tab_ok_def owns_def)
    qed
    fix l
    assume "l \<in> ids d'" "l \<noteq> j"
    then have l: "l \<in> ids d" "l \<noteq> j" by (simp_all add: d'_def)
    show "owns cT d' j \<inter> owns cT d' l = {}"
      using own other rows [OF j] rows [OF l(1)] inv_row(5) [OF d j l] l(2)
      by (cases "j = i"; cases "l = i") auto
  qed
  show "abs_db d' = (abs_db d)(k \<mapsto> row (cT t'))"
  proof
    fix x
    show "abs_db d' x = ((abs_db d)(k \<mapsto> row (cT t'))) x"
    proof (cases "lookup (cK (hd_keys d)) x")
      case (Some j)
      then show ?thesis
        using k lookup_inj [OF d k, of x] by (cases "j = i") (auto simp: hdb_abs_def d'_def)
    qed (use k in \<open>auto simp: hdb_abs_def d'_def\<close>)
  qed
qed

text \<open>A new, empty row.\<close>

lemma add_row_ok:
  assumes d: "inv d" and k: "lookup (cK (hd_keys d)) (c_str key_index) = None"
  shows "\<exists>i d' t. add_row K T key_index d = Inr (i, d') \<and> inv d' \<and> lookup (cK (hd_keys d')) (c_str key_index) = Some i \<and>
    hd_tabs d' i = Some t \<and> T.tab_ok (hd_mem d') t \<and> row (cT t) = Map.empty \<and>
    abs_db d' = (abs_db d)(c_str key_index \<mapsto> Map.empty)"
proof -
  let ?m = "hd_mem d" and ?i = "hd_next d" and ?ks = "cK (hd_keys d)"
  from K.Insert_new [OF invD(2,3) k, of ?i] d obtain ks where
    ks: "sh_Insert K (Temp key_index) ?i ?m (hd_keys d) = Inr (True, alloc ?m, ks)" "uK ks"
    "mset (cK ks) = add_mset (key_obj (m_next ?m) (c_str key_index), ?i) (mset ?ks)" by blast
  let ?d = "d\<lparr>hd_tabs := (hd_tabs d)(?i \<mapsto> sh_new T), hd_next := Suc ?i, hd_mem := alloc ?m, hd_keys := ks\<rparr>"
  note ins = wf_entries_insert [OF invD(3) [OF d] invD(1) [OF d] k ks(3)]
  have st: "set (cK ks) = insert (key_obj (m_next ?m) (c_str key_index), ?i) (set ?ks)"
    using mset_eq_setD [of "cK ks" "(key_obj (m_next ?m) (c_str key_index), ?i) # ?ks"] ks(3) by simp
  have lt: "j < ?i" if "j \<in> ids d" for j using inv_row(1) [OF d that] .
  have nt: "T.tab_ok (alloc ?m) (sh_new T)" by (simp add: T.tab_ok_def T.new_table)
  have own: "owns cT ?d j = owns cT d j" if "j \<in> ids d" for j using lt [OF that] by (simp add: owns_def)
  have new: "owns cT ?d ?i = {}" by (simp add: owns_def T.new_table)
  have "inv ?d"
    unfolding hdb_inv_def
  proof (intro conjI ballI impI)
    show "mem_ok (hd_mem ?d)" "uK (hd_keys ?d)" "wf_entries (hd_mem ?d) (cK (hd_keys ?d))"
      using invD(1) [OF d] ks(2) ins(1) by simp_all
    have "?i \<notin> ids d" using lt by blast
    then show "inj_on snd (set (cK (hd_keys ?d)))" using invD(4) [OF d] st by (auto simp: image_iff)
  next
    fix j
    assume "j \<in> ids ?d"
    then consider "j = ?i" | "j \<in> ids d" using st by auto
    note cs = this
    show "j < hd_next ?d" using cs lt by (auto simp: less_Suc_eq)
    show "\<exists>t. hd_tabs ?d j = Some t \<and> uT t \<and> row_ok (hd_mem ?d) (cT t)"
    proof (cases "j = ?i")
      case False
      then have "j \<in> ids d" using cs by blast
      from inv_row(2) [OF d this] False show ?thesis by (auto simp: T.tab_ok_def intro: row_alloc)
    qed (use nt in \<open>simp add: T.tab_ok_def\<close>)
    have fresh: "m_next ?m \<notin> m_live ?m" by (rule mem_ok_fresh [OF invD(1) [OF d]])
    show "owns cT ?d j \<inter> key_addrs (cK (hd_keys ?d)) = {}"
    proof (cases "j = ?i")
      case False
      then have j: "j \<in> ids d" using cs by blast
      then show ?thesis using own [OF j] inv_row(3,4) [OF d j] ins(2) fresh by auto
    qed (use new in simp)
    fix l
    assume "l \<in> ids ?d" "l \<noteq> j"
    then have "l = ?i \<or> l \<in> ids d" using st by auto
    then show "owns cT ?d j \<inter> owns cT ?d l = {}"
      using cs new own inv_row(5) [OF d] \<open>l \<noteq> j\<close> by (metis inf_bot_left inf_bot_right)
  qed
  moreover have "abs_db ?d = (abs_db d)(c_str key_index \<mapsto> Map.empty)"
  proof
    fix x
    show "abs_db ?d x = ((abs_db d)(c_str key_index \<mapsto> Map.empty)) x"
    proof (cases "x = c_str key_index")
      case False
      then have lx: "lookup (cK ks) x = lookup ?ks x" using ins(3) by simp
      show ?thesis
      proof (cases "lookup ?ks x")
        case (Some j)
        then have "j \<in> ids d" using found [OF d Some] by blast
        then show ?thesis using Some lx False lt [of j] by (simp add: hdb_abs_def)
      qed (use lx False in \<open>simp add: hdb_abs_def\<close>)
    qed (use ins(3) in \<open>simp add: hdb_abs_def T.new_table\<close>)
  qed
  moreover have "add_row K T key_index d = Inr (?i, ?d)"
    using ks(1) by (simp add: add_row_def NewFieldHashtable_def)
  ultimately show ?thesis
    using nt ins(3) by (intro exI [of _ ?i] exI [of _ ?d] exI [of _ "sh_new T"]) (simp add: T.new_table)
qed

subsection \<open>The operations\<close>

lemma Read_refines:
  assumes d: "inv d"
  shows "abs_db d (c_str (table @ key)) = None \<Longrightarrow> HashtableDB_Read K T table key flds d = Inr (kErrorNoData, [], d)"
    and "abs_db d (c_str (table @ key)) = Some r \<Longrightarrow>
      HashtableDB_Read K T table key (Some fs) d = Inr (kOK, spec_read r fs, d)"
    and "abs_db d (c_str (table @ key)) = Some r \<Longrightarrow>
      \<exists>res. HashtableDB_Read K T table key None d = Inr (kOK, res, d) \<and>
        distinct (map fst res) \<and> (card (dom r) < 2 ^ 64 \<longrightarrow> map_of res = r)"
proof -
  let ?l = "lookup (cK (hd_keys d)) (c_str (table @ key))"
  note get = K.Get [OF invD(2,3), OF d d]
  show "abs_db d (c_str (table @ key)) = None \<Longrightarrow> HashtableDB_Read K T table key flds d = Inr (kErrorNoData, [], d)"
    using get [of "table @ key"] abs_None_iff [OF d] by (simp add: HashtableDB_Read_def)
  {
    assume r: "abs_db d (c_str (table @ key)) = Some r"
    then obtain i where i: "?l = Some i" using abs_None_iff [OF d] by (metis not_None_eq)
    from found [OF d i] r obtain t where t: "hd_tabs d i = Some t" "T.tab_ok (hd_mem d) t" "r = row (cT t)"
      by (metis option.inject)
    show "HashtableDB_Read K T table key (Some fs) d = Inr (kOK, spec_read r fs, d)"
      using get [of "table @ key"] i t T.read_fields_ok [OF t(2)]
      by (simp add: HashtableDB_Read_def field_table_def read_row_def)
    let ?res = "map (\<lambda>e. (entry_text e, ptr_text (snd e))) (take (unat (- 1 :: u64)) (cT t))"
    have wf: "wf_entries (hd_mem d) (cT t)" by (rule T.tab_ok_wf(2) [OF t(2)])
    then have di: "distinct (map entry_text (cT t))" by (simp add: wf_entries_def)
    have row_map: "map_of (map (\<lambda>e. (entry_text e, ptr_text (snd e))) es) = row es" for es
      by (induction es) (auto simp: row_def lookup_def fun_eq_iff)
    have "map_of ?res = r" if "card (dom r) < 2 ^ 64"
    proof -
      have "dom r = set (map entry_text (cT t))"
        using t(3) row_map [of "cT t"] dom_map_of_conv_image_fst [of "map (\<lambda>e. (entry_text e, ptr_text (snd e))) (cT t)"]
        by (simp add: image_image)
      then have "length (cT t) < 2 ^ 64" using that distinct_card [OF di] by simp
      then have "take (unat (- 1 :: u64)) (cT t) = cT t" by (simp add: unsigned_minus_1_eq_mask mask_eq_exp_minus_1)
      then show ?thesis using row_map t(3) by simp
    qed
    moreover have "distinct (map fst ?res)" using di by (simp add: comp_def take_map [symmetric])
    moreover have "HashtableDB_Read K T table key None d = Inr (kOK, ?res, d)"
      using get [of "table @ key"] i t T.read_all_ok [OF t(2)] by (simp add: HashtableDB_Read_def field_table_def)
    ultimately show "\<exists>res. HashtableDB_Read K T table key None d = Inr (kOK, res, d) \<and>
        distinct (map fst res) \<and> (card (dom r) < 2 ^ 64 \<longrightarrow> map_of res = r)" by blast
  }
qed

lemma Update_refines:
  assumes d: "inv d"
  shows "\<exists>d'. HashtableDB_Update K T table key vs d = Inr (kOK, d') \<and> inv d' \<and>
    abs_db d' = spec_Update (c_str (table @ key)) vs (abs_db d)"
proof (cases "lookup (cK (hd_keys d)) (c_str (table @ key))")
  case None
  from add_row_ok [OF d None] obtain i d1 t where
    a: "add_row K T (table @ key) d = Inr (i, d1)" "inv d1" "lookup (cK (hd_keys d1)) (c_str (table @ key)) = Some i"
    "hd_tabs d1 i = Some t" "T.tab_ok (hd_mem d1) t" "row (cT t) = Map.empty"
    "abs_db d1 = (abs_db d)(c_str (table @ key) \<mapsto> Map.empty)" by blast
  from T.fill_new_ok [OF a(5) invD(1) [OF a(2)], of vs] obtain m' t' where
    f: "fill_new T vs (hd_mem d1) t = Inr (m', t')" "T.tab_ok m' t'"
    "evolves (hd_mem d1) (row_addrs (cT t)) m' (row_addrs (cT t'))"
    "row (cT t') = spec_fill_new vs Map.empty" unfolding a(6) by blast
  have "abs_db d (c_str (table @ key)) = None" using None abs_None_iff [OF d] by blast
  then show ?thesis
    using K.Get [OF invD(2,3), OF d d, of "table @ key"] None a f write_row [OF a(2,3,4) f(2,3)]
    by (simp add: HashtableDB_Update_def field_table_def spec_Update_def)
next
  case (Some i)
  from found [OF d Some] obtain t where t: "hd_tabs d i = Some t" "T.tab_ok (hd_mem d) t"
    "abs_db d (c_str (table @ key)) = Some (row (cT t))" by blast
  from T.fill_old_ok [OF t(2) invD(1) [OF d], of vs] obtain m' t' where
    f: "fill_old T vs (hd_mem d) t = Inr (m', t')" "T.tab_ok m' t'"
    "evolves (hd_mem d) (row_addrs (cT t)) m' (row_addrs (cT t'))"
    "row (cT t') = spec_fill_old vs (row (cT t))" by blast
  show ?thesis
    using K.Get [OF invD(2,3), OF d d, of "table @ key"] Some t f write_row [OF d Some t(1) f(2,3)]
    by (simp add: HashtableDB_Update_def field_table_def spec_Update_def)
qed

lemma Insert_refines:
  assumes d: "inv d"
  shows "\<exists>st d'. HashtableDB_Insert K T table key vs d = Inr (st, d') \<and> inv d' \<and>
    (st, abs_db d') = spec_Insert (c_str (table @ key)) vs (abs_db d)"
proof -
  let ?k = "c_str (table @ key)"
  obtain i d1 t where
    a: "(case lookup (cK (hd_keys d)) ?k of None \<Rightarrow> add_row K T (table @ key) d | Some i \<Rightarrow> Inr (i, d)) = Inr (i, d1)"
    "inv d1" "lookup (cK (hd_keys d1)) ?k = Some i" "hd_tabs d1 i = Some t" "T.tab_ok (hd_mem d1) t"
    "row (cT t) = (case abs_db d ?k of None \<Rightarrow> Map.empty | Some r \<Rightarrow> r)" "\<And>r. (abs_db d1)(?k \<mapsto> r) = (abs_db d)(?k \<mapsto> r)"
  proof (cases "lookup (cK (hd_keys d)) ?k")
    case None
    then have n: "abs_db d ?k = None" using abs_None_iff [OF d] by blast
    from add_row_ok [OF d None] obtain i d1 t where
      "add_row K T (table @ key) d = Inr (i, d1)" "inv d1" "lookup (cK (hd_keys d1)) ?k = Some i"
      "hd_tabs d1 i = Some t" "T.tab_ok (hd_mem d1) t" "row (cT t) = Map.empty"
      "abs_db d1 = (abs_db d)(?k \<mapsto> Map.empty)" by blast
    with None n that show thesis by simp
  next
    case (Some i)
    from found [OF d Some] obtain t where "hd_tabs d i = Some t" "T.tab_ok (hd_mem d) t"
      "abs_db d ?k = Some (row (cT t))" by blast
    with Some d that show thesis by simp
  qed
  from T.fill_insert_ok [OF a(5) invD(1) [OF a(2)], of vs] obtain st m' t' where
    f: "fill_insert T vs (hd_mem d1) t = Inr (st, m', t')" "T.tab_ok m' t'"
    "evolves (hd_mem d1) (row_addrs (cT t)) m' (row_addrs (cT t'))"
    "(st, row (cT t')) = spec_fill_insert vs (row (cT t))" by blast
  show ?thesis
    using K.Get [OF invD(2,3), OF d d, of "table @ key"] a f(1) write_row [OF a(2-4) f(2,3)]
      f(4) [symmetric, unfolded a(6)]
    by (simp add: HashtableDB_Insert_def field_table_def spec_Insert_def)
qed

lemma DeleteFieldHashtable_ok:
  assumes "hd_tabs d i = Some t" and "T.tab_ok (hd_mem d) t"
  shows "\<exists>A. A \<subseteq> val_addrs (cT t) \<and>
    DeleteFieldHashtable T i d = Inr (d\<lparr>hd_mem := free_addrs A (hd_mem d), hd_tabs := (hd_tabs d)(i := None)\<rparr>)"
proof -
  let ?es = "take (unat (- 1 :: u64)) (cT t)"
  let ?ps = "map (\<lambda>e. (s_value (fst e), snd e)) ?es"
  have ok: "row_ok (hd_mem d) (cT t)" "uT t" using assms(2) by (simp_all add: T.tab_ok_def)
  then have "\<forall>p \<in> set ?ps. wf_val (hd_mem d) (snd p)" by (auto simp: row_ok_def dest: in_set_takeD)
  moreover have "distinct (map (\<lambda>p. ptr_addrs (snd p)) ?ps)"
    using ok(1) by (simp add: row_ok_def comp_def take_map [symmetric])
  ultimately have "DeleteStrings ?ps (hd_mem d) = Inr (free_addrs (\<Union>p \<in> set ?ps. ptr_addrs (snd p)) (hd_mem d))"
    by (rule DeleteStrings_ok)
  moreover have "(\<Union>p \<in> set ?ps. ptr_addrs (snd p)) \<subseteq> val_addrs (cT t)"
    by (auto simp: val_addrs_def dest: in_set_takeD)
  ultimately show ?thesis
    using assms(1) T.Entries_all [OF ok(2), of "- 1" "hd_mem d"]
    by (intro exI [of _ "\<Union>p \<in> set ?ps. ptr_addrs (snd p)"]) (simp add: DeleteFieldHashtable_def field_table_def)
qed

text \<open>Dropping a key and freeing strings of its row and its own copy.\<close>

lemma drop_row:
  assumes d: "inv d" and k: "(k, i) \<in> set (cK (hd_keys d))" and ks: "uK ks" "cK ks = del_entry (string_text k) (cK (hd_keys d))"
    and A: "A \<subseteq> owns cT d i \<union> ptr_addrs (s_value k)"
  defines "d' \<equiv> d\<lparr>hd_keys := ks, hd_mem := free_addrs A (hd_mem d), hd_tabs := (hd_tabs d)(i := None)\<rparr>"
  shows "inv d'" and "abs_db d' = (abs_db d)(string_text k := None)"
    and "owned cK cT d' \<inter> owns cT d i = {}"
proof -
  let ?ks = "cK (hd_keys d)"
  note wf = invD(3) [OF d]
  have i: "i \<in> ids d" using k by force
  have ids: "j \<in> ids d' \<Longrightarrow> j \<in> ids d \<and> j \<noteq> i" for j
  proof -
    assume "j \<in> ids d'"
    then obtain k' where k': "(k', j) \<in> set ?ks" "string_text k' \<noteq> string_text k"
      using ks(2) by (auto simp: d'_def del_entry_def)
    then show ?thesis using inj_onD [OF invD(4) [OF d] _ k'(1) k] by force
  qed
  have own: "owns cT d' j = owns cT d j" if "j \<noteq> i" for j using that by (simp add: owns_def d'_def)
  have ka: "key_addrs (cK (hd_keys d')) = key_addrs ?ks - ptr_addrs (s_value k)"
    using key_addrs_del_entry [OF wf k] ks(2) by (simp add: d'_def)
  have kin: "ptr_addrs (s_value k) \<subseteq> key_addrs ?ks" using k by (force simp: key_addrs_def)
  have live: "owns cT d j \<subseteq> m_live (hd_mem d')" if "j \<in> ids d" "j \<noteq> i" for j
    using inv_row(3,4) [OF d that(1)] inv_row(5) [OF d that(1) i] that(2) A kin by (fastforce simp: d'_def)
  show "inv d'"
    unfolding hdb_inv_def
  proof (intro conjI ballI impI)
    show "mem_ok (hd_mem d')" "uK (hd_keys d')" using invD(1) [OF d] ks(1) by (simp_all add: d'_def)
    show "inj_on snd (set (cK (hd_keys d')))"
      using invD(4) [OF d] ks(2) by (auto simp: d'_def del_entry_def intro: inj_on_subset)
    have "key_addrs (cK (hd_keys d')) \<subseteq> m_live (hd_mem d')"
      using ka wf_entries_live [OF wf] inv_row(3) [OF d i] A by (auto simp: d'_def)
    then show "wf_entries (hd_mem d') (cK (hd_keys d'))"
      using wf_entries_mono [OF wf_del_entry [OF wf]] ks(2) by (simp add: d'_def)
  next
    fix j
    assume "j \<in> ids d'"
    then have j: "j \<in> ids d" "j \<noteq> i" using ids by blast+
    show "j < hd_next d'" using inv_row(1) [OF d j(1)] by (simp add: d'_def)
    show "owns cT d' j \<inter> key_addrs (cK (hd_keys d')) = {}" using own [OF j(2)] inv_row(3) [OF d j(1)] ka by auto
    show "\<exists>t. hd_tabs d' j = Some t \<and> uT t \<and> row_ok (hd_mem d') (cT t)"
      using inv_row(2) [OF d j(1)] live [OF j] j(2) row_ok_mono [of "hd_mem d" _ "hd_mem d'"]
      by (auto simp: d'_def T.tab_ok_def owns_def)
    fix l
    assume "l \<in> ids d'" "l \<noteq> j"
    then show "owns cT d' j \<inter> owns cT d' l = {}"
      using own ids j inv_row(5) [OF d j(1), of l] by auto
  qed
  show "owned cK cT d' \<inter> owns cT d i = {}"
  proof -
    have "owns cT d' j \<inter> owns cT d i = {}" if "j \<in> ids d'" for j
      using ids [OF that] own [of j] inv_row(5) [OF d i, of j] by (simp add: Int_commute)
    moreover have "key_addrs (cK (hd_keys d')) \<inter> owns cT d i = {}" using ka inv_row(3) [OF d i] by blast
    ultimately show ?thesis unfolding owned_def by blast
  qed
  show "abs_db d' = (abs_db d)(string_text k := None)"
  proof
    fix x
    have "lookup ?ks (string_text k) = Some i" using k lookup_Some_iff [OF wf] by blast
    then have "lookup ?ks x = Some i \<Longrightarrow> x = string_text k" using lookup_inj [OF d] by blast
    then show "abs_db d' x = ((abs_db d)(string_text k := None)) x"
      using ks(2) by (cases "lookup ?ks x") (auto simp: hdb_abs_def d'_def lookup_del_entry)
  qed
qed

text \<open>\<^verbatim>\<open>Delete\<close> frees the key and the values of a row, but not the copies of its field names: they
  stay allocated and no table owns them any more.\<close>

lemma Delete_refines_leaks:
  assumes d: "inv d"
  shows "\<exists>st d'. HashtableDB_Delete K T table key d = Inr (st, d') \<and> inv d' \<and>
    (st, abs_db d') = spec_Delete (c_str (table @ key)) (abs_db d) \<and>
    (\<forall>r. abs_db d (c_str (table @ key)) = Some r \<and> r \<noteq> Map.empty \<longrightarrow> m_live (hd_mem d') - owned cK cT d' \<noteq> {})"
proof (cases "lookup (cK (hd_keys d)) (c_str (table @ key))")
  case None
  then show ?thesis
    using K.Remove_none [OF invD(2,3) None, OF d d] abs_None_iff [OF d, of "c_str (table @ key)"] d
    by (simp add: HashtableDB_Delete_def spec_Delete_def fun_upd_idem)
next
  case (Some i)
  from K.Remove [OF invD(2,3) Some, OF d d] obtain k ks where
    k: "(k, i) \<in> set (cK (hd_keys d))" "string_text k = c_str (table @ key)"
    "sh_Remove K (Temp (table @ key)) (hd_mem d) (hd_keys d) =
       Inr (Some i, free_addrs (ptr_addrs (s_value k)) (hd_mem d), ks)" "uK ks"
    "cK ks = del_entry (c_str (table @ key)) (cK (hd_keys d))" by blast
  from found [OF d Some] obtain t where t: "i \<in> ids d" "hd_tabs d i = Some t" "T.tab_ok (hd_mem d) t"
    "abs_db d (c_str (table @ key)) = Some (row (cT t))" by blast
  let ?m = "free_addrs (ptr_addrs (s_value k)) (hd_mem d)"
  let ?d = "d\<lparr>hd_mem := ?m, hd_keys := ks\<rparr>"
  have own: "owns cT d i = row_addrs (cT t)" using t(2) by (simp add: owns_def)
  have "ptr_addrs (s_value k) \<subseteq> key_addrs (cK (hd_keys d))" using k(1) by (force simp: key_addrs_def)
  then have "row_addrs (cT t) \<subseteq> m_live ?m" using inv_row(3,4) [OF d t(1)] own by auto
  then have "T.tab_ok ?m t" using t(3) row_ok_mono [of "hd_mem d" "cT t" ?m] by (simp add: T.tab_ok_def)
  then obtain A where A: "A \<subseteq> val_addrs (cT t)"
    "DeleteFieldHashtable T i ?d = Inr (?d\<lparr>hd_mem := free_addrs A ?m, hd_tabs := (hd_tabs d)(i := None)\<rparr>)"
    using DeleteFieldHashtable_ok [of ?d i t] t(2) by auto
  have "m_live (hd_mem d) - ptr_addrs (s_value k) - A = m_live (hd_mem d) - (A \<union> ptr_addrs (s_value k))" by blast
  then have "free_addrs A ?m = free_addrs (A \<union> ptr_addrs (s_value k)) (hd_mem d)"
    by (simp add: free_addrs_def)
  let ?d' = "d\<lparr>hd_keys := ks, hd_mem := free_addrs (A \<union> ptr_addrs (s_value k)) (hd_mem d), hd_tabs := (hd_tabs d)(i := None)\<rparr>"
  have "A \<union> ptr_addrs (s_value k) \<subseteq> owns cT d i \<union> ptr_addrs (s_value k)"
    using A(1) own by (auto simp: row_addrs_def)
  note drop = drop_row [OF d k(1) k(4) k(5) [folded k(2)] this]
  have "key_addrs (cT t) \<subseteq> m_live ?m - A"
  proof -
    have "key_addrs (cT t) \<inter> val_addrs (cT t) = {}" using t(3) by (simp add: T.tab_ok_def row_ok_def)
    then show ?thesis using A(1) \<open>row_addrs (cT t) \<subseteq> m_live ?m\<close> by (auto simp: row_addrs_def)
  qed
  moreover have "key_addrs (cT t) \<inter> owned cK cT ?d' = {}" using drop(3) own by (auto simp: row_addrs_def)
  moreover have "key_addrs (cT t) \<noteq> {}" if "row (cT t) \<noteq> Map.empty"
  proof -
    from that obtain e where "e \<in> set (cT t)" by (cases "cT t") auto
    moreover from this have "wf_key (hd_mem d) (fst e)" using T.tab_ok_wf(2) [OF t(3)] by (simp add: wf_entries_def)
    ultimately show ?thesis by (force simp: key_addrs_def wf_key_def)
  qed
  ultimately have "m_live (hd_mem ?d') - owned cK cT ?d' \<noteq> {}" if "row (cT t) \<noteq> Map.empty" using that by auto
  moreover have "HashtableDB_Delete K T table key d = Inr (kOK, ?d')"
    using k A(2) \<open>free_addrs A ?m = _\<close> by (simp add: HashtableDB_Delete_def)
  ultimately show ?thesis
    using k(2) t(4) drop(1,2) by (intro exI [of _ kOK] exI [of _ ?d']) (simp add: spec_Delete_def)
qed

lemma Delete_refines:
  assumes d: "inv d"
  shows "\<exists>st d'. HashtableDB_Delete K T table key d = Inr (st, d') \<and> inv d' \<and>
    (st, abs_db d') = spec_Delete (c_str (table @ key)) (abs_db d)"
  using Delete_refines_leaks [OF d, of table key] by blast

lemma scan_rows_total:
  "inv d \<Longrightarrow> snd ` set ps \<subseteq> ids d \<Longrightarrow> \<exists>rows. scan_rows T d flds ps = Inr rows \<and> length rows = length ps"
proof (induction ps)
  case (Cons p ps)
  from Cons.prems inv_row(2) [of d "snd p"] obtain t where "hd_tabs d (snd p) = Some t" "T.tab_ok (hd_mem d) t" by auto
  with Cons T.read_row_total [of "hd_mem d" t flds] show ?case by (auto simp: field_table_def)
qed simp

lemma Scan_total:
  assumes d: "inv d"
  shows "\<exists>rows. HashtableDB_Scan K T table key len flds d = Inr (kOK, rows, d) \<and>
    length rows \<le> unat (int_to_u64 len) \<and>
    (abs_db d (c_str (table @ key)) = None \<longrightarrow> rows = [])"
proof -
  let ?es = "take (unat (int_to_u64 len)) (dropWhile (\<lambda>e. entry_text e \<noteq> c_str (table @ key)) (cK (hd_keys d)))"
  have "set ?es \<subseteq> set (cK (hd_keys d))" by (meson order_trans set_dropWhileD set_take_subset subsetI)
  then have "snd ` set (map (\<lambda>e. (s_value (fst e), snd e)) ?es) \<subseteq> ids d" by force
  from scan_rows_total [OF d this, of flds] obtain rows where
    rows: "scan_rows T d flds (map (\<lambda>e. (s_value (fst e), snd e)) ?es) = Inr rows" "length rows = length ?es" by auto
  have "rows = []" if n: "abs_db d (c_str (table @ key)) = None"
  proof -
    have "dropWhile (\<lambda>e. entry_text e \<noteq> c_str (table @ key)) (cK (hd_keys d)) = []"
      using n abs_None_iff [OF d] by (simp add: lookup_None_iff list_ex_iff dropWhile_eq_Nil_conv)
    from rows(2) [unfolded this] show ?thesis by simp
  qed
  then show ?thesis
    using rows K.Entries_from [OF invD(2,3), OF d d, of "table @ key" "int_to_u64 len"]
    by (auto simp: HashtableDB_Scan_def)
qed

lemma new_inv: "inv (HashtableDB_new K)" and new_abs: "abs_db (HashtableDB_new K) = Map.empty"
  by (auto simp: hdb_inv_def hdb_abs_def HashtableDB_new_def K.new_table wf_entries_def lookup_def)

text \<open>The client's contract.\<close>

lemma database_contract: "database (HashtableDB_DB K T) inv rc UNIV"
proof unfold_locales
  fix d k t flds
  assume d: "inv d"
  show "\<exists>st res d'. db_Read (HashtableDB_DB K T) t k flds d = Inr (st, res, d') \<and> 0 \<le> st \<and> inv d'"
    using Read_refines [OF d, of t k] d
    by (cases "abs_db d (c_str (t @ k))"; cases flds) (fastforce simp: HashtableDB_DB_def)+
  show "\<exists>st res d'. db_Scan (HashtableDB_DB K T) t k len flds d = Inr (st, res, d') \<and> 0 \<le> st \<and> inv d'" for len
    using Scan_total [OF d, of t k len flds] d by (auto simp: HashtableDB_DB_def)
  show "\<exists>st d'. db_Update (HashtableDB_DB K T) t k vs d = Inr (st, d') \<and> 0 \<le> st \<and> inv d'" for vs
    using Update_refines [OF d, of t k vs] by (auto simp: HashtableDB_DB_def)
  have "0 \<le> fst (spec_fill_insert vs r)" for vs r by (induction vs arbitrary: r) simp_all
  then show "\<exists>st d'. db_Insert (HashtableDB_DB K T) t k vs d = Inr (st, d') \<and> 0 \<le> st \<and> inv d'" for vs
    using Insert_refines [OF d, of t k vs] by (fastforce simp: HashtableDB_DB_def spec_Insert_def Let_def)
qed (simp_all add: HashtableDB_DB_def)

end

subsection \<open>The three databases\<close>

abbreviation lock_inv ::
  "('kc \<Rightarrow> (String_obj \<times> nat) list) \<Rightarrow> ('fc \<Rightarrow> (String_obj \<times> cstr) list) \<Rightarrow>
   ('kc LockStl, 'fc LockStl) HashtableDB \<Rightarrow> bool" where
  "lock_inv e1 e2 \<equiv> hdb_inv (\<lambda>t. e1 (ls_table t)) (\<lambda>t. \<not> ls_mutex t) (\<lambda>t. e2 (ls_table t)) (\<lambda>t. \<not> ls_mutex t)"

abbreviation lock_abs ::
  "('kc \<Rightarrow> (String_obj \<times> nat) list) \<Rightarrow> ('fc \<Rightarrow> (String_obj \<times> cstr) list) \<Rightarrow>
   ('kc LockStl, 'fc LockStl) HashtableDB \<Rightarrow> store" where
  "lock_abs e1 e2 \<equiv> hdb_abs (\<lambda>t. e1 (ls_table t)) (\<lambda>t. e2 (ls_table t))"

abbreviation tbb_inv ::
  "('kc \<Rightarrow> (String_obj \<times> nat) list) \<Rightarrow> ('fc \<Rightarrow> (String_obj \<times> cstr) list) \<Rightarrow>
   ('kc TbbTable, 'fc TbbTable) HashtableDB \<Rightarrow> bool" where
  "tbb_inv e1 e2 \<equiv> hdb_inv (\<lambda>t. e1 (tb_table t)) (\<lambda>t. tb_mutex t = Unlocked)
     (\<lambda>t. e2 (tb_table t)) (\<lambda>t. tb_mutex t = Unlocked)"

abbreviation tbb_abs ::
  "('kc \<Rightarrow> (String_obj \<times> nat) list) \<Rightarrow> ('fc \<Rightarrow> (String_obj \<times> cstr) list) \<Rightarrow>
   ('kc TbbTable, 'fc TbbTable) HashtableDB \<Rightarrow> store" where
  "tbb_abs e1 e2 \<equiv> hdb_abs (\<lambda>t. e1 (tb_table t)) (\<lambda>t. e2 (tb_table t))"

lemma LockStl_hashtable_db:
  assumes "container C1 e1" and "container C2 e2"
  shows "hashtable_db (LockStlHashtable C1) (\<lambda>t. e1 (ls_table t)) (\<lambda>t. \<not> ls_mutex t)
    (LockStlHashtable C2) (\<lambda>t. e2 (ls_table t)) (\<lambda>t. \<not> ls_mutex t)"
  using assms by (intro hashtable_db.intro field_tables.intro container.lockstl_table)

lemma TbbRand_hashtable_db:
  assumes "container C1 e1" and "container C2 e2"
  shows "hashtable_db (TbbRandHashtable C1) (\<lambda>t. e1 (tb_table t)) (\<lambda>t. tb_mutex t = Unlocked)
    (TbbRandHashtable C2) (\<lambda>t. e2 (tb_table t)) (\<lambda>t. tb_mutex t = Unlocked)"
  using assms by (intro hashtable_db.intro field_tables.intro container.tbbrand_table)

lemma TbbScan_hashtable_db:
  assumes "container C1 e1" and "container C2 e2"
  shows "hashtable_db (TbbScanHashtable C1) (\<lambda>t. e1 (tb_table t)) (\<lambda>t. tb_mutex t = Unlocked)
    (TbbScanHashtable C2) (\<lambda>t. e2 (tb_table t)) (\<lambda>t. tb_mutex t = Unlocked)"
  using assms by (intro hashtable_db.intro field_tables.intro container.tbbscan_table)

interpretation lock_stl_db: hashtable_db
  "LockStlHashtable (unordered_map push_front)" "\<lambda>t. ls_table t" "\<lambda>t. \<not> ls_mutex t"
  "LockStlHashtable (unordered_map push_front)" "\<lambda>t. ls_table t" "\<lambda>t. \<not> ls_mutex t"
  by (rule LockStl_hashtable_db [OF umap.container_axioms umap.container_axioms])





interpretation tbb_scan_db: hashtable_db
  "TbbScanHashtable (unordered_map push_front)" "\<lambda>t. tb_table t" "\<lambda>t. tb_mutex t = Unlocked"
  "TbbScanHashtable (unordered_map push_front)" "\<lambda>t. tb_table t" "\<lambda>t. tb_mutex t = Unlocked"
  by (rule TbbScan_hashtable_db [OF umap.container_axioms umap.container_axioms])


subsection \<open>Reading back\<close>

definition clean_vals :: "KVPair list \<Rightarrow> bool" where
  "clean_vals vs \<longleftrightarrow> distinct (map fst vs) \<and> (\<forall>(f, v) \<in> set vs. c_str f = f \<and> c_str v = v)"

lemma clean_vals_Cons:
  "clean_vals (p # vs) \<longleftrightarrow> fst p \<notin> fst ` set vs \<and> c_str (fst p) = fst p \<and> c_str (snd p) = snd p \<and> clean_vals vs"
  by (auto simp: clean_vals_def)

lemma map_add_Cons:
  "fst p \<notin> fst ` set vs \<Longrightarrow> r(fst p \<mapsto> snd p) ++ map_of vs = r ++ map_of (p # vs)"
  by (simp add: map_add_upd_left dom_map_of_conv_image_fst)

lemma fresh_tail:
  assumes "clean_vals (p # vs)" and "\<forall>f \<in> fst ` set (p # vs). r f = None"
  shows "\<forall>f \<in> fst ` set vs. (r(fst p \<mapsto> v)) f = None"
proof
  fix f
  assume "f \<in> fst ` set vs"
  moreover from this have "f \<noteq> fst p" using assms(1) unfolding clean_vals_Cons by blast
  ultimately show "(r(fst p \<mapsto> v)) f = None" using assms(2) by auto
qed

lemma spec_fill_insert_fresh:
  "clean_vals vs \<Longrightarrow> \<forall>f \<in> fst ` set vs. r f = None \<Longrightarrow> spec_fill_insert vs r = (kOK, r ++ map_of vs)"
proof (induction vs arbitrary: r)
  case (Cons p vs)
  have "spec_fill_insert vs (r(fst p \<mapsto> snd p)) = (kOK, r(fst p \<mapsto> snd p) ++ map_of vs)"
    using Cons.prems fresh_tail [OF Cons.prems] by (intro Cons.IH) (simp_all add: clean_vals_Cons)
  then show ?case using Cons.prems map_add_Cons [of p vs r] by (simp add: clean_vals_Cons del: map_of.simps)
qed simp

lemma spec_fill_new_clean:
  "clean_vals vs \<Longrightarrow> \<forall>f \<in> fst ` set vs. r f = None \<Longrightarrow> spec_fill_new vs r = r ++ map_of vs"
proof (induction vs arbitrary: r)
  case (Cons p vs)
  have "spec_fill_new vs (r(fst p \<mapsto> snd p)) = r(fst p \<mapsto> snd p) ++ map_of vs"
    using Cons.prems fresh_tail [OF Cons.prems] by (intro Cons.IH) (simp_all add: clean_vals_Cons)
  then show ?case using Cons.prems map_add_Cons [of p vs r] by (simp add: clean_vals_Cons del: map_of.simps)
qed simp

lemma spec_fill_old_clean: "clean_vals vs \<Longrightarrow> spec_fill_old vs r = r ++ map_of vs"
proof (induction vs arbitrary: r)
  case (Cons p vs)
  then show ?case using map_add_Cons [of p vs r] by (simp add: clean_vals_Cons del: map_of.simps)
qed simp

lemma spec_read_self:
  "clean_vals vs \<Longrightarrow> \<forall>p \<in> set vs. r (fst p) = Some (snd p) \<Longrightarrow> spec_read r (map fst vs) = vs"
  by (induction vs) (simp_all add: spec_read_def clean_vals_Cons)

text \<open>
  What \<^verbatim>\<open>LockStlDB\<close> stores it gives back: after an insert of a new key, and after an update of
  any key, with different field names, a read of those fields returns the values written, in
  the order asked for.
\<close>

theorem LockStlDB_read_back:
  fixes table key :: string
  assumes "\<And>es e. mset (p1 es e) = add_mset e (mset es)" and "\<And>es e. mset (p2 es e) = add_mset e (mset es)"
    and "lock_inv (\<lambda>es. es) (\<lambda>es. es) d" and vs: "clean_vals vs"
  defines "D \<equiv> LockStlDB (unordered_map p1) (unordered_map p2)"
  shows "(\<exists>d'. db_Update D table key vs d = Inr (kOK, d') \<and> db_Read D table key (Some (map fst vs)) d' = Inr (kOK, vs, d')) \<and>
    (lock_abs (\<lambda>es. es) (\<lambda>es. es) d (c_str (table @ key)) = None \<longrightarrow>
     (\<exists>d'. db_Insert D table key vs d = Inr (kOK, d') \<and> db_Read D table key (Some (map fst vs)) d' = Inr (kOK, vs, d')))"
proof (intro conjI impI)
  let ?k = "c_str (table @ key)" and ?inv = "lock_inv (\<lambda>es. es) (\<lambda>es. es)" and ?abs = "lock_abs (\<lambda>es. es) (\<lambda>es. es)"
  note db = LockStl_hashtable_db [OF unordered_map_container [of p1] unordered_map_container [of p2], OF assms(1,2)]
  note D = D_def LockStlDB_def HashtableDB_DB_def
  have rd: "db_Read D table key (Some (map fst vs)) d' = Inr (kOK, vs, d')"
    if "?inv d'" "?abs d' ?k = Some (r ++ map_of vs)" for d' r
  proof -
    have "\<forall>p \<in> set vs. (r ++ map_of vs) (fst p) = Some (snd p)" using vs by (simp add: clean_vals_def map_add_Some_iff)
    then show ?thesis
      using hashtable_db.Read_refines(2) [OF db that] spec_read_self [OF vs] by (simp add: D)
  qed
  show "\<exists>d'. db_Update D table key vs d = Inr (kOK, d') \<and> db_Read D table key (Some (map fst vs)) d' = Inr (kOK, vs, d')"
    using hashtable_db.Update_refines [OF db assms(3), of table key vs]
      spec_fill_new_clean [OF vs, of Map.empty] spec_fill_old_clean [OF vs] rd rd [of _ Map.empty, simplified]
    by (cases "?abs d ?k") (auto simp: D spec_Update_def)
  show "\<exists>d'. db_Insert D table key vs d = Inr (kOK, d') \<and> db_Read D table key (Some (map fst vs)) d' = Inr (kOK, vs, d')"
    if "?abs d ?k = None"
    using hashtable_db.Insert_refines [OF db assms(3), of table key vs] that
      spec_fill_insert_fresh [OF vs, of Map.empty] rd [of _ Map.empty, simplified]
    by (auto simp: D spec_Insert_def)
qed

theorem LockStlDB_read_back_witness:
  "\<exists>d'. db_Insert (LockStlDB (unordered_map push_front) (unordered_map push_front)) ''t'' ''k''
      [(''f'', ''v''), (''g'', ''w'')] (HashtableDB_new (LockStlHashtable (unordered_map push_front))) = Inr (kOK, d') \<and>
    db_Read (LockStlDB (unordered_map push_front) (unordered_map push_front)) ''t'' ''k'' (Some [''f'', ''g'']) d' =
      Inr (kOK, [(''f'', ''v''), (''g'', ''w'')], d')"
  using LockStlDB_read_back [of push_front push_front, OF _ _ lock_stl_db.new_inv, of "[(''f'', ''v''), (''g'', ''w'')]" "''t''" "''k''"]
    lock_stl_db.new_abs
  by (simp add: push_front_def clean_vals_def c_str_def)


subsection \<open>Two surprises\<close>

lemma Read_concat:
  "table @ key = table' @ key' \<Longrightarrow> HashtableDB_Read K T table key = HashtableDB_Read K T table' key'"
  by (simp add: fun_eq_iff HashtableDB_Read_def)

abbreviation plain_LockStlDB where
  "plain_LockStlDB \<equiv> LockStlDB (unordered_map push_front) (unordered_map push_front)"

abbreviation empty_LockStlDB where
  "empty_LockStlDB \<equiv> HashtableDB_new (LockStlHashtable (unordered_map push_front))"

lemma one_row_abs:
  "\<exists>d. db_Insert plain_LockStlDB table key [(''f'', ''v'')] empty_LockStlDB = Inr (kOK, d) \<and>
    lock_stl_db.inv d \<and> lock_stl_db.abs_db d (c_str (table @ key)) = Some [''f'' \<mapsto> ''v'']"
proof -
  have "spec_Insert (c_str (table @ key)) [(''f'', ''v'')] Map.empty = (kOK, [c_str (table @ key) \<mapsto> [''f'' \<mapsto> ''v'']])"
    by (simp add: spec_Insert_def c_str_def)
  then show ?thesis
    using lock_stl_db.Insert_refines [OF lock_stl_db.new_inv, of table key "[(''f'', ''v'')]"] lock_stl_db.new_abs
    by (auto simp: LockStlDB_def HashtableDB_DB_def)
qed

lemma one_row:
  "\<exists>d. db_Insert plain_LockStlDB table key [(''f'', ''v'')] empty_LockStlDB = Inr (kOK, d) \<and>
    db_Read plain_LockStlDB table key (Some [''f'']) d = Inr (kOK, [(''f'', ''v'')], d)"
proof -
  from one_row_abs [of table key] obtain d where
    d: "db_Insert plain_LockStlDB table key [(''f'', ''v'')] empty_LockStlDB = Inr (kOK, d)"
    "lock_stl_db.inv d" "lock_stl_db.abs_db d (c_str (table @ key)) = Some [''f'' \<mapsto> ''v'']" by blast
  then show ?thesis
    using lock_stl_db.Read_refines(2) [OF d(2,3), of "[''f'']"]
    by (simp add: LockStlDB_def HashtableDB_DB_def spec_read_def c_str_def)
qed

text \<open>
  A row is found under the concatenation of table and key only: what is inserted into table
  \<open>t\<close> under the key \<open>1k\<close> is read from table \<open>t1\<close> under the key \<open>k\<close>.
\<close>

theorem tables_not_separated:
  "\<exists>d. db_Insert plain_LockStlDB ''t'' ''1k'' [(''f'', ''v'')] empty_LockStlDB = Inr (kOK, d) \<and>
    db_Read plain_LockStlDB ''t1'' ''k'' (Some [''f'']) d = Inr (kOK, [(''f'', ''v'')], d)"
  using one_row [of "''t''" "''1k''"]
  by (simp add: LockStlDB_def HashtableDB_DB_def Read_concat [of "''t1''" "''k''" "''t''" "''1k''"])

text \<open>
  \<^verbatim>\<open>Delete\<close> of a row with at least one field leaks memory: it returns, and afterwards some
  string is still allocated that no table of the database owns.
\<close>

theorem LockStlDB_Delete_leaks:
  assumes "\<And>es e. mset (p1 es e) = add_mset e (mset es)" and "\<And>es e. mset (p2 es e) = add_mset e (mset es)"
    and "lock_inv (\<lambda>es. es) (\<lambda>es. es) d"
    and "lock_abs (\<lambda>es. es) (\<lambda>es. es) d (c_str (table @ key)) = Some r" and "r f = Some v"
  shows "\<exists>d'. db_Delete (LockStlDB (unordered_map p1) (unordered_map p2)) table key d = Inr (kOK, d') \<and>
    m_live (hd_mem d') - owned (\<lambda>t. ls_table t) (\<lambda>t. ls_table t) d' \<noteq> {}"
proof -
  note db = LockStl_hashtable_db [OF unordered_map_container [of p1] unordered_map_container [of p2], OF assms(1,2)]
  show ?thesis
    using hashtable_db.Delete_refines_leaks [OF db assms(3), of table key] assms(4,5)
    by (auto simp: LockStlDB_def HashtableDB_DB_def spec_Delete_def)
qed

theorem LockStlDB_Delete_leaks_witness:
  "\<exists>d d'. db_Insert plain_LockStlDB ''t'' ''k'' [(''f'', ''v'')] empty_LockStlDB = Inr (kOK, d) \<and>
    db_Delete plain_LockStlDB ''t'' ''k'' d = Inr (kOK, d') \<and>
    m_live (hd_mem d') - owned (\<lambda>t. ls_table t) (\<lambda>t. ls_table t) d' \<noteq> {}"
proof -
  from one_row_abs [of "''t''" "''k''"] obtain d where
    d: "db_Insert plain_LockStlDB ''t'' ''k'' [(''f'', ''v'')] empty_LockStlDB = Inr (kOK, d)"
    "lock_stl_db.inv d" "lock_stl_db.abs_db d (c_str (''t'' @ ''k'')) = Some [''f'' \<mapsto> ''v'']" by blast
  from LockStlDB_Delete_leaks [of push_front push_front, OF _ _ d(2,3)] d(1) show ?thesis
    by (fastforce simp: push_front_def)
qed

end
