(* ===== verification/Timer.thy ===== *)
theory Timer
  imports Client_Laws
begin

text \<open>
  \<^verbatim>\<open>core/timer.h\<close> and the arithmetic of the reports that the database bindings and \<^verbatim>\<open>main\<close> print.
  Readings of the clock are a stream of instants. A quotient by zero (an infinity or NaN in
  the program) is \<open>None\<close>.
\<close>

record Timer =
  tm_time :: real

definition Timer_Start :: "(nat \<Rightarrow> real) \<Rightarrow> nat \<Rightarrow> Timer \<times> nat" where
  "Timer_Start now tick = (\<lparr>tm_time = now tick\<rparr>, Suc tick)"

definition Timer_End :: "fpu \<Rightarrow> (nat \<Rightarrow> real) \<Rightarrow> Timer \<Rightarrow> nat \<Rightarrow> real \<times> nat" where
  "Timer_End F now timer tick = (fp_rnd F (now tick - tm_time timer), Suc tick)"

text \<open>The time between \<^verbatim>\<open>Start\<close> and \<^verbatim>\<open>End\<close> of an operation that reads the clock at these two points.\<close>

definition timed :: "fpu \<Rightarrow> (nat \<Rightarrow> real) \<Rightarrow> nat \<Rightarrow> real \<times> nat" where
  "timed F now tick = (let (timer, tick') = Timer_Start now tick in Timer_End F now timer tick')"

definition total_time :: "fpu \<Rightarrow> real list \<Rightarrow> real" where
  "total_time F = foldl (fadd F) 0"

definition quotient :: "fpu \<Rightarrow> real \<Rightarrow> real \<Rightarrow> real option" where
  "quotient F x y = (if y = 0 then None else Some (fdiv F x y))"

subsection \<open>Durations\<close>

context fp_arith
begin

lemma timed_nonneg: "now tick \<le> now (Suc tick) \<Longrightarrow> 0 \<le> fst (timed F now tick)"
  by (simp add: timed_def Timer_Start_def Timer_End_def rnd_nonneg)

lemma foldl_fadd_nonneg: "0 \<le> t \<Longrightarrow> \<forall>x \<in> set ts. 0 \<le> x \<Longrightarrow> 0 \<le> foldl (fadd F) t ts"
  by (induction ts arbitrary: t) (simp_all add: fadd_def rnd_nonneg)

lemma total_time_nonneg: "\<forall>x \<in> set ts. 0 \<le> x \<Longrightarrow> 0 \<le> total_time F ts"
  unfolding total_time_def by (rule foldl_fadd_nonneg) simp_all

end

lemma timed_tick [simp]: "snd (timed F now tick) = tick + 2"
  by (simp add: timed_def Timer_Start_def Timer_End_def)

end
