(* ===== verification/Ceph_Db.thy ===== *)
theory Ceph_Db
  imports Timer
begin

text \<open>
  \<^verbatim>\<open>db/ceph_db.h\<close> as it is compiled (\<^verbatim>\<open>MMAP\<close> is defined): one 4096-byte block
  per key in a memory-mapped file. The mapping covers whole pages, so the bytes after the end
  of the file up to the page boundary can be accessed; anything else is an invalid access.
  The report of \<^verbatim>\<open>HandleAllData\<close> is a list of labelled numbers: their decimal layout is not
  modelled.
\<close>

subsection \<open>The mapped file\<close>

definition page_up :: "nat \<Rightarrow> nat" where
  "page_up n = (n + 4095) div 4096 * 4096"

definition mem_read :: "char list \<Rightarrow> int \<Rightarrow> nat \<Rightarrow> string result" where
  "mem_read m off n =
     (if 0 \<le> off \<and> nat off + n \<le> length m then Inr (take n (drop (nat off) m)) else Inl InvalidAccess)"

definition mem_set :: "char list \<Rightarrow> int \<Rightarrow> char \<Rightarrow> nat \<Rightarrow> char list result" where
  "mem_set m off c n =
     (if 0 \<le> off \<and> nat off + n \<le> length m
      then Inr (take (nat off) m @ replicate n c @ drop (nat off + n) m) else Inl InvalidAccess)"

text \<open>\<^verbatim>\<open>std::stoi(key.substr(4))\<close>\<close>

definition real_key :: "string \<Rightarrow> int result" where
  "real_key key = (if length key < 4 then Inl OutOfRange else stoi (drop 4 key))"

record CephDB =
  cd_phase :: Phase
  cd_map :: "char list"
  cd_filesize :: nat
  cd_ops :: int
  cd_read_time :: "real list"
  cd_insert_time :: "real list"
  cd_update_time :: "real list"
  cd_delete_time :: "real list"
  cd_scan_time :: "real list"
  cd_load_time :: "real list"
  cd_flush_time :: "real list"
  cd_tick :: nat
  cd_out :: "string list"

text \<open>The constructor: \<open>file\<close> is what \<^verbatim>\<open>open\<close> finds, \<open>None\<close> if it fails. \<^verbatim>\<open>O_CREAT\<close> makes a missing
  file an empty one, and \<^verbatim>\<open>mmap\<close> of zero bytes fails.\<close>

definition CephDB_new :: "string option \<Rightarrow> CephDB result" where
  "CephDB_new file =
     (case file of
        None \<Rightarrow> Inl (Exit (- 1))
      | Some bytes \<Rightarrow>
          (if bytes = [] then Inl (Exit (- 1))
           else Inr \<lparr>cd_phase = INVALID, cd_map = bytes @ replicate (page_up (length bytes) - length bytes) (CHR 0x00),
                     cd_filesize = length bytes, cd_ops = 0, cd_read_time = [], cd_insert_time = [],
                     cd_update_time = [], cd_delete_time = [], cd_scan_time = [], cd_load_time = [],
                     cd_flush_time = [], cd_tick = 0, cd_out = [''db file opened.'']\<rparr>))"

definition ceph_print :: "string \<Rightarrow> CephDB \<Rightarrow> CephDB" where
  "ceph_print l d = d\<lparr>cd_out := cd_out d @ [l]\<rparr>"

text \<open>The destructor; \<open>close_ok\<close> is whether \<^verbatim>\<open>close\<close> succeeds.\<close>

definition CephDB_delete :: "bool \<Rightarrow> CephDB \<Rightarrow> CephDB result" where
  "CephDB_delete close_ok d = (if close_ok then Inr (ceph_print ''db file closed.'' d) else Inl (Exit (- 1)))"

definition Ceph_Init :: "bool \<Rightarrow> CephDB \<Rightarrow> CephDB" where
  "Ceph_Init flag d =
     (if flag then ceph_print ''A new thread begins loading.'' (d\<lparr>cd_phase := LOAD\<rparr>)
      else ceph_print ''A new thread begins transaction.'' (d\<lparr>cd_phase := TRANSACTION\<rparr>))"

definition Ceph_Read ::
  "fpu \<Rightarrow> (nat \<Rightarrow> real) \<Rightarrow> string \<Rightarrow> string \<Rightarrow> string list option \<Rightarrow> CephDB \<Rightarrow> (int \<times> KVPair list \<times> CephDB) result" where
  "Ceph_Read F now table key flds d =
     rbind (real_key key) (\<lambda>RealKey.
     rbind (mem_read (cd_map d) (RealKey * 4096) 4096) (\<lambda>buffer.
     let (t, tick) = timed F now (cd_tick d) in
     Inr (0, [], d\<lparr>cd_ops := cd_ops d + 1, cd_read_time := cd_read_time d @ [t], cd_tick := tick\<rparr>)))"

definition Ceph_Scan ::
  "fpu \<Rightarrow> (nat \<Rightarrow> real) \<Rightarrow> string \<Rightarrow> string \<Rightarrow> int \<Rightarrow> string list option \<Rightarrow> CephDB \<Rightarrow>
   (int \<times> KVPair list list \<times> CephDB) result" where
  "Ceph_Scan F now table key len flds d =
     (let (t, tick) = timed F now (cd_tick d) in
      Inr (0, [], ceph_print ''Ceph DB SCAN not implemented''
        (d\<lparr>cd_ops := cd_ops d + 1, cd_scan_time := cd_scan_time d @ [t], cd_tick := tick\<rparr>)))"

text \<open>\<^verbatim>\<open>msync\<close> writes the block to the file; its result is not looked at.\<close>

definition Ceph_Update ::
  "fpu \<Rightarrow> (nat \<Rightarrow> real) \<Rightarrow> string \<Rightarrow> string \<Rightarrow> KVPair list \<Rightarrow> CephDB \<Rightarrow> (int \<times> CephDB) result" where
  "Ceph_Update F now table key values d =
     rbind (real_key key) (\<lambda>RealKey.
     rbind (mem_set (cd_map d) (RealKey * 4096) (CHR ''a'') 4096) (\<lambda>m.
     let (t, tick) = timed F now (cd_tick d) in
     Inr (0, d\<lparr>cd_map := m, cd_ops := cd_ops d + 1, cd_update_time := cd_update_time d @ [t], cd_tick := tick\<rparr>)))"

definition Ceph_Insert ::
  "fpu \<Rightarrow> (nat \<Rightarrow> real) \<Rightarrow> string \<Rightarrow> string \<Rightarrow> KVPair list \<Rightarrow> CephDB \<Rightarrow> (int \<times> CephDB) result" where
  "Ceph_Insert F now table key values d =
     (if cd_phase d = INVALID \<or> cd_phase d = LOAD then Inr (0, d)
      else
        let ops = (if cd_phase d = TRANSACTION then cd_ops d + 1 else cd_ops d) in
        rbind (real_key key) (\<lambda>RealKey.
        rbind (mem_set (cd_map d) (RealKey * 4096) (CHR ''b'') 4096) (\<lambda>m.
        let (t, tick) = timed F now (cd_tick d);
            d' = d\<lparr>cd_map := m, cd_ops := ops, cd_tick := tick\<rparr> in
        Inr (0, if cd_phase d = TRANSACTION then d'\<lparr>cd_insert_time := cd_insert_time d @ [t]\<rparr>
                else d'\<lparr>cd_load_time := cd_load_time d @ [t]\<rparr>))))"

definition Ceph_Delete ::
  "fpu \<Rightarrow> (nat \<Rightarrow> real) \<Rightarrow> string \<Rightarrow> string \<Rightarrow> CephDB \<Rightarrow> (int \<times> CephDB) result" where
  "Ceph_Delete F now table key d =
     (let (t, tick) = timed F now (cd_tick d) in
      Inr (0, ceph_print (''DELETE '' @ table @ '' '' @ key)
        (d\<lparr>cd_ops := cd_ops d + 1, cd_delete_time := cd_delete_time d @ [t], cd_tick := tick\<rparr>)))"

definition Ceph_FinalFlushDisk :: "fpu \<Rightarrow> (nat \<Rightarrow> real) \<Rightarrow> bool \<Rightarrow> CephDB \<Rightarrow> CephDB result" where
  "Ceph_FinalFlushDisk F now msync_ok d =
     (let (t, tick) = timed F now (cd_tick d) in
      if msync_ok then Inr (d\<lparr>cd_flush_time := cd_flush_time d @ [t], cd_tick := tick\<rparr>)
      else Inl (Exit (- 1)))"

definition CephDB_DB :: "fpu \<Rightarrow> (nat \<Rightarrow> real) \<Rightarrow> CephDB DB" where
  "CephDB_DB F now =
     \<lparr>db_Init = Ceph_Init, db_Read = Ceph_Read F now, db_Scan = Ceph_Scan F now,
      db_Update = Ceph_Update F now, db_Insert = Ceph_Insert F now, db_Delete = Ceph_Delete F now\<rparr>"

subsection \<open>The report\<close>

definition Ceph_HandleAllData :: "fpu \<Rightarrow> CephDB \<Rightarrow> (string \<times> real option) list" where
  "Ceph_HandleAllData F d =
     (let ReadDuration = total_time F (cd_read_time d);
          InsertDuration = total_time F (cd_insert_time d);
          UpdateDuration = total_time F (cd_update_time d);
          DeleteDuration = total_time F (cd_delete_time d);
          ScanDuration = total_time F (cd_scan_time d);
          FlushDuration = total_time F (cd_flush_time d);
          ops = fp_rnd F (of_int (cd_ops d));
          AllDuration = fadd F (fadd F (fadd F (fadd F (fadd F ReadDuration InsertDuration)
            UpdateDuration) DeleteDuration) ScanDuration) FlushDuration;
          speed = map_option (\<lambda>x. fdiv F x 1000) (quotient F ops AllDuration);
          bandwidth = quotient F (fdiv F (fmul F ops 4) 1024) AllDuration;
          LoadDuration = total_time F (cd_load_time d)
      in [(''ReadDuration: '', Some ReadDuration), (''InsertDuration: '', Some InsertDuration),
          (''UpdateDuration: '', Some UpdateDuration), (''DeleteDuration: '', Some DeleteDuration),
          (''ScanDuration: '', Some ScanDuration), (''FlushDuration: '', Some FlushDuration),
          (''Operation: '', Some ops), (''AllDuration: '', Some AllDuration), (''speed: '', speed),
          (''bandwidth: '', bandwidth), (''LoadDuration: '', Some LoadDuration),
          (''LoadSpeed: '', map_option (\<lambda>x. fdiv F x 1000) (quotient F ops LoadDuration))])"

subsection \<open>Lemmas\<close>

lemmas ceph_defs = CephDB_DB_def Ceph_Init_def Ceph_Read_def Ceph_Scan_def Ceph_Update_def Ceph_Insert_def
  Ceph_Delete_def ceph_print_def

lemma real_key_user: "n < 2 ^ 31 \<Longrightarrow> real_key (''user'' @ to_string n) = Inr (int n)"
  using stoi_to_string [of n] by (simp add: real_key_def)

lemma page_up_ge: "n \<le> page_up n" and page_up_dvd: "4096 dvd page_up n"
  by (simp_all add: page_up_def)

lemma mem_set_ok:
  assumes "k * 4096 + 4096 \<le> length m"
  shows "mem_set m (int k * 4096) c 4096 =
    Inr (take (k * 4096) m @ replicate 4096 c @ drop (k * 4096 + 4096) m)"
  using assms by (simp add: mem_set_def nat_mult_distrib)

lemma mem_read_ok: "k * 4096 + 4096 \<le> length m \<Longrightarrow> \<exists>b. mem_read m (int k * 4096) 4096 = Inr b"
  by (simp add: mem_read_def nat_mult_distrib)

text \<open>Enough blocks for every key that can be asked for.\<close>

definition ceph_inv :: "u64 \<Rightarrow> CephDB \<Rightarrow> bool" where
  "ceph_inv rc d \<longleftrightarrow> unat rc \<le> 2 ^ 31 \<and> unat rc * 4096 \<le> length (cd_map d)"

lemma ceph_key:
  assumes "ceph_inv rc d" and "k \<in> user_keys rc"
  obtains n where "k = ''user'' @ to_string n" "real_key k = Inr (int n)" "n * 4096 + 4096 \<le> length (cd_map d)"
proof -
  from assms(2) obtain n where n: "k = ''user'' @ to_string n" "n < unat rc" by (auto simp: user_keys_def)
  moreover have "Suc n * 4096 \<le> unat rc * 4096" using n(2) by (intro mult_right_mono) simp_all
  ultimately show thesis
    using assms(1) that [of n] real_key_user [of n] by (simp add: ceph_inv_def)
qed

interpretation ceph: ok_database "CephDB_DB F now" "ceph_inv rc" rc UNIV for F now rc
proof unfold_locales
  fix d k t flds vs
  assume d: "ceph_inv rc d" and k: "k \<in> user_keys rc"
  obtain n where n: "real_key k = Inr (int n)" "n * 4096 + 4096 \<le> length (cd_map d)" using ceph_key [OF d k] by blast
  show "\<exists>st res d'. db_Read (CephDB_DB F now) t k flds d = Inr (st, res, d') \<and> 0 \<le> st \<and> ceph_inv rc d'"
    using d n mem_read_ok [OF n(2)] by (auto simp: ceph_defs ceph_inv_def split: prod.split)
  show "\<exists>st d'. db_Update (CephDB_DB F now) t k vs d = Inr (st, d') \<and> 0 \<le> st \<and> ceph_inv rc d'"
    and "\<exists>st d'. db_Insert (CephDB_DB F now) t k vs d = Inr (st, d') \<and> 0 \<le> st \<and> ceph_inv rc d'"
    using d n by (auto simp: ceph_defs ceph_inv_def mem_set_ok Let_def split: prod.split)
qed (auto simp: ceph_defs ceph_inv_def rbind_eq_Inr_iff Let_def case_prod_beta split: if_splits)

text \<open>
  What \<^verbatim>\<open>Update\<close> writes: for a key \<open>user<n>\<close> whose block lies in the mapping, block \<open>n\<close> becomes
  4096 times \<open>a\<close>, every other byte of the mapping stays, and one operation and one time are
  recorded; the values passed in play no part. Outside the mapping the access is invalid.
\<close>

theorem Ceph_Update_block:
  assumes "n < 2 ^ 31"
  shows "Ceph_Update F now table (''user'' @ to_string n) vs d =
    (if n * 4096 + 4096 \<le> length (cd_map d)
     then Inr (0, d\<lparr>cd_map := take (n * 4096) (cd_map d) @ replicate 4096 (CHR ''a'') @ drop (n * 4096 + 4096) (cd_map d),
                     cd_ops := cd_ops d + 1,
                     cd_update_time := cd_update_time d @ [fp_rnd F (now (Suc (cd_tick d)) - now (cd_tick d))],
                     cd_tick := Suc (Suc (cd_tick d))\<rparr>)
     else Inl InvalidAccess)"
  using assms
  by (simp add: Ceph_Update_def real_key_user [simplified] mem_set_def nat_mult_distrib timed_def Timer_Start_def Timer_End_def)

theorem Ceph_Update_block_witness:
  "\<exists>d'. Ceph_Update exact_fpu real ''t'' (''user'' @ to_string 0) []
     \<lparr>cd_phase = TRANSACTION, cd_map = replicate 4096 (CHR ''x''), cd_filesize = 4096, cd_ops = 0,
      cd_read_time = [], cd_insert_time = [], cd_update_time = [], cd_delete_time = [], cd_scan_time = [],
      cd_load_time = [], cd_flush_time = [], cd_tick = 0, cd_out = []\<rparr> = Inr (0, d') \<and>
     cd_map d' = replicate 4096 (CHR ''a'')"
  by (subst Ceph_Update_block) simp_all

lemma Ceph_keeps_length:
  "db_Read (CephDB_DB F now) t k flds d = Inr (st, res, d') \<Longrightarrow> length (cd_map d') = length (cd_map d)"
  "db_Scan (CephDB_DB F now) t k len flds d = Inr (st, sres, d') \<Longrightarrow> length (cd_map d') = length (cd_map d)"
  "db_Update (CephDB_DB F now) t k vs d = Inr (st, d') \<Longrightarrow> length (cd_map d') = length (cd_map d)"
  "db_Insert (CephDB_DB F now) t k vs d = Inr (st, d') \<Longrightarrow> length (cd_map d') = length (cd_map d)"
  by (auto simp: ceph_defs rbind_eq_Inr_iff Let_def case_prod_beta mem_set_def split: if_splits)

text \<open>
  C33. A worker never leaves the mapping: if the file holds a block for each of the \<open>rc\<close> records,
  a load or transaction run over \<^verbatim>\<open>CephDB\<close> returns with every operation counted, and the
  mapping still holds a block for each record.
\<close>

theorem CephDB_worker_safe:
  assumes "client_ok F R UNIV rc (cl_workload st) (cl_rng st)" and "0 \<le> num_ops"
    and "unat rc \<le> 2 ^ 31" and "unat rc * 4096 \<le> length (cd_map (cl_db st))"
  shows "\<exists>st'. DelegateClient F R (CephDB_DB F now) num_ops is_loading st = Some (Inr (num_ops, st')) \<and>
    unat rc * 4096 \<le> length (cd_map (cl_db st'))"
proof -
  have "ceph.ready rc F R st" using assms by (simp add: ceph.ready_def ceph_inv_def)
  from ceph.DelegateClient_counts_all [OF _ assms(2) this, of is_loading F now] show ?thesis
    by (auto simp: ceph.ready_def ceph_inv_def)
qed

lemma Ceph_DoInsert_loading:
  "DoInsert F R (CephDB_DB F now) st = Some (Inr (ok, st')) \<Longrightarrow> cd_phase (cl_db st) = LOAD \<Longrightarrow> cl_db st' = cl_db st"
  by (auto simp: DoInsert_def step_simps ceph_defs)

lemma Ceph_load_loop:
  "DelegateClient_loop F R (CephDB_DB F now) True n oks st = Some (Inr (r, st')) \<Longrightarrow>
   cd_phase (cl_db st) = LOAD \<Longrightarrow> cl_db st' = cl_db st"
  by (induction n arbitrary: oks st) (fastforce simp: step_simps dest: Ceph_DoInsert_loading)+

text \<open>
  The load phase of \<^verbatim>\<open>CephDB\<close> stores nothing: a worker that loads leaves every byte of the
  mapping, the operation count and the recorded times as they were, although it counts each
  record as inserted.
\<close>

theorem CephDB_load_stores_nothing:
  assumes "DelegateClient F R (CephDB_DB F now) num_ops True st = Some (Inr (oks, st'))"
  shows "cl_db st' = Ceph_Init True (cl_db st) \<and> cd_map (cl_db st') = cd_map (cl_db st) \<and>
    cd_ops (cl_db st') = cd_ops (cl_db st) \<and> cd_load_time (cl_db st') = cd_load_time (cl_db st)"
proof -
  have "DelegateClient_loop F R (CephDB_DB F now) True (nat num_ops) 0 (st\<lparr>cl_db := Ceph_Init True (cl_db st)\<rparr>) =
      Some (Inr (oks, st'))"
    using assms by (auto simp: DelegateClient_def step_simps CephDB_DB_def)
  from Ceph_load_loop [OF this] have "cl_db st' = Ceph_Init True (cl_db st)"
    by (simp add: Ceph_Init_def ceph_print_def)
  then show ?thesis by (simp add: Ceph_Init_def ceph_print_def)
qed

definition demo_ceph :: CephDB where
  "demo_ceph = \<lparr>cd_phase = INVALID, cd_map = replicate 12288 (CHR ''x''), cd_filesize = 12288, cd_ops = 0,
      cd_read_time = [], cd_insert_time = [], cd_update_time = [], cd_delete_time = [], cd_scan_time = [],
      cd_load_time = [], cd_flush_time = [], cd_tick = 0, cd_out = []\<rparr>"

theorem CephDB_worker_safe_witness:
  "\<exists>wl s st'. Init exact_fpu zero_src demo_props CoreWorkload_new rng0 = Inr (wl, s) \<and>
    DelegateClient exact_fpu zero_src (CephDB_DB exact_fpu real) 5 False
      \<lparr>cl_workload = wl, cl_db = demo_ceph, cl_rng = s, cl_out = []\<rparr> = Some (Inr (5, st'))"
proof -
  obtain wl s where i: "Init exact_fpu zero_src demo_props CoreWorkload_new rng0 = Inr (wl, s)"
    "client_ok exact_fpu zero_src UNIV 3 wl s" using demo_client_ok by blast
  then show ?thesis
    using CephDB_worker_safe [of exact_fpu zero_src 3 "\<lparr>cl_workload = wl, cl_db = demo_ceph, cl_rng = s, cl_out = []\<rparr>" 5 real False]
    by (auto simp: demo_ceph_def)
qed

lemma demo_ceph_load:
  assumes "Init exact_fpu zero_src demo_props CoreWorkload_new rng0 = Inr (wl, s)"
    and "client_ok exact_fpu zero_src UNIV 3 wl s"
  shows "\<exists>st'. DelegateClient exact_fpu zero_src (CephDB_DB exact_fpu real) 3 True
      \<lparr>cl_workload = wl, cl_db = demo_ceph, cl_rng = s, cl_out = []\<rparr> = Some (Inr (3, st'))"
proof -
  have "ceph.ready 3 exact_fpu zero_src \<lparr>cl_workload = wl, cl_db = demo_ceph, cl_rng = s, cl_out = []\<rparr>"
    using assms by (simp add: ceph.ready_def ceph_inv_def demo_ceph_def)
  from ceph.DelegateClient_counts_all [OF _ _ this, of True 3 exact_fpu real] show ?thesis by auto
qed

theorem CephDB_load_stores_nothing_witness:
  "\<exists>wl s st'. Init exact_fpu zero_src demo_props CoreWorkload_new rng0 = Inr (wl, s) \<and>
    DelegateClient exact_fpu zero_src (CephDB_DB exact_fpu real) 3 True
      \<lparr>cl_workload = wl, cl_db = demo_ceph, cl_rng = s, cl_out = []\<rparr> = Some (Inr (3, st')) \<and>
    cd_map (cl_db st') = replicate 12288 (CHR ''x'')"
proof -
  obtain wl s where i: "Init exact_fpu zero_src demo_props CoreWorkload_new rng0 = Inr (wl, s)"
    "client_ok exact_fpu zero_src UNIV 3 wl s" using demo_client_ok by blast
  from demo_ceph_load [OF i] obtain st' where
    l: "DelegateClient exact_fpu zero_src (CephDB_DB exact_fpu real) 3 True
      \<lparr>cl_workload = wl, cl_db = demo_ceph, cl_rng = s, cl_out = []\<rparr> = Some (Inr (3, st'))" by blast
  from CephDB_load_stores_nothing [OF l] i l show ?thesis by (auto simp: demo_ceph_def)
qed

text \<open>The constructor cannot create its file: a missing or empty file ends the program.\<close>

lemma CephDB_new_cases:
  "CephDB_new None = Inl (Exit (- 1))" "CephDB_new (Some []) = Inl (Exit (- 1))"
  "bytes \<noteq> [] \<Longrightarrow> \<exists>d. CephDB_new (Some bytes) = Inr d \<and> take (length bytes) (cd_map d) = bytes \<and>
     4096 dvd length (cd_map d)"
  using page_up_ge [of "length bytes"] page_up_dvd [of "length bytes"] by (simp_all add: CephDB_new_def)

end
