(* ===== verification/Ceph_File_Db.thy ===== *)
theory Ceph_File_Db
  imports Ceph_Db
begin

text \<open>
  \<^verbatim>\<open>db/ceph_db.h\<close> without \<^verbatim>\<open>MMAP\<close>: one 4096-byte block per key in a file behind a \<^verbatim>\<open>std::fstream\<close>. The
  stream has a read position and an error state. It is opened with \<^verbatim>\<open>std::ios::app\<close>, so that every write goes
  to the end of the file. Each write is flushed at once, so the file holds what was written.
\<close>

subsection \<open>The file stream\<close>

record fstream =
  fs_file :: string
  fs_pos :: int
  fs_good :: bool

text \<open>A seek or a transfer in a failed state does nothing; a seek to a negative offset and a read past the
  end fail.\<close>

definition fs_seek :: "int \<Rightarrow> fstream \<Rightarrow> fstream" where
  "fs_seek off f = (if \<not> fs_good f then f else if off < 0 then f\<lparr>fs_good := False\<rparr> else f\<lparr>fs_pos := off\<rparr>)"

definition fs_read :: "nat \<Rightarrow> fstream \<Rightarrow> string \<times> fstream" where
  "fs_read n f =
     (if \<not> fs_good f then ([], f)
      else
        let b = take n (drop (nat (fs_pos f)) (fs_file f)) in
        (b, f\<lparr>fs_pos := fs_pos f + int (length b), fs_good := (length b = n)\<rparr>))"

definition fs_append :: "string \<Rightarrow> fstream \<Rightarrow> fstream" where
  "fs_append bytes f =
     (if \<not> fs_good f then f
      else f\<lparr>fs_file := fs_file f @ bytes, fs_pos := int (length (fs_file f) + length bytes)\<rparr>)"

text \<open>\<^verbatim>\<open>close\<close> and \<^verbatim>\<open>open\<close>: success clears the error state.\<close>

definition fs_reopen :: "bool \<Rightarrow> fstream \<Rightarrow> fstream" where
  "fs_reopen ok f = f\<lparr>fs_pos := 0, fs_good := ok\<rparr>"

subsection \<open>The database\<close>

record FileDB =
  fd_phase :: Phase
  fd_stream :: fstream
  fd_ops :: int
  fd_read_time :: "real list"
  fd_insert_time :: "real list"
  fd_update_time :: "real list"
  fd_delete_time :: "real list"
  fd_scan_time :: "real list"
  fd_load_time :: "real list"
  fd_opens :: nat
  fd_tick :: nat
  fd_out :: "string list"

definition FileDB_new :: "string option \<Rightarrow> FileDB result" where
  "FileDB_new file =
     (case file of
        None \<Rightarrow> Inl (Exit 1)
      | Some bytes \<Rightarrow>
          Inr \<lparr>fd_phase = INVALID, fd_stream = \<lparr>fs_file = bytes, fs_pos = 0, fs_good = True\<rparr>, fd_ops = 0, fd_read_time = [],
               fd_insert_time = [], fd_update_time = [], fd_delete_time = [], fd_scan_time = [], fd_load_time = [],
               fd_opens = 0, fd_tick = 0, fd_out = [''db file opened.'']\<rparr>)"

definition file_print :: "string \<Rightarrow> FileDB \<Rightarrow> FileDB" where
  "file_print l d = d\<lparr>fd_out := fd_out d @ [l]\<rparr>"

definition FileDB_delete :: "FileDB \<Rightarrow> FileDB" where
  "FileDB_delete d = file_print ''db file closed.'' d"

definition File_Init :: "bool \<Rightarrow> FileDB \<Rightarrow> FileDB" where
  "File_Init flag d =
     (if flag then file_print ''A new thread begins loading.'' (d\<lparr>fd_phase := LOAD\<rparr>)
      else file_print ''A new thread begins transaction.'' (d\<lparr>fd_phase := TRANSACTION\<rparr>))"

text \<open>\<open>ro k\<close> is whether the \<open>k\<close>-th time the file is opened again succeeds.\<close>

definition File_Flush :: "(nat \<Rightarrow> bool) \<Rightarrow> FileDB \<Rightarrow> FileDB" where
  "File_Flush ro d =
     (if fd_ops d mod 10 = 0 then d\<lparr>fd_stream := fs_reopen (ro (fd_opens d)) (fd_stream d), fd_opens := Suc (fd_opens d)\<rparr> else d)"

text \<open>The offset is a product of two \<^verbatim>\<open>int\<close>.\<close>

definition block_offset :: "int \<Rightarrow> int" where
  "block_offset RealKey = signed_take_bit 31 (RealKey * 4096)"

definition File_Read ::
  "fpu \<Rightarrow> (nat \<Rightarrow> real) \<Rightarrow> (nat \<Rightarrow> bool) \<Rightarrow> string \<Rightarrow> string \<Rightarrow> string list option \<Rightarrow> FileDB \<Rightarrow> (int \<times> KVPair list \<times> FileDB) result" where
  "File_Read F now ro table key flds d =
     rbind (real_key key) (\<lambda>RealKey.
     let d1 = d\<lparr>fd_ops := fd_ops d + 1, fd_stream := snd (fs_read 4096 (fs_seek (block_offset RealKey) (fd_stream d)))\<rparr>;
         d2 = File_Flush ro d1;
         (t, tick) = timed F now (fd_tick d) in
     Inr (0, [], d2\<lparr>fd_read_time := fd_read_time d @ [t], fd_tick := tick\<rparr>))"

definition File_Scan ::
  "fpu \<Rightarrow> (nat \<Rightarrow> real) \<Rightarrow> (nat \<Rightarrow> bool) \<Rightarrow> string \<Rightarrow> string \<Rightarrow> int \<Rightarrow> string list option \<Rightarrow> FileDB \<Rightarrow>
   (int \<times> KVPair list list \<times> FileDB) result" where
  "File_Scan F now ro table key len flds d =
     (let d2 = File_Flush ro (file_print ''Ceph DB SCAN not implemented'' (d\<lparr>fd_ops := fd_ops d + 1\<rparr>));
          (t, tick) = timed F now (fd_tick d) in
      Inr (0, [], d2\<lparr>fd_scan_time := fd_scan_time d @ [t], fd_tick := tick\<rparr>))"

definition write_block :: "char \<Rightarrow> int \<Rightarrow> fstream \<Rightarrow> fstream" where
  "write_block c RealKey f = fs_append (replicate 4096 c) (fs_seek (block_offset RealKey) f)"

definition File_Update ::
  "fpu \<Rightarrow> (nat \<Rightarrow> real) \<Rightarrow> (nat \<Rightarrow> bool) \<Rightarrow> string \<Rightarrow> string \<Rightarrow> KVPair list \<Rightarrow> FileDB \<Rightarrow> (int \<times> FileDB) result" where
  "File_Update F now ro table key values d =
     rbind (real_key key) (\<lambda>RealKey.
     let d2 = File_Flush ro (d\<lparr>fd_ops := fd_ops d + 1, fd_stream := write_block (CHR ''a'') RealKey (fd_stream d)\<rparr>);
         (t, tick) = timed F now (fd_tick d) in
     Inr (0, d2\<lparr>fd_update_time := fd_update_time d @ [t], fd_tick := tick\<rparr>))"

definition File_Insert ::
  "fpu \<Rightarrow> (nat \<Rightarrow> real) \<Rightarrow> (nat \<Rightarrow> bool) \<Rightarrow> string \<Rightarrow> string \<Rightarrow> KVPair list \<Rightarrow> FileDB \<Rightarrow> (int \<times> FileDB) result" where
  "File_Insert F now ro table key values d =
     (let ops = (if fd_phase d = TRANSACTION then fd_ops d + 1 else fd_ops d) in
      rbind (real_key key) (\<lambda>RealKey.
      let d2 = File_Flush ro (d\<lparr>fd_ops := ops, fd_stream := write_block (CHR ''b'') RealKey (fd_stream d)\<rparr>);
          (t, tick) = timed F now (fd_tick d);
          d3 = d2\<lparr>fd_tick := tick\<rparr> in
      Inr (0, if fd_phase d = TRANSACTION then d3\<lparr>fd_insert_time := fd_insert_time d @ [t]\<rparr>
              else d3\<lparr>fd_load_time := fd_load_time d @ [t]\<rparr>)))"

definition File_Delete ::
  "fpu \<Rightarrow> (nat \<Rightarrow> real) \<Rightarrow> (nat \<Rightarrow> bool) \<Rightarrow> string \<Rightarrow> string \<Rightarrow> FileDB \<Rightarrow> (int \<times> FileDB) result" where
  "File_Delete F now ro table key d =
     (let d2 = File_Flush ro (file_print (''DELETE '' @ table @ '' '' @ key) (d\<lparr>fd_ops := fd_ops d + 1\<rparr>));
          (t, tick) = timed F now (fd_tick d) in
      Inr (0, d2\<lparr>fd_delete_time := fd_delete_time d @ [t], fd_tick := tick\<rparr>))"

definition FileDB_DB :: "fpu \<Rightarrow> (nat \<Rightarrow> real) \<Rightarrow> (nat \<Rightarrow> bool) \<Rightarrow> FileDB DB" where
  "FileDB_DB F now ro =
     \<lparr>db_Init = File_Init, db_Read = File_Read F now ro, db_Scan = File_Scan F now ro,
      db_Update = File_Update F now ro, db_Insert = File_Insert F now ro, db_Delete = File_Delete F now ro\<rparr>"

definition File_HandleAllData :: "fpu \<Rightarrow> FileDB \<Rightarrow> (string \<times> real option) list" where
  "File_HandleAllData F d =
     (let ReadDuration = total_time F (fd_read_time d);
          InsertDuration = total_time F (fd_insert_time d);
          UpdateDuration = total_time F (fd_update_time d);
          DeleteDuration = total_time F (fd_delete_time d);
          ScanDuration = total_time F (fd_scan_time d);
          ops = fp_rnd F (of_int (fd_ops d));
          AllDuration = fadd F (fadd F (fadd F (fadd F ReadDuration InsertDuration) UpdateDuration) DeleteDuration) ScanDuration;
          speed = map_option (\<lambda>x. fdiv F x 1000) (quotient F ops AllDuration);
          bandwidth = quotient F (fdiv F (fmul F ops 4) 1024) AllDuration;
          LoadDuration = total_time F (fd_load_time d)
      in [(''ReadDuration: '', Some ReadDuration), (''InsertDuration: '', Some InsertDuration),
          (''UpdateDuration: '', Some UpdateDuration), (''DeleteDuration: '', Some DeleteDuration),
          (''ScanDuration: '', Some ScanDuration), (''Operation: '', Some ops), (''AllDuration: '', Some AllDuration),
          (''speed: '', speed), (''bandwidth: '', bandwidth), (''LoadDuration: '', Some LoadDuration),
          (''LoadSpeed: '', map_option (\<lambda>x. fdiv F x 1000) (quotient F ops LoadDuration))])"

subsection \<open>Properties\<close>

lemmas file_defs = FileDB_DB_def File_Init_def File_Read_def File_Scan_def File_Update_def File_Insert_def File_Delete_def

interpretation file_db: ok_database "FileDB_DB F now ro" "\<lambda>d. unat rc \<le> 2 ^ 31" rc UNIV for F now ro rc
proof unfold_locales
  fix d :: FileDB and k t flds vs
  assume r: "unat rc \<le> 2 ^ 31" and k: "k \<in> user_keys rc"
  from k obtain n where "k = ''user'' @ to_string n" "n < unat rc" by (auto simp: user_keys_def)
  then have n: "real_key k = Inr (int n)" using r real_key_user [of n] by simp
  show "\<exists>st res d'. db_Read (FileDB_DB F now ro) t k flds d = Inr (st, res, d') \<and> 0 \<le> st \<and> unat rc \<le> 2 ^ 31"
    using r n by (auto simp: file_defs Let_def split: prod.split)
  show "\<exists>st d'. db_Update (FileDB_DB F now ro) t k vs d = Inr (st, d') \<and> 0 \<le> st \<and> unat rc \<le> 2 ^ 31"
    and "\<exists>st d'. db_Insert (FileDB_DB F now ro) t k vs d = Inr (st, d') \<and> 0 \<le> st \<and> unat rc \<le> 2 ^ 31"
    using r n by (auto simp: file_defs Let_def split: prod.split)
qed (auto simp: file_defs rbind_eq_Inr_iff Let_def case_prod_beta split: if_splits)

lemma block_offset_small: "n < 2 ^ 19 \<Longrightarrow> block_offset (int n) = int n * 4096"
  unfolding block_offset_def by (intro signed_take_bit_int_eq_self) simp_all

text \<open>Whatever the key is, a write adds its block at the end of the file: the seek is without effect.\<close>

lemma write_block_appends:
  assumes "n < 2 ^ 19" "fs_good f"
  shows "fs_file (write_block c (int n) f) = fs_file f @ replicate 4096 c" "fs_good (write_block c (int n) f)"
  using assms by (simp_all add: write_block_def fs_append_def fs_seek_def block_offset_small)

lemma File_writes_append:
  assumes "n < 2 ^ 19" "fs_good (fd_stream d)" "\<forall>k. ro k"
  shows "\<exists>d'. File_Update F now ro table (''user'' @ to_string n) vs d = Inr (0, d') \<and> fs_good (fd_stream d') \<and>
      fs_file (fd_stream d') = fs_file (fd_stream d) @ replicate 4096 (CHR ''a'')"
    "\<exists>d'. File_Insert F now ro table (''user'' @ to_string n) vs d = Inr (0, d') \<and> fs_good (fd_stream d') \<and>
      fs_file (fd_stream d') = fs_file (fd_stream d) @ replicate 4096 (CHR ''b'')"
proof -
  have k: "real_key (''user'' @ to_string n) = Inr (int n)" using real_key_user [of n] assms(1) by simp
  note w = write_block_appends [OF assms(1,2)]
  show "\<exists>d'. File_Update F now ro table (''user'' @ to_string n) vs d = Inr (0, d') \<and> fs_good (fd_stream d') \<and>
      fs_file (fd_stream d') = fs_file (fd_stream d) @ replicate 4096 (CHR ''a'')"
    using w assms(3) unfolding File_Update_def k by (auto simp: File_Flush_def fs_reopen_def Let_def split: prod.split)
  show "\<exists>d'. File_Insert F now ro table (''user'' @ to_string n) vs d = Inr (0, d') \<and> fs_good (fd_stream d') \<and>
      fs_file (fd_stream d') = fs_file (fd_stream d) @ replicate 4096 (CHR ''b'')"
    using w assms(3) unfolding File_Insert_def k by (auto simp: File_Flush_def fs_reopen_def Let_def split: prod.split)
qed

text \<open>A load of any list of keys leaves one block for each of them, in the order of the calls.\<close>

fun file_load :: "fpu \<Rightarrow> (nat \<Rightarrow> real) \<Rightarrow> (nat \<Rightarrow> bool) \<Rightarrow> string \<Rightarrow> nat list \<Rightarrow> FileDB \<Rightarrow> FileDB result" where
  "file_load F now ro table [] d = Inr d"
| "file_load F now ro table (n # ns) d =
     rbind (File_Insert F now ro table (''user'' @ to_string n) [] d) (\<lambda>(st, d'). file_load F now ro table ns d')"

lemma file_load_appends:
  assumes "\<forall>n \<in> set ns. n < 2 ^ 19" "fs_good (fd_stream d)" "\<forall>k. ro k"
  shows "\<exists>d'. file_load F now ro table ns d = Inr d' \<and> fs_good (fd_stream d') \<and>
    fs_file (fd_stream d') = fs_file (fd_stream d) @ replicate (4096 * length ns) (CHR ''b'')"
  using assms
proof (induction ns arbitrary: d)
  case (Cons n ns)
  then have "n < 2 ^ 19" by simp
  from File_writes_append(2) [OF this Cons.prems(2,3), where F = F and now = now and table = table and vs = "[]"] obtain d1 where
    d1: "File_Insert F now ro table (''user'' @ to_string n) [] d = Inr (0, d1)" "fs_good (fd_stream d1)"
    "fs_file (fd_stream d1) = fs_file (fd_stream d) @ replicate 4096 (CHR ''b'')" by blast
  from Cons.IH [OF _ d1(2) Cons.prems(3)] Cons.prems(1) obtain d' where
    "file_load F now ro table ns d1 = Inr d'" "fs_good (fd_stream d')"
    "fs_file (fd_stream d') = fs_file (fd_stream d1) @ replicate (4096 * length ns) (CHR ''b'')" by auto
  with d1 show ?case by (simp only: file_load.simps rbind_simps prod.case) (simp add: replicate_add)
qed simp

text \<open>A read past the end of the file puts the stream into the failed state, in which later writes are lost
  although they return success, until the file is opened again.\<close>

lemma File_Read_fails:
  assumes "n < 2 ^ 19" "length (fs_file (fd_stream d)) < n * 4096 + 4096" "(fd_ops d + 1) mod 10 \<noteq> 0"
  shows "\<exists>d'. File_Read F now ro table (''user'' @ to_string n) flds d = Inr (0, [], d') \<and> \<not> fs_good (fd_stream d') \<and>
    fs_file (fd_stream d') = fs_file (fd_stream d)"
proof -
  have k: "real_key (''user'' @ to_string n) = Inr (int n)" using real_key_user [of n] assms(1) by simp
  show ?thesis
    unfolding File_Read_def k using assms(2,3)
    by (auto simp: File_Flush_def fs_read_def fs_seek_def block_offset_small [OF assms(1)] nat_mult_distrib Let_def split: prod.split)
qed

lemma File_Update_lost:
  assumes "n < 2 ^ 19" "\<not> fs_good (fd_stream d)"
  shows "\<exists>d'. File_Update F now ro table (''user'' @ to_string n) vs d = Inr (0, d') \<and> fs_file (fd_stream d') = fs_file (fd_stream d)"
proof -
  have k: "real_key (''user'' @ to_string n) = Inr (int n)" using real_key_user [of n] assms(1) by simp
  show ?thesis
    unfolding File_Update_def k using assms(2)
    by (auto simp: File_Flush_def fs_reopen_def write_block_def fs_append_def fs_seek_def Let_def split: prod.split)
qed

end
