(* ===== verification/Real_Ceph_Db.thy ===== *)
theory Real_Ceph_Db
  imports Ceph_Db
begin

text \<open>
  \<^verbatim>\<open>db/real_ceph_db.h\<close>: blocks of an RBD image, written and read asynchronously. The library
  behind \<^verbatim>\<open>rbd_aio_read\<close> and \<^verbatim>\<open>rbd_aio_write\<close> is not part of the program: a request is put into
  the list of requests in flight, and some time later the library calls its completion
  callback with a return value of its choice. First the operations as a database, then the
  race between the callbacks and \<^verbatim>\<open>Close\<close> as a transition system.
\<close>

subsection \<open>The database\<close>

text \<open>A request: its identity, the buffer (the argument of the callback) for a read, the offset.\<close>

datatype aio = Aio_read nat int | Aio_write nat int

record RealCephDB =
  rc_phase :: Phase
  rc_ops :: int
  rc_count :: int
  rc_inflight :: "aio list"
  rc_next :: nat
  rc_bufs :: "nat list"
  rc_read_time :: "real list"
  rc_insert_time :: "real list"
  rc_update_time :: "real list"
  rc_delete_time :: "real list"
  rc_scan_time :: "real list"
  rc_load_time :: "real list"
  rc_flush_time :: "real list"
  rc_tick :: nat
  rc_out :: "string list"
  rc_open :: bool

abbreviation (input) CEPHBLOCKSIZE :: int where "CEPHBLOCKSIZE \<equiv> 4096"

text \<open>The constructor: the results of the five calls that set up the connection, each fatal if
  negative. The clock period it prints first is \<open>1/1000000000\<close>.\<close>

definition RealCephDB_new :: "int \<Rightarrow> int \<Rightarrow> int \<Rightarrow> int \<Rightarrow> int \<Rightarrow> RealCephDB result" where
  "RealCephDB_new rados_create rados_conf_read_file rados_connect rados_ioctx_create rbd_open =
     (if rados_create < 0 then Inl (Exit 1)
      else if rados_conf_read_file < 0 then Inl (Exit 1)
      else if rados_connect < 0 then Inl (Exit 1)
      else if rados_ioctx_create < 0 then Inl (Exit 1)
      else if rbd_open < 0 then Inl (Exit 1)
      else Inr \<lparr>rc_phase = INVALID, rc_ops = 0, rc_count = 0, rc_inflight = [], rc_next = 0, rc_bufs = [],
                rc_read_time = [], rc_insert_time = [], rc_update_time = [], rc_delete_time = [],
                rc_scan_time = [], rc_load_time = [], rc_flush_time = [], rc_tick = 0,
                rc_out = [''High resolution clock period: 1/1000000000 seconds'', ''Created a cluster handle.'',
                  ''Read the config file.'', ''Connected to the cluster.'', ''Created I/O context.'',
                  ''Opened rbd image ceph-rbd-image1.img.'', ''db file opened.''],
                rc_open = True\<rparr>)"

definition real_print :: "string list \<Rightarrow> RealCephDB \<Rightarrow> RealCephDB" where
  "real_print ls d = d\<lparr>rc_out := rc_out d @ ls\<rparr>"

definition Real_Init :: "bool \<Rightarrow> RealCephDB \<Rightarrow> RealCephDB" where
  "Real_Init flag d =
     (if flag then real_print [''A new thread begins loading.''] (d\<lparr>rc_phase := LOAD\<rparr>)
      else real_print [''NO error'', ''A new thread begins transaction.'', ''No error''] (d\<lparr>rc_phase := TRANSACTION\<rparr>))"

text \<open>\<^verbatim>\<open>malloc\<close>, \<^verbatim>\<open>rbd_aio_create_completion\<close>, \<^verbatim>\<open>rbd_aio_read\<close>, \<^verbatim>\<open>async_op_count++\<close>; and for a write, whose
  callback gets no buffer.\<close>

definition submit_read :: "int \<Rightarrow> RealCephDB \<Rightarrow> RealCephDB" where
  "submit_read off d =
     d\<lparr>rc_bufs := rc_next d # rc_bufs d, rc_inflight := rc_inflight d @ [Aio_read (rc_next d) off],
       rc_next := Suc (rc_next d), rc_count := rc_count d + 1\<rparr>"

definition submit_write :: "int \<Rightarrow> RealCephDB \<Rightarrow> RealCephDB" where
  "submit_write off d =
     d\<lparr>rc_inflight := rc_inflight d @ [Aio_write (rc_next d) off],
       rc_next := Suc (rc_next d), rc_count := rc_count d + 1\<rparr>"

definition Real_Read ::
  "fpu \<Rightarrow> (nat \<Rightarrow> real) \<Rightarrow> string \<Rightarrow> string \<Rightarrow> string list option \<Rightarrow> RealCephDB \<Rightarrow>
   (int \<times> KVPair list \<times> RealCephDB) result" where
  "Real_Read F now table key flds d =
     rbind (real_key key) (\<lambda>RealKey.
     let (t, tick) = timed F now (rc_tick d);
         d' = submit_read (RealKey * CEPHBLOCKSIZE) d in
     Inr (0, [], d'\<lparr>rc_ops := rc_ops d + 1, rc_read_time := rc_read_time d @ [t], rc_tick := tick\<rparr>))"

definition Real_Update ::
  "fpu \<Rightarrow> (nat \<Rightarrow> real) \<Rightarrow> string \<Rightarrow> string \<Rightarrow> KVPair list \<Rightarrow> RealCephDB \<Rightarrow> (int \<times> RealCephDB) result" where
  "Real_Update F now table key values d =
     rbind (real_key key) (\<lambda>RealKey.
     let (t, tick) = timed F now (rc_tick d);
         d' = submit_write (RealKey * CEPHBLOCKSIZE) d in
     Inr (0, d'\<lparr>rc_ops := rc_ops d + 1, rc_update_time := rc_update_time d @ [t], rc_tick := tick\<rparr>))"

definition Real_Insert ::
  "fpu \<Rightarrow> (nat \<Rightarrow> real) \<Rightarrow> string \<Rightarrow> string \<Rightarrow> KVPair list \<Rightarrow> RealCephDB \<Rightarrow> (int \<times> RealCephDB) result" where
  "Real_Insert F now table key values d =
     (if rc_phase d = INVALID \<or> rc_phase d = LOAD then Inr (0, d)
      else
        let ops = (if rc_phase d = TRANSACTION then rc_ops d + 1 else rc_ops d) in
        rbind (real_key key) (\<lambda>RealKey.
        let (t, tick) = timed F now (rc_tick d);
            d' = (submit_write (RealKey * CEPHBLOCKSIZE) d)\<lparr>rc_ops := ops, rc_tick := tick\<rparr> in
        Inr (0, if rc_phase d = TRANSACTION then d'\<lparr>rc_insert_time := rc_insert_time d @ [t]\<rparr>
                else d'\<lparr>rc_load_time := rc_load_time d @ [t]\<rparr>)))"

definition Real_Scan ::
  "fpu \<Rightarrow> (nat \<Rightarrow> real) \<Rightarrow> string \<Rightarrow> string \<Rightarrow> int \<Rightarrow> string list option \<Rightarrow> RealCephDB \<Rightarrow>
   (int \<times> KVPair list list \<times> RealCephDB) result" where
  "Real_Scan F now table key len flds d =
     (let (t, tick) = timed F now (rc_tick d) in
      Inr (0, [], real_print [''Ceph DB SCAN not implemented'']
        (d\<lparr>rc_ops := rc_ops d + 1, rc_scan_time := rc_scan_time d @ [t], rc_tick := tick\<rparr>)))"

definition Real_Delete ::
  "fpu \<Rightarrow> (nat \<Rightarrow> real) \<Rightarrow> string \<Rightarrow> string \<Rightarrow> RealCephDB \<Rightarrow> (int \<times> RealCephDB) result" where
  "Real_Delete F now table key d =
     (let (t, tick) = timed F now (rc_tick d) in
      Inr (0, real_print [''DELETE '' @ table @ '' '' @ key]
        (d\<lparr>rc_ops := rc_ops d + 1, rc_delete_time := rc_delete_time d @ [t], rc_tick := tick\<rparr>)))"

definition RealCephDB_DB :: "fpu \<Rightarrow> (nat \<Rightarrow> real) \<Rightarrow> RealCephDB DB" where
  "RealCephDB_DB F now =
     \<lparr>db_Init = Real_Init, db_Read = Real_Read F now, db_Scan = Real_Scan F now,
      db_Update = Real_Update F now, db_Insert = Real_Insert F now, db_Delete = Real_Delete F now\<rparr>"

definition Real_HandleAllData :: "fpu \<Rightarrow> RealCephDB \<Rightarrow> (string \<times> real option) list" where
  "Real_HandleAllData F d =
     (let ReadDuration = total_time F (rc_read_time d);
          InsertDuration = total_time F (rc_insert_time d);
          UpdateDuration = total_time F (rc_update_time d);
          DeleteDuration = total_time F (rc_delete_time d);
          ScanDuration = total_time F (rc_scan_time d);
          FlushDuration = total_time F (rc_flush_time d);
          ops = fp_rnd F (of_int (rc_ops d));
          AllDuration = fadd F (fadd F (fadd F (fadd F (fadd F ReadDuration InsertDuration)
            UpdateDuration) DeleteDuration) ScanDuration) FlushDuration;
          speed = map_option (\<lambda>x. fdiv F x 1000) (quotient F ops AllDuration);
          bandwidth = quotient F (fdiv F (fmul F ops 4) 1024) AllDuration
      in [(''ReadDuration: '', Some ReadDuration), (''InsertDuration: '', Some InsertDuration),
          (''UpdateDuration: '', Some UpdateDuration), (''DeleteDuration: '', Some DeleteDuration),
          (''ScanDuration: '', Some ScanDuration), (''FlushDuration: '', Some FlushDuration),
          (''Operation: '', Some ops), (''AllDuration: '', Some AllDuration), (''speed: '', speed),
          (''bandwidth: '', bandwidth)])"

subsection \<open>Completion callbacks\<close>

definition aio_completion_callback :: "nat \<Rightarrow> int \<Rightarrow> RealCephDB \<Rightarrow> RealCephDB result" where
  "aio_completion_callback buf ret d =
     (if buf \<in> set (rc_bufs d)
      then Inr (d\<lparr>rc_bufs := remove1 buf (rc_bufs d), rc_count := rc_count d - 1\<rparr>)
      else Inl InvalidAccess)"

definition aio_completion_write_callback :: "int \<Rightarrow> RealCephDB \<Rightarrow> RealCephDB result" where
  "aio_completion_write_callback ret d =
     (if ret < 0 then Inl (Exit 1) else Inr (d\<lparr>rc_count := rc_count d - 1\<rparr>))"

text \<open>The library completes the request at position \<open>i\<close> with return value \<open>ret\<close>.\<close>

definition complete :: "nat \<Rightarrow> int \<Rightarrow> RealCephDB \<Rightarrow> RealCephDB result" where
  "complete i ret d =
     (if i < length (rc_inflight d) then
        (let d' = d\<lparr>rc_inflight := take i (rc_inflight d) @ drop (Suc i) (rc_inflight d)\<rparr> in
         case rc_inflight d ! i of
           Aio_read buf off \<Rightarrow> aio_completion_callback buf ret d'
         | Aio_write n off \<Rightarrow> aio_completion_write_callback ret d')
      else Inl InvalidAccess)"

text \<open>\<^verbatim>\<open>Close\<close>, once \<^verbatim>\<open>wait_for_all_async_ops\<close> lets it pass (\<open>None\<close>: it waits).\<close>

definition wait_for_all_async_ops :: "RealCephDB \<Rightarrow> bool" where
  "wait_for_all_async_ops d \<longleftrightarrow> rc_count d = 0"

definition Real_Close :: "RealCephDB \<Rightarrow> RealCephDB option" where
  "Real_Close d =
     (if wait_for_all_async_ops d then Some (real_print [''close OK''] (d\<lparr>rc_open := False\<rparr>)) else None)"

subsection \<open>Buffers and the counter\<close>

fun aio_bufs :: "aio list \<Rightarrow> nat list" where
  "aio_bufs [] = []"
| "aio_bufs (Aio_read b off # rs) = b # aio_bufs rs"
| "aio_bufs (Aio_write n off # rs) = aio_bufs rs"

text \<open>Between calls, the counter is the number of requests in flight, and the live buffers are
  exactly those that the reads in flight will free.\<close>

definition real_inv :: "u64 \<Rightarrow> RealCephDB \<Rightarrow> bool" where
  "real_inv rc d \<longleftrightarrow> unat rc \<le> 2 ^ 31 \<and> rc_count d = int (length (rc_inflight d)) \<and>
     distinct (rc_bufs d) \<and> set (rc_bufs d) = set (aio_bufs (rc_inflight d)) \<and>
     distinct (aio_bufs (rc_inflight d)) \<and> (\<forall>b \<in> set (rc_bufs d). b < rc_next d)"

lemma aio_bufs_append [simp]: "aio_bufs (a @ b) = aio_bufs a @ aio_bufs b"
  by (induction a rule: aio_bufs.induct) simp_all

lemma real_inv_frame [simp]:
  "real_inv rc (d\<lparr>rc_ops := x\<rparr>) = real_inv rc d" "real_inv rc (d\<lparr>rc_phase := ph\<rparr>) = real_inv rc d"
  "real_inv rc (d\<lparr>rc_tick := n\<rparr>) = real_inv rc d" "real_inv rc (d\<lparr>rc_out := o'\<rparr>) = real_inv rc d"
  "real_inv rc (d\<lparr>rc_read_time := ts\<rparr>) = real_inv rc d" "real_inv rc (d\<lparr>rc_insert_time := ts\<rparr>) = real_inv rc d"
  "real_inv rc (d\<lparr>rc_update_time := ts\<rparr>) = real_inv rc d" "real_inv rc (d\<lparr>rc_scan_time := ts\<rparr>) = real_inv rc d"
  "real_inv rc (d\<lparr>rc_load_time := ts\<rparr>) = real_inv rc d"
  by (simp_all add: real_inv_def)

lemma submit_inv [simp]:
  "real_inv rc d \<Longrightarrow> real_inv rc (submit_read off d)" "real_inv rc d \<Longrightarrow> real_inv rc (submit_write off d)"
  by (fastforce simp: real_inv_def submit_read_def submit_write_def)+

lemmas real_defs = RealCephDB_DB_def Real_Init_def Real_Read_def Real_Scan_def Real_Update_def Real_Insert_def
  Real_Delete_def real_print_def

interpretation real_ceph: ok_database "RealCephDB_DB F now" "real_inv rc" rc UNIV for F now rc
proof unfold_locales
  fix d k t flds vs
  assume d: "real_inv rc d" and k: "k \<in> user_keys rc"
  obtain n where n: "real_key k = Inr (int n)"
    using d k real_key_user by (force simp: user_keys_def real_inv_def)
  show "\<exists>st res d'. db_Read (RealCephDB_DB F now) t k flds d = Inr (st, res, d') \<and> 0 \<le> st \<and> real_inv rc d'"
    and "\<exists>st d'. db_Update (RealCephDB_DB F now) t k vs d = Inr (st, d') \<and> 0 \<le> st \<and> real_inv rc d'"
    and "\<exists>st d'. db_Insert (RealCephDB_DB F now) t k vs d = Inr (st, d') \<and> 0 \<le> st \<and> real_inv rc d'"
    using d n by (auto simp: real_defs Let_def case_prod_beta)
qed (auto simp: real_defs rbind_eq_Inr_iff Let_def case_prod_beta split: if_splits)

lemma complete_ok:
  assumes d: "real_inv rc d" and i: "i < length (rc_inflight d)" and ret: "0 \<le> ret"
  shows "\<exists>d'. complete i ret d = Inr d' \<and> real_inv rc d' \<and> length (rc_inflight d') = length (rc_inflight d) - 1"
proof -
  let ?l = "rc_inflight d" let ?rest = "take i ?l @ drop (Suc i) ?l"
  have l: "?l = take i ?l @ ?l ! i # drop (Suc i) ?l" using i by (rule id_take_nth_drop)
  have len: "length ?rest = length ?l - 1" using i by simp
  have c: "rc_count d - 1 = int (length ?rest)" using d i by (simp add: real_inv_def)
  show ?thesis
  proof (cases "?l ! i")
    case (Aio_read b off)
    have bufs: "aio_bufs ?l = aio_bufs (take i ?l) @ b # aio_bufs (drop (Suc i) ?l)"
      using arg_cong [OF l, of aio_bufs] Aio_read by simp
    then have "b \<in> set (rc_bufs d)" "set (remove1 b (rc_bufs d)) = set (aio_bufs ?rest)" "distinct (aio_bufs ?rest)"
      using d by (auto simp: real_inv_def)
    then show ?thesis
      using d i Aio_read c len by (auto simp: complete_def aio_completion_callback_def real_inv_def)
  next
    case (Aio_write n off)
    have "aio_bufs ?l = aio_bufs ?rest" using arg_cong [OF l, of aio_bufs] Aio_write by simp
    then show ?thesis
      using d i ret Aio_write c len by (simp add: complete_def aio_completion_write_callback_def real_inv_def)
  qed
qed

text \<open>A schedule completes the requests in flight in any order, without write errors.\<close>

fun schedule_ok :: "nat \<Rightarrow> (nat \<times> int) list \<Rightarrow> bool" where
  "schedule_ok n [] = (n = 0)"
| "schedule_ok 0 (p # ps) = False"
| "schedule_ok (Suc n) (p # ps) = (fst p \<le> n \<and> 0 \<le> snd p \<and> schedule_ok n ps)"

fun complete_all :: "(nat \<times> int) list \<Rightarrow> RealCephDB \<Rightarrow> RealCephDB result" where
  "complete_all [] d = Inr d"
| "complete_all (p # ps) d = rbind (complete (fst p) (snd p) d) (complete_all ps)"

lemma complete_all_ok:
  "real_inv rc d \<Longrightarrow> schedule_ok (length (rc_inflight d)) ps \<Longrightarrow>
   \<exists>d'. complete_all ps d = Inr d' \<and> real_inv rc d' \<and> rc_inflight d' = []"
proof (induction ps arbitrary: d)
  case (Cons p ps)
  then obtain n where n: "length (rc_inflight d) = Suc n" "fst p \<le> n" "0 \<le> snd p" "schedule_ok n ps"
    by (cases "length (rc_inflight d)") auto
  with complete_ok [OF Cons.prems(1), of "fst p" "snd p"] obtain d1 where
    "complete (fst p) (snd p) d = Inr d1" "real_inv rc d1" "length (rc_inflight d1) = n" by auto
  with Cons.IH [of d1] n show ?case by auto
qed simp


definition demo_real :: RealCephDB where
  "demo_real = \<lparr>rc_phase = INVALID, rc_ops = 0, rc_count = 0, rc_inflight = [], rc_next = 0, rc_bufs = [],
     rc_read_time = [], rc_insert_time = [], rc_update_time = [], rc_delete_time = [], rc_scan_time = [],
     rc_load_time = [], rc_flush_time = [], rc_tick = 0, rc_out = [], rc_open = True\<rparr>"


subsection \<open>The race between the callbacks and \<^verbatim>\<open>Close\<close>\<close>

text \<open>
  The atomic steps of the threads: a worker issues a request and then increments the counter
  (one request at a time, under the mutex of the database); a callback decrements it and then
  notifies; the main thread, when the workers are done, checks the predicate under
  \<^verbatim>\<open>async_op_mutex\<close>, and goes to sleep if it does not hold. The callbacks do not take that mutex.
\<close>

datatype waiter = Working | Checking | Falling_asleep | Asleep | Passed

record race =
  ra_pending :: nat
  ra_uncounted :: nat
  ra_count :: int
  ra_notifying :: nat
  ra_main :: waiter

inductive race_step :: "race \<Rightarrow> race \<Rightarrow> bool" where
  issue: "ra_main r = Working \<Longrightarrow> ra_uncounted r = 0 \<Longrightarrow>
    race_step r (r\<lparr>ra_pending := Suc (ra_pending r), ra_uncounted := 1\<rparr>)"
| count: "ra_uncounted r = Suc n \<Longrightarrow>
    race_step r (r\<lparr>ra_uncounted := n, ra_count := ra_count r + 1\<rparr>)"
| callback: "ra_pending r = Suc n \<Longrightarrow>
    race_step r (r\<lparr>ra_pending := n, ra_count := ra_count r - 1, ra_notifying := Suc (ra_notifying r)\<rparr>)"
| notify: "ra_notifying r = Suc n \<Longrightarrow>
    race_step r (r\<lparr>ra_notifying := n, ra_main := (if ra_main r = Asleep then Checking else ra_main r)\<rparr>)"
| close: "ra_main r = Working \<Longrightarrow> ra_uncounted r = 0 \<Longrightarrow> race_step r (r\<lparr>ra_main := Checking\<rparr>)"
| check_true: "ra_main r = Checking \<Longrightarrow> ra_count r = 0 \<Longrightarrow> race_step r (r\<lparr>ra_main := Passed\<rparr>)"
| check_false: "ra_main r = Checking \<Longrightarrow> ra_count r \<noteq> 0 \<Longrightarrow> race_step r (r\<lparr>ra_main := Falling_asleep\<rparr>)"
| sleep: "ra_main r = Falling_asleep \<Longrightarrow> race_step r (r\<lparr>ra_main := Asleep\<rparr>)"

inductive_cases race_stepE: "race_step r r'"

definition race0 :: race where
  "race0 = \<lparr>ra_pending = 0, ra_uncounted = 0, ra_count = 0, ra_notifying = 0, ra_main = Working\<rparr>"

definition race_inv :: "race \<Rightarrow> bool" where
  "race_inv r \<longleftrightarrow> ra_count r + int (ra_uncounted r) = int (ra_pending r) \<and>
     (ra_main r \<noteq> Working \<longrightarrow> ra_uncounted r = 0) \<and> (ra_main r = Passed \<longrightarrow> ra_count r = 0)"

lemma race_step_inv: "race_step r r' \<Longrightarrow> race_inv r \<Longrightarrow> race_inv r'"
  by (erule race_stepE) (auto simp: race_inv_def split: if_splits)

lemma race_reachable_inv: "race_step\<^sup>*\<^sup>* race0 r \<Longrightarrow> race_inv r"
proof (induction rule: rtranclp_induct)
  case base
  show ?case by (simp add: race_inv_def race0_def)
next
  case (step y z)
  then show ?case using race_step_inv by blast
qed


lemma race_two_steps:
  "race_step\<^sup>*\<^sup>* race0 (race0\<lparr>ra_main := Passed\<rparr>)"
proof -
  have "race_step race0 (race0\<lparr>ra_main := Checking\<rparr>)" by (rule close) (simp_all add: race0_def)
  moreover have "race_step (race0\<lparr>ra_main := Checking\<rparr>) (race0\<lparr>ra_main := Checking\<rparr>\<lparr>ra_main := Passed\<rparr>)"
    by (rule check_true) (simp_all add: race0_def)
  ultimately show ?thesis by (simp add: converse_rtranclp_into_rtranclp)
qed


text \<open>
  C30. \<^verbatim>\<open>Close\<close> can hang for ever: the last callback may decrement the counter and notify after the
  main thread has found the counter non-zero and before it sleeps. There is a reachable state
  in which nothing is in flight, the counter is zero, the main thread sleeps and no thread can
  make a step.
\<close>

theorem Close_lost_wakeup:
  "\<exists>r. race_step\<^sup>*\<^sup>* race0 r \<and> ra_main r = Asleep \<and> ra_count r = 0 \<and> ra_pending r = 0 \<and> (\<nexists>r'. race_step r r')"
proof -
  define r :: "nat \<Rightarrow> nat \<Rightarrow> int \<Rightarrow> nat \<Rightarrow> waiter \<Rightarrow> race" where
    "r a b c d e = \<lparr>ra_pending = a, ra_uncounted = b, ra_count = c, ra_notifying = d, ra_main = e\<rparr>" for a b c d e
  note rtranclp.rtrancl_into_rtrancl [trans]
  have "race_step\<^sup>*\<^sup>* race0 race0" by simp
  also have "race_step race0 (r 1 1 0 0 Working)" using issue [of race0] by (simp add: race0_def r_def)
  also have "race_step (r 1 1 0 0 Working) (r 1 0 1 0 Working)" using count [of "r 1 1 0 0 Working"] by (simp add: r_def)
  also have "race_step (r 1 0 1 0 Working) (r 1 0 1 0 Checking)" using close [of "r 1 0 1 0 Working"] by (simp add: r_def)
  also have "race_step (r 1 0 1 0 Checking) (r 1 0 1 0 Falling_asleep)"
    using check_false [of "r 1 0 1 0 Checking"] by (simp add: r_def)
  also have "race_step (r 1 0 1 0 Falling_asleep) (r 0 0 0 1 Falling_asleep)"
    using callback [of "r 1 0 1 0 Falling_asleep"] by (simp add: r_def)
  also have "race_step (r 0 0 0 1 Falling_asleep) (r 0 0 0 0 Falling_asleep)"
    using notify [of "r 0 0 0 1 Falling_asleep"] by (simp add: r_def)
  also have "race_step (r 0 0 0 0 Falling_asleep) (r 0 0 0 0 Asleep)"
    using sleep [of "r 0 0 0 0 Falling_asleep"] by (simp add: r_def)
  finally have "race_step\<^sup>*\<^sup>* race0 (r 0 0 0 0 Asleep)" .
  moreover have "\<nexists>r'. race_step (r 0 0 0 0 Asleep) r'" by (auto simp: r_def elim: race_stepE)
  ultimately show ?thesis by (intro exI [of _ "r 0 0 0 0 Asleep"]) (simp add: r_def)
qed

end
