(* ===== verification/Xihu_Client.thy ===== *)
theory Xihu_Client
  imports Ceph_Db
begin

text \<open>
  \<^verbatim>\<open>db/xihu_common.h\<close> and \<^verbatim>\<open>db/xihu_client.h\<close>: a client that moves runs of blocks over an RPC
  library, with up to 30 requests in flight. The library is not part of the program: a request
  handed to \<^verbatim>\<open>enqueue_request\<close> is in flight until the event loop delivers its response and calls
  \<^verbatim>\<open>cont_func\<close> with the number of the message buffer. In which order responses arrive is not
  known: the wait loop takes a schedule, one number per delivery, which picks a request in
  flight. The user's buffer at \<^verbatim>\<open>ms.ptr\<close> is a list of blocks of \<^verbatim>\<open>BLOCKSIZE\<close> bytes.
\<close>

datatype MsgType = Msg_Read | Msg_Write

record Mission =
  ms_type :: MsgType
  ms_bid :: int
  ms_nxt :: int
  ms_tot :: int
  ms_pip :: int

abbreviation (input) MSG_BUFFER_NUM :: nat where "MSG_BUFFER_NUM \<equiv> 50"
abbreviation (input) PIPLINE_PKT_DEPTH :: u64 where "PIPLINE_PKT_DEPTH \<equiv> 30"
abbreviation (input) BLOCKSIZE :: nat where "BLOCKSIZE \<equiv> 3816"

text \<open>A message: type, block number and, for a write, the block.\<close>

datatype CommonMsg = CommonMsg (cm_type: MsgType) (cm_bid: u32) (cm_block: string)

record XihuClient =
  xc_ms :: Mission
  xc_avail :: "nat list"
  xc_flight :: "(nat \<times> CommonMsg) list"
  xc_buf :: "string list"
  xc_wire :: "CommonMsg list"

definition XihuClient_new :: XihuClient where
  "XihuClient_new =
     \<lparr>xc_ms = \<lparr>ms_type = Msg_Read, ms_bid = 0, ms_nxt = 0, ms_tot = 0, ms_pip = 0\<rparr>,
      xc_avail = [0..<MSG_BUFFER_NUM], xc_flight = [], xc_buf = [], xc_wire = []\<rparr>"

subsection \<open>Requests\<close>

text \<open>The block at index \<open>i\<close> of the user's buffer.\<close>

definition buf_get :: "string list \<Rightarrow> int \<Rightarrow> string result" where
  "buf_get bs i = (if 0 \<le> i \<and> nat i < length bs then Inr (bs ! nat i) else Inl InvalidAccess)"

definition buf_set :: "string list \<Rightarrow> int \<Rightarrow> string \<Rightarrow> string list result" where
  "buf_set bs i b = (if 0 \<le> i \<and> nat i < length bs then Inr (bs[nat i := b]) else Inl InvalidAccess)"

text \<open>Take a free message buffer, fill in the request for the block at index \<open>i\<close> and enqueue it.\<close>

definition send_request :: "int \<Rightarrow> XihuClient \<Rightarrow> XihuClient result" where
  "send_request i c =
     (case xc_avail c of
        [] \<Rightarrow> Inl InvalidAccess
      | k # ks \<Rightarrow>
          rbind (if ms_type (xc_ms c) = Msg_Write then buf_get (xc_buf c) i else Inr []) (\<lambda>block.
          let msg = CommonMsg (ms_type (xc_ms c)) (word_of_int (ms_bid (xc_ms c) + i)) block in
          Inr (c\<lparr>xc_avail := ks, xc_flight := xc_flight c @ [(k, msg)], xc_wire := xc_wire c @ [msg]\<rparr>)))"

text \<open>\<^verbatim>\<open>cont_func\<close>, called for message buffer \<open>k\<close> with the response \<open>rsp\<close> in \<^verbatim>\<open>resps[k]\<close>.\<close>

definition cont_func :: "nat \<Rightarrow> CommonMsg \<Rightarrow> XihuClient \<Rightarrow> XihuClient result" where
  "cont_func k rsp c =
     (let ms = xc_ms c;
          seq = uint (word_of_int (ms_nxt ms) :: u32);
          c1 = c\<lparr>xc_avail := xc_avail c @ [k], xc_ms := ms\<lparr>ms_nxt := ms_nxt ms + 1\<rparr>\<rparr> in
      case ms_type ms of
        Msg_Write \<Rightarrow> (if ms_tot ms \<le> seq then Inr c1 else send_request seq c1)
      | Msg_Read \<Rightarrow>
          rbind (buf_set (xc_buf c1) (uint (cm_bid rsp) - ms_bid ms) (cm_block rsp)) (\<lambda>buf.
          let c2 = c1\<lparr>xc_buf := buf\<rparr> in
          if ms_tot ms \<le> seq then Inr c2 else send_request seq c2))"

text \<open>The first requests, and one delivery of the event loop: the response to a request in flight.\<close>

fun start_requests :: "nat \<Rightarrow> nat \<Rightarrow> XihuClient \<Rightarrow> XihuClient result" where
  "start_requests 0 i c = Inr c"
| "start_requests (Suc n) i c = rbind (send_request (int i) c) (start_requests n (Suc i))"

definition deliver :: "(CommonMsg \<Rightarrow> CommonMsg) \<Rightarrow> nat \<Rightarrow> XihuClient \<Rightarrow> XihuClient result" where
  "deliver server i c =
     (let (k, msg) = xc_flight c ! i in
      cont_func k (server msg) (c\<lparr>xc_flight := take i (xc_flight c) @ drop (Suc i) (xc_flight c)\<rparr>))"

text \<open>\<^verbatim>\<open>while (ms.nxt < ms.tot + ms.pip) rpc->run_event_loop_once()\<close>: each number of the schedule picks,
  modulo their number, one of the requests in flight. \<open>None\<close>: the loop goes on and nothing
  more is delivered.\<close>

fun event_loop :: "(CommonMsg \<Rightarrow> CommonMsg) \<Rightarrow> nat list \<Rightarrow> XihuClient \<Rightarrow> XihuClient result option" where
  "event_loop server sched c =
     (if ms_nxt (xc_ms c) < ms_tot (xc_ms c) + ms_pip (xc_ms c) then
        (case sched of
           [] \<Rightarrow> None
         | i # is \<Rightarrow>
             (if xc_flight c = [] then None
              else case deliver server (i mod length (xc_flight c)) c of
                     Inl e \<Rightarrow> Some (Inl e)
                   | Inr c' \<Rightarrow> event_loop server is c'))
      else Some (Inr c))"

declare event_loop.simps [simp del]

definition transfer ::
  "MsgType \<Rightarrow> (CommonMsg \<Rightarrow> CommonMsg) \<Rightarrow> nat list \<Rightarrow> u64 \<Rightarrow> u64 \<Rightarrow> string list \<Rightarrow> XihuClient \<Rightarrow>
   (int \<times> XihuClient) result option" where
  "transfer typ server sched blockID len buf c =
     (let n = uint (min PIPLINE_PKT_DEPTH len);
          ms = \<lparr>ms_type = typ, ms_bid = sint blockID, ms_nxt = n, ms_tot = sint len, ms_pip = n\<rparr> in
      case start_requests (nat n) 0 (c\<lparr>xc_ms := ms, xc_buf := buf\<rparr>) of
        Inl e \<Rightarrow> Some (Inl e)
      | Inr c1 \<Rightarrow> map_option (\<lambda>r. rbind r (\<lambda>c2. Inr (0, c2))) (event_loop server sched c1))"

definition XihuClient_write ::
  "(CommonMsg \<Rightarrow> CommonMsg) \<Rightarrow> nat list \<Rightarrow> u64 \<Rightarrow> u64 \<Rightarrow> string list \<Rightarrow> XihuClient \<Rightarrow> (int \<times> XihuClient) result option" where
  "XihuClient_write = transfer Msg_Write"

definition XihuClient_read ::
  "(CommonMsg \<Rightarrow> CommonMsg) \<Rightarrow> nat list \<Rightarrow> u64 \<Rightarrow> u64 \<Rightarrow> string list \<Rightarrow> XihuClient \<Rightarrow> (int \<times> XihuClient) result option" where
  "XihuClient_read = transfer Msg_Read"

end
