(* ===== verification/Xihu_Laws.thy ===== *)
theory Xihu_Laws
  imports Xihu_Client "HOL-Library.Multiset"
begin

text \<open>
  A pipelined transfer is a plain copy: whatever order the responses arrive in, every block of
  the run is requested once and in order, the message buffers are all returned, and the user's
  buffer ends up with the blocks at their places.
\<close>

lemma unat_u32_of_nat: "n < 2 ^ 32 \<Longrightarrow> unat (word_of_nat n :: u32) = n"
  by (simp add: unsigned_of_nat take_bit_nat_eq_self)

lemma remove_mid: "distinct (a @ x # b) \<Longrightarrow> distinct (a @ b) \<and> set (a @ b) = set (a @ x # b) - {x}"
  by auto

lemma remove_at:
  assumes "distinct xs" and "i < length xs"
  shows "distinct (take i xs @ drop (Suc i) xs)" "set (take i xs @ drop (Suc i) xs) = set xs - {xs ! i}"
  using remove_mid [of "take i xs" "xs ! i" "drop (Suc i) xs"] id_take_nth_drop [OF assms(2), symmetric] assms(1)
  by simp_all

lemma take_drop_mset: "i < length xs \<Longrightarrow> add_mset (xs ! i) (mset (take i xs @ drop (Suc i) xs)) = mset xs"
  by (subst (4) id_take_nth_drop [of i xs]) simp_all

definition depth :: "nat \<Rightarrow> nat" where "depth L = min 30 L"

text \<open>The request for the block at index \<open>s\<close> of a run that starts at block \<open>B\<close>, and the mission after \<open>j\<close> deliveries.\<close>

definition block_msg :: "MsgType \<Rightarrow> nat \<Rightarrow> string list \<Rightarrow> nat \<Rightarrow> CommonMsg" where
  "block_msg ty B buf0 s = CommonMsg ty (word_of_nat (B + s)) (if ty = Msg_Write then buf0 ! s else [])"

definition run_mission :: "MsgType \<Rightarrow> nat \<Rightarrow> nat \<Rightarrow> nat \<Rightarrow> Mission" where
  "run_mission ty B L j =
     \<lparr>ms_type = ty, ms_bid = int B, ms_nxt = int (depth L + j), ms_tot = int L, ms_pip = int (depth L)\<rparr>"

lemma mission_sel [simp]:
  "ms_type (run_mission ty B L j) = ty" "ms_bid (run_mission ty B L j) = int B"
  "ms_tot (run_mission ty B L j) = int L" "ms_pip (run_mission ty B L j) = int (depth L)"
  "ms_nxt (run_mission ty B L j) = int (depth L + j)"
  "(run_mission ty B L j)\<lparr>ms_nxt := int (depth L) + int j + 1\<rparr> = run_mission ty B L (Suc j)"
  by (simp_all add: run_mission_def)

locale transfer_run =
  fixes ty :: MsgType and server :: "CommonMsg \<Rightarrow> CommonMsg" and B L :: nat and buf0 :: "string list"
    and wire0 :: "CommonMsg list"
  assumes small: "L < 2 ^ 31" "B + L \<le> 2 ^ 32"
    and room: "length buf0 = L"
    and echo: "cm_bid (server m) = cm_bid m"
begin

abbreviation P :: nat where "P \<equiv> depth L"
abbreviation msg :: "nat \<Rightarrow> CommonMsg" where "msg \<equiv> block_msg ty B buf0"
abbreviation mission :: "nat \<Rightarrow> Mission" where "mission \<equiv> run_mission ty B L"

abbreviation sent :: "nat \<Rightarrow> nat" where "sent j \<equiv> min L (P + j)"

definition buffers_ok :: "XihuClient \<Rightarrow> bool" where
  "buffers_ok c \<longleftrightarrow> mset (map fst (xc_flight c)) + mset (xc_avail c) = mset [0..<MSG_BUFFER_NUM]"

definition data_ok :: "nat set \<Rightarrow> XihuClient \<Rightarrow> bool" where
  "data_ok S c \<longleftrightarrow> length (xc_buf c) = L \<and>
     (case ty of Msg_Write \<Rightarrow> xc_buf c = buf0 | Msg_Read \<Rightarrow> \<forall>s \<in> S. xc_buf c ! s = cm_block (server (msg s)))"

text \<open>After \<open>j\<close> deliveries: \<open>ss\<close> are the blocks whose requests are in flight.\<close>

definition run_inv :: "nat \<Rightarrow> nat list \<Rightarrow> XihuClient \<Rightarrow> bool" where
  "run_inv j ss c \<longleftrightarrow> xc_ms c = mission j \<and> xc_wire c = wire0 @ map msg [0..<sent j] \<and>
     map snd (xc_flight c) = map msg ss \<and> distinct ss \<and> set ss \<subseteq> {..<sent j} \<and> length ss + j = sent j \<and>
     buffers_ok c \<and> data_ok ({..<sent j} - set ss) c"

lemma bid_index: "s < L \<Longrightarrow> uint (cm_bid (server (msg s))) - int B = int s"
proof -
  assume "s < L"
  then have "unat (word_of_nat (B + s) :: u32) = B + s" using small by (intro unat_u32_of_nat) simp
  then show ?thesis unfolding echo block_msg_def uint_nat CommonMsg.sel by (simp del: of_nat_add add: of_nat_diff)
qed

lemma send_request_ok:
  assumes "xc_avail c = k # ks" and "xc_ms c = mission j" and "s < L" and "ty = Msg_Write \<Longrightarrow> xc_buf c = buf0"
  shows "send_request (int s) c =
    Inr (c\<lparr>xc_avail := ks, xc_flight := xc_flight c @ [(k, msg s)], xc_wire := xc_wire c @ [msg s]\<rparr>)"
proof -
  have "(word_of_int (int B + int s) :: u32) = word_of_nat (B + s)" by simp
  then show ?thesis
    using assms room by (simp add: send_request_def block_msg_def buf_get_def Let_def)
qed

lemma start_requests_ok:
  assumes "n \<le> length (xc_avail c)" and "xc_ms c = mission j" and "i + n \<le> L" and "xc_buf c = buf0"
  shows "\<exists>ks. start_requests n i c =
    Inr (c\<lparr>xc_avail := drop n (xc_avail c), xc_flight := xc_flight c @ zip ks (map msg [i..<i + n]),
           xc_wire := xc_wire c @ map msg [i..<i + n]\<rparr>) \<and> ks = take n (xc_avail c)"
  using assms
proof (induction n arbitrary: i c)
  case 0
  then show ?case by simp
next
  case (Suc n)
  then obtain k ks where a: "xc_avail c = k # ks" by (cases "xc_avail c") auto
  let ?c = "c\<lparr>xc_avail := ks, xc_flight := xc_flight c @ [(k, msg i)], xc_wire := xc_wire c @ [msg i]\<rparr>"
  have "send_request (int i) c = Inr ?c" using send_request_ok [OF a Suc.prems(2)] Suc.prems by simp
  moreover have "[i..<i + Suc n] = i # [Suc i..<Suc i + n]" by (simp add: upt_conv_Cons del: upt_Suc)
  ultimately show ?case using Suc.IH [of ?c "Suc i"] Suc.prems a by (simp del: upt_Suc)
qed

lemma flight_split:
  assumes "map snd fl = map msg ss" and "i < length fl"
  shows "i < length ss" "snd (fl ! i) = msg (ss ! i)"
    "map snd (take i fl @ drop (Suc i) fl) = map msg (take i ss @ drop (Suc i) ss)"
proof -
  have len: "length fl = length ss" using arg_cong [OF assms(1), of length] by simp
  then show "i < length ss" using assms(2) by simp
  then show "snd (fl ! i) = msg (ss ! i)" using arg_cong [OF assms(1), of "\<lambda>xs. xs ! i"] assms(2) by simp
  show "map snd (take i fl @ drop (Suc i) fl) = map msg (take i ss @ drop (Suc i) ss)"
    using arg_cong [OF assms(1), of "take i"] arg_cong [OF assms(1), of "drop (Suc i)"]
    by (simp add: take_map drop_map)
qed

text \<open>The state once the response has been taken in, before the next request.\<close>

definition received :: "nat \<Rightarrow> nat list \<Rightarrow> XihuClient \<Rightarrow> bool" where
  "received j ss c \<longleftrightarrow> xc_ms c = mission (Suc j) \<and> xc_wire c = wire0 @ map msg [0..<sent j] \<and>
     map snd (xc_flight c) = map msg ss \<and> distinct ss \<and> set ss \<subseteq> {..<sent j} \<and> length ss + Suc j = sent j \<and>
     buffers_ok c \<and> data_ok ({..<sent j} - set ss) c \<and> xc_avail c \<noteq> []"

lemma received_next:
  assumes r: "received j ss c" and j: "j < L"
  shows "\<exists>ss' c'. (if L \<le> P + j then Inr c else send_request (int (P + j)) c) = Inr c' \<and> run_inv (Suc j) ss' c'"
proof (cases "L \<le> P + j")
  case True
  then show ?thesis using r by (auto simp: received_def run_inv_def)
next
  case False
  obtain k ks where a: "xc_avail c = k # ks" using r by (cases "xc_avail c") (auto simp: received_def)
  have "data_ok ({..<sent j} - set ss) c" using r by (simp add: received_def)
  then have buf: "ty = Msg_Write \<Longrightarrow> xc_buf c = buf0" unfolding data_ok_def by (auto split: MsgType.splits)
  let ?c = "c\<lparr>xc_avail := ks, xc_flight := xc_flight c @ [(k, msg (P + j))], xc_wire := xc_wire c @ [msg (P + j)]\<rparr>"
  have send: "send_request (int (P + j)) c = Inr ?c"
    using send_request_ok [OF a, of "Suc j" "P + j"] r False buf by (simp add: received_def)
  have s: "sent j = P + j" "sent (Suc j) = Suc (P + j)" using False by simp_all
  have sub: "set ss \<subseteq> {..<P + j}" using r s by (simp add: received_def)
  have "{..<Suc (P + j)} - set (ss @ [P + j]) \<subseteq> {..<P + j} - set ss" by auto
  then have "data_ok ({..<Suc (P + j)} - set (ss @ [P + j])) ?c"
    using r s by (auto simp: received_def data_ok_def split: MsgType.splits)
  moreover have "buffers_ok ?c" using r a by (simp add: received_def buffers_ok_def)
  ultimately have "run_inv (Suc j) (ss @ [P + j]) ?c"
    using r s sub by (auto simp: received_def run_inv_def)
  then show ?thesis using send False by auto
qed

lemma deliver_ok:
  assumes inv: "run_inv j ss c" and j: "j < L" and i: "i < length (xc_flight c)"
  shows "\<exists>ss' c'. deliver server i c = Inr c' \<and> run_inv (Suc j) ss' c'"
proof -
  let ?fl = "take i (xc_flight c) @ drop (Suc i) (xc_flight c)" and ?ss = "take i ss @ drop (Suc i) ss"
  obtain k where k: "xc_flight c ! i = (k, msg (ss ! i))"
    using flight_split(2) [of "xc_flight c" ss i] inv i by (cases "xc_flight c ! i") (auto simp: run_inv_def)
  have fl: "map snd (xc_flight c) = map msg ss" using inv by (simp add: run_inv_def)
  note sp = flight_split [OF fl i]
  have ss: "ss = take i ss @ ss ! i # drop (Suc i) ss" using sp(1) by (rule id_take_nth_drop)
  have dist: "distinct ss" "set ss \<subseteq> {..<sent j}" "length ss + j = sent j" using inv by (simp_all add: run_inv_def)
  then have si: "ss ! i < L" using nth_mem [OF sp(1)] by auto
  note rem = remove_at [OF dist(1) sp(1)]
  let ?c = "c\<lparr>xc_flight := ?fl, xc_avail := xc_avail c @ [k], xc_ms := mission (Suc j)\<rparr>"
  have ms: "xc_ms c = mission j" using inv by (simp add: run_inv_def)
  have nxt: "uint (word_of_int (ms_nxt (mission j)) :: u32) = int (P + j)"
  proof -
    have "unat (word_of_nat (P + j) :: u32) = P + j" using j small by (intro unat_u32_of_nat) (simp add: depth_def)
    then show ?thesis unfolding mission_sel by (metis of_int_of_nat_eq uint_nat)
  qed
  let ?buf = "(xc_buf c)[ss ! i := cm_block (server (msg (ss ! i)))]"
  define c' where "c' = (case ty of Msg_Write \<Rightarrow> ?c | Msg_Read \<Rightarrow> ?c\<lparr>xc_buf := ?buf\<rparr>)"
  have data: "data_ok ({..<sent j} - set ss) c" using inv by (simp add: run_inv_def)
  then have len: "length (xc_buf c) = L" by (simp add: data_ok_def)
  have set: "buf_set (xc_buf c) (uint (cm_bid (server (msg (ss ! i)))) - int B) (cm_block (server (msg (ss ! i)))) = Inr ?buf"
    unfolding bid_index [OF si] using si len by (simp add: buf_set_def)
  have "deliver server i c = (if int L \<le> int (P + j) then Inr c' else send_request (int (P + j)) c')"
  proof (cases ty)
    case Msg_Read
    with k nxt set show ?thesis by (simp add: deliver_def cont_func_def ms c'_def Let_def)
  next
    case Msg_Write
    with k nxt show ?thesis by (simp add: deliver_def cont_func_def ms c'_def Let_def)
  qed
  then have "deliver server i c = (if L \<le> P + j then Inr c' else send_request (int (P + j)) c')" by simp
  moreover have "received j ?ss c'"
  proof -
    have "{..<sent j} - set ?ss \<subseteq> insert (ss ! i) ({..<sent j} - set ss)" using rem(2) by auto
    then have "data_ok ({..<sent j} - set ?ss) c'"
      using data si by (auto simp: data_ok_def c'_def nth_list_update split: MsgType.splits)
    moreover have "buffers_ok c'"
    proof -
      have "add_mset k (mset (map fst ?fl)) = mset (map fst (xc_flight c))"
        using arg_cong [OF take_drop_mset [OF i], of "image_mset fst"] k by simp
      moreover have "buffers_ok c" using inv by (simp add: run_inv_def)
      ultimately show ?thesis
        by (auto simp: buffers_ok_def c'_def simp flip: union_mset_add_mset_left split: MsgType.split)
    qed
    moreover have "xc_ms c' = mission (Suc j)" "xc_wire c' = xc_wire c" "xc_flight c' = ?fl" "xc_avail c' \<noteq> []"
      by (simp_all add: c'_def split: MsgType.split)
    ultimately show ?thesis
      using inv sp(1,3) rem dist by (auto simp: received_def run_inv_def)
  qed
  ultimately show ?thesis using received_next j by metis
qed

lemma event_loop_ok:
  "run_inv j ss c \<Longrightarrow> j + length sched = L \<Longrightarrow>
   \<exists>ss' c'. event_loop server sched c = Some (Inr c') \<and> run_inv L ss' c'"
proof (induction sched arbitrary: j ss c)
  case Nil
  then show ?case by (subst event_loop.simps) (auto simp: run_inv_def)
next
  case (Cons i sched)
  have j: "j < L" using Cons.prems(2) by simp
  have "length ss + j = sent j" "map snd (xc_flight c) = map msg ss" using Cons.prems(1) by (simp_all add: run_inv_def)
  moreover have "j < sent j" using j by (simp add: depth_def)
  ultimately have ne: "xc_flight c \<noteq> []" by auto
  then have "i mod length (xc_flight c) < length (xc_flight c)" by simp
  from deliver_ok [OF Cons.prems(1) j this] obtain ss' c' where
    d: "deliver server (i mod length (xc_flight c)) c = Inr c'" "run_inv (Suc j) ss' c'" by blast
  have "ms_nxt (xc_ms c) < ms_tot (xc_ms c) + ms_pip (xc_ms c)" using Cons.prems(1) j by (simp add: run_inv_def)
  then have "event_loop server (i # sched) c = event_loop server sched c'"
    using ne d(1) by (subst event_loop.simps) simp
  with Cons.IH [OF d(2)] Cons.prems(2) show ?case by simp
qed

lemma transfer_ok:
  assumes "xc_flight c = []" and "mset (xc_avail c) = mset [0..<MSG_BUFFER_NUM]" and "xc_wire c = wire0"
    and "length sched = L"
  shows "\<exists>c'. transfer ty server sched (word_of_nat B) (word_of_nat L) buf0 c = Some (Inr (0, c')) \<and> run_inv L [] c'"
proof -
  have bl: "B \<le> 2 ^ 32" "L < 2 ^ 31" using small by simp_all
  have u: "uint (word_of_nat L :: u64) = int L" "sint (word_of_nat L :: u64) = int L" "sint (word_of_nat B :: u64) = int B"
    using bl by (simp_all add: unsigned_of_nat signed_of_nat take_bit_nat_eq_self signed_take_bit_eq_if_positive
        bit_iff_odd take_bit_int_eq_self)
  have n: "uint (min PIPLINE_PKT_DEPTH (word_of_nat L)) = int P"
    using u(1) by (simp add: min_def word_le_def depth_def)
  have len: "length (xc_avail c) = 50" using arg_cong [OF assms(2), of size] by simp
  let ?c = "c\<lparr>xc_ms := mission 0, xc_buf := buf0\<rparr>"
  let ?c1 = "?c\<lparr>xc_avail := drop P (xc_avail c), xc_flight := zip (take P (xc_avail c)) (map msg [0..<P]), xc_wire := wire0 @ map msg [0..<P]\<rparr>"
  have P: "P \<le> 50" "P \<le> L" by (simp_all add: depth_def)
  have st: "start_requests P 0 ?c = Inr ?c1"
    using start_requests_ok [of P ?c 0 0] len P assms(1,3) by simp
  have "buffers_ok ?c1"
    using assms(2) len P by (simp add: buffers_ok_def flip: mset_append)
  moreover have "data_ok ({..<sent 0} - set [0..<P]) ?c1"
    using room P(2) by (auto simp: data_ok_def split: MsgType.split)
  ultimately have "run_inv 0 [0..<P] ?c1"
    using len P by (simp add: run_inv_def subset_eq)
  moreover have "0 + length sched = L" using assms(4) by simp
  ultimately obtain ss' c' where e: "event_loop server sched ?c1 = Some (Inr c')" "run_inv L ss' c'"
    using event_loop_ok by blast
  have "ss' = []" using e(2) by (simp add: run_inv_def)
  have "transfer ty server sched (word_of_nat B) (word_of_nat L) buf0 c = Some (Inr (0, c'))"
    using st e(1) n u by (simp add: transfer_def Let_def run_mission_def)
  with e(2) \<open>ss' = []\<close> show ?thesis by blast
qed

end

text \<open>Every server that echoes the block number gives such a run.\<close>

lemma transfer_run_intro:
  "unat len < 2 ^ 31 \<Longrightarrow> unat blockID + unat len \<le> 2 ^ 32 \<Longrightarrow> length buf = unat len \<Longrightarrow>
   (\<And>m. cm_bid (server m) = cm_bid m) \<Longrightarrow> transfer_run server (unat (blockID :: u64)) (unat (len :: u64)) buf"
  by unfold_locales auto

interpretation one_block: transfer_run Msg_Read "\<lambda>m. m" 0 1 "[[]]" "[]"
  by unfold_locales simp_all

text \<open>A client with no request in flight and all its message buffers.\<close>

definition idle :: "XihuClient \<Rightarrow> bool" where
  "idle c \<longleftrightarrow> xc_flight c = [] \<and> mset (xc_avail c) = mset [0..<MSG_BUFFER_NUM]"

lemma idle_new: "idle XihuClient_new"
  by (simp add: idle_def XihuClient_new_def)

lemma read_run:
  assumes "idle c" and "unat len < 2 ^ 31" and "unat blockID + unat len \<le> 2 ^ 32"
    and "length buf = unat len" and "length sched = unat len"
    and srv: "\<And>m. server m = CommonMsg (cm_type m) (cm_bid m) (disk (cm_bid m))"
  shows "\<exists>c'. XihuClient_read server sched blockID len buf c = Some (Inr (0, c')) \<and> idle c' \<and>
    length (xc_buf c') = unat len \<and> (\<forall>s < unat len. xc_buf c' ! s = disk (word_of_nat (unat blockID + s))) \<and>
    xc_wire c' = xc_wire c @ map (\<lambda>s. CommonMsg Msg_Read (word_of_nat (unat blockID + s)) []) [0..<unat len]"
proof -
  have run: "transfer_run server (unat blockID) (unat len) buf"
    using assms by (intro transfer_run_intro) simp_all
  from transfer_run.transfer_ok [OF run, of c "xc_wire c" sched Msg_Read] assms(1,5) obtain c' where
    c': "transfer Msg_Read server sched blockID len buf c = Some (Inr (0, c'))"
    "transfer_run.run_inv Msg_Read server (unat blockID) (unat len) buf (xc_wire c) (unat len) [] c'"
    by (auto simp: idle_def of_nat_unat ucast_id)
  note inv = c'(2) [unfolded transfer_run.run_inv_def [OF run] transfer_run.buffers_ok_def [OF run]
      transfer_run.data_ok_def [OF run]]
  with c'(1) show ?thesis
    by (auto simp: XihuClient_read_def idle_def block_msg_def srv)
qed

text \<open>
  C26. A pipelined read is a copy of the blocks: against a server that answers a read request with
  the number and the content of the block asked for, \<^verbatim>\<open>XihuClient::read\<close> of \<open>len\<close> blocks returns
  after \<open>len\<close> deliveries, whatever order the responses come in; the buffer then holds block
  \<open>blockID + s\<close> at index \<open>s\<close>, each block was requested once, in order, and every message buffer
  is free again.
\<close>

theorem XihuClient_read_copies:
  assumes "idle c" and "unat len < 2 ^ 31" and "unat blockID + unat len \<le> 2 ^ 32"
    and "length buf = unat len" and "length sched = unat len"
    and srv: "\<And>m. server m = CommonMsg (cm_type m) (cm_bid m) (disk (cm_bid m))"
  shows "\<exists>c'. XihuClient_read server sched blockID len buf c = Some (Inr (0, c')) \<and> idle c' \<and>
    xc_buf c' = map (\<lambda>s. disk (word_of_nat (unat blockID + s))) [0..<unat len] \<and>
    xc_wire c' = xc_wire c @ map (\<lambda>s. CommonMsg Msg_Read (word_of_nat (unat blockID + s)) []) [0..<unat len]"
proof -
  from read_run [OF assms] obtain c' where c': "XihuClient_read server sched blockID len buf c = Some (Inr (0, c'))"
    "idle c'" "length (xc_buf c') = unat len" "\<forall>s < unat len. xc_buf c' ! s = disk (word_of_nat (unat blockID + s))"
    "xc_wire c' = xc_wire c @ map (\<lambda>s. CommonMsg Msg_Read (word_of_nat (unat blockID + s)) []) [0..<unat len]"
    by blast
  then have "xc_buf c' = map (\<lambda>s. disk (word_of_nat (unat blockID + s))) [0..<unat len]"
    by (intro nth_equalityI) simp_all
  with c' show ?thesis by blast
qed

theorem XihuClient_read_copies_witness:
  "\<exists>c'. XihuClient_read (\<lambda>m. CommonMsg (cm_type m) (cm_bid m) (replicate (unat (cm_bid m)) (CHR ''x'')))
      [5, 0, 7] 4 3 [[], [], []] XihuClient_new = Some (Inr (0, c')) \<and>
    xc_buf c' = map (\<lambda>s. replicate (unat (word_of_nat (unat (4 :: u64) + s) :: u32)) (CHR ''x'')) [0..<unat (3 :: u64)]"
  using XihuClient_read_copies [OF idle_new, of 3 4 "[[], [], []]" "[5, 0, 7]"
      "\<lambda>m. CommonMsg (cm_type m) (cm_bid m) (replicate (unat (cm_bid m)) (CHR ''x''))"
      "\<lambda>b. replicate (unat b) (CHR ''x'')"]
  by auto

text \<open>
  C27. A pipelined write sends every block once: \<^verbatim>\<open>XihuClient::write\<close> of \<open>len\<close> blocks returns after
  \<open>len\<close> deliveries, in any order; it has handed over the block at index \<open>s\<close> for the number
  \<open>blockID + s\<close>, once and in order, leaves the user's buffer alone, and every message buffer is
  free again.
\<close>

theorem XihuClient_write_sends:
  assumes "idle c" and "unat len < 2 ^ 31" and "unat blockID + unat len \<le> 2 ^ 32"
    and "length buf = unat len" and "length sched = unat len"
    and srv: "\<And>m. cm_bid (server m) = cm_bid m"
  shows "\<exists>c'. XihuClient_write server sched blockID len buf c = Some (Inr (0, c')) \<and> idle c' \<and> xc_buf c' = buf \<and>
    xc_wire c' = xc_wire c @ map (\<lambda>s. CommonMsg Msg_Write (word_of_nat (unat blockID + s)) (buf ! s)) [0..<unat len]"
proof -
  have run: "transfer_run server (unat blockID) (unat len) buf"
    using assms by (intro transfer_run_intro) simp_all
  from transfer_run.transfer_ok [OF run, of c "xc_wire c" sched Msg_Write] assms(1,5) obtain c' where
    c': "transfer Msg_Write server sched blockID len buf c = Some (Inr (0, c'))"
    "transfer_run.run_inv Msg_Write server (unat blockID) (unat len) buf (xc_wire c) (unat len) [] c'"
    by (auto simp: idle_def of_nat_unat ucast_id)
  note inv = c'(2) [unfolded transfer_run.run_inv_def [OF run] transfer_run.buffers_ok_def [OF run]
      transfer_run.data_ok_def [OF run]]
  with c'(1) show ?thesis by (auto simp: XihuClient_write_def idle_def block_msg_def)
qed

theorem XihuClient_write_sends_witness:
  "\<exists>c'. XihuClient_write (\<lambda>m. m) [1, 1] 9 2 [''a'', ''b''] XihuClient_new = Some (Inr (0, c')) \<and> idle c' \<and>
    xc_wire c' = xc_wire XihuClient_new @
      map (\<lambda>s. CommonMsg Msg_Write (word_of_nat (unat (9 :: u64) + s)) ([''a'', ''b''] ! s)) [0..<unat (2 :: u64)]"
  using XihuClient_write_sends [OF idle_new, of 2 9 "[''a'', ''b'']" "[1, 1]" "\<lambda>m. m"] by auto

end
