(* ===== verification/Xihu_Db.thy ===== *)
theory Xihu_Db
  imports Xihu_Laws
begin

text \<open>
  \<^verbatim>\<open>db/xihu_db.h\<close>: a database whose \<^verbatim>\<open>Read\<close> fetches one block through \<open>XihuClient\<close>. The other
  operations only count and time themselves: their calls of \<^verbatim>\<open>client.write\<close> are commented out in
  the source. A read has one request in flight, so the schedule of its event loop is \<open>[0]\<close>; a
  loop that never ends is \<open>Deadlock\<close>. The block buffer of \<^verbatim>\<open>Read\<close> is a local variable that is
  written before it is used, so its initial content is left empty.
\<close>

record XihuDB =
  xd_client :: XihuClient
  xd_phase :: Phase
  xd_ops :: int
  xd_read_time :: "real list"
  xd_insert_time :: "real list"
  xd_update_time :: "real list"
  xd_delete_time :: "real list"
  xd_scan_time :: "real list"
  xd_load_time :: "real list"
  xd_tick :: nat
  xd_out :: "string list"

definition XihuDB_new :: XihuDB where
  "XihuDB_new =
     \<lparr>xd_client = XihuClient_new, xd_phase = INVALID, xd_ops = 0, xd_read_time = [], xd_insert_time = [],
      xd_update_time = [], xd_delete_time = [], xd_scan_time = [], xd_load_time = [], xd_tick = 0,
      xd_out = [''XiHu DB opened.'']\<rparr>"

definition xihu_print :: "string \<Rightarrow> XihuDB \<Rightarrow> XihuDB" where
  "xihu_print l d = d\<lparr>xd_out := xd_out d @ [l]\<rparr>"

definition Xihu_Init :: "bool \<Rightarrow> XihuDB \<Rightarrow> XihuDB" where
  "Xihu_Init flag d =
     (if flag then xihu_print ''A new thread begins loading.'' (d\<lparr>xd_phase := LOAD\<rparr>)
      else xihu_print ''A new thread begins transaction.'' (d\<lparr>xd_phase := TRANSACTION\<rparr>))"

text \<open>\<^verbatim>\<open>client.read(RealKey, 1, buf)\<close>; an \<^verbatim>\<open>int\<close> becomes an unsigned 64-bit block number.\<close>

definition Xihu_Read ::
  "(CommonMsg \<Rightarrow> CommonMsg) \<Rightarrow> fpu \<Rightarrow> (nat \<Rightarrow> real) \<Rightarrow> string \<Rightarrow> string \<Rightarrow> string list option \<Rightarrow> XihuDB \<Rightarrow>
   (int \<times> KVPair list \<times> XihuDB) result" where
  "Xihu_Read server F now table key flds d =
     rbind (real_key key) (\<lambda>RealKey.
     case XihuClient_read server [0] (word_of_int RealKey) 1 [[]] (xd_client d) of
       None \<Rightarrow> Inl Deadlock
     | Some (Inl e) \<Rightarrow> Inl e
     | Some (Inr (_, client)) \<Rightarrow>
         (let (t, tick) = timed F now (xd_tick d) in
          Inr (0, [], xihu_print ''XIHU DB END READ'' (xihu_print ''XIHU DB BEGIN READ''
            (d\<lparr>xd_client := client, xd_ops := xd_ops d + 1, xd_read_time := xd_read_time d @ [t], xd_tick := tick\<rparr>)))))"

definition Xihu_Update ::
  "fpu \<Rightarrow> (nat \<Rightarrow> real) \<Rightarrow> string \<Rightarrow> string \<Rightarrow> KVPair list \<Rightarrow> XihuDB \<Rightarrow> (int \<times> XihuDB) result" where
  "Xihu_Update F now table key values d =
     rbind (real_key key) (\<lambda>RealKey.
     let (t, tick) = timed F now (xd_tick d) in
     Inr (0, d\<lparr>xd_ops := xd_ops d + 1, xd_update_time := xd_update_time d @ [t], xd_tick := tick\<rparr>))"

definition Xihu_Insert ::
  "fpu \<Rightarrow> (nat \<Rightarrow> real) \<Rightarrow> string \<Rightarrow> string \<Rightarrow> KVPair list \<Rightarrow> XihuDB \<Rightarrow> (int \<times> XihuDB) result" where
  "Xihu_Insert F now table key values d =
     (if xd_phase d = INVALID \<or> xd_phase d = LOAD then Inr (0, d)
      else
        let ops = (if xd_phase d = TRANSACTION then xd_ops d + 1 else xd_ops d) in
        rbind (real_key key) (\<lambda>RealKey.
        let (t, tick) = timed F now (xd_tick d);
            d' = d\<lparr>xd_ops := ops, xd_tick := tick\<rparr> in
        Inr (0, if xd_phase d = TRANSACTION then d'\<lparr>xd_insert_time := xd_insert_time d @ [t]\<rparr>
                else d'\<lparr>xd_load_time := xd_load_time d @ [t]\<rparr>)))"

definition Xihu_Scan ::
  "fpu \<Rightarrow> (nat \<Rightarrow> real) \<Rightarrow> string \<Rightarrow> string \<Rightarrow> int \<Rightarrow> string list option \<Rightarrow> XihuDB \<Rightarrow>
   (int \<times> KVPair list list \<times> XihuDB) result" where
  "Xihu_Scan F now table key len flds d =
     (let (t, tick) = timed F now (xd_tick d) in
      Inr (0, [], xihu_print ''XIHU DB SCAN not implemented''
        (d\<lparr>xd_ops := xd_ops d + 1, xd_scan_time := xd_scan_time d @ [t], xd_tick := tick\<rparr>)))"

definition Xihu_Delete ::
  "fpu \<Rightarrow> (nat \<Rightarrow> real) \<Rightarrow> string \<Rightarrow> string \<Rightarrow> XihuDB \<Rightarrow> (int \<times> XihuDB) result" where
  "Xihu_Delete F now table key d =
     (let (t, tick) = timed F now (xd_tick d) in
      Inr (0, xihu_print (''DELETE '' @ table @ '' '' @ key)
        (d\<lparr>xd_ops := xd_ops d + 1, xd_delete_time := xd_delete_time d @ [t], xd_tick := tick\<rparr>)))"

definition XihuDB_DB :: "(CommonMsg \<Rightarrow> CommonMsg) \<Rightarrow> fpu \<Rightarrow> (nat \<Rightarrow> real) \<Rightarrow> XihuDB DB" where
  "XihuDB_DB server F now =
     \<lparr>db_Init = Xihu_Init, db_Read = Xihu_Read server F now, db_Scan = Xihu_Scan F now,
      db_Update = Xihu_Update F now, db_Insert = Xihu_Insert F now, db_Delete = Xihu_Delete F now\<rparr>"

definition Xihu_HandleAllData :: "fpu \<Rightarrow> XihuDB \<Rightarrow> (string \<times> real option) list" where
  "Xihu_HandleAllData F d =
     (let ReadDuration = total_time F (xd_read_time d);
          InsertDuration = total_time F (xd_insert_time d);
          UpdateDuration = total_time F (xd_update_time d);
          DeleteDuration = total_time F (xd_delete_time d);
          ScanDuration = total_time F (xd_scan_time d);
          ops = fp_rnd F (of_int (xd_ops d));
          AllDuration = fadd F (fadd F (fadd F (fadd F ReadDuration InsertDuration) UpdateDuration)
            DeleteDuration) ScanDuration;
          speed = map_option (\<lambda>x. fdiv F x 1000) (quotient F ops AllDuration);
          bandwidth = quotient F (fdiv F (fmul F ops 4) 1024) AllDuration;
          LoadDuration = total_time F (xd_load_time d)
      in [(''ReadDuration: '', Some ReadDuration), (''InsertDuration: '', Some InsertDuration),
          (''UpdateDuration: '', Some UpdateDuration), (''DeleteDuration: '', Some DeleteDuration),
          (''ScanDuration: '', Some ScanDuration), (''Operation: '', Some ops),
          (''AllDuration: '', Some AllDuration), (''speed: '', speed), (''bandwidth: '', bandwidth),
          (''LoadDuration: '', Some LoadDuration),
          (''LoadSpeed: '', map_option (\<lambda>x. fdiv F x 1000) (quotient F ops LoadDuration))])"

subsection \<open>Lemmas\<close>

lemmas xihu_defs = XihuDB_DB_def Xihu_Init_def Xihu_Read_def Xihu_Scan_def Xihu_Update_def Xihu_Insert_def
  Xihu_Delete_def xihu_print_def

text \<open>An answer of the block server to a request: its number and the content of the block.\<close>

definition block_server :: "(u32 \<Rightarrow> string) \<Rightarrow> CommonMsg \<Rightarrow> CommonMsg" where
  "block_server disk m = CommonMsg (cm_type m) (cm_bid m) (disk (cm_bid m))"

definition xihu_inv :: "u64 \<Rightarrow> XihuDB \<Rightarrow> bool" where
  "xihu_inv rc d \<longleftrightarrow> unat rc \<le> 2 ^ 31 \<and> idle (xd_client d) \<and>
     (\<forall>m \<in> set (xc_wire (xd_client d)). cm_type m = Msg_Read)"

lemma read_one_block:
  assumes "idle c" and "n < 2 ^ 31"
  shows "\<exists>c'. XihuClient_read (block_server disk) [0] (word_of_int (int n)) 1 [[]] c = Some (Inr (0, c')) \<and> idle c' \<and>
    xc_wire c' = xc_wire c @ [CommonMsg Msg_Read (word_of_nat n) []] \<and> xc_buf c' = [disk (word_of_nat n)]"
proof -
  have u: "unat (word_of_int (int n) :: u64) = n"
    using assms(2) by (simp add: unsigned_of_nat take_bit_nat_eq_self)
  have sm: "unat (1 :: u64) < 2 ^ 31" "unat (word_of_int (int n) :: u64) + unat (1 :: u64) \<le> 2 ^ 32"
    using assms(2) unfolding u by simp_all
  show ?thesis
    using read_run [OF assms(1) sm, of "[[]]" "[0]" "block_server disk" disk] unfolding u
    by (fastforce simp: block_server_def intro: nth_equalityI)
qed

lemma Xihu_Read_status:
  assumes "Xihu_Read server F now t k flds d = Inr (st, res, d')"
  shows "st = kOK"
proof -
  from assms obtain n where
    n: "(case XihuClient_read server [0] (word_of_int n) 1 [[]] (xd_client d) of
       None \<Rightarrow> Inl Deadlock | Some (Inl e) \<Rightarrow> Inl e
     | Some (Inr (_, client)) \<Rightarrow>
         (let (t, tick) = timed F now (xd_tick d) in
          Inr (0, [], xihu_print ''XIHU DB END READ'' (xihu_print ''XIHU DB BEGIN READ''
            (d\<lparr>xd_client := client, xd_ops := xd_ops d + 1, xd_read_time := xd_read_time d @ [t], xd_tick := tick\<rparr>)))))
     = Inr (st, res, d')"
    by (auto simp: Xihu_Read_def rbind_eq_Inr_iff)
  show ?thesis
  proof (cases "XihuClient_read server [0] (word_of_int n) 1 [[]] (xd_client d)")
    case (Some r)
    with n show ?thesis by (cases r) (auto simp: case_prod_beta)
  qed (use n in simp)
qed

interpretation xihu: ok_database "XihuDB_DB (block_server disk) F now" "xihu_inv rc" rc UNIV for disk F now rc
proof unfold_locales
  fix d k t flds vs
  assume d: "xihu_inv rc d" and "k \<in> user_keys rc"
  then obtain n where n: "n < unat rc" "k = ''user'' @ to_string n" by (auto simp: user_keys_def)
  with d have lt: "n < 2 ^ 31" and rk: "real_key k = Inr (int n)"
    using real_key_user [of n] by (auto simp: xihu_inv_def)
  have "idle (xd_client d)" using d by (simp add: xihu_inv_def)
  from read_one_block [OF this lt, of disk] obtain c' where
    "XihuClient_read (block_server disk) [0] (word_of_int (int n)) 1 [[]] (xd_client d) = Some (Inr (0, c'))" "idle c'"
    "xc_wire c' = xc_wire (xd_client d) @ [CommonMsg Msg_Read (word_of_nat n) []]" by blast
  with d rk show "\<exists>st res d'. db_Read (XihuDB_DB (block_server disk) F now) t k flds d = Inr (st, res, d') \<and> 0 \<le> st \<and> xihu_inv rc d'"
    by (auto simp: xihu_defs xihu_inv_def split: prod.split)
  show "\<exists>st d'. db_Update (XihuDB_DB (block_server disk) F now) t k vs d = Inr (st, d') \<and> 0 \<le> st \<and> xihu_inv rc d'"
    and "\<exists>st d'. db_Insert (XihuDB_DB (block_server disk) F now) t k vs d = Inr (st, d') \<and> 0 \<le> st \<and> xihu_inv rc d'"
    using d rk by (auto simp: xihu_defs xihu_inv_def Let_def split: prod.split)
next
  fix t k flds d st res d'
  assume "db_Read (XihuDB_DB (block_server disk) F now) t k flds d = Inr (st, res, d')"
  then show "st = kOK" by (simp add: XihuDB_DB_def Xihu_Read_status)
qed (auto simp: xihu_defs xihu_inv_def rbind_eq_Inr_iff Let_def case_prod_beta split: if_splits)

text \<open>
  \<^verbatim>\<open>XihuDB\<close> never stores anything: against the block server, a load or transaction run returns
  with every operation counted as a success, inserts and updates included, and every request it
  sent was a read.
\<close>

theorem XihuDB_never_writes:
  assumes "client_ok F R UNIV rc (cl_workload st) (cl_rng st)" and "0 \<le> num_ops" and "unat rc \<le> 2 ^ 31"
    and "cl_db st = XihuDB_new"
  shows "\<exists>st'. DelegateClient F R (XihuDB_DB (block_server disk) F now) num_ops is_loading st = Some (Inr (num_ops, st')) \<and>
    (\<forall>m \<in> set (xc_wire (xd_client (cl_db st'))). cm_type m = Msg_Read)"
proof -
  have "xihu_inv rc (cl_db st)" using assms(3,4) idle_new by (simp add: xihu_inv_def XihuDB_new_def XihuClient_new_def)
  then have "xihu.ready rc F R st" using assms(1) by (simp add: xihu.ready_def)
  from xihu.DelegateClient_counts_all [OF _ assms(2) this, of is_loading disk F now]
  show ?thesis by (auto simp: xihu.ready_def xihu_inv_def)
qed

theorem XihuDB_never_writes_witness:
  "\<exists>wl s st'. Init exact_fpu zero_src demo_props CoreWorkload_new rng0 = Inr (wl, s) \<and>
    DelegateClient exact_fpu zero_src (XihuDB_DB (block_server (\<lambda>b. [])) exact_fpu real) 5 False
      \<lparr>cl_workload = wl, cl_db = XihuDB_new, cl_rng = s, cl_out = []\<rparr> = Some (Inr (5, st'))"
proof -
  obtain wl s where i: "Init exact_fpu zero_src demo_props CoreWorkload_new rng0 = Inr (wl, s)"
    "client_ok exact_fpu zero_src UNIV 3 wl s" using demo_client_ok by blast
  then show ?thesis
    using XihuDB_never_writes [of exact_fpu zero_src 3 "\<lparr>cl_workload = wl, cl_db = XihuDB_new, cl_rng = s, cl_out = []\<rparr>"
        5 "\<lambda>b. []" real False] by auto
qed

end
