(* ===== verification/Basic_Db.thy ===== *)
theory Basic_Db
  imports Client_Laws
begin

text \<open>
  \<^verbatim>\<open>db/basic_db.h\<close>: the database that only prints what it is asked. Its state is what it has
  written to standard output, one string per line; the mutex makes each call atomic and is
  free whenever no call is running, so it is not part of the state between calls.
\<close>

record BasicDB =
  bd_out :: "string list"

definition println :: "string \<Rightarrow> BasicDB \<Rightarrow> BasicDB" where
  "println l d = d\<lparr>bd_out := bd_out d @ [l]\<rparr>"

definition Basic_Init :: "bool \<Rightarrow> BasicDB \<Rightarrow> BasicDB" where
  "Basic_Init flag d = println ''A new thread begins working.'' d"

definition print_fields :: "string list option \<Rightarrow> string" where
  "print_fields flds =
     (case flds of
        Some fs \<Rightarrow> '' [ '' @ concat (map (\<lambda>f. f @ '' '') fs) @ '']''
      | None \<Rightarrow> '' < all fields >'')"

definition print_values :: "KVPair list \<Rightarrow> string" where
  "print_values vs = '' [ '' @ concat (map (\<lambda>(f, v). f @ ''='' @ v @ '' '') vs) @ '']''"

definition Basic_Read ::
  "string \<Rightarrow> string \<Rightarrow> string list option \<Rightarrow> BasicDB \<Rightarrow> (int \<times> KVPair list \<times> BasicDB) result" where
  "Basic_Read table key flds d =
     Inr (0, [], println (''READ '' @ table @ '' '' @ key @ print_fields flds) d)"

definition Basic_Scan ::
  "string \<Rightarrow> string \<Rightarrow> int \<Rightarrow> string list option \<Rightarrow> BasicDB \<Rightarrow> (int \<times> KVPair list list \<times> BasicDB) result" where
  "Basic_Scan table key len flds d =
     Inr (0, [], println (''SCAN '' @ table @ '' '' @ key @ '' '' @ int_to_string len @ print_fields flds) d)"

definition Basic_Update :: "string \<Rightarrow> string \<Rightarrow> KVPair list \<Rightarrow> BasicDB \<Rightarrow> (int \<times> BasicDB) result" where
  "Basic_Update table key values d =
     Inr (0, println (''UPDATE '' @ table @ '' '' @ key @ print_values values) d)"

definition Basic_Insert :: "string \<Rightarrow> string \<Rightarrow> KVPair list \<Rightarrow> BasicDB \<Rightarrow> (int \<times> BasicDB) result" where
  "Basic_Insert table key values d =
     Inr (0, println (''INSERT '' @ table @ '' '' @ key @ print_values values) d)"

definition Basic_Delete :: "string \<Rightarrow> string \<Rightarrow> BasicDB \<Rightarrow> (int \<times> BasicDB) result" where
  "Basic_Delete table key d = Inr (0, println (''DELETE '' @ table @ '' '' @ key) d)"

definition BasicDB_DB :: "BasicDB DB" where
  "BasicDB_DB =
     \<lparr>db_Init = Basic_Init, db_Read = Basic_Read, db_Scan = Basic_Scan,
      db_Update = Basic_Update, db_Insert = Basic_Insert, db_Delete = Basic_Delete\<rparr>"

lemmas basic_defs = BasicDB_DB_def Basic_Init_def Basic_Read_def Basic_Scan_def Basic_Update_def
  Basic_Insert_def Basic_Delete_def println_def

interpretation basic: ok_database BasicDB_DB "\<lambda>_. True" rc UNIV for rc
  by unfold_locales (auto simp: basic_defs)

subsection \<open>The printed log\<close>

text \<open>An insert prints one line; a load of \<open>n\<close> records prints \<open>n\<close> of them after the greeting.\<close>

lemma DoInsert_prints:
  "DoInsert F R BasicDB_DB st = Some (Inr (ok, st')) \<Longrightarrow>
   \<exists>l. bd_out (cl_db st') = bd_out (cl_db st) @ [''INSERT '' @ l]"
  by (auto simp: DoInsert_def step_simps basic_defs)

lemma load_loop_prints:
  "DelegateClient_loop F R BasicDB_DB True n oks st = Some (Inr (r, st')) \<Longrightarrow>
   \<exists>ls. length ls = n \<and> bd_out (cl_db st') = bd_out (cl_db st) @ map (\<lambda>l. ''INSERT '' @ l) ls"
proof (induction n arbitrary: oks st)
  case (Suc n)
  then obtain ok st1 where "DoInsert F R BasicDB_DB st = Some (Inr (ok, st1))"
    and rest: "DelegateClient_loop F R BasicDB_DB True n (oks + (if ok then 1 else 0)) st1 = Some (Inr (r, st'))"
    by (auto simp: step_simps)
  then obtain l where "bd_out (cl_db st1) = bd_out (cl_db st) @ [''INSERT '' @ l]" using DoInsert_prints by blast
  moreover from Suc.IH [OF rest] obtain ls where
    "length ls = n" "bd_out (cl_db st') = bd_out (cl_db st1) @ map (\<lambda>l. ''INSERT '' @ l) ls" by blast
  ultimately show ?case by (intro exI [of _ "l # ls"]) simp
qed simp

text \<open>
  A load phase over \<^verbatim>\<open>BasicDB\<close> with a workload in good order returns, counts every insert as
  successful, and prints the greeting and then one \<^verbatim>\<open>INSERT\<close> line for each record.
\<close>

theorem BasicDB_load:
  assumes "client_ok F R UNIV rc (cl_workload st) (cl_rng st)" and "0 \<le> num_ops"
  shows "\<exists>st' ls. DelegateClient F R BasicDB_DB num_ops True st = Some (Inr (num_ops, st')) \<and>
    length ls = nat num_ops \<and>
    bd_out (cl_db st') = bd_out (cl_db st) @ [''A new thread begins working.''] @ map (\<lambda>l. ''INSERT '' @ l) ls"
proof -
  have "basic.ready rc F R st" using assms(1) by (simp add: basic.ready_def)
  from basic.DelegateClient_counts_all [OF _ assms(2) this, of True] obtain st' where
    st': "DelegateClient F R BasicDB_DB num_ops True st = Some (Inr (num_ops, st'))" by auto
  let ?st = "st\<lparr>cl_db := Basic_Init True (cl_db st)\<rparr>"
  have "DelegateClient_loop F R BasicDB_DB True (nat num_ops) 0 ?st = Some (Inr (num_ops, st'))"
    using st' by (auto simp: DelegateClient_def step_simps BasicDB_DB_def)
  from load_loop_prints [OF this] obtain ls where "length ls = nat num_ops"
    "bd_out (cl_db st') = bd_out (cl_db ?st) @ map (\<lambda>l. ''INSERT '' @ l) ls" by blast
  with st' show ?thesis by (intro exI [of _ st'] exI [of _ ls]) (simp add: Basic_Init_def println_def)
qed

theorem BasicDB_load_witness:
  "\<exists>wl s st' ls. Init exact_fpu zero_src demo_props CoreWorkload_new rng0 = Inr (wl, s) \<and>
    DelegateClient exact_fpu zero_src BasicDB_DB 3 True
      \<lparr>cl_workload = wl, cl_db = \<lparr>bd_out = []\<rparr>, cl_rng = s, cl_out = []\<rparr> = Some (Inr (3, st')) \<and>
    bd_out (cl_db st') = ''A new thread begins working.'' # map (\<lambda>l. ''INSERT '' @ l) ls \<and> length ls = 3"
proof -
  obtain wl s where i: "Init exact_fpu zero_src demo_props CoreWorkload_new rng0 = Inr (wl, s)"
    "client_ok exact_fpu zero_src UNIV 3 wl s" using demo_client_ok by blast
  then show ?thesis
    using BasicDB_load [of exact_fpu zero_src 3 "\<lparr>cl_workload = wl, cl_db = \<lparr>bd_out = []\<rparr>, cl_rng = s, cl_out = []\<rparr>" 3]
    by auto
qed

end
