(* ===== verification/Ycsbc.thy ===== *)
theory Ycsbc
  imports Basic_Db Timer
begin

text \<open>
  \<^verbatim>\<open>ycsbc.cc\<close> (the command line, the worker threads and \<^verbatim>\<open>main\<close>) and \<^verbatim>\<open>DBFactory::CreateDB\<close>. Worker
  threads are interleaved at whole operations: a schedule picks which worker makes the next
  one. Files are a map from names to contents, \<open>None\<close> for one that cannot be opened. The printed
  report is a list of labelled numbers.
\<close>

subsection \<open>The command line\<close>

definition StrStartWith :: "string \<Rightarrow> string \<Rightarrow> bool" where
  "StrStartWith str pre \<longleftrightarrow> take (length pre) str = pre"

definition UsageMessage :: "string \<Rightarrow> string list" where
  "UsageMessage command =
     [''Usage: '' @ command @ '' [options]'',
      ''Options:'',
      ''  -threads n: execute using n threads (default: 1)'',
      ''  -db dbname: specify the name of the DB to use (default: basic)'',
      ''  -P propertyfile: load properties from the given file. Multiple files can'',
      ''                   be specified, and will be processed in the order specified'']"

text \<open>The options that store their argument as a property, and the name they store it under.\<close>

definition option_property :: "string \<Rightarrow> string option" where
  "option_property opt =
     (if opt = ''-threads'' then Some ''threadcount''
      else if opt = ''-db'' then Some ''dbname''
      else if opt = ''-host'' then Some ''host''
      else if opt = ''-port'' then Some ''port''
      else if opt = ''-slaves'' then Some ''slaves''
      else None)"

text \<open>The loop, on the arguments from \<open>argindex\<close> on; \<open>started\<close> is \<open>argindex \<noteq> 1\<close>. The result pairs
  what was printed with the outcome. An exception of \<^verbatim>\<open>Load\<close> is not a \<^verbatim>\<open>string\<close>, so the handler
  does not catch it.\<close>

fun ParseCommandLine_loop ::
  "(string \<Rightarrow> string option) \<Rightarrow> string \<Rightarrow> bool \<Rightarrow> string \<Rightarrow> properties \<Rightarrow> string list \<Rightarrow>
   string list \<times> (string \<times> properties) result" where
  "ParseCommandLine_loop files command started filename props [] =
     (if started then ([], Inr (filename, props)) else (UsageMessage command, Inl (Exit 0)))"
| "ParseCommandLine_loop files command started filename props [opt] =
     (if \<not> StrStartWith opt ''-'' then (UsageMessage command, Inl (Exit 0))
      else if option_property opt \<noteq> None \<or> opt = ''-P'' then (UsageMessage command, Inl (Exit 0))
      else ([''Unknown option '' @ [CHR 0x27] @ opt @ [CHR 0x27]], Inl (Exit 0)))"
| "ParseCommandLine_loop files command started filename props (opt # arg # args) =
     (if \<not> StrStartWith opt ''-'' then (UsageMessage command, Inl (Exit 0))
      else case option_property opt of
        Some key \<Rightarrow> ParseCommandLine_loop files command True filename (SetProperty props key arg) args
      | None \<Rightarrow>
          (if opt = ''-P'' then
             (case (case files arg of None \<Rightarrow> Properties_Load False [] props
                                     | Some input \<Rightarrow> Properties_Load True input props) of
                Inl e \<Rightarrow> ([], Inl e)
              | Inr props' \<Rightarrow> ParseCommandLine_loop files command True arg props' args)
           else ([''Unknown option '' @ [CHR 0x27] @ opt @ [CHR 0x27]], Inl (Exit 0))))"

text \<open>\<open>argv\<close> with the command first.\<close>

definition ParseCommandLine ::
  "(string \<Rightarrow> string option) \<Rightarrow> string list \<Rightarrow> properties \<Rightarrow> string list \<times> (string \<times> properties) result" where
  "ParseCommandLine files argv props =
     (case argv of
        [] \<Rightarrow> ([], Inl InvalidAccess)
      | command # args \<Rightarrow> ParseCommandLine_loop files command False [] props args)"

subsection \<open>\<^verbatim>\<open>DBFactory::CreateDB\<close>\<close>

text \<open>Which constructor is called; \<open>None\<close> is the null pointer.\<close>

datatype db_choice =
    New_BasicDB
  | New_LockStlDB
  | New_RedisDB string int int
  | New_TbbRandDB
  | New_TbbScanDB
  | New_CephDB
  | New_RealCephDB
  | New_XihuDB

definition CreateDB :: "properties \<Rightarrow> db_choice option result" where
  "CreateDB props =
     rbind (Properties_at props ''dbname'') (\<lambda>name.
     if name = ''basic'' then Inr (Some New_BasicDB)
     else if name = ''lock_stl'' then Inr (Some New_LockStlDB)
     else if name = ''redis'' then
       rbind (Properties_at props ''port'') (\<lambda>p. rbind (stoi p) (\<lambda>port.
       rbind (Properties_at props ''slaves'') (\<lambda>sl. rbind (stoi sl) (\<lambda>slaves.
       rbind (Properties_at props ''host'') (\<lambda>host.
       Inr (Some (New_RedisDB host port slaves)))))))
     else if name = ''tbb_rand'' then Inr (Some New_TbbRandDB)
     else if name = ''tbb_scan'' then Inr (Some New_TbbScanDB)
     else if name = ''ceph'' then Inr (Some New_CephDB)
     else if name = ''real_ceph'' then Inr (Some New_RealCephDB)
     else if name = ''xihu'' then Inr (Some New_XihuDB)
     else Inr None)"

subsection \<open>Worker threads\<close>

text \<open>A worker of \<^verbatim>\<open>DelegateClient\<close>: not started, in its loop with the operations left and its count,
  or returned.\<close>

datatype worker = Fresh nat | Running nat int | Finished int

fun worker_step :: "fpu \<Rightarrow> rand_src \<Rightarrow> 'd DB \<Rightarrow> bool \<Rightarrow> worker \<Rightarrow> ('d, worker) step" where
  "worker_step F R D is_loading (Fresh n) =
     sbind (on_db (\<lambda>d. Inr ((), db_Init D is_loading d))) (\<lambda>_. sreturn (Running n 0))"
| "worker_step F R D is_loading (Running 0 oks) = sreturn (Finished oks)"
| "worker_step F R D is_loading (Running (Suc n) oks) =
     sbind (if is_loading then DoInsert F R D else DoTransaction F R D) (\<lambda>ok.
     sreturn (Running n (oks + (if ok then 1 else 0))))"
| "worker_step F R D is_loading (Finished oks) = sreturn (Finished oks)"

fun is_finished :: "worker \<Rightarrow> bool" where
  "is_finished (Finished oks) = True"
| "is_finished w = False"

fun worker_oks :: "worker \<Rightarrow> int" where
  "worker_oks (Fresh n) = 0"
| "worker_oks (Running n oks) = oks"
| "worker_oks (Finished oks) = oks"

definition active :: "worker list \<Rightarrow> nat list" where
  "active ws = filter (\<lambda>j. \<not> is_finished (ws ! j)) [0..<length ws]"

text \<open>All workers until each has returned, and the sum over the futures. Each number of the schedule
  picks one of the workers still running; an exception in a worker is rethrown by \<^verbatim>\<open>n.get()\<close> and
  ends the program. \<open>None\<close>: a worker does not return, or the schedule ends before the workers.\<close>

fun run_workers :: "fpu \<Rightarrow> rand_src \<Rightarrow> 'd DB \<Rightarrow> bool \<Rightarrow> nat list \<Rightarrow> worker list \<Rightarrow> ('d, int) step" where
  "run_workers F R D is_loading [] ws =
     (if active ws = [] then sreturn (sum_list (map worker_oks ws)) else (\<lambda>st. None))"
| "run_workers F R D is_loading (i # is) ws =
     (if active ws = [] then sreturn (sum_list (map worker_oks ws))
      else let j = active ws ! (i mod length (active ws)) in
           sbind (worker_step F R D is_loading (ws ! j)) (\<lambda>w. run_workers F R D is_loading is (ws[j := w])))"

text \<open>One phase of \<^verbatim>\<open>main\<close>: \<^verbatim>\<open>num_threads\<close> workers of \<^verbatim>\<open>total_ops / num_threads\<close> operations each. With a
  negative number of threads no worker is started and the assertion on the number of futures
  fails.\<close>

definition run_phase :: "fpu \<Rightarrow> rand_src \<Rightarrow> 'd DB \<Rightarrow> bool \<Rightarrow> int \<Rightarrow> int \<Rightarrow> nat list \<Rightarrow> ('d, int) step" where
  "run_phase F R D is_loading num_threads total_ops sched =
     (if num_threads < 0 then sfail AssertFailure
      else run_workers F R D is_loading sched
             (replicate (nat num_threads) (Fresh (nat (total_ops div num_threads)))))"

subsection \<open>\<^verbatim>\<open>main\<close>\<close>

text \<open>\<open>mk\<close> stands for the constructors of the database bindings: it gives the operations of the
  binding, its initial state and its \<^verbatim>\<open>Close\<close>.\<close>

type_synonym 'd binding = "'d DB \<times> 'd \<times> ('d \<Rightarrow> 'd option)"

definition main_report :: "fpu \<Rightarrow> real \<Rightarrow> int \<Rightarrow> int \<Rightarrow> real \<Rightarrow> int \<Rightarrow> (string \<times> real option) list" where
  "main_report F LoadDuration load_ops load_sum duration total_ops =
     [(''LoadDuration'', Some LoadDuration),
      (''# Loading throughput (KTPS)'', map_option (\<lambda>x. fdiv F x 1000) (quotient F (of_int load_ops) LoadDuration)),
      (''# Loading records:'', Some (of_int load_sum)),
      (''# Transaction duration (s)'', Some duration),
      (''bandwidth: '', quotient F (fdiv F (fmul F (of_int total_ops) 4) 1024) duration)]"

definition main_run ::
  "fpu \<Rightarrow> rand_src \<Rightarrow> (nat \<Rightarrow> real) \<Rightarrow> 'd binding \<Rightarrow> properties \<Rightarrow> nat list \<Rightarrow> nat list \<Rightarrow> CoreWorkload \<Rightarrow> rng \<Rightarrow>
   ((string \<times> real option) list \<times> 'd client_state) result option" where
  "main_run F R now b props sched1 sched2 wl s =
     (case b of (D, d0, close) \<Rightarrow>
      case rbind (stoi (GetProperty props ''threadcount'' ''1'')) (\<lambda>n.
           rbind (Properties_at props RECORD_COUNT_PROPERTY) (\<lambda>rc. rbind (stoi rc) (\<lambda>load_ops. Inr (n, load_ops)))) of
        Inl e \<Rightarrow> Some (Inl e)
      | Inr (num_threads, load_ops) \<Rightarrow>
          sbind (run_phase F R D True num_threads load_ops sched1) (\<lambda>load_sum st.
          case rbind (Properties_at props OPERATION_COUNT_PROPERTY) stoi of
            Inl e \<Rightarrow> Some (Inl e)
          | Inr total_ops \<Rightarrow>
              sbind (run_phase F R D False num_threads total_ops sched2) (\<lambda>tx_sum st.
              case close (cl_db st) of
                None \<Rightarrow> None
              | Some d \<Rightarrow>
                  sreturn (main_report F (fst (timed F now 0)) load_ops load_sum (fst (timed F now 2)) total_ops)
                    (st\<lparr>cl_db := d\<rparr>)) st)
          \<lparr>cl_workload = wl, cl_db = d0, cl_rng = s, cl_out = []\<rparr>)"

definition main_program ::
  "fpu \<Rightarrow> rand_src \<Rightarrow> (nat \<Rightarrow> real) \<Rightarrow> (string \<Rightarrow> string option) \<Rightarrow> (db_choice \<Rightarrow> 'd binding result) \<Rightarrow>
   string list \<Rightarrow> nat list \<Rightarrow> nat list \<Rightarrow> ((string \<times> real option) list \<times> 'd client_state) result option" where
  "main_program F R now files mk argv sched1 sched2 =
     (case rbind (snd (ParseCommandLine files argv Map.empty)) (\<lambda>(file_name, props).
           rbind (CreateDB props) (\<lambda>db.
           case db of
             None \<Rightarrow> Inl (Exit 0)
           | Some choice \<Rightarrow>
               rbind (mk choice) (\<lambda>b.
               rbind (Init F R props CoreWorkload_new rng0) (\<lambda>(wl, s). Inr (b, props, wl, s))))) of
        Inl e \<Rightarrow> Some (Inl e)
      | Inr (b, props, wl, s) \<Rightarrow> main_run F R now b props sched1 sched2 wl s)"

subsection \<open>Lemmas\<close>

text \<open>What is left for a worker to do, and what it returns if every operation succeeds.\<close>

fun work :: "worker \<Rightarrow> nat" where
  "work (Fresh n) = n + 2"
| "work (Running n oks) = n + 1"
| "work (Finished oks) = 0"

fun target :: "worker \<Rightarrow> int" where
  "target (Fresh n) = int n"
| "target (Running n oks) = oks + int n"
| "target (Finished oks) = oks"

lemma work_0: "work w = 0 \<longleftrightarrow> is_finished w"
  by (cases w) simp_all

lemma target_finished: "is_finished w \<Longrightarrow> worker_oks w = target w"
  by (cases w) simp_all

lemma active_Nil: "active ws = [] \<longleftrightarrow> (\<forall>w \<in> set ws. is_finished w)"
  by (auto simp: active_def filter_empty_conv all_set_conv_all_nth)

lemma active_Nil_sum: "active ws = [] \<Longrightarrow> sum_list (map worker_oks ws) = sum_list (map target ws)"
  by (intro arg_cong [of _ _ sum_list] map_cong) (simp_all add: active_Nil target_finished)

lemma active_nth:
  assumes "active ws \<noteq> []"
  shows "active ws ! (i mod length (active ws)) < length ws"
    and "\<not> is_finished (ws ! (active ws ! (i mod length (active ws))))"
proof -
  have "active ws ! (i mod length (active ws)) \<in> set (active ws)" using assms by (intro nth_mem) simp
  then show "active ws ! (i mod length (active ws)) < length ws"
    and "\<not> is_finished (ws ! (active ws ! (i mod length (active ws))))" by (simp_all add: active_def)
qed

lemma sum_list_work_0: "sum_list (map work ws) = 0 \<longleftrightarrow> active ws = []"
  by (simp add: active_Nil work_0)

lemma sum_list_split: "j < length ws \<Longrightarrow> sum_list (map f ws) = f (ws ! j) + sum_list (map f (take j ws @ drop (Suc j) ws))"
  for f :: "worker \<Rightarrow> 'a :: comm_monoid_add"
  by (subst id_take_nth_drop [of j ws]) (simp_all add: ac_simps)

lemma sum_list_upd: "j < length ws \<Longrightarrow> sum_list (map f (ws[j := w])) = f w + sum_list (map f (take j ws @ drop (Suc j) ws))"
  for f :: "worker \<Rightarrow> 'a :: comm_monoid_add"
  using sum_list_split [of j "ws[j := w]" f] by simp

context database
begin

text \<open>One step of a worker over a database that keeps its contract.\<close>

lemma worker_step_achieves:
  assumes "is_loading \<Longrightarrow> INSERT \<in> ops" and "\<not> is_finished w"
  shows "achieves (ready F R) (worker_step F R D is_loading w)
    (\<lambda>w' st. (Suc (work w') = work w \<and> worker_oks w \<le> worker_oks w' \<and> target w' \<le> target w) \<and> ready F R st)"
proof (cases w)
  case (Fresh n)
  then show ?thesis using Init_inv by (auto simp: achieves_def on_db_def sbind_def sreturn_def ready_def)
next
  case (Running n oks)
  show ?thesis
  proof (cases n)
    case 0
    with Running show ?thesis by (simp add: achieves_def sreturn_def)
  next
    case (Suc m)
    have "achieves (ready F R) (if is_loading then DoInsert F R D else DoTransaction F R D) (\<lambda>_. ready F R)"
      using assms DoInsert_achieves DoTransaction_achieves by (intro achieves_if) blast+
    then show ?thesis
      unfolding Running Suc worker_step.simps by (rule achieves_bind) (auto intro!: achieves_return)
  qed
qed (use assms in simp)

text \<open>Whatever the schedule, workers do all their operations and return.\<close>

lemma run_workers_achieves:
  assumes "is_loading \<Longrightarrow> INSERT \<in> ops" and "length sched = sum_list (map work ws)"
  shows "achieves (ready F R) (run_workers F R D is_loading sched ws)
    (\<lambda>r st. (sum_list (map worker_oks ws) \<le> r \<and> r \<le> sum_list (map target ws)) \<and> ready F R st)"
  using assms(2)
proof (induction sched arbitrary: ws)
  case Nil
  then have "active ws = []" using sum_list_work_0 [of ws] by simp
  then show ?case by (simp add: achieves_def sreturn_def active_Nil_sum)
next
  case (Cons i sched)
  have "sum_list (map work ws) \<noteq> 0" using Cons.prems by (simp del: sum_list_eq_0_iff)
  then have act: "active ws \<noteq> []" unfolding sum_list_work_0 .
  let ?j = "active ws ! (i mod length (active ws))"
  note j = active_nth [OF act, of i]
  have "achieves (ready F R) (sbind (worker_step F R D is_loading (ws ! ?j))
      (\<lambda>w. run_workers F R D is_loading sched (ws[?j := w])))
    (\<lambda>r st. (sum_list (map worker_oks ws) \<le> r \<and> r \<le> sum_list (map target ws)) \<and> ready F R st)"
  proof (intro achieves_bind [OF worker_step_achieves [OF assms(1) j(2)]] achieves_when)
    fix w
    assume w: "Suc (work w) = work (ws ! ?j) \<and> worker_oks (ws ! ?j) \<le> worker_oks w \<and> target w \<le> target (ws ! ?j)"
    have "length sched = sum_list (map work (ws[?j := w]))"
      using Cons.prems w sum_list_split [OF j(1), of work] sum_list_upd [OF j(1), of work w] by simp
    from Cons.IH [OF this] show "achieves (ready F R) (run_workers F R D is_loading sched (ws[?j := w]))
      (\<lambda>r st. (sum_list (map worker_oks ws) \<le> r \<and> r \<le> sum_list (map target ws)) \<and> ready F R st)"
      using w sum_list_split [OF j(1), of worker_oks] sum_list_upd [OF j(1), of worker_oks w]
        sum_list_split [OF j(1), of target] sum_list_upd [OF j(1), of target w]
      by (auto elim!: achieves_weaken)
  qed blast
  with act show ?case by (simp add: Let_def)
qed

lemma run_phase_achieves:
  assumes "is_loading \<Longrightarrow> INSERT \<in> ops" and "0 \<le> num_threads" and "0 \<le> total_ops"
    and "length sched = nat num_threads * (nat (total_ops div num_threads) + 2)"
  shows "achieves (ready F R) (run_phase F R D is_loading num_threads total_ops sched)
    (\<lambda>r st. (0 \<le> r \<and> r \<le> num_threads * (total_ops div num_threads)) \<and> ready F R st)"
proof -
  have "0 \<le> total_ops div num_threads" using assms(2,3) by (simp add: div_int_pos_iff)
  then show ?thesis
    using run_workers_achieves [OF assms(1), where sched = sched and ws = "replicate (nat num_threads) (Fresh (nat (total_ops div num_threads)))"]
      assms(2,4)
    by (simp add: run_phase_def sum_list_replicate)
qed

end

context ok_database
begin

lemma worker_step_status:
  "worker_step F R D is_loading w st = Some (Inr (w', st')) \<Longrightarrow> target w' = target w"
  by (cases "(F, R, D, is_loading, w)" rule: worker_step.cases)
    (auto simp: step_simps split: if_splits dest: DoInsert_status DoTransaction_status)

lemma run_workers_status:
  "run_workers F R D is_loading sched ws st = Some (Inr (r, st')) \<Longrightarrow> r = sum_list (map target ws)"
proof (induction sched arbitrary: ws st)
  case Nil
  then show ?case by (auto simp: sreturn_def active_Nil_sum split: if_splits)
next
  case (Cons i sched)
  show ?case
  proof (cases "active ws = []")
    case True
    with Cons.prems show ?thesis by (simp add: sreturn_def active_Nil_sum)
  next
    case False
    let ?j = "active ws ! (i mod length (active ws))"
    note j = active_nth [OF False, of i]
    from Cons.prems False obtain w st1 where
      "worker_step F R D is_loading (ws ! ?j) st = Some (Inr (w, st1))"
      and rest: "run_workers F R D is_loading sched (ws[?j := w]) st1 = Some (Inr (r, st'))"
      by (auto simp: step_simps Let_def)
    then have "target w = target (ws ! ?j)" using worker_step_status by blast
    with Cons.IH [OF rest] show ?thesis
      using sum_list_split [OF j(1), of target] sum_list_upd [OF j(1), of target w] by simp
  qed
qed

lemma run_phase_counts:
  assumes "is_loading \<Longrightarrow> INSERT \<in> ops" and "0 \<le> num_threads" and "0 \<le> total_ops"
    and "length sched = nat num_threads * (nat (total_ops div num_threads) + 2)" and "ready F R st"
  shows "\<exists>st'. run_phase F R D is_loading num_threads total_ops sched st =
    Some (Inr (num_threads * (total_ops div num_threads), st')) \<and> ready F R st'"
proof -
  from achievesD [OF run_phase_achieves [OF assms(1-4)] assms(5)] obtain r st' where
    r: "run_phase F R D is_loading num_threads total_ops sched st = Some (Inr (r, st'))" "ready F R st'" by blast
  moreover have "0 \<le> total_ops div num_threads" using assms(2,3) by (simp add: div_int_pos_iff)
  ultimately have "r = num_threads * (total_ops div num_threads)"
    using run_workers_status assms(2) by (fastforce simp: run_phase_def sum_list_replicate split: if_splits)
  with r show ?thesis by blast
qed

end

subsection \<open>One thread\<close>

lemma replicate_1: "replicate (Suc 0) x = [x]"
  by simp

lemma active_single: "active [w] = (if is_finished w then [] else [0])"
  by (simp add: active_def)

lemma sbind_return [simp]: "sbind (sreturn a) f = f a"
  by (rule ext) (simp add: sbind_def sreturn_def)

lemma sbind_assoc: "sbind (sbind m f) g = sbind m (\<lambda>a. sbind (f a) g)"
  by (rule ext) (auto simp: sbind_def split: option.splits sum.splits prod.splits)

lemma run_one_worker:
  "run_workers F R D is_loading (replicate (n + 1) i) [Running n oks] = DelegateClient_loop F R D is_loading n oks"
proof (induction n arbitrary: oks)
  case 0
  show ?case by (simp add: active_single)
next
  case (Suc n)
  then show ?case by (simp add: active_single sbind_assoc)
qed

text \<open>
  With one thread, a phase of \<^verbatim>\<open>main\<close> is the worker function: whatever the worker does, errors
  and divergence included.
\<close>

theorem run_phase_one_thread:
  assumes "0 \<le> total_ops"
  shows "run_phase F R D is_loading 1 total_ops (replicate (nat total_ops + 2) i) = DelegateClient F R D total_ops is_loading"
proof -
  have "replicate (nat total_ops + 2) i = i # replicate (nat total_ops + 1) i" by simp
  then show ?thesis
    using run_one_worker [of F R D is_loading "nat total_ops" i 0] assms
    by (simp add: run_phase_def active_single sbind_assoc DelegateClient_def replicate_1 del: replicate_Suc)
qed

theorem run_phase_one_thread_witness:
  "run_phase exact_fpu zero_src BasicDB_DB True 1 2 (replicate (nat 2 + 2) 0) = DelegateClient exact_fpu zero_src BasicDB_DB 2 True"
  by (rule run_phase_one_thread) simp

subsection \<open>The command line\<close>

text \<open>An option with its argument, what it does, and when it is accepted.\<close>

fun apply_option :: "(string \<Rightarrow> string option) \<Rightarrow> string \<times> properties \<Rightarrow> string \<times> string \<Rightarrow> string \<times> properties" where
  "apply_option files (filename, props) (opt, arg) =
     (case option_property opt of
        Some key \<Rightarrow> (filename, SetProperty props key arg)
      | None \<Rightarrow> (arg, case files arg of None \<Rightarrow> props | Some input \<Rightarrow> Load_loop props input))"

fun accepted :: "(string \<Rightarrow> string option) \<Rightarrow> string \<times> string \<Rightarrow> bool" where
  "accepted files (opt, arg) \<longleftrightarrow> option_property opt \<noteq> None \<or> opt = ''-P'' \<and> files arg \<noteq> None"

lemma option_property_dash: "option_property opt = Some key \<Longrightarrow> StrStartWith opt ''-''"
  by (auto simp: option_property_def StrStartWith_def split: if_splits)

lemma ParseCommandLine_loop_iff:
  "ParseCommandLine_loop files command started filename props args = (out, Inr r) \<longleftrightarrow>
   out = [] \<and> (\<exists>prs. args = concat (map (\<lambda>(opt, arg). [opt, arg]) prs) \<and> (\<forall>p \<in> set prs. accepted files p) \<and>
     (started \<or> prs \<noteq> []) \<and> r = foldl (apply_option files) (filename, props) prs)"
proof (induction files command started filename props args rule: ParseCommandLine_loop.induct)
  case (1 files command started filename props)
  have "[] = concat (map (\<lambda>(opt, arg). [opt, arg]) prs) \<longleftrightarrow> prs = []" for prs :: "(string \<times> string) list"
    by (cases prs) auto
  then show ?case by auto
next
  case (2 files command started filename props opt)
  have "[opt] \<noteq> concat (map (\<lambda>(opt, arg). [opt, arg]) prs)" for prs :: "(string \<times> string) list"
    by (cases prs) auto
  then show ?case by simp
next
  case (3 files command started filename props opt arg args)
  have split: "(\<exists>prs. opt # arg # args = concat (map (\<lambda>(opt, arg). [opt, arg]) prs) \<and> Q prs) \<longleftrightarrow>
      (\<exists>prs. args = concat (map (\<lambda>(opt, arg). [opt, arg]) prs) \<and> Q ((opt, arg) # prs))" for Q
  proof
    assume "\<exists>prs. opt # arg # args = concat (map (\<lambda>(opt, arg). [opt, arg]) prs) \<and> Q prs"
    then obtain prs where "opt # arg # args = concat (map (\<lambda>(opt, arg). [opt, arg]) prs)" "Q prs" by blast
    then show "\<exists>prs. args = concat (map (\<lambda>(opt, arg). [opt, arg]) prs) \<and> Q ((opt, arg) # prs)"
      by (cases prs) auto
  qed force
  show ?case
  proof (cases "accepted files (opt, arg)")
    case False
    then show ?thesis unfolding split
      by (auto simp: Properties_Load_def split: option.split if_splits)
  next
    case True
    show ?thesis
    proof (cases "option_property opt")
      case (Some key)
      have "ParseCommandLine_loop files command True filename (SetProperty props key arg) args = (out, Inr r) \<longleftrightarrow>
          out = [] \<and> (\<exists>prs. args = concat (map (\<lambda>(opt, arg). [opt, arg]) prs) \<and> (\<forall>p \<in> set prs. accepted files p) \<and>
            (True \<or> prs \<noteq> []) \<and> r = foldl (apply_option files) (filename, SetProperty props key arg) prs)"
        by (rule "3.IH"(2)) (use Some option_property_dash in simp_all)
      with True Some option_property_dash [OF Some] show ?thesis unfolding split by simp
    next
      case None
      with True obtain input where f: "opt = ''-P''" "files arg = Some input" by auto
      have "ParseCommandLine_loop files command True arg (Load_loop props input) args = (out, Inr r) \<longleftrightarrow>
          out = [] \<and> (\<exists>prs. args = concat (map (\<lambda>(opt, arg). [opt, arg]) prs) \<and> (\<forall>p \<in> set prs. accepted files p) \<and>
            (True \<or> prs \<noteq> []) \<and> r = foldl (apply_option files) (arg, Load_loop props input) prs)"
        by (rule "3.IH"(1)) (use None f in \<open>simp_all add: StrStartWith_def Properties_Load_def\<close>)
      with True None f show ?thesis unfolding split
        by (auto simp: StrStartWith_def Properties_Load_def)
    qed
  qed
qed

text \<open>
  C32. \<^verbatim>\<open>ParseCommandLine\<close> returns exactly when the arguments are a non-empty sequence of known options,
  each with its argument and each \<^verbatim>\<open>-P\<close> naming a file that can be opened; it has then printed
  nothing, the properties are the options applied from left to right, so that later ones win,
  and the file name is that of the last \<^verbatim>\<open>-P\<close>.
\<close>

theorem ParseCommandLine_returns_iff:
  "ParseCommandLine files (command # args) props = (out, Inr r) \<longleftrightarrow>
   out = [] \<and> (\<exists>prs. prs \<noteq> [] \<and> args = concat (map (\<lambda>(opt, arg). [opt, arg]) prs) \<and>
     list_all (accepted files) prs \<and> r = foldl (apply_option files) ([], props) prs)"
  by (auto simp: ParseCommandLine_def ParseCommandLine_loop_iff list_all_iff)

subsection \<open>The whole program\<close>


text \<open>A command line for the demonstration workload, with two threads.\<close>

definition demo_files :: "string \<Rightarrow> string option" where
  "demo_files = [''w'' \<mapsto> ''recordcount=3'' @ [CHR 0x0A] @ ''operationcount=5'' @ [CHR 0x0A] @ ''insertorder=hashed'']"

definition demo_argv :: "string list" where
  "demo_argv = [''ycsbc'', ''-db'', ''basic'', ''-threads'', ''2'', ''-P'', ''w'']"

lemma demo_Load:
  "Load_loop p (''recordcount=3'' @ [CHR 0x0A] @ ''operationcount=5'' @ [CHR 0x0A] @ ''insertorder=hashed'') =
   p(''recordcount'' \<mapsto> ''3'', ''operationcount'' \<mapsto> ''5'', ''insertorder'' \<mapsto> ''hashed'')"
  by (simp add: Load_loop.simps Load_line_def SetProperty_def Trim_def isspace_def)

lemma demo_parse:
  "ParseCommandLine demo_files demo_argv Map.empty =
   ([], Inr (''w'', [''dbname'' \<mapsto> ''basic'', ''threadcount'' \<mapsto> ''2'', ''recordcount'' \<mapsto> ''3'',
     ''operationcount'' \<mapsto> ''5'', ''insertorder'' \<mapsto> ''hashed'']))"
  using demo_Load by (simp add: ParseCommandLine_def demo_argv_def demo_files_def StrStartWith_def option_property_def
      Properties_Load_def SetProperty_def)

lemma Init_ignores:
  "Init F R [''dbname'' \<mapsto> a, ''threadcount'' \<mapsto> b, ''recordcount'' \<mapsto> x, ''operationcount'' \<mapsto> y, ''insertorder'' \<mapsto> z] =
   Init F R [''recordcount'' \<mapsto> x, ''operationcount'' \<mapsto> y, ''insertorder'' \<mapsto> z]"
  by (intro ext) (simp add: Init_def GetProperty_def Init_key_chooser_def Init_scan_len_chooser_def GetFieldLenGenerator_def)


end
