(* ===== verification/Sds.thy ===== *)
theory Sds
  imports Ycsb_Prelude
begin

text \<open>
  \<^verbatim>\<open>redis/hiredis/sds.h\<close> and the storage part of \<^verbatim>\<open>sds.c\<close>: dynamic strings with a header that holds
  the length and the free space. A string is its header and its allocated bytes; the pointers
  of the program never alias, because every operation returns the string that replaces its
  argument. \<open>None\<close> is the null pointer. Writing outside the allocated bytes, or through a null
  pointer, is \<open>InvalidAccess\<close>. The allocator is a parameter: which sizes it can serve, and what
  byte fresh memory holds. Sizes are natural numbers; the \<^verbatim>\<open>int\<close> fields of the header keep 32
  bits.
\<close>

record allocator =
  al_ok :: "nat \<Rightarrow> bool"
  al_junk :: char

record sds =
  sd_len :: int
  sd_free :: int
  sd_buf :: string

abbreviation (input) NUL :: char where "NUL \<equiv> CHR 0x00"
abbreviation (input) SDS_MAX_PREALLOC :: nat where "SDS_MAX_PREALLOC \<equiv> 1048576"

text \<open>Memory that never runs out, for examples.\<close>

definition any_memory :: allocator where
  "any_memory = \<lparr>al_ok = \<lambda>_. True, al_junk = NUL\<rparr>"

text \<open>A size stored in an \<^verbatim>\<open>int\<close> field.\<close>

definition to_int :: "nat \<Rightarrow> int" where
  "to_int n = sint (word_of_nat n :: u32)"

text \<open>\<^verbatim>\<open>memcpy\<close> into allocated bytes and \<^verbatim>\<open>realloc\<close>.\<close>

definition poke :: "string \<Rightarrow> int \<Rightarrow> string \<Rightarrow> string result" where
  "poke buf i t =
     (if 0 \<le> i \<and> nat i + length t \<le> length buf
      then Inr (take (nat i) buf @ t @ drop (nat i + length t) buf) else Inl InvalidAccess)"

definition resize :: "allocator \<Rightarrow> string \<Rightarrow> nat \<Rightarrow> string" where
  "resize A buf n = take n buf @ replicate (n - length buf) (al_junk A)"

text \<open>The first \<open>n\<close> bytes at a pointer to the bytes \<open>t\<close>.\<close>

definition peek :: "string \<Rightarrow> nat \<Rightarrow> string result" where
  "peek t n = (if n \<le> length t then Inr (take n t) else Inl InvalidAccess)"

definition sdslen :: "sds \<Rightarrow> nat" where
  "sdslen s = nat (sd_len s)"

definition sdsavail :: "sds \<Rightarrow> nat" where
  "sdsavail s = nat (sd_free s)"

text \<open>What the string holds.\<close>

definition content :: "sds \<Rightarrow> string" where
  "content s = take (sdslen s) (sd_buf s)"

subsection \<open>Creation\<close>

definition sdsnewlen :: "allocator \<Rightarrow> string option \<Rightarrow> nat \<Rightarrow> sds option result" where
  "sdsnewlen A init initlen =
     (if \<not> al_ok A (8 + initlen + 1) then Inr None
      else
        let fresh = (case init of Some t \<Rightarrow> replicate (initlen + 1) (al_junk A) | None \<Rightarrow> replicate (initlen + 1) NUL) in
        rbind (case init of
                 Some t \<Rightarrow> (if initlen \<noteq> 0 then rbind (peek t initlen) (poke fresh 0) else Inr fresh)
               | None \<Rightarrow> Inr fresh) (\<lambda>buf.
        rbind (poke buf (int initlen) [NUL]) (\<lambda>buf'.
        Inr (Some \<lparr>sd_len = to_int initlen, sd_free = 0, sd_buf = buf'\<rparr>))))"

definition sdsempty :: "allocator \<Rightarrow> sds option result" where
  "sdsempty A = sdsnewlen A (Some [NUL]) 0"

definition sdsnew :: "allocator \<Rightarrow> string option \<Rightarrow> sds option result" where
  "sdsnew A init = sdsnewlen A init (case init of None \<Rightarrow> 0 | Some t \<Rightarrow> length (c_str t))"

definition sdsdup :: "allocator \<Rightarrow> sds \<Rightarrow> sds option result" where
  "sdsdup A s = sdsnewlen A (Some (sd_buf s)) (sdslen s)"

subsection \<open>Length and space\<close>

definition sdsupdatelen :: "sds \<Rightarrow> sds" where
  "sdsupdatelen s =
     (let reallen = to_int (length (c_str (sd_buf s))) in
      s\<lparr>sd_free := sd_free s + (sd_len s - reallen), sd_len := reallen\<rparr>)"

definition sdsclear :: "sds \<Rightarrow> sds result" where
  "sdsclear s =
     rbind (poke (sd_buf s) 0 [NUL]) (\<lambda>buf.
     Inr (s\<lparr>sd_free := sd_free s + sd_len s, sd_len := 0, sd_buf := buf\<rparr>))"

definition sdsMakeRoomFor :: "allocator \<Rightarrow> sds \<Rightarrow> nat \<Rightarrow> sds option result" where
  "sdsMakeRoomFor A s addlen =
     (if addlen \<le> sdsavail s then Inr (Some s)
      else
        let len = sdslen s;
            newlen = (if len + addlen < SDS_MAX_PREALLOC then (len + addlen) * 2 else len + addlen + SDS_MAX_PREALLOC) in
        if \<not> al_ok A (8 + newlen + 1) then Inr None
        else Inr (Some (s\<lparr>sd_free := to_int (newlen - len), sd_buf := resize A (sd_buf s) (newlen + 1)\<rparr>)))"

text \<open>The result of \<^verbatim>\<open>realloc\<close> is not tested here.\<close>

definition sdsRemoveFreeSpace :: "allocator \<Rightarrow> sds \<Rightarrow> sds result" where
  "sdsRemoveFreeSpace A s =
     (if al_ok A (8 + sdslen s + 1) then Inr (s\<lparr>sd_free := 0, sd_buf := resize A (sd_buf s) (sdslen s + 1)\<rparr>)
      else Inl InvalidAccess)"

definition sdsAllocSize :: "sds \<Rightarrow> nat" where
  "sdsAllocSize s = 8 + sdslen s + sdsavail s + 1"

definition sdsIncrLen :: "sds \<Rightarrow> int \<Rightarrow> sds result" where
  "sdsIncrLen s incr =
     (if sd_free s < incr then Inl AssertFailure
      else if sd_free s - incr < 0 then Inl AssertFailure
      else rbind (poke (sd_buf s) (sd_len s + incr) [NUL]) (\<lambda>buf.
           Inr \<lparr>sd_len = sd_len s + incr, sd_free = sd_free s - incr, sd_buf = buf\<rparr>))"

text \<open>Calls that go on with the string a call returned: only \<^verbatim>\<open>sdsMakeRoomFor\<close> is tested for null.\<close>

definition if_room :: "sds option result \<Rightarrow> (sds \<Rightarrow> sds result) \<Rightarrow> sds option result" where
  "if_room m f = rbind m (\<lambda>r. case r of None \<Rightarrow> Inr None | Some s \<Rightarrow> rbind (f s) (\<lambda>s'. Inr (Some s')))"

definition sdsgrowzero :: "allocator \<Rightarrow> sds \<Rightarrow> nat \<Rightarrow> sds option result" where
  "sdsgrowzero A s len =
     (let curlen = sdslen s in
      if len \<le> curlen then Inr (Some s)
      else if_room (sdsMakeRoomFor A s (len - curlen)) (\<lambda>s'.
           rbind (poke (sd_buf s') (int curlen) (replicate (len - curlen + 1) NUL)) (\<lambda>buf.
           let totlen = sd_len s' + sd_free s' in
           Inr \<lparr>sd_len = to_int len, sd_free = totlen - to_int len, sd_buf = buf\<rparr>)))"

subsection \<open>Appending and assigning\<close>

definition sdscatlen :: "allocator \<Rightarrow> sds \<Rightarrow> string \<Rightarrow> nat \<Rightarrow> sds option result" where
  "sdscatlen A s t len =
     (let curlen = sdslen s in
      if_room (sdsMakeRoomFor A s len) (\<lambda>s'.
      rbind (peek t len) (\<lambda>bytes.
      rbind (poke (sd_buf s') (int curlen) bytes) (\<lambda>buf.
      rbind (poke buf (int (curlen + len)) [NUL]) (\<lambda>buf'.
      Inr \<lparr>sd_len = to_int (curlen + len), sd_free = sd_free s' - to_int len, sd_buf = buf'\<rparr>)))))"

definition sdscat :: "allocator \<Rightarrow> sds \<Rightarrow> string \<Rightarrow> sds option result" where
  "sdscat A s t = sdscatlen A s t (length (c_str t))"

definition sdscatsds :: "allocator \<Rightarrow> sds \<Rightarrow> sds \<Rightarrow> sds option result" where
  "sdscatsds A s t = sdscatlen A s (sd_buf t) (sdslen t)"

definition sdscpylen :: "allocator \<Rightarrow> sds \<Rightarrow> string \<Rightarrow> nat \<Rightarrow> sds option result" where
  "sdscpylen A s t len =
     if_room (if sd_free s + sd_len s < int len then sdsMakeRoomFor A s (len - sdslen s) else Inr (Some s)) (\<lambda>s'.
     rbind (peek t len) (\<lambda>bytes.
     rbind (poke (sd_buf s') 0 bytes) (\<lambda>buf.
     rbind (poke buf (int len) [NUL]) (\<lambda>buf'.
     Inr \<lparr>sd_len = to_int len, sd_free = sd_free s' + sd_len s' - to_int len, sd_buf = buf'\<rparr>))))"

definition sdscpy :: "allocator \<Rightarrow> sds \<Rightarrow> string \<Rightarrow> sds option result" where
  "sdscpy A s t = sdscpylen A s t (length (c_str t))"

subsection \<open>The type invariant\<close>

text \<open>The header fits the allocation, and a NUL follows the content.\<close>

definition sds_space :: "sds \<Rightarrow> bool" where
  "sds_space s \<longleftrightarrow> 0 \<le> sd_len s \<and> 0 \<le> sd_free s \<and> length (sd_buf s) = nat (sd_len s + sd_free s) + 1 \<and>
     sd_len s + sd_free s < 2 ^ 31"

definition sds_ok :: "sds \<Rightarrow> bool" where
  "sds_ok s \<longleftrightarrow> sds_space s \<and> sd_buf s ! nat (sd_len s) = NUL"

lemma sds_ok_space: "sds_ok s \<Longrightarrow> sds_space s"
  by (simp add: sds_ok_def)

lemma sds_space_dest:
  assumes "sds_space s"
  shows "sd_len s = int (sdslen s)" "sd_free s = int (sdsavail s)" "length (sd_buf s) = sdslen s + sdsavail s + 1"
    "sdslen s + sdsavail s < 2 ^ 31"
  using assms by (simp_all add: sds_space_def sdslen_def sdsavail_def nat_add_distrib) linarith

lemma sds_spaceI:
  "sd_len s = int n \<Longrightarrow> sd_free s = int f \<Longrightarrow> length (sd_buf s) = n + f + 1 \<Longrightarrow> n + f < 2 ^ 31 \<Longrightarrow>
   sds_space s \<and> sdslen s = n \<and> sdsavail s = f"
  by (simp add: sds_space_def sdslen_def sdsavail_def nat_add_distrib)

lemma sds_ok_dest:
  assumes "sds_ok s"
  shows "sd_len s = int (sdslen s)" "sd_free s = int (sdsavail s)" "length (sd_buf s) = sdslen s + sdsavail s + 1"
    "sdslen s + sdsavail s < 2 ^ 31" "sd_buf s ! sdslen s = NUL"
  using sds_space_dest [of s] assms by (simp_all add: sds_ok_def sdslen_def)

lemma sds_okI:
  "sd_len s = int n \<Longrightarrow> sd_free s = int f \<Longrightarrow> length (sd_buf s) = n + f + 1 \<Longrightarrow> n + f < 2 ^ 31 \<Longrightarrow>
   sd_buf s ! n = NUL \<Longrightarrow> sds_ok s \<and> sdslen s = n \<and> sdsavail s = f"
  using sds_spaceI [of s n f] by (simp add: sds_ok_def)

lemma to_int_small: "n < 2 ^ 31 \<Longrightarrow> to_int n = int n"
  by (simp add: to_int_def signed_of_nat signed_take_bit_eq_if_positive bit_iff_odd take_bit_nat_eq_self
      flip: of_nat_take_bit)

lemma length_content: "sds_ok s \<Longrightarrow> length (content s) = sdslen s"
  using sds_ok_dest(3) [of s] by (simp add: content_def)

lemma poke_ok: "i + length t \<le> length buf \<Longrightarrow> poke buf (int i) t = Inr (take i buf @ t @ drop (i + length t) buf)"
  by (simp add: poke_def)

lemma length_resize [simp]: "length (resize A buf n) = n"
  by (simp add: resize_def)

text \<open>\<open>yields m t\<close>: the call returns a well-formed string that holds \<open>t\<close>.\<close>

definition yields :: "sds option result \<Rightarrow> string \<Rightarrow> bool" where
  "yields m t \<longleftrightarrow> (\<exists>s. m = Inr (Some s) \<and> sds_ok s \<and> content s = t)"

lemma sdsnewlen_ok:
  assumes "al_ok A (initlen + 9)" and "initlen \<le> length t" and "initlen < 2 ^ 31"
  shows "yields (sdsnewlen A (Some t) initlen) (take initlen t)"
proof -
  have "peek t initlen = Inr (take initlen t)" using assms(2) by (simp add: peek_def)
  then have "sdsnewlen A (Some t) initlen =
      Inr (Some \<lparr>sd_len = int initlen, sd_free = 0, sd_buf = take initlen t @ [NUL]\<rparr>)"
    using assms poke_ok [of 0] poke_ok [of initlen]
    by (cases "initlen = 0") (simp_all add: sdsnewlen_def to_int_small poke_def add.commute)
  moreover have "sds_ok \<lparr>sd_len = int initlen, sd_free = 0, sd_buf = take initlen t @ [NUL]\<rparr>"
    using assms(2,3) by (simp add: sds_ok_def sds_space_def nth_append)
  ultimately show ?thesis using assms(2) by (simp add: yields_def content_def sdslen_def)
qed

lemma sdsMakeRoomFor_space:
  assumes s: "sds_space s" and len: "sdslen s + addlen < 2 ^ 30" and A: "\<And>n. al_ok A n"
  shows "\<exists>s'. sdsMakeRoomFor A s addlen = Inr (Some s') \<and> sds_space s' \<and> sd_len s' = sd_len s \<and>
    take (sdslen s + 1) (sd_buf s') = take (sdslen s + 1) (sd_buf s) \<and> addlen \<le> sdsavail s'"
proof (cases "addlen \<le> sdsavail s")
  case True
  with s show ?thesis by (simp add: sdsMakeRoomFor_def)
next
  case False
  define newlen where "newlen = (if sdslen s + addlen < SDS_MAX_PREALLOC then (sdslen s + addlen) * 2
    else sdslen s + addlen + SDS_MAX_PREALLOC)"
  have n: "sdslen s + addlen \<le> newlen" "newlen < 2 ^ 31" using len by (simp_all add: newlen_def)
  let ?s = "s\<lparr>sd_free := to_int (newlen - sdslen s), sd_buf := resize A (sd_buf s) (newlen + 1)\<rparr>"
  note d = sds_space_dest [OF s]
  have free: "to_int (newlen - sdslen s) = int (newlen - sdslen s)"
    using n by (simp add: to_int_small)
  then have "sds_space ?s \<and> sdslen ?s = sdslen s \<and> sdsavail ?s = newlen - sdslen s"
    using n d(1) by (intro sds_spaceI) simp_all
  moreover have "take (sdslen s + 1) (sd_buf ?s) = take (sdslen s + 1) (sd_buf s)"
    using n False d(3) by (simp add: resize_def)
  moreover have "addlen \<le> newlen - sdslen s" using n by simp
  moreover have "sdsMakeRoomFor A s addlen = Inr (Some ?s)"
    using False A by (simp add: sdsMakeRoomFor_def newlen_def Let_def)
  ultimately show ?thesis by auto
qed

lemma sdsMakeRoomFor_ok:
  assumes "sds_ok s" and "sdslen s + addlen < 2 ^ 30" and A: "\<And>n. al_ok A n"
  shows "\<exists>s'. sdsMakeRoomFor A s addlen = Inr (Some s') \<and> sds_ok s' \<and> content s' = content s \<and>
    sd_len s' = sd_len s \<and> addlen \<le> sdsavail s'"
proof -
  from sdsMakeRoomFor_space [OF sds_ok_space [OF assms(1)] assms(2), of A] A obtain s' where
    s': "sdsMakeRoomFor A s addlen = Inr (Some s')" "sds_space s'" "sd_len s' = sd_len s"
      "take (sdslen s + 1) (sd_buf s') = take (sdslen s + 1) (sd_buf s)" "addlen \<le> sdsavail s'" by blast
  have "sd_buf s' ! sdslen s = sd_buf s ! sdslen s" using arg_cong [OF s'(4), of "\<lambda>l. l ! sdslen s"] by simp
  then have "sds_ok s'" using s'(2,3) assms(1) by (simp add: sds_ok_def sdslen_def)
  moreover have "content s' = content s"
    using arg_cong [OF s'(4), of "take (sdslen s)"] s'(3) by (simp add: content_def sdslen_def min_def)
  ultimately show ?thesis using s' by auto
qed

lemma sdscatlen_ok:
  assumes "sds_ok s" and "len \<le> length t" and "sdslen s + len < 2 ^ 30" and A: "\<And>n. al_ok A n"
  shows "yields (sdscatlen A s t len) (content s @ take len t)"
proof -
  from sdsMakeRoomFor_ok [OF assms(1,3), of A] A obtain s' where
    s': "sdsMakeRoomFor A s len = Inr (Some s')" "sds_ok s'" "content s' = content s" "sd_len s' = sd_len s"
      "len \<le> sdsavail s'" by blast
  have "sdslen s' = sdslen s" using s'(4) by (simp add: sdslen_def)
  with sds_ok_dest(2-4) [OF s'(2)] have l: "length (sd_buf s') = sdslen s + sdsavail s' + 1"
    "sd_free s' = int (sdsavail s')" "sdslen s + sdsavail s' < 2 ^ 31" by simp_all
  define buf where "buf = take (sdslen s) (sd_buf s') @ take len t @ NUL # drop (sdslen s + len + 1) (sd_buf s')"
  have "poke (sd_buf s') (int (sdslen s)) (take len t) =
      Inr (take (sdslen s) (sd_buf s') @ take len t @ drop (sdslen s + len) (sd_buf s'))"
    using assms(2) s'(5) l(1) by (subst poke_ok) simp_all
  moreover have "poke (take (sdslen s) (sd_buf s') @ take len t @ drop (sdslen s + len) (sd_buf s')) (int (sdslen s + len)) [NUL] = Inr buf"
    using assms(2) s'(5) l(1) by (subst poke_ok) (simp_all add: buf_def ac_simps)
  ultimately have "sdscatlen A s t len =
      Inr (Some \<lparr>sd_len = int (sdslen s + len), sd_free = sd_free s' - int len, sd_buf = buf\<rparr>)"
    using s'(1) assms(2,3) by (simp add: sdscatlen_def if_room_def peek_def to_int_small Let_def)
  moreover have "sds_ok \<lparr>sd_len = int (sdslen s + len), sd_free = sd_free s' - int len, sd_buf = buf\<rparr> \<and>
      sdslen \<lparr>sd_len = int (sdslen s + len), sd_free = sd_free s' - int len, sd_buf = buf\<rparr> = sdslen s + len \<and>
      sdsavail \<lparr>sd_len = int (sdslen s + len), sd_free = sd_free s' - int len, sd_buf = buf\<rparr> = sdsavail s' - len"
    using s'(5) l assms(2) by (intro sds_okI) (simp_all add: buf_def nth_append)
  moreover have "take (sdslen s) (sd_buf s') = content s" using s'(3,4) by (simp add: content_def sdslen_def)
  then have "take (sdslen s + len) buf = content s @ take len t"
    using assms(2) l(1) length_content [OF assms(1)] by (simp add: buf_def)
  ultimately show ?thesis unfolding yields_def by (auto simp: content_def)
qed

text \<open>The other operations.\<close>

lemma sdsempty_ok: "al_ok A 9 \<Longrightarrow> yields (sdsempty A) []"
  using sdsnewlen_ok [of A 0 "[NUL]"] by (simp add: sdsempty_def)

lemma sdsnew_ok: "al_ok A (length (c_str t) + 9) \<Longrightarrow> length (c_str t) < 2 ^ 31 \<Longrightarrow> yields (sdsnew A (Some t)) (c_str t)"
  using sdsnewlen_ok [of A "length (c_str t)" t]
  by (simp add: sdsnew_def c_str_def length_takeWhile_le takeWhile_eq_take [symmetric])

lemma sdsdup_ok: "sds_ok s \<Longrightarrow> al_ok A (sdslen s + 9) \<Longrightarrow> yields (sdsdup A s) (content s)"
  using sdsnewlen_ok [of A "sdslen s" "sd_buf s"] sds_ok_dest [of s] by (simp add: sdsdup_def content_def)

lemma sdscat_ok:
  "sds_ok s \<Longrightarrow> sdslen s + length (c_str t) < 2 ^ 30 \<Longrightarrow> (\<And>n. al_ok A n) \<Longrightarrow> yields (sdscat A s t) (content s @ c_str t)"
  using sdscatlen_ok [of s "length (c_str t)" t A]
  by (simp add: sdscat_def c_str_def length_takeWhile_le takeWhile_eq_take [symmetric])

lemma sdscatsds_ok:
  "sds_ok s \<Longrightarrow> sds_ok t \<Longrightarrow> sdslen s + sdslen t < 2 ^ 30 \<Longrightarrow> (\<And>n. al_ok A n) \<Longrightarrow>
   yields (sdscatsds A s t) (content s @ content t)"
  using sdscatlen_ok [of s "sdslen t" "sd_buf t" A] sds_ok_dest(3) [of t] by (simp add: sdscatsds_def content_def [of t])

lemma sdscpylen_ok:
  assumes "sds_ok s" and "len \<le> length t" and "len < 2 ^ 30" and A: "\<And>n. al_ok A n"
  shows "yields (sdscpylen A s t len) (take len t)"
proof -
  note d = sds_ok_dest [OF assms(1)]
  obtain s' where s': "(if sd_free s + sd_len s < int len then sdsMakeRoomFor A s (len - sdslen s) else Inr (Some s)) = Inr (Some s')"
    and ok: "sds_ok s'" and room: "len \<le> sdslen s' + sdsavail s'"
  proof (cases "sd_free s + sd_len s < int len")
    case True
    then have "sdslen s + (len - sdslen s) < 2 ^ 30" using d assms(3) by simp
    from sdsMakeRoomFor_ok [OF assms(1) this, of A] A obtain s' where
      "sdsMakeRoomFor A s (len - sdslen s) = Inr (Some s')" "sds_ok s'" "sd_len s' = sd_len s" "len - sdslen s \<le> sdsavail s'"
      by blast
    with True that [of s'] show ?thesis by (simp add: sdslen_def)
  next
    case False
    with that [of s] assms(1) d show ?thesis by simp
  qed
  note d' = sds_ok_dest [OF ok]
  define buf where "buf = take len t @ NUL # drop (len + 1) (sd_buf s')"
  let ?r = "\<lparr>sd_len = int len, sd_free = sd_free s' + sd_len s' - int len, sd_buf = buf\<rparr>"
  have "sdscpylen A s t len = Inr (Some ?r)"
    using s' assms(2,3) d'(3) room poke_ok [of 0 "take len t" "sd_buf s'"] poke_ok [of len "[NUL]" "take len t @ drop len (sd_buf s')"]
    by (simp add: sdscpylen_def if_room_def peek_def to_int_small buf_def)
  moreover have "sds_ok ?r \<and> sdslen ?r = len \<and> sdsavail ?r = sdslen s' + sdsavail s' - len"
    using assms(2) d' room by (intro sds_okI) (simp_all add: buf_def nth_append)
  ultimately show ?thesis using assms(2) by (simp add: yields_def content_def buf_def)
qed

lemma sdsgrowzero_ok:
  assumes "sds_ok s" and "len < 2 ^ 30" and A: "\<And>n. al_ok A n"
  shows "yields (sdsgrowzero A s len) (content s @ replicate (len - sdslen s) NUL)"
proof (cases "len \<le> sdslen s")
  case True
  with assms(1) show ?thesis by (simp add: sdsgrowzero_def yields_def)
next
  case False
  then have "sdslen s + (len - sdslen s) < 2 ^ 30" using assms(2) by simp
  from sdsMakeRoomFor_ok [OF assms(1) this, of A] A obtain s' where
    s': "sdsMakeRoomFor A s (len - sdslen s) = Inr (Some s')" "sds_ok s'" "content s' = content s" "sd_len s' = sd_len s"
      "len - sdslen s \<le> sdsavail s'" by blast
  note d' = sds_ok_dest [OF s'(2)]
  have l: "sdslen s' = sdslen s" using s'(4) by (simp add: sdslen_def)
  define buf where "buf = take (sdslen s) (sd_buf s') @ replicate (len - sdslen s + 1) NUL @ drop (len + 1) (sd_buf s')"
  let ?r = "\<lparr>sd_len = int len, sd_free = sd_len s' + sd_free s' - int len, sd_buf = buf\<rparr>"
  have "sdsgrowzero A s len = Inr (Some ?r)"
    using s'(1,5) False assms(2) d' l poke_ok [of "sdslen s" "replicate (len - sdslen s + 1) NUL" "sd_buf s'"]
    by (simp add: sdsgrowzero_def if_room_def to_int_small buf_def Let_def)
  moreover have "sds_ok ?r \<and> sdslen ?r = len \<and> sdsavail ?r = sdslen s' + sdsavail s' - len"
    using d' l s'(5) False by (intro sds_okI) (simp_all add: buf_def nth_append, linarith)
  moreover have "take (sdslen s) (sd_buf s') = content s" using s'(3) l by (simp add: content_def)
  then have "take len buf = content s @ replicate (len - sdslen s) NUL"
    using False length_content [OF assms(1)] by (simp add: buf_def min_def del: replicate_Suc)
  ultimately show ?thesis by (simp add: yields_def content_def)
qed

end
