(* ===== verification/Sds_Text.thy ===== *)
theory Sds_Text
  imports Sds
begin

text \<open>
  The text part of \<^verbatim>\<open>redis/hiredis/sds.c\<close>: numbers, formatting, trimming, substrings, comparison,
  splitting and joining. A variable argument list is a list of typed arguments; the output of
  \<^verbatim>\<open>vsnprintf\<close>, which is a function of the C library, is an argument of \<open>sdscatvprintf\<close>.
\<close>

subsection \<open>Numbers\<close>

fun rev_digits :: "nat \<Rightarrow> string" where
  "rev_digits v = digit_char (v mod 10) # (if v div 10 = 0 then [] else rev_digits (v div 10))"

declare rev_digits.simps [simp del]

text \<open>The loop that reverses the string in place, between positions \<open>i\<close> and \<open>j\<close>.\<close>

function swap_ends :: "string \<Rightarrow> nat \<Rightarrow> nat \<Rightarrow> string" where
  "swap_ends s i j = (if i < j then swap_ends (s[i := s ! j, j := s ! i]) (Suc i) (j - 1) else s)"
  by pat_completeness auto
termination by (relation "measure (\<lambda>(s, i, j). j)") auto

declare swap_ends.simps [simp del]

definition magnitude :: "int \<Rightarrow> nat" where
  "magnitude v = unat (if v < 0 then - word_of_int v else word_of_int v :: u64)"

definition sdsll2str :: "int \<Rightarrow> string" where
  "sdsll2str v =
     (let d = rev_digits (magnitude v) @ (if v < 0 then ''-'' else []) in swap_ends d 0 (length d - 1))"

definition sdsull2str :: "nat \<Rightarrow> string" where
  "sdsull2str v = (let d = rev_digits v in swap_ends d 0 (length d - 1))"

text \<open>\<^verbatim>\<open>sdsfromlonglong\<close> fills a buffer of 32 bytes from its end.\<close>

fun digits_down :: "nat \<Rightarrow> string \<Rightarrow> string" where
  "digits_down v acc =
     (if v div 10 = 0 then digit_char (v mod 10) # acc else digits_down (v div 10) (digit_char (v mod 10) # acc))"

declare digits_down.simps [simp del]

definition sdsfromlonglong :: "allocator \<Rightarrow> int \<Rightarrow> sds option result" where
  "sdsfromlonglong A v =
     (let t = (if v < 0 then ''-'' else []) @ digits_down (magnitude v) [] in
      if 32 < length t then Inl InvalidAccess else sdsnewlen A (Some t) (length t))"

subsection \<open>Formatting\<close>

text \<open>The buffer is enlarged until its last but one byte stays NUL. \<open>text\<close> is the whole output.\<close>

function vprintf_loop :: "allocator \<Rightarrow> string \<Rightarrow> nat \<Rightarrow> string option" where
  "vprintf_loop A text buflen =
     (if \<not> al_ok A buflen then None
      else if buflen - 1 \<le> length text \<and> 2 \<le> buflen \<and> text ! (buflen - 2) \<noteq> NUL then vprintf_loop A text (buflen * 2)
      else Some (take (buflen - 1) text))"
  by pat_completeness auto
termination by (relation "measure (\<lambda>(A, text, buflen). length text + 2 - buflen)") auto

declare vprintf_loop.simps [simp del]

definition sdscatvprintf :: "allocator \<Rightarrow> sds \<Rightarrow> string \<Rightarrow> sds option result" where
  "sdscatvprintf A s text =
     (case vprintf_loop A text 16 of None \<Rightarrow> Inr None | Some buf \<Rightarrow> sdscat A s (buf @ [NUL]))"

definition sdscatprintf :: "allocator \<Rightarrow> sds \<Rightarrow> string \<Rightarrow> sds option result" where
  "sdscatprintf A s text = sdscatvprintf A s text"

datatype fmt_arg = Arg_str string | Arg_sds sds | Arg_int int | Arg_uint nat

text \<open>\<open>sdsMakeRoomFor\<close> without a test of its result.\<close>

definition fmt_room :: "allocator \<Rightarrow> sds \<Rightarrow> nat \<Rightarrow> sds result" where
  "fmt_room A s l = rbind (sdsMakeRoomFor A s l) (\<lambda>r. case r of None \<Rightarrow> Inl InvalidAccess | Some s' \<Rightarrow> Inr s')"

definition fmt_put :: "sds \<Rightarrow> int \<Rightarrow> string \<Rightarrow> (sds \<times> int) result" where
  "fmt_put s i t =
     rbind (poke (sd_buf s) i t) (\<lambda>buf.
     Inr (s\<lparr>sd_buf := buf, sd_len := sd_len s + int (length t), sd_free := sd_free s - int (length t)\<rparr>, i + int (length t)))"

definition fmt_emit :: "allocator \<Rightarrow> sds \<Rightarrow> int \<Rightarrow> string \<Rightarrow> (sds \<times> int) result" where
  "fmt_emit A s i t =
     rbind (if sd_free s < int (length t) then fmt_room A s (length t) else Inr s) (\<lambda>s'. fmt_put s' i t)"

text \<open>What a conversion prints, and the arguments left; \<open>None\<close> for an argument of another type.\<close>

fun fmt_conv :: "char \<Rightarrow> fmt_arg list \<Rightarrow> (string \<times> fmt_arg list) option" where
  "fmt_conv c (Arg_str t # as) = (if c = CHR ''s'' then Some (c_str t, as) else None)"
| "fmt_conv c (Arg_sds t # as) = (if c = CHR ''S'' then Some (content t, as) else None)"
| "fmt_conv c (Arg_int v # as) = (if c = CHR ''i'' \<or> c = CHR ''I'' then Some (sdsll2str v, as) else None)"
| "fmt_conv c (Arg_uint v # as) =
     (if c = CHR ''u'' \<or> c = CHR ''U'' \<or> c = CHR ''T'' then Some (sdsull2str v, as) else None)"
| "fmt_conv c [] = None"

text \<open>A percent sign at the end of the format takes the loop past the terminator.\<close>

fun sdscatfmt_loop :: "allocator \<Rightarrow> string \<Rightarrow> fmt_arg list \<Rightarrow> sds \<Rightarrow> int \<Rightarrow> (sds \<times> int) result" where
  "sdscatfmt_loop A [] as s i = Inr (s, i)"
| "sdscatfmt_loop A [c] as s i =
     rbind (if sd_free s = 0 then fmt_room A s 1 else Inr s) (\<lambda>s1.
     if c = CHR ''%'' then Inl InvalidAccess else fmt_put s1 i [c])"
| "sdscatfmt_loop A (c # next # f) as s i =
     rbind (if sd_free s = 0 then fmt_room A s 1 else Inr s) (\<lambda>s1.
     if c = CHR ''%'' then
       (if next \<in> set ''sSiIuUT'' then
          (case fmt_conv next as of
             None \<Rightarrow> Inl InvalidAccess
           | Some (t, as') \<Rightarrow> rbind (fmt_emit A s1 i t) (\<lambda>(s2, i2). sdscatfmt_loop A f as' s2 i2))
        else rbind (fmt_put s1 i [next]) (\<lambda>(s2, i2). sdscatfmt_loop A f as s2 i2))
     else rbind (fmt_put s1 i [c]) (\<lambda>(s2, i2). sdscatfmt_loop A (next # f) as s2 i2))"

definition sdscatfmt :: "allocator \<Rightarrow> sds \<Rightarrow> string \<Rightarrow> fmt_arg list \<Rightarrow> sds result" where
  "sdscatfmt A s fmt as =
     rbind (sdscatfmt_loop A fmt as s (int (sdslen s))) (\<lambda>(s', i).
     rbind (poke (sd_buf s') i [NUL]) (\<lambda>buf. Inr (s'\<lparr>sd_buf := buf\<rparr>)))"

subsection \<open>Trimming and substrings\<close>

text \<open>\<^verbatim>\<open>strchr(cset, c)\<close> also finds the terminator of \<^verbatim>\<open>cset\<close>.\<close>

definition strchr :: "string \<Rightarrow> char \<Rightarrow> bool" where
  "strchr cset c \<longleftrightarrow> c \<in> set (c_str cset) \<or> c = NUL"

function skip_right :: "string \<Rightarrow> string \<Rightarrow> nat \<Rightarrow> nat" where
  "skip_right cset t i = (if i < length t \<and> strchr cset (t ! i) then skip_right cset t (Suc i) else i)"
  by pat_completeness auto
termination by (relation "measure (\<lambda>(cset, t, i). length t - i)") auto

fun skip_left :: "string \<Rightarrow> string \<Rightarrow> nat \<Rightarrow> nat" where
  "skip_left cset t 0 = 0"
| "skip_left cset t (Suc j) = (if strchr cset (t ! Suc j) then skip_left cset t j else Suc j)"

declare skip_right.simps [simp del]

text \<open>Move the \<open>n\<close> bytes from position \<open>i\<close> to the front and make them the string.\<close>

definition keep_range :: "sds \<Rightarrow> nat \<Rightarrow> nat \<Rightarrow> sds result" where
  "keep_range s i n =
     rbind (if i = 0 then Inr (sd_buf s)
            else rbind (peek (drop i (sd_buf s)) n) (poke (sd_buf s) 0)) (\<lambda>buf.
     rbind (poke buf (int n) [NUL]) (\<lambda>buf'.
     Inr \<lparr>sd_len = to_int n, sd_free = sd_free s + (sd_len s - to_int n), sd_buf = buf'\<rparr>))"

definition sdstrim :: "sds \<Rightarrow> string \<Rightarrow> sds result" where
  "sdstrim s cset =
     (let t = content s;
          sp = skip_right cset t 0;
          ep = (if t = [] then - 1 else int (skip_left cset t (length t - 1)));
          len = (if ep < int sp then 0 else nat (ep - int sp) + 1) in
      keep_range s sp len)"

definition sdsrange :: "sds \<Rightarrow> int \<Rightarrow> int \<Rightarrow> sds result" where
  "sdsrange s start0 end0 =
     (let len = int (sdslen s) in
      if len = 0 then Inr s
      else
        let start1 = (if start0 < 0 then max 0 (len + start0) else start0);
            end1 = (if end0 < 0 then max 0 (len + end0) else end0);
            newlen1 = (if end1 < start1 then 0 else end1 - start1 + 1);
            newlen = (if newlen1 \<noteq> 0 then
                        (if len \<le> start1 then 0
                         else if len \<le> end1 then (if len - 1 < start1 then 0 else len - 1 - start1 + 1)
                         else newlen1)
                      else 0);
            start2 = (if newlen1 \<noteq> 0 then start1 else 0) in
        keep_range s (if newlen = 0 then 0 else nat start2) (nat newlen))"

definition toupper :: "char \<Rightarrow> char" where
  "toupper c = (let n = (of_char c :: nat) in if 97 \<le> n \<and> n \<le> 122 then char_of (n - 32) else c)"

definition sdstolower :: "sds \<Rightarrow> sds" where
  "sdstolower s = s\<lparr>sd_buf := map tolower (take (sdslen s) (sd_buf s)) @ drop (sdslen s) (sd_buf s)\<rparr>"

definition sdstoupper :: "sds \<Rightarrow> sds" where
  "sdstoupper s = s\<lparr>sd_buf := map toupper (take (sdslen s) (sd_buf s)) @ drop (sdslen s) (sd_buf s)\<rparr>"

fun memcmp :: "string \<Rightarrow> string \<Rightarrow> int" where
  "memcmp (a # as) (b # bs) =
     (if (of_char a :: nat) < of_char b then - 1 else if (of_char b :: nat) < of_char a then 1 else memcmp as bs)"
| "memcmp as bs = 0"

definition sdscmp :: "sds \<Rightarrow> sds \<Rightarrow> int" where
  "sdscmp s1 s2 =
     (let minlen = min (sdslen s1) (sdslen s2);
          cmp = memcmp (take minlen (sd_buf s1)) (take minlen (sd_buf s2)) in
      if cmp = 0 then int (sdslen s1) - int (sdslen s2) else cmp)"

fun mapchar :: "string \<Rightarrow> string \<Rightarrow> char \<Rightarrow> char" where
  "mapchar (f # fs) (t # ts) c = (if c = f then t else mapchar fs ts c)"
| "mapchar fs ts c = c"

definition sdsmapchars :: "sds \<Rightarrow> string \<Rightarrow> string \<Rightarrow> nat \<Rightarrow> sds" where
  "sdsmapchars s from to setlen =
     s\<lparr>sd_buf := map (mapchar (take setlen from) (take setlen to)) (take (sdslen s) (sd_buf s)) @ drop (sdslen s) (sd_buf s)\<rparr>"

subsection \<open>Splitting and joining\<close>

text \<open>The scan of \<^verbatim>\<open>sdssplitlen\<close>. A token is stored in an array of \<open>slots\<close> entries.\<close>

function split_loop ::
  "allocator \<Rightarrow> string \<Rightarrow> string \<Rightarrow> nat \<Rightarrow> nat \<Rightarrow> sds list \<Rightarrow> nat \<Rightarrow> (nat \<times> sds list \<times> nat) option result" where
  "split_loop A s sep j start tokens slots =
     (if j + length sep \<le> length s \<and> sep \<noteq> [] then
        (let slots' = (if slots < length tokens + 2 then slots * 2 else slots) in
         if slots < length tokens + 2 \<and> \<not> al_ok A (8 * slots') then Inr None
         else if take (length sep) (drop j s) = sep then
           rbind (sdsnewlen A (Some (drop start s)) (j - start)) (\<lambda>r.
           case r of
             None \<Rightarrow> Inr None
           | Some t \<Rightarrow>
               if length tokens < slots' then split_loop A s sep (j + length sep) (j + length sep) (tokens @ [t]) slots'
               else Inl InvalidAccess)
         else split_loop A s sep (Suc j) start tokens slots')
      else Inr (Some (start, tokens, slots)))"
  by pat_completeness auto
termination
  by (relation "measure (\<lambda>(A, s, sep, j, start, tokens, slots). Suc (length s) - j)") (auto simp: neq_Nil_conv)

declare split_loop.simps [simp del]

definition sdssplitlen :: "allocator \<Rightarrow> string \<Rightarrow> string \<Rightarrow> sds list option result" where
  "sdssplitlen A s sep =
     (if sep = [] then Inr None
      else if \<not> al_ok A (8 * 5) then Inr None
      else if s = [] then Inr (Some [])
      else rbind (split_loop A s sep 0 0 [] 5) (\<lambda>r.
           case r of
             None \<Rightarrow> Inr None
           | Some (start, tokens, slots) \<Rightarrow>
               rbind (sdsnewlen A (Some (drop start s)) (length s - start)) (\<lambda>r.
               case r of
                 None \<Rightarrow> Inr None
               | Some t \<Rightarrow> if length tokens < slots then Inr (Some (tokens @ [t])) else Inl InvalidAccess)))"

text \<open>The result of an append is used without a test.\<close>

definition and_then :: "sds option result \<Rightarrow> (sds \<Rightarrow> sds option result) \<Rightarrow> sds option result" where
  "and_then m f = rbind m (\<lambda>r. case r of None \<Rightarrow> Inl InvalidAccess | Some s \<Rightarrow> f s)"

fun join_loop :: "allocator \<Rightarrow> (sds \<Rightarrow> 'a \<Rightarrow> sds option result) \<Rightarrow> 'a list \<Rightarrow> string \<Rightarrow> sds \<Rightarrow> sds option result" where
  "join_loop A cat [] sep s = Inr (Some s)"
| "join_loop A cat [x] sep s = cat s x"
| "join_loop A cat (x # y # xs) sep s =
     and_then (cat s x) (\<lambda>s1. and_then (sdscatlen A s1 sep (length sep)) (join_loop A cat (y # xs) sep))"

definition sdsjoin :: "allocator \<Rightarrow> string list \<Rightarrow> string \<Rightarrow> sds option result" where
  "sdsjoin A argv sep = and_then (sdsempty A) (join_loop A (sdscat A) argv sep)"

definition sdsjoinsds :: "allocator \<Rightarrow> sds list \<Rightarrow> string \<Rightarrow> sds option result" where
  "sdsjoinsds A argv sep = and_then (sdsempty A) (join_loop A (sdscatsds A) argv sep)"

end
