(* ===== verification/Sds_Laws.thy ===== *)
theory Sds_Laws
  imports Sds_Text
begin

text \<open>
  Correctness of the text operations of \<^verbatim>\<open>sds.c\<close>: numbers are printed in decimal, \<^verbatim>\<open>sdscatfmt\<close>
  expands its format, substrings and trimmed strings are what their descriptions say, and
  joining the tokens of a split gives the string back.
\<close>

subsection \<open>Numbers\<close>

lemma rev_digits_to_string: "rev_digits v = rev (to_string v)"
proof (induction v rule: rev_digits.induct)
  case (1 v)
  show ?case
  proof (cases "v < 10")
    case True
    then show ?thesis by (simp add: rev_digits.simps [of v] to_string.simps [of v])
  next
    case False
    with 1 show ?thesis by (simp add: rev_digits.simps [of v] to_string.simps [of v])
  qed
qed

lemma digits_down_to_string: "digits_down v acc = to_string v @ acc"
proof (induction v acc rule: digits_down.induct)
  case (1 v acc)
  show ?case
  proof (cases "v < 10")
    case True
    then show ?thesis by (simp add: digits_down.simps [of v] to_string.simps [of v])
  next
    case False
    with 1 show ?thesis by (simp add: digits_down.simps [of v] to_string.simps [of v])
  qed
qed

lemma swap_ends_mid: "swap_ends (a @ m @ b) (length a) (length a + length m - 1) = a @ rev m @ b"
proof (induction "length m" arbitrary: a m b rule: less_induct)
  case less
  show ?case
  proof (cases "length m < 2")
    case True
    then have "m = [] \<or> (\<exists>x. m = [x])" by (cases m) auto
    then show ?thesis by (subst swap_ends.simps) auto
  next
    case False
    then obtain x m' where "m = x # m'" "m' \<noteq> []" by (cases m) auto
    then obtain y n where m: "m = x # n @ [y]" by (cases m' rule: rev_cases) auto
    let ?s = "a @ m @ b" and ?j = "length a + length m - 1"
    have "?s ! length a = x" "?s ! ?j = y" by (simp_all add: m nth_append)
    then have "swap_ends ?s (length a) ?j = swap_ends (?s[length a := y, ?j := x]) (Suc (length a)) (?j - 1)"
      by (subst swap_ends.simps) (simp add: m)
    also have "?s[length a := y, ?j := x] = (a @ [y]) @ n @ (x # b)"
      by (simp add: m list_update_append)
    also have "swap_ends \<dots> (Suc (length a)) (?j - 1) = (a @ [y]) @ rev n @ (x # b)"
      using less [of n "a @ [y]" "x # b"] by (simp add: m)
    finally show ?thesis by (simp add: m)
  qed
qed

lemma swap_ends_rev: "swap_ends s 0 (length s - 1) = rev s"
  using swap_ends_mid [of "[]" s "[]"] by simp

lemma swap_ends_rev_rev: "(let d = rev s in swap_ends d 0 (length d - 1)) = s"
  unfolding Let_def swap_ends_rev by simp

lemma magnitude_ok: "- (2 ^ 63) \<le> v \<Longrightarrow> v < 2 ^ 63 \<Longrightarrow> magnitude v = nat \<bar>v\<bar>"
proof -
  assume "- (2 ^ 63) \<le> v" "v < 2 ^ 63"
  then have "\<bar>v\<bar> < 2 ^ 64" by simp
  then have "unat (word_of_int \<bar>v\<bar> :: u64) = nat \<bar>v\<bar>"
    by (simp add: unsigned_of_int take_bit_int_eq_self)
  then show ?thesis by (auto simp: magnitude_def abs_if split: if_splits)
qed

lemma sdsull2str_decimal: "sdsull2str v = to_string v"
  by (simp only: sdsull2str_def rev_digits_to_string swap_ends_rev_rev)

lemma sdsll2str_int:
  assumes "- (2 ^ 63) \<le> v" and "v < 2 ^ 63"
  shows "sdsll2str v = int_to_string v"
proof -
  have "rev_digits (magnitude v) @ (if v < 0 then ''-'' else []) = rev (int_to_string v)"
    using assms by (simp add: rev_digits_to_string magnitude_ok int_to_string_def)
  then show ?thesis by (simp only: sdsll2str_def swap_ends_rev_rev)
qed

lemma to_string_length: "n < 10 ^ k \<Longrightarrow> 0 < k \<Longrightarrow> length (to_string n) \<le> k"
proof (induction k arbitrary: n)
  case (Suc k)
  show ?case
  proof (cases "n < 10")
    case True
    then show ?thesis by (simp add: to_string.simps [of n])
  next
    case False
    with Suc.prems have "k \<noteq> 0" by (auto intro: ccontr)
    moreover have "n div 10 < 10 ^ k" using Suc.prems by (simp add: less_mult_imp_div_less mult.commute)
    ultimately show ?thesis using Suc.IH [of "n div 10"] False by (simp add: to_string.simps [of n])
  qed
qed simp

lemma int_to_string_length: "- (2 ^ 63) \<le> v \<Longrightarrow> v < 2 ^ 63 \<Longrightarrow> length (int_to_string v) \<le> 20"
proof -
  assume v: "- (2 ^ 63) \<le> v" "v < 2 ^ 63"
  then have "\<bar>v\<bar> < 10 ^ 19" by simp
  then have "nat \<bar>v\<bar> < 10 ^ 19" by simp
  from to_string_length [OF this] show ?thesis by (auto simp: int_to_string_def split: if_splits)
qed

text \<open>
  \<^verbatim>\<open>sdsll2str\<close> and \<^verbatim>\<open>sdsfromlonglong\<close> print every \<^verbatim>\<open>long long\<close>, the smallest one included, in decimal,
  and the text with its terminator fits the buffer of \<^verbatim>\<open>SDS_LLSTR_SIZE\<close> (21) bytes.
\<close>

theorem sdsll2str_decimal:
  assumes "- (2 ^ 63) \<le> v" and "v < 2 ^ 63" and "\<And>n. al_ok A n"
  shows "sdsll2str v = int_to_string v \<and> length (sdsll2str v) + 1 \<le> 21 \<and>
    yields (sdsfromlonglong A v) (int_to_string v)"
proof -
  have "(if v < 0 then ''-'' else []) @ digits_down (magnitude v) [] = int_to_string v"
    using assms by (auto simp: digits_down_to_string magnitude_ok int_to_string_def)
  moreover have "length (int_to_string v) \<le> 20" using assms by (intro int_to_string_length)
  ultimately have "yields (sdsfromlonglong A v) (int_to_string v)"
    using sdsnewlen_ok [of A "length (int_to_string v)" "int_to_string v"] assms(3)
    by (simp add: sdsfromlonglong_def Let_def)
  then show ?thesis using assms sdsll2str_int int_to_string_length by auto
qed

theorem sdsll2str_decimal_witness:
  "sdsll2str (- (2 ^ 63)) = int_to_string (- (2 ^ 63)) \<and> int_to_string (- (2 ^ 63)) = CHR ''-'' # to_string (2 ^ 63)"
  using sdsll2str_decimal [of "- (2 ^ 63)" "\<lparr>al_ok = \<lambda>_. True, al_junk = NUL\<rparr>"]
  by (simp add: int_to_string_def)

subsection \<open>Formatting\<close>

text \<open>What a format means.\<close>

fun expand :: "string \<Rightarrow> fmt_arg list \<Rightarrow> string option" where
  "expand [] as = Some []"
| "expand [c] as = (if c = CHR ''%'' then None else Some [c])"
| "expand (c # next # f) as =
     (if c = CHR ''%'' then
        (if next \<in> set ''sSiIuUT'' then
           (case fmt_conv next as of
              None \<Rightarrow> None
            | Some (t, as') \<Rightarrow> map_option (\<lambda>r. t @ r) (expand f as'))
         else map_option (\<lambda>r. next # r) (expand f as))
      else map_option (\<lambda>r. c # r) (expand (next # f) as))"

text \<open>The state of the loop: \<open>i\<close> is the end of the text \<open>t\<close> written so far.\<close>

definition fmt_ok :: "sds \<Rightarrow> int \<Rightarrow> string \<Rightarrow> bool" where
  "fmt_ok s i t \<longleftrightarrow> sds_space s \<and> i = int (sdslen s) \<and> content s = t"

lemma sds_space_length: "sds_space s \<Longrightarrow> length (content s) = sdslen s"
  using sds_space_dest(3) [of s] by (simp add: content_def)

lemma fmt_room_ok:
  assumes "fmt_ok s i t" and "length t + l < 2 ^ 30" and A: "\<And>n. al_ok A n"
  shows "\<exists>s'. fmt_room A s l = Inr s' \<and> fmt_ok s' i t \<and> l \<le> sdsavail s'"
proof -
  have s: "sds_space s" "sdslen s + l < 2 ^ 30"
    using assms(1,2) sds_space_length by (auto simp: fmt_ok_def)
  from sdsMakeRoomFor_space [OF s, of A] A obtain s' where
    s': "sdsMakeRoomFor A s l = Inr (Some s')" "sds_space s'" "sd_len s' = sd_len s"
      "take (sdslen s + 1) (sd_buf s') = take (sdslen s + 1) (sd_buf s)" "l \<le> sdsavail s'" by blast
  have "content s' = content s"
    using arg_cong [OF s'(4), of "take (sdslen s)"] s'(3) by (simp add: content_def sdslen_def min_def)
  with s' assms(1) show ?thesis by (auto simp: fmt_room_def fmt_ok_def sdslen_def)
qed

lemma fmt_put_ok:
  assumes "fmt_ok s i t" and "length u \<le> sdsavail s"
  shows "\<exists>s' i'. fmt_put s i u = Inr (s', i') \<and> fmt_ok s' i' (t @ u)"
proof -
  have sp: "sds_space s" and i: "i = int (sdslen s)" and t: "content s = t" using assms(1) by (simp_all add: fmt_ok_def)
  note d = sds_space_dest [OF sp]
  let ?buf = "take (sdslen s) (sd_buf s) @ u @ drop (sdslen s + length u) (sd_buf s)"
  let ?s = "s\<lparr>sd_buf := ?buf, sd_len := sd_len s + int (length u), sd_free := sd_free s - int (length u)\<rparr>"
  have "fmt_put s i u = Inr (?s, i + int (length u))"
    using poke_ok [of "sdslen s" u "sd_buf s"] d(3) assms(2) i by (simp add: fmt_put_def)
  moreover have "sds_space ?s \<and> sdslen ?s = sdslen s + length u \<and> sdsavail ?s = sdsavail s - length u"
    using d assms(2) by (intro sds_spaceI) simp_all
  ultimately show ?thesis
    using i t d(3) sds_space_length [OF sp] by (auto simp: fmt_ok_def content_def)
qed

lemma fmt_emit_ok:
  assumes "fmt_ok s i t" and "length t + length u < 2 ^ 30" and A: "\<And>n. al_ok A n"
  shows "\<exists>s' i'. fmt_emit A s i u = Inr (s', i') \<and> fmt_ok s' i' (t @ u)"
proof (cases "sd_free s < int (length u)")
  case True
  from fmt_room_ok [OF assms(1,2), of A] A obtain s' where
    s': "fmt_room A s (length u) = Inr s'" "fmt_ok s' i t" "length u \<le> sdsavail s'" by blast
  from fmt_put_ok [OF s'(2,3)] s'(1) True show ?thesis by (simp add: fmt_emit_def)
next
  case False
  then have "length u \<le> sdsavail s" by (simp add: sdsavail_def)
  from fmt_put_ok [OF assms(1) this] False show ?thesis by (simp add: fmt_emit_def)
qed

lemma fmt_first_room:
  assumes "fmt_ok s i t" and "length t + 1 < 2 ^ 30" and A: "\<And>n. al_ok A n"
  shows "\<exists>s1. (if sd_free s = 0 then fmt_room A s 1 else Inr s) = Inr s1 \<and> fmt_ok s1 i t \<and> 1 \<le> sdsavail s1"
proof (cases "sd_free s = 0")
  case True
  with fmt_room_ok [OF assms(1,2), of A] A show ?thesis by auto
next
  case False
  moreover have "0 \<le> sd_free s" using assms(1) by (simp add: fmt_ok_def sds_space_def)
  ultimately show ?thesis using assms(1) by (auto simp: sdsavail_def)
qed

lemma sdscatfmt_loop_ok:
  assumes A: "\<And>n. al_ok A n" and "fmt_ok s i t" and "expand fmt as = Some u" and "length t + length u + length fmt < 2 ^ 30"
  shows "\<exists>s' i'. sdscatfmt_loop A fmt as s i = Inr (s', i') \<and> fmt_ok s' i' (t @ u)"
  using assms(2-4)
proof (induction fmt as arbitrary: s i t u rule: expand.induct)
  case (1 as)
  then show ?case by simp
next
  case (2 c as)
  then obtain s1 where s1: "(if sd_free s = 0 then fmt_room A s 1 else Inr s) = Inr s1" "fmt_ok s1 i t" "1 \<le> sdsavail s1"
    using fmt_first_room [OF "2.prems"(1) _ A] by auto
  from fmt_put_ok [OF s1(2), of "[c]"] s1 "2.prems" show ?case by (simp split: if_splits)
next
  case (3 c nx f as)
  then obtain s1 where s1: "(if sd_free s = 0 then fmt_room A s 1 else Inr s) = Inr s1" "fmt_ok s1 i t" "1 \<le> sdsavail s1"
    using fmt_first_room [OF "3.prems"(1) _ A] by auto
  consider (conv) "c = CHR ''%''" "nx \<in> set ''sSiIuUT''" | (pct) "c = CHR ''%''" "nx \<notin> set ''sSiIuUT''" | (plain) "c \<noteq> CHR ''%''"
    by blast
  then show ?case
  proof cases
    case conv
    with "3.prems"(2) obtain w as' u' where w: "fmt_conv nx as = Some (w, as')" "expand f as' = Some u'" "u = w @ u'"
      by (auto simp del: set_simps split: option.splits)
    from fmt_emit_ok [OF s1(2), of w A] A "3.prems"(3) w(3) obtain s2 i2 where
      s2: "fmt_emit A s1 i w = Inr (s2, i2)" "fmt_ok s2 i2 (t @ w)" by auto
    from "3.IH"(1) [OF conv w(1) refl s2(2) w(2)] "3.prems"(3) w(3) conv s1(1) s2(1) w(1) show ?thesis
      by (simp del: set_simps)
  next
    case pct
    with "3.prems"(2) obtain u' where u': "expand f as = Some u'" "u = nx # u'" by (auto simp del: set_simps)
    from fmt_put_ok [OF s1(2), of "[nx]"] s1(3) obtain s2 i2 where
      s2: "fmt_put s1 i [nx] = Inr (s2, i2)" "fmt_ok s2 i2 (t @ [nx])" by auto
    from "3.IH"(2) [OF pct s2(2) u'(1)] "3.prems"(3) u'(2) pct s1(1) s2(1) show ?thesis by (simp del: set_simps)
  next
    case plain
    with "3.prems"(2) obtain u' where u': "expand (nx # f) as = Some u'" "u = c # u'" by auto
    from fmt_put_ok [OF s1(2), of "[c]"] s1(3) obtain s2 i2 where
      s2: "fmt_put s1 i [c] = Inr (s2, i2)" "fmt_ok s2 i2 (t @ [c])" by auto
    from "3.IH"(3) [OF plain s2(2) u'(1)] "3.prems"(3) u'(2) plain s1(1) s2(1) show ?thesis by simp
  qed
qed

lemma sdscatfmt_ok:
  assumes A: "\<And>n. al_ok A n" and "sds_ok s" and "expand fmt as = Some u" and "sdslen s + length u + length fmt < 2 ^ 30"
  shows "\<exists>s'. sdscatfmt A s fmt as = Inr s' \<and> sds_ok s' \<and> content s' = content s @ u"
proof -
  have "fmt_ok s (int (sdslen s)) (content s)" using assms(2) by (simp add: fmt_ok_def sds_ok_def)
  from sdscatfmt_loop_ok [OF A this assms(3)] assms(4) length_content [OF assms(2)] obtain s1 i1 where
    s1: "sdscatfmt_loop A fmt as s (int (sdslen s)) = Inr (s1, i1)" "fmt_ok s1 i1 (content s @ u)" by auto
  have sp: "sds_space s1" and i: "i1 = int (sdslen s1)" and t: "content s1 = content s @ u" using s1(2) by (simp_all add: fmt_ok_def)
  note d = sds_space_dest [OF sp]
  let ?s = "s1\<lparr>sd_buf := take (sdslen s1) (sd_buf s1) @ [NUL] @ drop (sdslen s1 + 1) (sd_buf s1)\<rparr>"
  have "sdscatfmt A s fmt as = Inr ?s"
    using s1(1) poke_ok [of "sdslen s1" "[NUL]" "sd_buf s1"] d(3) i by (simp add: sdscatfmt_def)
  moreover have ok: "sds_ok ?s \<and> sdslen ?s = sdslen s1 \<and> sdsavail ?s = sdsavail s1"
    using d by (intro sds_okI) (simp_all add: nth_append)
  moreover have "content ?s = content s1" unfolding content_def using ok d(3) by simp
  ultimately show ?thesis using t by auto
qed

subsection \<open>Substrings\<close>

lemma keep_range_ok:
  assumes "sds_ok s" and "i + n \<le> sdslen s"
  shows "\<exists>s'. keep_range s i n = Inr s' \<and> sds_ok s' \<and> content s' = take n (drop i (content s))"
proof -
  note d = sds_ok_dest [OF assms(1)]
  define b where "b = (if i = 0 then sd_buf s else take n (drop i (sd_buf s)) @ drop n (sd_buf s))"
  have b: "length b = length (sd_buf s)" "take n b = take n (drop i (sd_buf s))"
    using assms(2) d(3) by (auto simp: b_def)
  have "(if i = 0 then Inr (sd_buf s) else rbind (peek (drop i (sd_buf s)) n) (poke (sd_buf s) 0)) = Inr b"
    using assms(2) d(3) poke_ok [of 0 "take n (drop i (sd_buf s))" "sd_buf s"] by (auto simp: b_def peek_def)
  moreover have "poke b (int n) [NUL] = Inr (take n b @ [NUL] @ drop (n + 1) b)"
    using b(1) assms(2) d(3) by (subst poke_ok) simp_all
  moreover have "to_int n = int n" using assms(2) d(4) by (simp add: to_int_small)
  ultimately have "keep_range s i n =
      Inr \<lparr>sd_len = int n, sd_free = sd_free s + (sd_len s - int n), sd_buf = take n b @ [NUL] @ drop (n + 1) b\<rparr>"
    by (simp add: keep_range_def)
  moreover have "sds_ok \<lparr>sd_len = int n, sd_free = sd_free s + (sd_len s - int n), sd_buf = take n b @ [NUL] @ drop (n + 1) b\<rparr> \<and>
      sdslen \<lparr>sd_len = int n, sd_free = sd_free s + (sd_len s - int n), sd_buf = take n b @ [NUL] @ drop (n + 1) b\<rparr> = n \<and>
      sdsavail \<lparr>sd_len = int n, sd_free = sd_free s + (sd_len s - int n), sd_buf = take n b @ [NUL] @ drop (n + 1) b\<rparr> =
        sdsavail s + (sdslen s - n)"
    using assms(2) d b(1) by (intro sds_okI) (simp_all add: nth_append)
  moreover have "take n (take n b @ [NUL] @ drop (n + 1) b) = take n (drop i (content s))"
  proof -
    have "take n (take n b @ [NUL] @ drop (n + 1) b) = take n b" using assms(2) d(3) b(1) by simp
    also have "\<dots> = take n (drop i (sd_buf s))" by (rule b(2))
    also have "\<dots> = take n (drop i (content s))" using assms(2) by (simp add: content_def drop_take)
    finally show ?thesis .
  qed
  ultimately show ?thesis by (auto simp: content_def)
qed

lemma skip_right_takeWhile: "skip_right cset t i = i + length (takeWhile (strchr cset) (drop i t))"
proof (induction cset t i rule: skip_right.induct)
  case (1 cset t i)
  show ?case
  proof (cases "i < length t")
    case True
    with 1 show ?thesis by (subst skip_right.simps) (simp flip: Cons_nth_drop_Suc)
  next
    case False
    then show ?thesis by (subst skip_right.simps) simp
  qed
qed

lemma skip_left_rev:
  "j < length t \<Longrightarrow> skip_left cset t j = j - length (takeWhile (strchr cset) (rev (take (Suc j) t)))"
proof (induction j)
  case (Suc j)
  then show ?case by (simp add: take_Suc_conv_app_nth [of "Suc j"])
qed simp

text \<open>Trimming as the description has it, with NUL counted among the characters to remove.\<close>

definition trimmed :: "string \<Rightarrow> string \<Rightarrow> string" where
  "trimmed cset t = rev (dropWhile (strchr cset) (rev (dropWhile (strchr cset) t)))"

lemma sdstrim_ok:
  assumes "sds_ok s"
  shows "\<exists>s'. sdstrim s cset = Inr s' \<and> sds_ok s' \<and> content s' = trimmed cset (content s)"
proof -
  let ?t = "content s" and ?P = "strchr cset"
  define a where "a = length (takeWhile ?P ?t)"
  define b where "b = length (takeWhile ?P (rev ?t))"
  have sp: "skip_right cset ?t 0 = a" by (simp add: skip_right_takeWhile a_def)
  have ep: "?t \<noteq> [] \<Longrightarrow> skip_left cset ?t (length ?t - 1) = length ?t - 1 - b"
    by (subst skip_left_rev) (simp_all add: b_def)
  have le: "a \<le> length ?t" "b \<le> length ?t"
    using length_takeWhile_le [of ?P ?t] length_takeWhile_le [of ?P "rev ?t"] by (simp_all add: a_def b_def)
  show ?thesis
  proof (cases "a = length ?t")
    case True
    then have all: "\<forall>c \<in> set ?t. ?P c" by (metis a_def set_takeWhileD takeWhile_eq_take take_all order_refl)
    then have e: "trimmed cset ?t = []" by (simp add: trimmed_def dropWhile_eq_Nil_conv [THEN iffD2])
    have "sdstrim s cset = keep_range s a 0"
      using True sp ep le(2) by (auto simp: sdstrim_def Let_def)
    with keep_range_ok [OF assms, of a 0] True e length_content [OF assms] show ?thesis by simp
  next
    case False
    then have lt: "a < length ?t" using le by simp
    then have stop: "\<not> ?P (?t ! a)" unfolding a_def by (rule nth_length_takeWhile)
    have ab: "a + b < length ?t"
    proof (rule ccontr)
      assume "\<not> a + b < length ?t"
      then have "length ?t - 1 - a < b" using lt by simp
      then have "rev ?t ! (length ?t - 1 - a) = takeWhile ?P (rev ?t) ! (length ?t - 1 - a)" unfolding b_def by (simp add: takeWhile_nth)
      moreover have "?P (takeWhile ?P (rev ?t) ! (length ?t - 1 - a))"
        using \<open>length ?t - 1 - a < b\<close> unfolding b_def by (meson nth_mem set_takeWhileD)
      ultimately show False using stop lt by (simp add: rev_nth)
    qed
    have n: "(if int (length ?t - 1 - b) < int a then 0 else nat (int (length ?t - 1 - b) - int a) + 1) = length ?t - a - b"
      using ab by simp
    have ne: "?t \<noteq> []" using lt by auto
    have "sdstrim s cset = keep_range s a (length ?t - a - b)"
      unfolding sdstrim_def Let_def sp ep [OF ne] n [symmetric] using ne by simp
    moreover have "take (length ?t - a - b) (drop a ?t) = trimmed cset ?t"
    proof -
      have "dropWhile ?P ?t = drop a ?t" by (simp add: a_def dropWhile_eq_drop)
      moreover have "takeWhile ?P (rev (drop a ?t)) = takeWhile ?P (rev ?t)"
      proof -
        have "rev ?t = rev (drop a ?t) @ rev (take a ?t)" by (metis append_take_drop_id rev_append)
        moreover have "\<exists>c \<in> set (rev (drop a ?t)). \<not> ?P c" using stop lt
          by (metis Cons_nth_drop_Suc list.set_intros(1) set_rev)
        ultimately show ?thesis by (metis takeWhile_append1)
      qed
      then have "dropWhile ?P (rev (drop a ?t)) = drop b (rev (drop a ?t))" by (simp only: dropWhile_eq_drop b_def)
      ultimately show ?thesis unfolding trimmed_def using rev_drop [of b "rev (drop a ?t)"] by simp
    qed
    ultimately show ?thesis
      using keep_range_ok [OF assms, of a "length ?t - a - b"] ab length_content [OF assms] by simp
  qed
qed

lemma sdsrange_ok:
  assumes "sds_ok s"
  shows "\<exists>s'. sdsrange s start end0 = Inr s' \<and> sds_ok s' \<and>
    content s' = (let len = int (sdslen s);
                      i = (if start < 0 then max 0 (len + start) else start);
                      j = min (len - 1) (if end0 < 0 then max 0 (len + end0) else end0) in
                  take (nat (j - i + 1)) (drop (nat i) (content s)))"
proof -
  let ?len = "int (sdslen s)"
  define i where "i = (if start < 0 then max 0 (?len + start) else start)"
  define j where "j = (if end0 < 0 then max 0 (?len + end0) else end0)"
  have pos: "0 \<le> i" "0 \<le> j" by (simp_all add: i_def j_def)
  show ?thesis
  proof (cases "sdslen s = 0")
    case True
    with assms length_content [OF assms] show ?thesis by (simp add: sdsrange_def)
  next
    case False
    define n where "n = nat (min (?len - 1) j - i + 1)"
    have "sdsrange s start end0 = keep_range s (if n = 0 then 0 else nat i) n"
    proof (cases "i \<le> min (?len - 1) j")
      case True
      then have "n = nat (min (?len - 1) j - i + 1)" "n \<noteq> 0" by (auto simp: n_def min_def)
      with True False pos show ?thesis
        unfolding sdsrange_def Let_def i_def [symmetric] j_def [symmetric]
        by (auto simp: min_def intro!: arg_cong [of _ _ "keep_range s (nat i)"])
    next
      case no: False
      then have "n = 0" by (auto simp: n_def min_def)
      with no False pos show ?thesis
        unfolding sdsrange_def Let_def i_def [symmetric] j_def [symmetric] by (auto simp: min_def split: if_splits)
    qed
    moreover have "(if n = 0 then 0 else nat i) + n \<le> sdslen s" using pos by (auto simp: n_def)
    moreover have "take n (drop (if n = 0 then 0 else nat i) (content s)) = take n (drop (nat i) (content s))" by simp
    ultimately show ?thesis
      unfolding Let_def i_def [symmetric] j_def [symmetric] n_def [symmetric]
      using keep_range_ok [OF assms, of "if n = 0 then 0 else nat i" n] by metis
  qed
qed



subsection \<open>Splitting and joining\<close>

lemma concat_step:
  "start \<le> j \<Longrightarrow> j + length sep \<le> length s \<Longrightarrow> take (length sep) (drop j s) = sep \<Longrightarrow> j + length sep \<le> start' \<Longrightarrow>
   (take (j - start) (drop start s) @ sep) @ take (start' - (j + length sep)) (drop (j + length sep) s) =
   take (start' - start) (drop start s)"
proof -
  assume a: "start \<le> j" "j + length sep \<le> length s" "take (length sep) (drop j s) = sep" "j + length sep \<le> start'"
  have "take (start' - start) (drop start s) =
      take (j - start) (drop start s) @ take (start' - j) (drop j s)"
    using a(1,4) take_add [of "j - start" "start' - j" "drop start s"] by simp
  also have "take (start' - j) (drop j s) = take (length sep) (drop j s) @ take (start' - (j + length sep)) (drop (j + length sep) s)"
    using a(4) take_add [of "length sep" "start' - (j + length sep)" "drop j s"] by (simp add: add.commute)
  finally show ?thesis using a(3) by simp
qed

lemma split_loop_ok:
  "\<forall>k. al_ok A k \<Longrightarrow> length s < 2 ^ 30 \<Longrightarrow> sep \<noteq> [] \<Longrightarrow> start \<le> j \<Longrightarrow> start \<le> length s \<Longrightarrow> length tokens < slots \<Longrightarrow>
    \<exists>start' toks slots'. split_loop A s sep j start tokens slots = Inr (Some (start', tokens @ toks, slots')) \<and>
      length (tokens @ toks) < slots' \<and> (\<forall>t \<in> set toks. sds_ok t) \<and> start \<le> start' \<and> start' \<le> length s \<and>
      concat (map (\<lambda>t. content t @ sep) toks) = take (start' - start) (drop start s)"
proof (induction A s sep j start tokens slots rule: split_loop.induct)
  case (1 A s sep j start tokens slots)
  define slots' where "slots' = (if slots < length tokens + 2 then slots * 2 else slots)"
  have room: "length tokens + 1 < slots'" using "1.prems"(6) by (simp add: slots'_def)
  consider (stop) "\<not> j + length sep \<le> length s"
    | (hit) "j + length sep \<le> length s" "take (length sep) (drop j s) = sep"
    | (miss) "j + length sep \<le> length s" "take (length sep) (drop j s) \<noteq> sep" by blast
  then show ?case
  proof cases
    case stop
    then have "split_loop A s sep j start tokens slots = Inr (Some (start, tokens, slots))"
      by (subst split_loop.simps) simp
    with "1.prems" show ?thesis by (intro exI [of _ start] exI [of _ "[]"] exI [of _ slots]) simp
  next
    case hit
    have "yields (sdsnewlen A (Some (drop start s)) (j - start)) (take (j - start) (drop start s))"
      using "1.prems"(1,2,4) hit(1) by (intro sdsnewlen_ok) simp_all
    then obtain t where t: "sdsnewlen A (Some (drop start s)) (j - start) = Inr (Some t)" "sds_ok t"
      "content t = take (j - start) (drop start s)" by (auto simp: yields_def)
    have loop: "split_loop A s sep j start tokens slots = split_loop A s sep (j + length sep) (j + length sep) (tokens @ [t]) slots'"
      using hit "1.prems"(1,3) t(1) room by (subst split_loop.simps) (simp add: slots'_def Let_def)
    have "\<exists>start' toks slots''. split_loop A s sep (j + length sep) (j + length sep) (tokens @ [t]) slots' = Inr (Some (start', (tokens @ [t]) @ toks, slots'')) \<and>
      length ((tokens @ [t]) @ toks) < slots'' \<and> (\<forall>t \<in> set toks. sds_ok t) \<and> j + length sep \<le> start' \<and> start' \<le> length s \<and>
      concat (map (\<lambda>t. content t @ sep) toks) = take (start' - (j + length sep)) (drop (j + length sep) s)"
      by (rule "1.IH"(1)) (use hit "1.prems" t(1) room in \<open>simp_all add: slots'_def\<close>)
    then obtain start' toks slots'' where
      r: "split_loop A s sep (j + length sep) (j + length sep) (tokens @ [t]) slots' = Inr (Some (start', (tokens @ [t]) @ toks, slots''))"
      "length ((tokens @ [t]) @ toks) < slots''" "\<forall>t \<in> set toks. sds_ok t" "j + length sep \<le> start'" "start' \<le> length s"
      "concat (map (\<lambda>t. content t @ sep) toks) = take (start' - (j + length sep)) (drop (j + length sep) s)" by blast
    have "concat (map (\<lambda>t. content t @ sep) (t # toks)) = take (start' - start) (drop start s)"
      using r(6) t(3) concat_step [OF "1.prems"(4) hit r(4)] by simp
    with r t(2) loop "1.prems"(4) show ?thesis
      by (intro exI [of _ start'] exI [of _ "t # toks"] exI [of _ slots'']) simp
  next
    case miss
    have "split_loop A s sep j start tokens slots = split_loop A s sep (Suc j) start tokens slots'"
      using miss "1.prems"(1,3) by (subst split_loop.simps) (simp add: slots'_def Let_def)
    moreover have "\<exists>start' toks slots''. split_loop A s sep (Suc j) start tokens slots' = Inr (Some (start', tokens @ toks, slots'')) \<and>
      length (tokens @ toks) < slots'' \<and> (\<forall>t \<in> set toks. sds_ok t) \<and> start \<le> start' \<and> start' \<le> length s \<and>
      concat (map (\<lambda>t. content t @ sep) toks) = take (start' - start) (drop start s)"
      by (rule "1.IH"(2)) (use miss "1.prems" room in \<open>simp_all add: slots'_def\<close>)
    ultimately show ?thesis by simp
  qed
qed

lemma sdssplitlen_ok:
  assumes "\<forall>k. al_ok A k" and "length s < 2 ^ 30" and "sep \<noteq> []" and "s \<noteq> []"
  shows "\<exists>toks t. sdssplitlen A s sep = Inr (Some (toks @ [t])) \<and> (\<forall>t \<in> set (toks @ [t]). sds_ok t) \<and>
    s = concat (map (\<lambda>t. content t @ sep) toks) @ content t"
proof -
  from split_loop_ok [OF assms(1-3), of 0 0 "[]" 5] obtain start toks slots where
    r: "split_loop A s sep 0 0 [] 5 = Inr (Some (start, toks, slots))" "length toks < slots" "\<forall>t \<in> set toks. sds_ok t"
      "start \<le> length s" "concat (map (\<lambda>t. content t @ sep) toks) = take start s" by auto
  have "yields (sdsnewlen A (Some (drop start s)) (length s - start)) (take (length s - start) (drop start s))"
    using assms(1,2) by (intro sdsnewlen_ok) simp_all
  then obtain t where "sdsnewlen A (Some (drop start s)) (length s - start) = Inr (Some t)" "sds_ok t" "content t = drop start s"
    by (auto simp: yields_def)
  with r assms show ?thesis by (intro exI [of _ toks] exI [of _ t]) (auto simp: sdssplitlen_def)
qed

fun joined :: "string \<Rightarrow> string list \<Rightarrow> string" where
  "joined sep [] = []"
| "joined sep [x] = x"
| "joined sep (x # y # xs) = x @ sep @ joined sep (y # xs)"

lemma joined_snoc: "joined sep (xs @ [y]) = concat (map (\<lambda>x. x @ sep) xs) @ y"
proof (induction xs)
  case (Cons x xs)
  then show ?case by (cases xs) simp_all
qed simp

lemma and_then_yields: "yields m t \<Longrightarrow> (\<And>s. sds_ok s \<Longrightarrow> content s = t \<Longrightarrow> yields (f s) u) \<Longrightarrow> yields (and_then m f) u"
  by (auto simp: yields_def and_then_def)

lemma join_loop_ok:
  assumes A: "\<And>k. al_ok A k"
    and cat: "\<And>s x. sds_ok s \<Longrightarrow> x \<in> set xs \<Longrightarrow> sdslen s + length (txt x) < 2 ^ 30 \<Longrightarrow> yields (cat s x) (content s @ txt x)"
    and "sds_ok s" and "sdslen s + length (joined sep (map txt xs)) < 2 ^ 30"
  shows "yields (join_loop A cat xs sep s) (content s @ joined sep (map txt xs))"
  using cat assms(3,4)
proof (induction xs arbitrary: s rule: induct_list012)
  case 1
  then show ?case by (simp add: yields_def)
next
  case (2 x)
  then show ?case by simp
next
  case (3 x y xs)
  have step: "yields (cat s x) (content s @ txt x)" using "3.prems" by simp
  show ?case unfolding join_loop.simps
  proof (rule and_then_yields [OF step], rule and_then_yields)
    fix s1
    assume s1: "sds_ok s1" "content s1 = content s @ txt x"
    then have l1: "sdslen s1 = sdslen s + length (txt x)"
      using length_content "3.prems"(2) by (metis length_append)
    then show "yields (sdscatlen A s1 sep (length sep)) (content s1 @ take (length sep) sep)"
      using s1(1) "3.prems"(3) A by (intro sdscatlen_ok) simp_all
    fix s2
    assume s2: "sds_ok s2" "content s2 = content s1 @ take (length sep) sep"
    then have l2: "sdslen s2 = sdslen s1 + length sep"
      using length_content [OF s2(1)] length_content [OF s1(1)] by simp
    have "yields (join_loop A cat (y # xs) sep s2) (content s2 @ joined sep (map txt (y # xs)))"
      using "3.prems" s2(1) l1 l2 by (intro "3.IH"(2)) simp_all
    then show "yields (join_loop A cat (y # xs) sep s2) (content s @ joined sep (map txt (x # y # xs)))"
      using s1(2) s2(2) by simp
  qed
qed

lemma sdsjoinsds_ok:
  assumes "\<And>k. al_ok A k" and "\<forall>t \<in> set ts. sds_ok t" and "length (joined sep (map content ts)) < 2 ^ 30"
  shows "yields (sdsjoinsds A ts sep) (joined sep (map content ts))"
  unfolding sdsjoinsds_def
proof (rule and_then_yields [OF sdsempty_ok])
  fix s
  assume s: "sds_ok s" "content s = []"
  then have "sdslen s = 0" using length_content [of s] by simp
  with s assms show "yields (join_loop A (sdscatsds A) ts sep s) (joined sep (map content ts))"
    using join_loop_ok [of A ts content "sdscatsds A" s sep] sdscatsds_ok length_content by auto
qed (use assms in simp)

lemma sdsjoin_ok:
  assumes "\<And>k. al_ok A k" and "length (joined sep (map c_str ts)) < 2 ^ 30"
  shows "yields (sdsjoin A ts sep) (joined sep (map c_str ts))"
  unfolding sdsjoin_def
proof (rule and_then_yields [OF sdsempty_ok])
  fix s
  assume s: "sds_ok s" "content s = []"
  then have "sdslen s = 0" using length_content [of s] by simp
  with s assms show "yields (join_loop A (sdscat A) ts sep s) (joined sep (map c_str ts))"
    using join_loop_ok [of A ts c_str "sdscat A" s sep] sdscat_ok by auto
qed (use assms in simp)



end
