(* ===== verification/Sds_Args.thy ===== *)
theory Sds_Args
  imports Sds_Laws
begin

text \<open>
  The quoting functions of \<^verbatim>\<open>redis/hiredis/sds.c\<close>: \<^verbatim>\<open>sdscatrepr\<close> writes a string as a quoted literal
  and \<^verbatim>\<open>sdssplitargs\<close> splits a line into its arguments, quoted ones included; the latter reads back
  what the former writes. Lines are C strings, so they hold no NUL.
\<close>

subsection \<open>\<^verbatim>\<open>sdscatrepr\<close>\<close>

definition isprint :: "char \<Rightarrow> bool" where
  "isprint c = (let n = (of_char c :: nat) in 32 \<le> n \<and> n \<le> 126)"

definition hex_char :: "nat \<Rightarrow> char" where
  "hex_char n = (if n < 10 then char_of (48 + n) else char_of (87 + n))"

text \<open>\<^verbatim>\<open>%02x\<close> of a byte.\<close>

definition hex2 :: "char \<Rightarrow> string" where
  "hex2 c = [hex_char (of_char c div 16), hex_char (of_char c mod 16)]"

definition repr_step :: "allocator \<Rightarrow> char \<Rightarrow> sds \<Rightarrow> sds option result" where
  "repr_step A c s =
     (if c = CHR 0x5C \<or> c = CHR 0x22 then sdscatprintf A s [CHR 0x5C, c]
      else if c = CHR 0x0A then sdscatlen A s (CHR 0x5C # ''n'') 2
      else if c = CHR 0x0D then sdscatlen A s (CHR 0x5C # ''r'') 2
      else if c = CHR 0x09 then sdscatlen A s (CHR 0x5C # ''t'') 2
      else if c = CHR 0x07 then sdscatlen A s (CHR 0x5C # ''a'') 2
      else if c = CHR 0x08 then sdscatlen A s (CHR 0x5C # ''b'') 2
      else if isprint c then sdscatprintf A s [c]
      else sdscatprintf A s (CHR 0x5C # ''x'' @ hex2 c))"

fun repr_loop :: "allocator \<Rightarrow> string \<Rightarrow> sds \<Rightarrow> sds option result" where
  "repr_loop A [] s = sdscatlen A s [CHR 0x22] 1"
| "repr_loop A (c # p) s = and_then (repr_step A c s) (repr_loop A p)"

definition sdscatrepr :: "allocator \<Rightarrow> sds \<Rightarrow> string \<Rightarrow> sds option result" where
  "sdscatrepr A s p = and_then (sdscatlen A s [CHR 0x22] 1) (repr_loop A p)"

subsection \<open>\<^verbatim>\<open>sdssplitargs\<close>\<close>

definition is_hex_digit :: "char \<Rightarrow> bool" where
  "is_hex_digit c = (let n = (of_char c :: nat) in (48 \<le> n \<and> n \<le> 57) \<or> (97 \<le> n \<and> n \<le> 102) \<or> (65 \<le> n \<and> n \<le> 70))"

definition hex_digit_to_int :: "char \<Rightarrow> nat" where
  "hex_digit_to_int c = (let n = (of_char c :: nat) in
     if 48 \<le> n \<and> n \<le> 57 then n - 48
     else if 97 \<le> n \<and> n \<le> 102 then n - 87
     else if 65 \<le> n \<and> n \<le> 70 then n - 55
     else 0)"

definition unescape :: "char \<Rightarrow> char" where
  "unescape c =
     (if c = CHR ''n'' then CHR 0x0A else if c = CHR ''r'' then CHR 0x0D else if c = CHR ''t'' then CHR 0x09
      else if c = CHR ''b'' then CHR 0x08 else if c = CHR ''a'' then CHR 0x07 else c)"

datatype quote = Plain | InQ | InSQ

text \<open>The token starting at \<open>p\<close>: the token and the rest of the line, or \<open>None\<close> for unbalanced quotes and
  for a closing quote followed by something other than a space. An append that fails leaves a
  null pointer, which the next one dereferences.\<close>

definition cat1 :: "allocator \<Rightarrow> sds \<Rightarrow> char \<Rightarrow> (sds \<Rightarrow> 'a result) \<Rightarrow> 'a result" where
  "cat1 A s c k = rbind (sdscatlen A s [c] 1) (\<lambda>r. case r of None \<Rightarrow> Inl InvalidAccess | Some s' \<Rightarrow> k s')"

lemma cat1_cong [fundef_cong]:
  "A = A' \<Longrightarrow> s = s' \<Longrightarrow> c = c' \<Longrightarrow> (\<And>x. k x = k' x) \<Longrightarrow> cat1 A s c k = cat1 A' s' c' k'"
  by presburger

function get_token :: "allocator \<Rightarrow> quote \<Rightarrow> string \<Rightarrow> sds \<Rightarrow> (sds \<times> string) option result" where
  "get_token A InQ [] s = Inr None"
| "get_token A InQ (c # p) s =
     (if c = CHR 0x5C \<and> 3 \<le> length p \<and> p ! 0 = CHR ''x'' \<and> is_hex_digit (p ! 1) \<and> is_hex_digit (p ! 2) then
        cat1 A s (char_of (hex_digit_to_int (p ! 1) * 16 + hex_digit_to_int (p ! 2))) (get_token A InQ (drop 3 p))
      else if c = CHR 0x5C \<and> p \<noteq> [] then cat1 A s (unescape (hd p)) (get_token A InQ (tl p))
      else if c = CHR 0x22 then (if p \<noteq> [] \<and> \<not> isspace (hd p) then Inr None else Inr (Some (s, p)))
      else cat1 A s c (get_token A InQ p))"
| "get_token A InSQ [] s = Inr None"
| "get_token A InSQ (c # p) s =
     (if c = CHR 0x5C \<and> p \<noteq> [] \<and> hd p = CHR 0x27 then cat1 A s (CHR 0x27) (get_token A InSQ (tl p))
      else if c = CHR 0x27 then (if p \<noteq> [] \<and> \<not> isspace (hd p) then Inr None else Inr (Some (s, p)))
      else cat1 A s c (get_token A InSQ p))"
| "get_token A Plain [] s = Inr (Some (s, []))"
| "get_token A Plain (c # p) s =
     (if c = CHR '' '' \<or> c = CHR 0x0A \<or> c = CHR 0x0D \<or> c = CHR 0x09 then Inr (Some (s, p))
      else if c = CHR 0x22 then get_token A InQ p s
      else if c = CHR 0x27 then get_token A InSQ p s
      else cat1 A s c (get_token A Plain p))"
  by pat_completeness auto
termination by (relation "measure (\<lambda>(A, q, p, s). length p)") auto

lemma cat1_Inr: "cat1 A s c k = Inr r \<longleftrightarrow> (\<exists>s'. sdscatlen A s [c] 1 = Inr (Some s') \<and> k s' = Inr r)"
  by (auto simp: cat1_def rbind_eq_Inr_iff split: option.splits)

lemma get_token_shorter:
  "get_token A q p s = Inr (Some (s', p')) \<Longrightarrow> length p' \<le> length p \<and> (p \<noteq> [] \<longrightarrow> length p' < length p)"
proof (induction A q p s rule: get_token.induct)
  case (2 A c p s)
  then show ?case by (fastforce simp: cat1_Inr split: if_splits)
next
  case (4 A c p s)
  then show ?case by (fastforce simp: cat1_Inr split: if_splits)
next
  case (6 A c p s)
  then show ?case by (fastforce simp: cat1_Inr split: if_splits)
qed (auto split: if_splits)

text \<open>The vector of tokens grows by one entry per token; a failed growth is not tested before the
  token is stored. On an empty line one entry is allocated, so that the result is not null.\<close>

function split_args :: "allocator \<Rightarrow> string \<Rightarrow> sds list \<Rightarrow> sds list option result" where
  "split_args A p vec =
     (case dropWhile isspace p of
        [] \<Rightarrow> if vec = [] \<and> \<not> al_ok A 8 then Inr None else Inr (Some vec)
      | c # q \<Rightarrow>
          (case sdsempty A of
             Inl e \<Rightarrow> Inl e
           | Inr None \<Rightarrow> Inl InvalidAccess
           | Inr (Some s) \<Rightarrow>
               (case get_token A Plain (c # q) s of
                  Inl e \<Rightarrow> Inl e
                | Inr None \<Rightarrow> Inr None
                | Inr (Some (t, p')) \<Rightarrow>
                    if al_ok A (8 * (length vec + 1)) then split_args A p' (vec @ [t]) else Inl InvalidAccess)))"
  by pat_completeness auto
termination
proof (relation "measure (\<lambda>(A, p, vec). length p)")
  fix A :: allocator and p vec c q x s y t p' z
  assume "dropWhile isspace p = c # q" and "get_token A Plain (c # q) s = Inr y" and "y = Some z" and "(t, p') = z"
  then have "length p' < length (dropWhile isspace p)" using get_token_shorter [of A Plain "c # q" s t p'] by auto
  then show "((A, p', vec @ [t]), A, p, vec) \<in> measure (\<lambda>(A, p, vec). length p)"
    using length_dropWhile_le [of isspace p] by auto
qed auto

declare split_args.simps [simp del]

definition sdssplitargs :: "allocator \<Rightarrow> string \<Rightarrow> sds list option result" where
  "sdssplitargs A line = split_args A line []"

subsection \<open>Reading back what was written\<close>

definition repr_char :: "char \<Rightarrow> string" where
  "repr_char c =
     (if c = CHR 0x5C \<or> c = CHR 0x22 then [CHR 0x5C, c]
      else if c = CHR 0x0A then CHR 0x5C # ''n''
      else if c = CHR 0x0D then CHR 0x5C # ''r''
      else if c = CHR 0x09 then CHR 0x5C # ''t''
      else if c = CHR 0x07 then CHR 0x5C # ''a''
      else if c = CHR 0x08 then CHR 0x5C # ''b''
      else if isprint c then [c]
      else CHR 0x5C # ''x'' @ hex2 c)"

definition quoted :: "string \<Rightarrow> string" where
  "quoted t = CHR 0x22 # concat (map repr_char t) @ [CHR 0x22]"

lemma vprintf_loop_ok:
  "\<forall>k. al_ok A k \<Longrightarrow> NUL \<notin> set out \<Longrightarrow> 2 \<le> buflen \<Longrightarrow> vprintf_loop A out buflen = Some out"
proof (induction A out buflen rule: vprintf_loop.induct)
  case (1 A out buflen)
  show ?case
  proof (cases "buflen - 1 \<le> length out")
    case True
    then have "out ! (buflen - 2) \<in> set out" using "1.prems"(3) by (intro nth_mem) simp
    then have "out ! (buflen - 2) \<noteq> NUL" using "1.prems"(2) by auto
    with 1 True show ?thesis by (subst vprintf_loop.simps) auto
  next
    case False
    with "1.prems" show ?thesis by (subst vprintf_loop.simps) auto
  qed
qed

lemma sdscatprintf_ok:
  assumes "\<And>k. al_ok A k" and "NUL \<notin> set out" and "sds_ok s" and "sdslen s + length out < 2 ^ 30"
  shows "yields (sdscatprintf A s out) (content s @ out)"
proof -
  have c: "c_str (out @ [NUL]) = out" using assms(2) by (simp add: c_str_def takeWhile_append)
  have "vprintf_loop A out 16 = Some out" using assms by (intro vprintf_loop_ok) simp_all
  then show ?thesis
    using sdscat_ok [of s "out @ [NUL]" A] assms c by (simp add: sdscatprintf_def sdscatvprintf_def)
qed

lemma hex_char_not_NUL: "n < 16 \<Longrightarrow> hex_char n \<noteq> NUL"
proof -
  assume "n < 16"
  then have "(of_char (hex_char n) :: nat) \<noteq> 0" by (simp add: hex_char_def)
  then show ?thesis by auto
qed

lemma of_char_div_16: "of_char c div 16 < (16 :: nat)"
proof -
  have "(of_char c :: nat) < 256" by (rule nat_of_char_less_256)
  then show ?thesis by (simp add: less_mult_imp_div_less)
qed

lemma repr_step_ok:
  assumes A: "\<And>k. al_ok A k" and "sds_ok s" and "sdslen s + length (repr_char c) < 2 ^ 30"
  shows "yields (repr_step A c s) (content s @ repr_char c)"
proof -
  have cat2: "yields (sdscatlen A s [x, y] 2) (content s @ [x, y])" if "sdslen s + 2 < 2 ^ 30" for x y
    using sdscatlen_ok [of s 2 "[x, y]" A] that A assms(2) by simp
  have hex: "NUL \<notin> set (hex2 c)"
    using hex_char_not_NUL [of "of_char c div 16"] hex_char_not_NUL [of "of_char c mod 16"] of_char_div_16 [of c]
    by (auto simp: hex2_def)
  have printf: "yields (sdscatprintf A s t) (content s @ t)" if "repr_char c = t" "NUL \<notin> set t" for t
    using sdscatprintf_ok [of A t s] that assms by simp
  consider "c = CHR 0x5C \<or> c = CHR 0x22" | "c \<in> {CHR 0x0A, CHR 0x0D, CHR 0x09, CHR 0x07, CHR 0x08}"
    | "isprint c" "c \<notin> {CHR 0x5C, CHR 0x22, CHR 0x0A, CHR 0x0D, CHR 0x09, CHR 0x07, CHR 0x08}"
    | "\<not> isprint c" "c \<notin> {CHR 0x5C, CHR 0x22, CHR 0x0A, CHR 0x0D, CHR 0x09, CHR 0x07, CHR 0x08}"
    by blast
  then show ?thesis
  proof cases
    case 1
    then have "repr_char c = [CHR 0x5C, c]" "repr_step A c s = sdscatprintf A s [CHR 0x5C, c]"
      by (simp_all add: repr_char_def repr_step_def)
    with 1 printf [of "[CHR 0x5C, c]"] show ?thesis by auto
  next
    case 2
    then have "repr_step A c s = sdscatlen A s (repr_char c) 2 \<and> (\<exists>x y. repr_char c = [x, y])"
      by (elim insertE) (simp_all add: repr_char_def repr_step_def)
    with cat2 assms(3) show ?thesis by auto
  next
    case 3
    then have "repr_char c = [c]" "repr_step A c s = sdscatprintf A s [c]"
      by (simp_all add: repr_char_def repr_step_def)
    moreover have "c \<noteq> NUL" using 3(1) by (auto simp: isprint_def)
    ultimately show ?thesis using printf [of "[c]"] by simp
  next
    case 4
    then have "repr_char c = CHR 0x5C # ''x'' @ hex2 c" "repr_step A c s = sdscatprintf A s (CHR 0x5C # ''x'' @ hex2 c)"
      by (simp_all add: repr_char_def repr_step_def)
    with hex printf [of "CHR 0x5C # ''x'' @ hex2 c"] show ?thesis by simp
  qed
qed

lemma repr_loop_ok:
  assumes A: "\<And>k. al_ok A k" and "sds_ok s" and "sdslen s + length (concat (map repr_char p)) + 1 < 2 ^ 30"
  shows "yields (repr_loop A p s) (content s @ concat (map repr_char p) @ [CHR 0x22])"
  using assms(2,3)
proof (induction p arbitrary: s)
  case Nil
  then show ?case using sdscatlen_ok [of s 1 "[CHR 0x22]" A] A by simp
next
  case (Cons c p)
  have "yields (repr_step A c s) (content s @ repr_char c)" using Cons.prems A by (intro repr_step_ok) simp_all
  then show ?case unfolding repr_loop.simps
  proof (rule and_then_yields)
    fix s1
    assume s1: "sds_ok s1" "content s1 = content s @ repr_char c"
    then have "sdslen s1 = sdslen s + length (repr_char c)" using length_content Cons.prems(1) by (metis length_append)
    with Cons.IH [OF s1(1)] Cons.prems(2) s1(2)
    show "yields (repr_loop A p s1) (content s @ concat (map repr_char (c # p)) @ [CHR 0x22])" by simp
  qed
qed

lemma sdscatrepr_ok:
  assumes A: "\<And>k. al_ok A k" and "sds_ok s" and "sdslen s + length (quoted p) < 2 ^ 30"
  shows "yields (sdscatrepr A s p) (content s @ quoted p)"
  unfolding sdscatrepr_def
proof (rule and_then_yields)
  show "yields (sdscatlen A s [CHR 0x22] 1) (content s @ take 1 [CHR 0x22])"
    using assms by (intro sdscatlen_ok) (simp_all add: quoted_def)
  fix s1
  assume s1: "sds_ok s1" "content s1 = content s @ take 1 [CHR 0x22]"
  then have "sdslen s1 = sdslen s + 1" using length_content [of s1] length_content [of s] assms(2) by simp
  with repr_loop_ok [OF A s1(1), of p] assms(3) s1(2) show "yields (repr_loop A p s1) (content s @ quoted p)"
    by (simp add: quoted_def)
qed

lemma hex_char_digit: "n < 16 \<Longrightarrow> is_hex_digit (hex_char n) \<and> hex_digit_to_int (hex_char n) = n"
  by (auto simp: hex_char_def is_hex_digit_def hex_digit_to_int_def Let_def)

lemma get_token_repr_char: "get_token A InQ (repr_char c @ p) s = cat1 A s c (get_token A InQ p)"
proof -
  have h: "is_hex_digit (hex_char (of_char c div 16))" "is_hex_digit (hex_char (of_char c mod 16))"
    "hex_digit_to_int (hex_char (of_char c div 16)) * 16 + hex_digit_to_int (hex_char (of_char c mod 16)) = of_char c"
    using hex_char_digit [of "of_char c div 16"] hex_char_digit [of "of_char c mod 16"] of_char_div_16 [of c]
    by (simp_all add: div_mult_mod_eq)
  have "isprint c \<Longrightarrow> c \<noteq> CHR 0x5C \<Longrightarrow> c \<noteq> CHR 0x22 \<Longrightarrow> get_token A InQ ([c] @ p) s = cat1 A s c (get_token A InQ p)"
    by simp
  moreover have "get_token A InQ ((CHR 0x5C # ''x'' @ hex2 c) @ p) s = cat1 A s c (get_token A InQ p)"
    using h by (simp add: hex2_def)
  ultimately show ?thesis by (auto simp: repr_char_def unescape_def)
qed

lemma get_token_quoted:
  assumes A: "\<And>k. al_ok A k" and rest: "p = [] \<or> isspace (hd p)"
  shows "sds_ok s \<Longrightarrow> sdslen s + length t < 2 ^ 29 \<Longrightarrow>
    \<exists>s'. get_token A InQ (concat (map repr_char t) @ CHR 0x22 # p) s = Inr (Some (s', p)) \<and> sds_ok s' \<and> content s' = content s @ t"
proof (induction t arbitrary: s)
  case Nil
  then show ?case using rest by auto
next
  case (Cons c t)
  have "yields (sdscatlen A s [c] 1) (content s @ take 1 [c])" using Cons.prems A by (intro sdscatlen_ok) simp_all
  then obtain s1 where s1: "sdscatlen A s [c] 1 = Inr (Some s1)" "sds_ok s1" "content s1 = content s @ [c]" by (auto simp: yields_def)
  then have "sdslen s1 = sdslen s + 1" using length_content [of s1] length_content [of s] Cons.prems(1) by simp
  with Cons.IH [OF s1(2)] Cons.prems(2) s1 show ?case by (simp add: get_token_repr_char cat1_def)
qed

lemma split_args_space: "isspace c \<Longrightarrow> split_args A (c # p) vec = split_args A p vec"
  by (simp only: split_args.simps [of A "c # p"] split_args.simps [of A p] dropWhile.simps if_True)

lemma split_args_quoted:
  assumes A: "\<And>k. al_ok A k" and "length t < 2 ^ 29" and rest: "p = [] \<or> isspace (hd p)"
  shows "\<exists>s. split_args A (quoted t @ p) vec = split_args A p (vec @ [s]) \<and> sds_ok s \<and> content s = t"
proof -
  obtain s0 where s0: "sdsempty A = Inr (Some s0)" "sds_ok s0" "content s0 = []" using sdsempty_ok [of A] A by (auto simp: yields_def)
  then have "sdslen s0 = 0" using length_content [of s0] by simp
  with get_token_quoted [OF A rest s0(2), of t] assms(2) s0(3) obtain s where
    s: "get_token A InQ (concat (map repr_char t) @ CHR 0x22 # p) s0 = Inr (Some (s, p))" "sds_ok s" "content s = t" by auto
  have "split_args A (quoted t @ p) vec = split_args A p (vec @ [s])"
    using s0(1) s(1) A by (subst split_args.simps) (simp add: quoted_def isspace_def)
  with s show ?thesis by blast
qed

lemma split_args_joined:
  assumes A: "\<And>k. al_ok A k" and "\<forall>t \<in> set ts. length t < 2 ^ 29"
  shows "\<exists>vs. split_args A (joined '' '' (map quoted ts)) vec = Inr (Some (vec @ vs)) \<and> map content vs = ts \<and> list_all sds_ok vs"
  using assms(2)
proof (induction ts arbitrary: vec rule: induct_list012)
  case 1
  show ?case using A by (subst split_args.simps) simp
next
  case (2 t)
  from split_args_quoted [OF A, of t "[]" vec] "2.prems" obtain s where
    "split_args A (quoted t) vec = split_args A [] (vec @ [s])" "sds_ok s" "content s = t" by auto
  then show ?case by (intro exI [of _ "[s]"]) (simp add: A split_args.simps [of A "[]"])
next
  case (3 t u ts)
  let ?r = "joined '' '' (map quoted (u # ts))"
  from split_args_quoted [OF A, of t "CHR '' '' # ?r" vec] "3.prems" obtain s where
    s: "split_args A (quoted t @ CHR '' '' # ?r) vec = split_args A (CHR '' '' # ?r) (vec @ [s])" "sds_ok s" "content s = t"
    by (auto simp: isspace_def)
  have blank: "split_args A (CHR '' '' # ?r) (vec @ [s]) = split_args A ?r (vec @ [s])"
    by (rule split_args_space) (simp add: isspace_def)
  from "3.IH"(2) [of "vec @ [s]"] "3.prems" obtain vs where
    "split_args A ?r (vec @ [s]) = Inr (Some (vec @ s # vs))" "map content vs = u # ts" "list_all sds_ok vs" by auto
  with s blank show ?case by (intro exI [of _ "s # vs"]) simp
qed

text \<open>
  C35. \<^verbatim>\<open>sdssplitargs\<close> reads back what \<^verbatim>\<open>sdscatrepr\<close> writes: for strings of any bytes, \<^verbatim>\<open>sdscatrepr\<close> appends a
  quoted literal, and splitting a line of such literals with blanks between them returns exactly
  the strings.
\<close>

theorem sdssplitargs_repr:
  assumes "\<And>k. al_ok A k" and "sds_ok s" and "sdslen s + length (quoted t) < 2 ^ 30"
    and "\<forall>u \<in> set ts. length u < 2 ^ 29"
  shows "yields (sdscatrepr A s t) (content s @ quoted t) \<and>
    (\<exists>vs. sdssplitargs A (joined '' '' (map quoted ts)) = Inr (Some vs) \<and> map content vs = ts \<and> list_all sds_ok vs)"
  using sdscatrepr_ok [OF assms(1-3)] split_args_joined [OF assms(1,4), of "[]"] by (simp add: sdssplitargs_def)

theorem sdssplitargs_repr_witness:
  "\<exists>vs. sdssplitargs \<lparr>al_ok = \<lambda>_. True, al_junk = NUL\<rparr> (joined '' '' (map quoted [''a b'', [CHR 0xFF, CHR 0x0A]])) = Inr (Some vs) \<and>
    map content vs = [''a b'', [CHR 0xFF, CHR 0x0A]]"
proof -
  let ?A = "\<lparr>al_ok = \<lambda>_. True, al_junk = NUL\<rparr>" and ?s = "\<lparr>sd_len = 0, sd_free = 0, sd_buf = [NUL]\<rparr>"
  have "sds_ok ?s" "sdslen ?s + length (quoted []) < 2 ^ 30" by (simp_all add: sds_ok_def sds_space_def sdslen_def quoted_def)
  from sdssplitargs_repr [of ?A, OF _ this, of "[''a b'', [CHR 0xFF, CHR 0x0A]]"] show ?thesis by auto
qed

end
