(* ===== verification/Redis_Reader.thy ===== *)
theory Redis_Reader
  imports Sds_Args
begin

text \<open>
  The reply parser of hiredis, \<^verbatim>\<open>redis/hiredis/read.c\<close> and \<^verbatim>\<open>read.h\<close>: an incremental reader that is fed
  chunks of the server's output and emits one object per reply. The objects are made by a table of
  functions that the user supplies, over a state \<open>'h\<close> of their own; object pointers are numbers, 0
  the null pointer. The task stack is a list whose head is \<^verbatim>\<open>rstack[ridx]\<close> and whose tail holds its
  parents; \<^verbatim>\<open>ridx\<close> is its length less one.
\<close>

abbreviation (input) CR :: char where "CR \<equiv> CHR 0x0D"
abbreviation (input) LF :: char where "LF \<equiv> CHR 0x0A"

abbreviation (input) REDIS_ERR_IO :: int where "REDIS_ERR_IO \<equiv> 1"
abbreviation (input) REDIS_ERR_OTHER :: int where "REDIS_ERR_OTHER \<equiv> 2"
abbreviation (input) REDIS_ERR_EOF :: int where "REDIS_ERR_EOF \<equiv> 3"
abbreviation (input) REDIS_ERR_PROTOCOL :: int where "REDIS_ERR_PROTOCOL \<equiv> 4"
abbreviation (input) REDIS_ERR_OOM :: int where "REDIS_ERR_OOM \<equiv> 5"

abbreviation (input) REDIS_REPLY_STRING :: int where "REDIS_REPLY_STRING \<equiv> 1"
abbreviation (input) REDIS_REPLY_ARRAY :: int where "REDIS_REPLY_ARRAY \<equiv> 2"
abbreviation (input) REDIS_REPLY_INTEGER :: int where "REDIS_REPLY_INTEGER \<equiv> 3"
abbreviation (input) REDIS_REPLY_NIL :: int where "REDIS_REPLY_NIL \<equiv> 4"
abbreviation (input) REDIS_REPLY_STATUS :: int where "REDIS_REPLY_STATUS \<equiv> 5"
abbreviation (input) REDIS_REPLY_ERROR :: int where "REDIS_REPLY_ERROR \<equiv> 6"

abbreviation (input) REDIS_READER_MAX_BUF :: nat where "REDIS_READER_MAX_BUF \<equiv> 16384"

record redisReadTask =
  rt_type :: int
  rt_elements :: int
  rt_idx :: int
  rt_obj :: nat
  rt_privdata :: nat

type_synonym task_stack = "redisReadTask list"

text \<open>A creation function gets the task with its parents.\<close>

record 'h redisReplyObjectFunctions =
  createString :: "(task_stack \<Rightarrow> string \<Rightarrow> nat \<Rightarrow> 'h \<Rightarrow> (nat \<times> 'h) result) option"
  createArray :: "(task_stack \<Rightarrow> int \<Rightarrow> 'h \<Rightarrow> (nat \<times> 'h) result) option"
  createInteger :: "(task_stack \<Rightarrow> int \<Rightarrow> 'h \<Rightarrow> (nat \<times> 'h) result) option"
  createNil :: "(task_stack \<Rightarrow> 'h \<Rightarrow> (nat \<times> 'h) result) option"
  freeObject :: "(nat \<Rightarrow> 'h \<Rightarrow> 'h result) option"

record redisReader =
  rd_err :: int
  rd_errstr :: string
  rd_buf :: "sds option"
  rd_pos :: nat
  rd_len :: nat
  rd_maxbuf :: nat
  rd_stack :: task_stack
  rd_reply :: nat
  rd_privdata :: nat

text \<open>A call of a creation function, or the type tag in place of the object when there is none.\<close>

definition create :: "('h \<Rightarrow> (nat \<times> 'h) result) option \<Rightarrow> int \<Rightarrow> 'h \<Rightarrow> (nat \<times> 'h) result" where
  "create f tag h = (case f of Some g \<Rightarrow> g h | None \<Rightarrow> Inr (nat tag, h))"

definition fn_of :: "'h redisReplyObjectFunctions option \<Rightarrow> ('h redisReplyObjectFunctions \<Rightarrow> 'f option) \<Rightarrow> 'f option" where
  "fn_of fn sel = (case fn of None \<Rightarrow> None | Some t \<Rightarrow> sel t)"

subsection \<open>Errors\<close>

definition redisReaderSetError ::
  "'h redisReplyObjectFunctions option \<Rightarrow> int \<Rightarrow> string \<Rightarrow> redisReader \<Rightarrow> 'h \<Rightarrow> (redisReader \<times> 'h) result" where
  "redisReaderSetError fn ty str r h =
     rbind (case fn_of fn freeObject of
              Some free \<Rightarrow> (if rd_reply r \<noteq> 0 then rbind (free (rd_reply r) h) (\<lambda>h'. Inr (0, h')) else Inr (0, h))
            | None \<Rightarrow> Inr (rd_reply r, h)) (\<lambda>(reply, h').
     Inr (r\<lparr>rd_reply := reply,
            rd_pos := (if rd_buf r = None then rd_pos r else 0),
            rd_len := (if rd_buf r = None then rd_len r else 0),
            rd_buf := None, rd_stack := [], rd_err := ty, rd_errstr := take 127 (c_str str)\<rparr>, h'))"

definition chrtos :: "char \<Rightarrow> string" where
  "chrtos c =
     (if c = CHR 0x5C \<or> c = CHR 0x22 then [CHR 0x22, CHR 0x5C, c, CHR 0x22]
      else if c = LF then [CHR 0x22, CHR 0x5C, CHR ''n'', CHR 0x22]
      else if c = CR then [CHR 0x22, CHR 0x5C, CHR ''r'', CHR 0x22]
      else if c = CHR 0x09 then [CHR 0x22, CHR 0x5C, CHR ''t'', CHR 0x22]
      else if c = CHR 0x07 then [CHR 0x22, CHR 0x5C, CHR ''a'', CHR 0x22]
      else if c = CHR 0x08 then [CHR 0x22, CHR 0x5C, CHR ''b'', CHR 0x22]
      else if isprint c then [CHR 0x22, c, CHR 0x22]
      else [CHR 0x22, CHR 0x5C, CHR ''x''] @ hex2 c @ [CHR 0x22])"

definition redisReaderSetErrorProtocolByte ::
  "'h redisReplyObjectFunctions option \<Rightarrow> char \<Rightarrow> redisReader \<Rightarrow> 'h \<Rightarrow> (redisReader \<times> 'h) result" where
  "redisReaderSetErrorProtocolByte fn byte r h =
     redisReaderSetError fn REDIS_ERR_PROTOCOL
       (take 127 (''Protocol error, got '' @ take 7 (chrtos byte) @ '' as reply type byte'')) r h"

definition redisReaderSetErrorOOM ::
  "'h redisReplyObjectFunctions option \<Rightarrow> redisReader \<Rightarrow> 'h \<Rightarrow> (redisReader \<times> 'h) result" where
  "redisReaderSetErrorOOM fn r h = redisReaderSetError fn REDIS_ERR_OOM ''Out of memory'' r h"

subsection \<open>Scanning the buffer\<close>

text \<open>The memory at \<^verbatim>\<open>r->buf + i\<close>, to the end of the allocation.\<close>

definition mem_at :: "redisReader \<Rightarrow> nat \<Rightarrow> string" where
  "mem_at r i = (case rd_buf r of None \<Rightarrow> [] | Some s \<Rightarrow> drop i (sd_buf s))"

definition byte_at :: "string \<Rightarrow> nat \<Rightarrow> char result" where
  "byte_at m i = (if i < length m then Inr (m ! i) else Inl InvalidAccess)"

definition readBytes :: "redisReader \<Rightarrow> nat \<Rightarrow> (string \<times> redisReader) option" where
  "readBytes r bytes =
     (if bytes \<le> rd_len r - rd_pos r then Some (mem_at r (rd_pos r), r\<lparr>rd_pos := rd_pos r + bytes\<rparr>) else None)"

text \<open>The two loops of \<^verbatim>\<open>seekNewline\<close>; \<open>n\<close> is the length less one.\<close>

function skip_to_cr :: "string \<Rightarrow> nat \<Rightarrow> nat \<Rightarrow> nat" where
  "skip_to_cr m n pos = (if pos < n \<and> pos < length m \<and> m ! pos \<noteq> CR then skip_to_cr m n (Suc pos) else pos)"
  by pat_completeness auto
termination by (relation "measure (\<lambda>(m, n, pos). n - pos)") auto

declare skip_to_cr.simps [simp del]

lemma skip_to_cr_ge: "pos \<le> skip_to_cr m n pos"
proof (induction m n pos rule: skip_to_cr.induct)
  case (1 m n pos)
  then show ?case by (subst skip_to_cr.simps) auto
qed

function seek_loop :: "string \<Rightarrow> nat \<Rightarrow> nat \<Rightarrow> nat option result" where
  "seek_loop m n pos =
     (if pos < n then
        (let q = skip_to_cr m n pos in
         rbind (byte_at m q) (\<lambda>c.
         if c \<noteq> CR then Inr None
         else rbind (byte_at m (Suc q)) (\<lambda>d. if d = LF then Inr (Some q) else seek_loop m n (Suc q))))
      else Inr None)"
  by pat_completeness auto
termination
proof (relation "measure (\<lambda>(m, n, pos). n - pos)")
  fix m :: string and n pos x c d
  assume "pos < n" "x = skip_to_cr m n pos"
  then show "((m, n, Suc x), m, n, pos) \<in> measure (\<lambda>(m, n, pos). n - pos)"
    using skip_to_cr_ge [of pos m n] by auto
qed auto

declare seek_loop.simps [simp del]

definition seekNewline :: "string \<Rightarrow> nat \<Rightarrow> nat option result" where
  "seekNewline m len = seek_loop m (len - 1) 0"

fun readLongLong_loop :: "string \<Rightarrow> u64 \<Rightarrow> int \<Rightarrow> int result" where
  "readLongLong_loop [] v mult = Inl InvalidAccess"
| "readLongLong_loop (c # m) v mult =
     (if c = CR then Inr (sint (word_of_int mult * v))
      else if isdigit c then readLongLong_loop m (v * 10 + word_of_nat (of_char c - 48)) mult
      else Inr (- 1))"

definition readLongLong :: "string \<Rightarrow> int result" where
  "readLongLong m =
     (case m of
        [] \<Rightarrow> Inl InvalidAccess
      | c # m' \<Rightarrow>
          if c = CHR ''-'' then readLongLong_loop m' 0 (- 1)
          else if c = CHR ''+'' then readLongLong_loop m' 0 1
          else readLongLong_loop m 0 1)"

definition readLine :: "redisReader \<Rightarrow> ((string \<times> nat) \<times> redisReader) option result" where
  "readLine r =
     rbind (seekNewline (mem_at r (rd_pos r)) (rd_len r - rd_pos r)) (\<lambda>s.
     case s of
       None \<Rightarrow> Inr None
     | Some len \<Rightarrow> Inr (Some ((mem_at r (rd_pos r), len), r\<lparr>rd_pos := rd_pos r + len + 2\<rparr>)))"

subsection \<open>Items\<close>

fun moveToNextTask :: "task_stack \<Rightarrow> task_stack result" where
  "moveToNextTask [] = Inr []"
| "moveToNextTask [t] = Inr []"
| "moveToNextTask (cur # prv # ps) =
     (if rt_type prv \<noteq> REDIS_REPLY_ARRAY then Inl AssertFailure
      else if rt_idx cur = rt_elements prv - 1 then moveToNextTask (prv # ps)
      else if \<not> rt_idx cur < rt_elements prv then Inl AssertFailure
      else Inr (cur\<lparr>rt_type := - 1, rt_elements := - 1, rt_idx := rt_idx cur + 1\<rparr> # prv # ps))"

text \<open>The steps that follow a created object: out of memory, or the root reply and the next task.\<close>

definition finish_item ::
  "'h redisReplyObjectFunctions option \<Rightarrow> nat \<Rightarrow> redisReader \<Rightarrow> 'h \<Rightarrow> (redisReader \<times> 'h \<times> bool) result" where
  "finish_item fn obj r h =
     (if obj = 0 then rbind (redisReaderSetErrorOOM fn r h) (\<lambda>(r', h'). Inr (r', h', False))
      else rbind (moveToNextTask (rd_stack r)) (\<lambda>st.
           Inr (r\<lparr>rd_reply := (if length (rd_stack r) = 1 then obj else rd_reply r), rd_stack := st\<rparr>, h, True)))"

definition processLineItem ::
  "'h redisReplyObjectFunctions option \<Rightarrow> redisReader \<Rightarrow> 'h \<Rightarrow> (redisReader \<times> 'h \<times> bool) result" where
  "processLineItem fn r h =
     rbind (readLine r) (\<lambda>line.
     case line of
       None \<Rightarrow> Inr (r, h, False)
     | Some ((p, len), r') \<Rightarrow>
         rbind (if rt_type (hd (rd_stack r)) = REDIS_REPLY_INTEGER then
                  (case fn_of fn createInteger of
                     Some f \<Rightarrow> rbind (readLongLong p) (\<lambda>v. f (rd_stack r) v h)
                   | None \<Rightarrow> Inr (nat REDIS_REPLY_INTEGER, h))
                else create (map_option (\<lambda>f. f (rd_stack r) p len) (fn_of fn createString)) (rt_type (hd (rd_stack r))) h)
           (\<lambda>(obj, h'). finish_item fn obj r' h'))"

definition processBulkItem ::
  "'h redisReplyObjectFunctions option \<Rightarrow> redisReader \<Rightarrow> 'h \<Rightarrow> (redisReader \<times> 'h \<times> bool) result" where
  "processBulkItem fn r h =
     (let p = mem_at r (rd_pos r) in
      rbind (seekNewline p (rd_len r - rd_pos r)) (\<lambda>s.
      case s of
        None \<Rightarrow> Inr (r, h, False)
      | Some q \<Rightarrow>
          rbind (readLongLong p) (\<lambda>len.
          if len < 0 then
            rbind (create (map_option (\<lambda>f. f (rd_stack r)) (fn_of fn createNil)) REDIS_REPLY_NIL h) (\<lambda>(obj, h').
            finish_item fn obj (if obj = 0 then r else r\<lparr>rd_pos := rd_pos r + (q + 2)\<rparr>) h')
          else
            (let bytelen = q + 2 + (nat len + 2) in
             if rd_pos r + bytelen \<le> rd_len r then
               rbind (create (map_option (\<lambda>f. f (rd_stack r) (drop (q + 2) p) (nat len)) (fn_of fn createString))
                        REDIS_REPLY_STRING h) (\<lambda>(obj, h').
               finish_item fn obj (if obj = 0 then r else r\<lparr>rd_pos := rd_pos r + bytelen\<rparr>) h')
             else Inr (r, h, False)))))"

definition child_task :: "redisReader \<Rightarrow> redisReadTask" where
  "child_task r = \<lparr>rt_type = - 1, rt_elements = - 1, rt_idx = 0, rt_obj = 0, rt_privdata = rd_privdata r\<rparr>"

definition processMultiBulkItem ::
  "'h redisReplyObjectFunctions option \<Rightarrow> redisReader \<Rightarrow> 'h \<Rightarrow> (redisReader \<times> 'h \<times> bool) result" where
  "processMultiBulkItem fn r h =
     (if length (rd_stack r) = 9 then
        rbind (redisReaderSetError fn REDIS_ERR_PROTOCOL ''No support for nested multi bulk replies with depth > 7'' r h)
          (\<lambda>(r', h'). Inr (r', h', False))
      else
        rbind (readLine r) (\<lambda>line.
        case line of
          None \<Rightarrow> Inr (r, h, False)
        | Some ((p, _), r') \<Rightarrow>
            rbind (readLongLong p) (\<lambda>elements.
            let root = (length (rd_stack r) = 1) in
            if elements = - 1 then
              rbind (create (map_option (\<lambda>f. f (rd_stack r)) (fn_of fn createNil)) REDIS_REPLY_NIL h) (\<lambda>(obj, h').
              finish_item fn obj r' h')
            else
              (let count = sint (word_of_int elements :: u32) in
               rbind (create (map_option (\<lambda>f. f (rd_stack r) count) (fn_of fn createArray)) REDIS_REPLY_ARRAY h) (\<lambda>(obj, h').
               if obj \<noteq> 0 \<and> 0 < elements then
                 (let cur = (hd (rd_stack r))\<lparr>rt_elements := count, rt_obj := obj\<rparr> in
                  Inr (r'\<lparr>rd_stack := child_task r # cur # tl (rd_stack r), rd_reply := (if root then obj else rd_reply r)\<rparr>, h', True))
               else finish_item fn obj r' h')))))"

definition type_of_byte :: "char \<Rightarrow> int option" where
  "type_of_byte c =
     (if c = CHR ''-'' then Some REDIS_REPLY_ERROR
      else if c = CHR ''+'' then Some REDIS_REPLY_STATUS
      else if c = CHR '':'' then Some REDIS_REPLY_INTEGER
      else if c = CHR ''$'' then Some REDIS_REPLY_STRING
      else if c = CHR ''*'' then Some REDIS_REPLY_ARRAY
      else None)"

definition processTyped ::
  "'h redisReplyObjectFunctions option \<Rightarrow> redisReader \<Rightarrow> 'h \<Rightarrow> (redisReader \<times> 'h \<times> bool) result" where
  "processTyped fn r h =
     (let ty = rt_type (hd (rd_stack r)) in
      if ty = REDIS_REPLY_ERROR \<or> ty = REDIS_REPLY_STATUS \<or> ty = REDIS_REPLY_INTEGER then processLineItem fn r h
      else if ty = REDIS_REPLY_STRING then processBulkItem fn r h
      else if ty = REDIS_REPLY_ARRAY then processMultiBulkItem fn r h
      else Inl AssertFailure)"

definition processItem ::
  "'h redisReplyObjectFunctions option \<Rightarrow> redisReader \<Rightarrow> 'h \<Rightarrow> (redisReader \<times> 'h \<times> bool) result" where
  "processItem fn r h =
     (if rt_type (hd (rd_stack r)) < 0 then
        (case readBytes r 1 of
           None \<Rightarrow> Inr (r, h, False)
         | Some (p, r') \<Rightarrow>
             rbind (byte_at p 0) (\<lambda>c.
             case type_of_byte c of
               None \<Rightarrow> rbind (redisReaderSetErrorProtocolByte fn c r' h) (\<lambda>(r'', h'). Inr (r'', h', False))
             | Some ty \<Rightarrow> processTyped fn (r'\<lparr>rd_stack := (hd (rd_stack r'))\<lparr>rt_type := ty\<rparr> # tl (rd_stack r')\<rparr>) h))
      else processTyped fn r h)"

subsection \<open>The reader\<close>

lemma seek_loop_Some: "seek_loop m n pos = Inr (Some q) \<Longrightarrow> pos < n"
  by (subst (asm) seek_loop.simps) (simp split: if_splits)

lemma seekNewline_Some: "seekNewline m len = Inr (Some q) \<Longrightarrow> 0 < len"
  unfolding seekNewline_def by (drule seek_loop_Some) simp

lemma finish_item_cursor:
  "finish_item fn obj r h = Inr (r', h', True) \<Longrightarrow> obj \<noteq> 0 \<and> rd_len r' = rd_len r \<and> rd_pos r' = rd_pos r"
  by (auto simp: finish_item_def rbind_eq_Inr_iff split: if_splits prod.splits)

lemma rbind_finish_cursor:
  "rbind m (\<lambda>(obj, h'). finish_item fn obj (r1 obj) h') = Inr (r', h'', True) \<Longrightarrow>
    (\<And>obj. obj \<noteq> 0 \<Longrightarrow> rd_len (r1 obj) = l \<and> rd_pos (r1 obj) = p) \<Longrightarrow> rd_len r' = l \<and> rd_pos r' = p"
  by (auto simp: rbind_eq_Inr_iff dest!: finish_item_cursor)

lemma readLine_cursor:
  assumes "readLine r = Inr (Some (line, r'))"
  shows "rd_pos r < rd_len r \<and> rd_len r' = rd_len r \<and> rd_pos r < rd_pos r' \<and> rd_stack r' = rd_stack r \<and> rd_reply r' = rd_reply r"
proof -
  from assms obtain q where q: "seekNewline (mem_at r (rd_pos r)) (rd_len r - rd_pos r) = Inr (Some q)"
    and "r' = r\<lparr>rd_pos := rd_pos r + q + 2\<rparr>"
    by (auto simp: readLine_def rbind_eq_Inr_iff split: option.splits)
  then show ?thesis using seekNewline_Some [OF q] by simp
qed

definition progress :: "redisReader \<Rightarrow> redisReader \<Rightarrow> bool" where
  "progress r r' \<longleftrightarrow> rd_pos r < rd_len r \<and> rd_len r' = rd_len r \<and> rd_pos r < rd_pos r'"

lemma processLineItem_progress:
  assumes "processLineItem fn r h = Inr (r', h', True)"
  shows "progress r r'"
proof -
  obtain p len r1 where line: "readLine r = Inr (Some ((p, len), r1))"
    using assms by (cases "readLine r") (auto simp: processLineItem_def split: option.splits)
  have "rd_len r' = rd_len r1 \<and> rd_pos r' = rd_pos r1"
    using assms unfolding processLineItem_def line rbind_simps option.case prod.case by (elim rbind_finish_cursor) simp
  then show ?thesis using readLine_cursor [OF line] by (simp add: progress_def)
qed

lemma processBulkItem_progress:
  assumes "processBulkItem fn r h = Inr (r', h', True)"
  shows "progress r r'"
proof -
  obtain q where q: "seekNewline (mem_at r (rd_pos r)) (rd_len r - rd_pos r) = Inr (Some q)"
    using assms by (cases "seekNewline (mem_at r (rd_pos r)) (rd_len r - rd_pos r)")
      (auto simp: processBulkItem_def Let_def split: option.splits)
  then obtain len where len: "readLongLong (mem_at r (rd_pos r)) = Inr len"
    using assms by (cases "readLongLong (mem_at r (rd_pos r))") (auto simp: processBulkItem_def Let_def)
  define n where "n = (if len < 0 then q + 2 else q + 2 + (nat len + 2))"
  have "rd_len r' = rd_len r \<and> rd_pos r' = rd_pos r + n"
  proof (cases "len < 0")
    case True
    with assms show ?thesis unfolding processBulkItem_def Let_def q len rbind_simps option.case n_def if_P [OF True]
      by (elim rbind_finish_cursor) simp
  next
    case False
    show ?thesis
    proof (cases "rd_pos r + (q + 2 + (nat len + 2)) \<le> rd_len r")
      case True
      with assms show ?thesis
        unfolding processBulkItem_def Let_def q len rbind_simps option.case n_def if_not_P [OF False] if_P [OF True]
        by (elim rbind_finish_cursor) simp
    next
      case F: False
      then show ?thesis using assms False by (simp add: processBulkItem_def q len)
    qed
  qed
  then show ?thesis using seekNewline_Some [OF q] by (simp add: progress_def n_def)
qed

lemma processMultiBulkItem_progress:
  assumes "processMultiBulkItem fn r h = Inr (r', h', True)"
  shows "progress r r'"
proof -
  have short: "length (rd_stack r) \<noteq> 9" using assms by (auto simp: processMultiBulkItem_def rbind_eq_Inr_iff)
  obtain p len r1 where line: "readLine r = Inr (Some ((p, len), r1))"
    using assms short by (cases "readLine r") (auto simp: processMultiBulkItem_def split: option.splits)
  obtain n where n: "readLongLong p = Inr n"
    using assms short line by (cases "readLongLong p") (auto simp: processMultiBulkItem_def)
  have "rd_len r' = rd_len r1 \<and> rd_pos r' = rd_pos r1"
  proof (cases "n = - 1")
    case True
    with assms show ?thesis
      unfolding processMultiBulkItem_def if_not_P [OF short] line n rbind_simps option.case prod.case Let_def if_P [OF True]
      by (elim rbind_finish_cursor) simp
  next
    case False
    then obtain obj h1 where "(if obj \<noteq> 0 \<and> 0 < n then
        (let cur = (hd (rd_stack r))\<lparr>rt_elements := sint (word_of_int n :: u32), rt_obj := obj\<rparr> in
         Inr (r1\<lparr>rd_stack := child_task r # cur # tl (rd_stack r),
           rd_reply := (if length (rd_stack r) = 1 then obj else rd_reply r)\<rparr>, h1, True))
      else finish_item fn obj r1 h1) = Inr (r', h', True)"
      using assms unfolding processMultiBulkItem_def if_not_P [OF short] line n rbind_simps option.case prod.case Let_def
        if_not_P [OF False] rbind_eq_Inr_iff by auto
    then show ?thesis by (auto simp: Let_def split: if_splits dest: finish_item_cursor)
  qed
  then show ?thesis using readLine_cursor [OF line] by (simp add: progress_def)
qed

lemma processTyped_progress: "processTyped fn r h = Inr (r', h', True) \<Longrightarrow> progress r r'"
  by (auto simp: processTyped_def Let_def split: if_splits
      dest: processLineItem_progress processBulkItem_progress processMultiBulkItem_progress)

lemma processItem_progress:
  assumes "processItem fn r h = Inr (r', h', True)"
  shows "progress r r'"
proof (cases "rt_type (hd (rd_stack r)) < 0")
  case True
  with assms obtain ty where len: "1 \<le> rd_len r - rd_pos r"
    and "processTyped fn ((r\<lparr>rd_pos := rd_pos r + 1\<rparr>)\<lparr>rd_stack := (hd (rd_stack r))\<lparr>rt_type := ty\<rparr> # tl (rd_stack r)\<rparr>) h =
      Inr (r', h', True)"
    by (auto simp: processItem_def readBytes_def rbind_eq_Inr_iff split: if_splits option.splits)
  from processTyped_progress [OF this(2)] len show ?thesis by (simp add: progress_def)
next
  case False
  then show ?thesis using assms processTyped_progress by (auto simp: processItem_def)
qed

text \<open>The items of a reply. Every item that is processed moves the cursor, so the loop ends.\<close>

function process_loop ::
  "'h redisReplyObjectFunctions option \<Rightarrow> redisReader \<Rightarrow> 'h \<Rightarrow> (redisReader \<times> 'h) result" where
  "process_loop fn r h =
     (if rd_stack r = [] then Inr (r, h)
      else (case processItem fn r h of
              Inl e \<Rightarrow> Inl e
            | Inr (r', h', ok) \<Rightarrow> if ok then process_loop fn r' h' else Inr (r', h')))"
  by pat_completeness auto
termination
proof (relation "measure (\<lambda>(fn, r, h). rd_len r - rd_pos r)")
  fix fn :: "'h redisReplyObjectFunctions option" and r h x y r' z h' ok
  assume "processItem fn r h = Inr x" "(r', y) = x" "(h', ok) = y" "ok"
  then have "progress r r'" using processItem_progress by metis
  then show "((fn, r', h'), fn, r, h) \<in> measure (\<lambda>(fn, r, h). rd_len r - rd_pos r)"
    by (auto simp: progress_def)
qed simp

declare process_loop.simps [simp del]

text \<open>The reader structure itself takes 560 bytes.\<close>

definition redisReaderCreateWithFunctions :: "allocator \<Rightarrow> redisReader option result" where
  "redisReaderCreateWithFunctions A =
     (if \<not> al_ok A 560 then Inr None
      else rbind (sdsempty A) (\<lambda>buf.
           case buf of
             None \<Rightarrow> Inr None
           | Some s \<Rightarrow>
               Inr (Some \<lparr>rd_err = 0, rd_errstr = [], rd_buf = Some s, rd_pos = 0, rd_len = 0,
                 rd_maxbuf = REDIS_READER_MAX_BUF, rd_stack = [], rd_reply = 0, rd_privdata = 0\<rparr>)))"

definition redisReaderFree :: "'h redisReplyObjectFunctions option \<Rightarrow> redisReader \<Rightarrow> 'h \<Rightarrow> 'h result" where
  "redisReaderFree fn r h =
     (case fn_of fn freeObject of
        Some free \<Rightarrow> if rd_reply r \<noteq> 0 then free (rd_reply r) h else Inr h
      | None \<Rightarrow> Inr h)"

text \<open>A buffer that is empty and large is replaced before new bytes are copied.\<close>

definition feed_buf :: "allocator \<Rightarrow> redisReader \<Rightarrow> redisReader result" where
  "feed_buf A r =
     (case rd_buf r of
        None \<Rightarrow> Inl InvalidAccess
      | Some s \<Rightarrow>
          if rd_len r = 0 \<and> rd_maxbuf r \<noteq> 0 \<and> rd_maxbuf r < sdsavail s then
            rbind (sdsempty A) (\<lambda>e.
            case e of None \<Rightarrow> Inl AssertFailure | Some s' \<Rightarrow> Inr (r\<lparr>rd_buf := Some s', rd_pos := 0\<rparr>))
          else Inr r)"

definition redisReaderFeed ::
  "allocator \<Rightarrow> 'h redisReplyObjectFunctions option \<Rightarrow> redisReader \<Rightarrow> string \<Rightarrow> 'h \<Rightarrow> (redisReader \<times> 'h \<times> bool) result" where
  "redisReaderFeed A fn r bytes h =
     (if rd_err r \<noteq> 0 then Inr (r, h, False)
      else if bytes = [] then Inr (r, h, True)
      else
        rbind (feed_buf A r) (\<lambda>r'.
        case rd_buf r' of
          None \<Rightarrow> Inl InvalidAccess
        | Some s \<Rightarrow>
            rbind (sdscatlen A s bytes (length bytes)) (\<lambda>new.
            case new of
              None \<Rightarrow> rbind (redisReaderSetErrorOOM fn r' h) (\<lambda>(r'', h'). Inr (r'', h', False))
            | Some s' \<Rightarrow> Inr (r'\<lparr>rd_buf := Some s', rd_len := sdslen s'\<rparr>, h, True))))"

definition root_task :: "redisReader \<Rightarrow> redisReadTask" where
  "root_task r = \<lparr>rt_type = - 1, rt_elements = - 1, rt_idx = - 1, rt_obj = 0, rt_privdata = rd_privdata r\<rparr>"

definition discard_read :: "redisReader \<Rightarrow> redisReader result" where
  "discard_read r =
     (if 1024 \<le> rd_pos r then
        (case rd_buf r of
           None \<Rightarrow> Inl InvalidAccess
         | Some s \<Rightarrow>
             rbind (sdsrange s (to_int (rd_pos r)) (- 1)) (\<lambda>s'.
             Inr (r\<lparr>rd_buf := Some s', rd_pos := 0, rd_len := sdslen s'\<rparr>)))
      else Inr r)"

text \<open>The result carries the reply pointer, null while there is none, and whether the call succeeded.\<close>

definition redisReaderGetReply ::
  "'h redisReplyObjectFunctions option \<Rightarrow> redisReader \<Rightarrow> 'h \<Rightarrow> (redisReader \<times> 'h \<times> nat \<times> bool) result" where
  "redisReaderGetReply fn r h =
     (if rd_err r \<noteq> 0 then Inr (r, h, 0, False)
      else if rd_len r = 0 then Inr (r, h, 0, True)
      else
        rbind (process_loop fn (if rd_stack r = [] then r\<lparr>rd_stack := [root_task r]\<rparr> else r) h) (\<lambda>(r1, h1).
        if rd_err r1 \<noteq> 0 then Inr (r1, h1, 0, False)
        else
          rbind (discard_read r1) (\<lambda>r2.
          if rd_stack r2 = [] then Inr (r2\<lparr>rd_reply := 0\<rparr>, h1, rd_reply r2, True)
          else Inr (r2, h1, 0, True))))"

end
