(* ===== verification/Redis_Reply.thy ===== *)
theory Redis_Reply
  imports Redis_Reader
begin

text \<open>
  The reply objects of hiredis (\<^verbatim>\<open>redis/hiredis/hiredis.h\<close>, \<^verbatim>\<open>hiredis.c\<close>): the default creation functions,
  which allocate an object and store its address in the array of the parent task, and
  \<^verbatim>\<open>freeReplyObject\<close>. Objects live in an explicit heap; addresses are handed out in increasing
  order and 0 is the null pointer. An access to an object that is not there, or to an array slot
  that is not there, is \<open>InvalidAccess\<close>.
\<close>

record redisReply =
  ry_type :: int
  ry_integer :: int
  ry_len :: int
  ry_str :: "string option"
  ry_elements :: nat
  ry_element :: "nat list option"

record reply_heap =
  rh_next :: nat
  rh_objs :: "nat \<rightharpoonup> redisReply"

definition heap0 :: reply_heap where
  "heap0 = \<lparr>rh_next = 16, rh_objs = Map.empty\<rparr>"

subsection \<open>Creation\<close>

definition blank_reply :: "int \<Rightarrow> redisReply" where
  "blank_reply ty = \<lparr>ry_type = ty, ry_integer = 0, ry_len = 0, ry_str = None, ry_elements = 0, ry_element = None\<rparr>"

text \<open>\<^verbatim>\<open>calloc(1, sizeof(redisReply))\<close>: 48 bytes.\<close>

definition createReplyObject :: "allocator \<Rightarrow> int \<Rightarrow> reply_heap \<Rightarrow> nat \<times> reply_heap" where
  "createReplyObject A ty h =
     (if al_ok A 48 then (rh_next h, \<lparr>rh_next = Suc (rh_next h), rh_objs = (rh_objs h)(rh_next h \<mapsto> blank_reply ty)\<rparr>)
      else (0, h))"

definition obj_update :: "nat \<Rightarrow> (redisReply \<Rightarrow> redisReply) \<Rightarrow> reply_heap \<Rightarrow> reply_heap result" where
  "obj_update a f h =
     (case rh_objs h a of None \<Rightarrow> Inl InvalidAccess | Some r \<Rightarrow> Inr (h\<lparr>rh_objs := (rh_objs h)(a \<mapsto> f r)\<rparr>))"

text \<open>\<^verbatim>\<open>parent->element[task->idx] = r\<close>, when the task has a parent.\<close>

definition store_in_parent :: "task_stack \<Rightarrow> nat \<Rightarrow> reply_heap \<Rightarrow> reply_heap result" where
  "store_in_parent st a h =
     (case st of
        cur # prv # _ \<Rightarrow>
          (case rh_objs h (rt_obj prv) of
             None \<Rightarrow> Inl InvalidAccess
           | Some parent \<Rightarrow>
               if ry_type parent \<noteq> REDIS_REPLY_ARRAY then Inl AssertFailure
               else (case ry_element parent of
                       None \<Rightarrow> Inl InvalidAccess
                     | Some es \<Rightarrow>
                         if 0 \<le> rt_idx cur \<and> nat (rt_idx cur) < length es then
                           Inr (h\<lparr>rh_objs := (rh_objs h)(rt_obj prv \<mapsto> parent\<lparr>ry_element := Some (es[nat (rt_idx cur) := a])\<rparr>)\<rparr>)
                         else Inl InvalidAccess))
      | _ \<Rightarrow> Inr h)"

text \<open>Freeing an object that was just created: it has no members yet.\<close>

definition drop_obj :: "nat \<Rightarrow> reply_heap \<Rightarrow> reply_heap" where
  "drop_obj a h = h\<lparr>rh_objs := (rh_objs h)(a := None)\<rparr>"

definition createStringObject :: "allocator \<Rightarrow> task_stack \<Rightarrow> string \<Rightarrow> nat \<Rightarrow> reply_heap \<Rightarrow> (nat \<times> reply_heap) result" where
  "createStringObject A st str len h =
     (let ty = rt_type (hd st); (a, h1) = createReplyObject A ty h in
      if a = 0 then Inr (0, h1)
      else if \<not> al_ok A (len + 1) then Inr (0, drop_obj a h1)
      else if \<not> (ty = REDIS_REPLY_ERROR \<or> ty = REDIS_REPLY_STATUS \<or> ty = REDIS_REPLY_STRING) then Inl AssertFailure
      else
        rbind (peek str len) (\<lambda>buf.
        rbind (obj_update a (\<lambda>r. r\<lparr>ry_str := Some (buf @ [NUL]), ry_len := to_int len\<rparr>) h1) (\<lambda>h2.
        rbind (store_in_parent st a h2) (\<lambda>h3. Inr (a, h3)))))"

definition createArrayObject :: "allocator \<Rightarrow> task_stack \<Rightarrow> int \<Rightarrow> reply_heap \<Rightarrow> (nat \<times> reply_heap) result" where
  "createArrayObject A st elements h =
     (let (a, h1) = createReplyObject A REDIS_REPLY_ARRAY h in
      if a = 0 then Inr (0, h1)
      else if 0 < elements \<and> \<not> al_ok A (8 * nat elements) then Inr (0, drop_obj a h1)
      else
        rbind (obj_update a (\<lambda>r. r\<lparr>ry_element := (if 0 < elements then Some (replicate (nat elements) 0) else None),
                                   ry_elements := unat (word_of_int elements :: u64)\<rparr>) h1) (\<lambda>h2.
        rbind (store_in_parent st a h2) (\<lambda>h3. Inr (a, h3))))"

definition createIntegerObject :: "allocator \<Rightarrow> task_stack \<Rightarrow> int \<Rightarrow> reply_heap \<Rightarrow> (nat \<times> reply_heap) result" where
  "createIntegerObject A st value h =
     (let (a, h1) = createReplyObject A REDIS_REPLY_INTEGER h in
      if a = 0 then Inr (0, h1)
      else
        rbind (obj_update a (\<lambda>r. r\<lparr>ry_integer := value\<rparr>) h1) (\<lambda>h2.
        rbind (store_in_parent st a h2) (\<lambda>h3. Inr (a, h3))))"

definition createNilObject :: "allocator \<Rightarrow> task_stack \<Rightarrow> reply_heap \<Rightarrow> (nat \<times> reply_heap) result" where
  "createNilObject A st h =
     (let (a, h1) = createReplyObject A REDIS_REPLY_NIL h in
      if a = 0 then Inr (0, h1)
      else rbind (store_in_parent st a h1) (\<lambda>h3. Inr (a, h3)))"

subsection \<open>\<^verbatim>\<open>freeReplyObject\<close>\<close>

text \<open>The recursion goes as deep as the replies are nested. The bound \<open>n\<close> on its depth is one more than
  the number of addresses handed out: a deeper recursion has come back to an object it is already
  freeing and would overflow the stack.\<close>

fun free_elements :: "(nat \<Rightarrow> reply_heap \<Rightarrow> reply_heap result) \<Rightarrow> nat list \<Rightarrow> reply_heap \<Rightarrow> reply_heap result" where
  "free_elements free [] h = Inr h"
| "free_elements free (a # as) h = rbind (if a \<noteq> 0 then free a h else Inr h) (free_elements free as)"

fun free_reply :: "nat \<Rightarrow> nat \<Rightarrow> reply_heap \<Rightarrow> reply_heap result" where
  "free_reply 0 a h = Inl InvalidAccess"
| "free_reply (Suc n) a h =
     (case rh_objs h a of
        None \<Rightarrow> Inl InvalidAccess
      | Some r \<Rightarrow>
          rbind (if ry_type r = REDIS_REPLY_ARRAY then
                   (case ry_element r of
                      None \<Rightarrow> Inr h
                    | Some es \<Rightarrow>
                        if ry_elements r \<le> length es then free_elements (free_reply n) (take (ry_elements r) es) h
                        else Inl InvalidAccess)
                 else Inr h)
            (\<lambda>h'. Inr (drop_obj a h')))"

definition freeReplyObject :: "nat \<Rightarrow> reply_heap \<Rightarrow> reply_heap result" where
  "freeReplyObject a h = (if a = 0 then Inr h else free_reply (Suc (rh_next h)) a h)"

definition defaultFunctions :: "allocator \<Rightarrow> reply_heap redisReplyObjectFunctions" where
  "defaultFunctions A =
     \<lparr>createString = Some (createStringObject A), createArray = Some (createArrayObject A),
      createInteger = Some (createIntegerObject A), createNil = Some (createNilObject A),
      freeObject = Some freeReplyObject\<rparr>"

text \<open>Following a pointer to a reply object.\<close>

definition reply_object :: "reply_heap \<Rightarrow> nat \<Rightarrow> redisReply result" where
  "reply_object h a = (case rh_objs h a of None \<Rightarrow> Inl InvalidAccess | Some r \<Rightarrow> Inr r)"

end
