(* ===== verification/Redis_Reader_Laws.thy ===== *)
theory Redis_Reader_Laws
  imports Redis_Reply
begin

text \<open>
  A reference parser over byte strings for the reader of \<^verbatim>\<open>read.c\<close>, without buffer, cursor and chunks;
  the reader computes the same items. From it follows that the replies do not depend on how the
  bytes are cut into chunks.
\<close>

subsection \<open>Lines\<close>

fun crlf :: "string \<Rightarrow> nat option" where
  "crlf (a # b # s) = (if a = CR \<and> b = LF then Some 0 else map_option Suc (crlf (b # s)))"
| "crlf _ = None"

lemma map_option_add0: "map_option ((+) (0 :: nat)) x = x"
  by (cases x) simp_all

lemma crlf_skip: "CR \<notin> set p \<Longrightarrow> crlf (p @ s) = map_option ((+) (length p)) (crlf s)"
proof (induction p)
  case (Cons a p)
  then show ?case by (cases "p @ s") (auto simp: option.map_comp comp_def split: option.splits)
qed (simp add: map_option_add0)

lemma crlf_line: "CR \<notin> set p \<Longrightarrow> crlf (p @ CR # LF # s) = Some (length p)"
  by (simp add: crlf_skip)

lemma crlf_append: "crlf bs = Some q \<Longrightarrow> crlf (bs @ s) = Some q"
proof (induction bs arbitrary: q rule: crlf.induct)
  case (1 a b bs)
  then show ?case by (auto split: if_splits)
qed simp_all

lemma crlf_Some: "crlf bs = Some q \<Longrightarrow> q + 2 \<le> length bs \<and> bs ! q = CR"
proof (induction bs arbitrary: q rule: crlf.induct)
  case (1 a b bs)
  then show ?case by (auto split: if_splits)
qed simp_all

lemma skip_to_cr_spec:
  "n < length m \<Longrightarrow> pos \<le> n \<Longrightarrow> q = skip_to_cr m n pos \<Longrightarrow>
    pos \<le> q \<and> q \<le> n \<and> (\<forall>i. pos \<le> i \<and> i < q \<longrightarrow> m ! i \<noteq> CR) \<and> (q < n \<longrightarrow> m ! q = CR)"
proof (induction m n pos rule: skip_to_cr.induct)
  case (1 m n pos)
  show ?case
  proof (cases "pos < n \<and> m ! pos \<noteq> CR")
    case True
    then have "skip_to_cr m n pos = skip_to_cr m n (Suc pos)" using "1.prems"(1) by (subst skip_to_cr.simps) simp
    with 1 True have "Suc pos \<le> q" "q \<le> n" "\<forall>i. Suc pos \<le> i \<and> i < q \<longrightarrow> m ! i \<noteq> CR" "q < n \<longrightarrow> m ! q = CR" by auto
    with True show ?thesis by (metis Suc_leD Suc_leI le_neq_implies_less)
  next
    case False
    then have "q = pos" using "1.prems"(3) by (subst (asm) skip_to_cr.simps) auto
    with False 1 show ?thesis by auto
  qed
qed

lemma crlf_drop:
  assumes "pos \<le> q" "q \<le> length bs" "\<forall>i. pos \<le> i \<and> i < q \<longrightarrow> bs ! i \<noteq> CR"
  shows "crlf (drop pos bs) = map_option ((+) (q - pos)) (crlf (drop q bs))"
proof -
  have "drop pos bs = take (q - pos) (drop pos bs) @ drop q bs"
    using assms(1) by (metis append_take_drop_id drop_drop le_add_diff_inverse2)
  moreover have "CR \<notin> set (take (q - pos) (drop pos bs))"
    using assms by (auto simp: in_set_conv_nth)
  ultimately show ?thesis using crlf_skip [of "take (q - pos) (drop pos bs)" "drop q bs"] assms(2) by simp
qed

lemma seek_loop_crlf:
  assumes "m = bs @ NUL # x" and "n = length bs - 1"
  shows "pos \<le> length bs \<Longrightarrow> seek_loop m n pos = Inr (map_option ((+) pos) (crlf (drop pos bs)))"
  using assms
proof (induction m n pos rule: seek_loop.induct)
  case (1 m n pos)
  show ?case
  proof (cases "pos < n")
    case False
    then have "length (drop pos bs) \<le> 1" using "1.prems"(3) by simp
    then have "crlf (drop pos bs) = None" by (cases "drop pos bs" rule: crlf.cases) auto
    with False show ?thesis by (subst seek_loop.simps) simp
  next
    case True
    define q where "q = skip_to_cr m n pos"
    have q: "pos \<le> q" "q \<le> n" "\<forall>i. pos \<le> i \<and> i < q \<longrightarrow> m ! i \<noteq> CR" "q < n \<longrightarrow> m ! q = CR"
      using skip_to_cr_spec [of n m pos q] True "1.prems" by (auto simp: q_def)
    have lt: "q < length bs" using q(2) True "1.prems"(3) by simp
    have byte: "byte_at m q = Inr (bs ! q)" "byte_at m (Suc q) = Inr (if Suc q < length bs then bs ! Suc q else NUL)"
      using lt "1.prems"(2) by (auto simp: byte_at_def nth_append not_less Suc_le_eq)
    have drop: "crlf (drop pos bs) = map_option ((+) (q - pos)) (crlf (drop q bs))"
      using q lt "1.prems"(2) by (intro crlf_drop) (auto simp: nth_append)
    show ?thesis
    proof (cases "bs ! q = CR")
      case False
      with q(4) lt "1.prems"(2) have "q = n" using q(2) by (cases "q < n") (auto simp: nth_append)
      then have "drop q bs = [bs ! q]" using lt "1.prems"(3) Cons_nth_drop_Suc [of q bs] by simp
      then show ?thesis using True False byte drop by (subst seek_loop.simps) (simp add: q_def [symmetric] Let_def)
    next
      case cr: True
      show ?thesis
      proof (cases "Suc q < length bs \<and> bs ! Suc q = LF")
        case True
        then have "drop q bs = CR # LF # drop (Suc (Suc q)) bs"
          using cr lt by (metis Cons_nth_drop_Suc)
        then show ?thesis using True cr byte drop q(1) \<open>pos < n\<close> by (subst seek_loop.simps) (simp add: q_def [symmetric] Let_def)
      next
        case False
        have "drop q bs = CR # drop (Suc q) bs" using cr lt by (metis Cons_nth_drop_Suc)
        moreover have "hd (drop (Suc q) bs) \<noteq> LF" if "Suc q < length bs" using False that by (simp add: hd_drop_conv_nth)
        ultimately have "crlf (drop q bs) = map_option Suc (crlf (drop (Suc q) bs))"
          by (cases "Suc q < length bs"; cases "drop (Suc q) bs") auto
        moreover have "seek_loop m n (Suc q) = Inr (map_option ((+) (Suc q)) (crlf (drop (Suc q) bs)))"
          using lt "1.prems" \<open>pos < n\<close> by (intro "1.IH" [OF _ q_def, of CR NUL]) simp_all
        ultimately show ?thesis using False cr byte drop q(1) \<open>pos < n\<close>
          by (subst seek_loop.simps) (cases "crlf (drop (Suc q) bs)"; auto simp: q_def [symmetric] Let_def)
      qed
    qed
  qed
qed

lemma seekNewline_crlf: "seekNewline (bs @ NUL # x) (length bs) = Inr (crlf bs)"
  using seek_loop_crlf [OF refl refl, of 0 bs x] by (simp add: seekNewline_def map_option_add0)

lemma readLongLong_loop_append: "CR \<in> set p \<Longrightarrow> readLongLong_loop (p @ s) v mult = readLongLong_loop p v mult"
  by (induction p arbitrary: v) auto

lemma readLongLong_append: "CR \<in> set p \<Longrightarrow> readLongLong (p @ s) = readLongLong p"
  using readLongLong_loop_append by (cases p) (auto simp: readLongLong_def)

lemma readLongLong_take: "crlf bs = Some q \<Longrightarrow> readLongLong (bs @ s) = readLongLong (take (Suc q) bs)"
proof -
  assume q: "crlf bs = Some q"
  then have "bs ! q \<in> set (take (Suc q) bs)" using crlf_Some [OF q] by (auto simp: in_set_conv_nth)
  then have "CR \<in> set (take (Suc q) bs)" using crlf_Some [OF q] by simp
  from readLongLong_append [OF this, of "drop (Suc q) bs @ s"] show ?thesis
    by (metis append_assoc append_take_drop_id)
qed

subsection \<open>The reference parser\<close>

record pstate =
  ps_stack :: task_stack
  ps_reply :: nat
  ps_bytes :: string

datatype 'h outcome =
    Item pstate 'h
  | Wait pstate 'h
  | Broken int string nat 'h

definition parse_finish :: "nat \<Rightarrow> pstate \<Rightarrow> 'h \<Rightarrow> 'h outcome result" where
  "parse_finish obj p h =
     (if obj = 0 then Inr (Broken REDIS_ERR_OOM ''Out of memory'' (ps_reply p) h)
      else rbind (moveToNextTask (ps_stack p)) (\<lambda>st.
           Inr (Item (p\<lparr>ps_stack := st, ps_reply := (if length (ps_stack p) = 1 then obj else ps_reply p)\<rparr>) h)))"

definition parse_line :: "'h redisReplyObjectFunctions option \<Rightarrow> pstate \<Rightarrow> 'h \<Rightarrow> 'h outcome result" where
  "parse_line fn p h =
     (case crlf (ps_bytes p) of
        None \<Rightarrow> Inr (Wait p h)
      | Some q \<Rightarrow>
          rbind (if rt_type (hd (ps_stack p)) = REDIS_REPLY_INTEGER then
                  (case fn_of fn createInteger of
                     Some f \<Rightarrow> rbind (readLongLong (take (Suc q) (ps_bytes p))) (\<lambda>v. f (ps_stack p) v h)
                   | None \<Rightarrow> Inr (nat REDIS_REPLY_INTEGER, h))
                else create (map_option (\<lambda>f. f (ps_stack p) (take q (ps_bytes p)) q) (fn_of fn createString))
                       (rt_type (hd (ps_stack p))) h)
            (\<lambda>(obj, h'). parse_finish obj (p\<lparr>ps_bytes := drop (q + 2) (ps_bytes p)\<rparr>) h'))"

definition parse_bulk :: "'h redisReplyObjectFunctions option \<Rightarrow> pstate \<Rightarrow> 'h \<Rightarrow> 'h outcome result" where
  "parse_bulk fn p h =
     (case crlf (ps_bytes p) of
        None \<Rightarrow> Inr (Wait p h)
      | Some q \<Rightarrow>
          rbind (readLongLong (take (Suc q) (ps_bytes p))) (\<lambda>len.
          if len < 0 then
            rbind (create (map_option (\<lambda>f. f (ps_stack p)) (fn_of fn createNil)) REDIS_REPLY_NIL h)
              (\<lambda>(obj, h'). parse_finish obj (p\<lparr>ps_bytes := drop (q + 2) (ps_bytes p)\<rparr>) h')
          else if q + 2 + (nat len + 2) \<le> length (ps_bytes p) then
            rbind (create (map_option (\<lambda>f. f (ps_stack p) (take (nat len) (drop (q + 2) (ps_bytes p))) (nat len)) (fn_of fn createString))
                     REDIS_REPLY_STRING h)
              (\<lambda>(obj, h'). parse_finish obj (p\<lparr>ps_bytes := drop (q + 2 + (nat len + 2)) (ps_bytes p)\<rparr>) h')
          else Inr (Wait p h)))"

definition fresh_task :: "int \<Rightarrow> nat \<Rightarrow> redisReadTask" where
  "fresh_task i priv = \<lparr>rt_type = - 1, rt_elements = - 1, rt_idx = i, rt_obj = 0, rt_privdata = priv\<rparr>"

definition parse_multi :: "'h redisReplyObjectFunctions option \<Rightarrow> nat \<Rightarrow> pstate \<Rightarrow> 'h \<Rightarrow> 'h outcome result" where
  "parse_multi fn priv p h =
     (if length (ps_stack p) = 9 then
        Inr (Broken REDIS_ERR_PROTOCOL ''No support for nested multi bulk replies with depth > 7'' (ps_reply p) h)
      else (case crlf (ps_bytes p) of
        None \<Rightarrow> Inr (Wait p h)
      | Some q \<Rightarrow>
          rbind (readLongLong (take (Suc q) (ps_bytes p))) (\<lambda>elements.
          let p' = p\<lparr>ps_bytes := drop (q + 2) (ps_bytes p)\<rparr> in
          if elements = - 1 then
            rbind (create (map_option (\<lambda>f. f (ps_stack p)) (fn_of fn createNil)) REDIS_REPLY_NIL h)
              (\<lambda>(obj, h'). parse_finish obj p' h')
          else
            (let count = sint (word_of_int elements :: u32) in
             rbind (create (map_option (\<lambda>f. f (ps_stack p) count) (fn_of fn createArray)) REDIS_REPLY_ARRAY h) (\<lambda>(obj, h').
             if obj \<noteq> 0 \<and> 0 < elements then
               Inr (Item (p'\<lparr>ps_stack := fresh_task 0 priv # (hd (ps_stack p))\<lparr>rt_elements := count, rt_obj := obj\<rparr> # tl (ps_stack p),
                            ps_reply := (if length (ps_stack p) = 1 then obj else ps_reply p)\<rparr>) h')
             else parse_finish obj p' h')))))"

definition parse_typed :: "'h redisReplyObjectFunctions option \<Rightarrow> nat \<Rightarrow> pstate \<Rightarrow> 'h \<Rightarrow> 'h outcome result" where
  "parse_typed fn priv p h =
     (let ty = rt_type (hd (ps_stack p)) in
      if ty = REDIS_REPLY_ERROR \<or> ty = REDIS_REPLY_STATUS \<or> ty = REDIS_REPLY_INTEGER then parse_line fn p h
      else if ty = REDIS_REPLY_STRING then parse_bulk fn p h
      else if ty = REDIS_REPLY_ARRAY then parse_multi fn priv p h
      else Inl AssertFailure)"

definition parse_item :: "'h redisReplyObjectFunctions option \<Rightarrow> nat \<Rightarrow> pstate \<Rightarrow> 'h \<Rightarrow> 'h outcome result" where
  "parse_item fn priv p h =
     (if rt_type (hd (ps_stack p)) < 0 then
        (case ps_bytes p of
           [] \<Rightarrow> Inr (Wait p h)
         | c # bs \<Rightarrow>
             (case type_of_byte c of
                None \<Rightarrow> Inr (Broken REDIS_ERR_PROTOCOL
                  (take 127 (''Protocol error, got '' @ take 7 (chrtos c) @ '' as reply type byte'')) (ps_reply p) h)
              | Some ty \<Rightarrow> parse_typed fn priv (p\<lparr>ps_stack := (hd (ps_stack p))\<lparr>rt_type := ty\<rparr> # tl (ps_stack p), ps_bytes := bs\<rparr>) h))
      else parse_typed fn priv p h)"

subsection \<open>The reader computes the reference parser\<close>

text \<open>A table of functions whose strings are read through their length only.\<close>

definition fn_local :: "'h redisReplyObjectFunctions option \<Rightarrow> bool" where
  "fn_local fn \<longleftrightarrow> (\<forall>f st m n h. fn_of fn createString = Some f \<longrightarrow> n \<le> length m \<longrightarrow> f st m n h = f st (take n m) n h)"

definition reader_ok :: "redisReader \<Rightarrow> bool" where
  "reader_ok r \<longleftrightarrow> rd_err r = 0 \<and> rd_pos r \<le> rd_len r \<and> (\<exists>s. rd_buf r = Some s \<and> sds_ok s \<and> rd_len r = sdslen s)"

definition unread :: "redisReader \<Rightarrow> string" where
  "unread r = (case rd_buf r of None \<Rightarrow> [] | Some s \<Rightarrow> drop (rd_pos r) (content s))"

definition pstate_of :: "redisReader \<Rightarrow> pstate" where
  "pstate_of r = \<lparr>ps_stack = rd_stack r, ps_reply = rd_reply r, ps_bytes = unread r\<rparr>"

definition with_pstate :: "redisReader \<Rightarrow> pstate \<Rightarrow> redisReader" where
  "with_pstate r p = r\<lparr>rd_stack := ps_stack p, rd_reply := ps_reply p, rd_pos := rd_len r - length (ps_bytes p)\<rparr>"

definition run_outcome ::
  "'h redisReplyObjectFunctions option \<Rightarrow> redisReader \<Rightarrow> 'h outcome \<Rightarrow> (redisReader \<times> 'h \<times> bool) result" where
  "run_outcome fn r oc =
     (case oc of
        Item p h' \<Rightarrow> Inr (with_pstate r p, h', True)
      | Wait p h' \<Rightarrow> Inr (with_pstate r p, h', False)
      | Broken ty msg a h' \<Rightarrow> rbind (redisReaderSetError fn ty msg (r\<lparr>rd_reply := a\<rparr>) h') (\<lambda>(r', h''). Inr (r', h'', False)))"

lemma reader_mem:
  assumes "reader_ok r"
  obtains x where "mem_at r (rd_pos r) = unread r @ NUL # x" and "length (unread r) = rd_len r - rd_pos r"
proof -
  from assms obtain s where s: "rd_buf r = Some s" "sds_ok s" "rd_len r = sdslen s" and pos: "rd_pos r \<le> rd_len r"
    by (auto simp: reader_ok_def)
  have "sd_buf s = content s @ NUL # drop (Suc (sdslen s)) (sd_buf s)"
    using id_take_nth_drop [of "sdslen s" "sd_buf s"] sds_ok_dest(3,5) [OF s(2)] by (simp add: content_def)
  moreover have "drop (rd_pos r) (content s @ y) = drop (rd_pos r) (content s) @ y" for y
    using s pos length_content [OF s(2)] by simp
  ultimately have "drop (rd_pos r) (sd_buf s) = drop (rd_pos r) (content s) @ NUL # drop (Suc (sdslen s)) (sd_buf s)" by metis
  with s pos length_content [OF s(2)] show thesis
    by (intro that [of "drop (Suc (sdslen s)) (sd_buf s)"]) (simp_all add: mem_at_def unread_def)
qed

lemma length_unread: "reader_ok r \<Longrightarrow> length (unread r) = rd_len r - rd_pos r"
  using reader_mem by metis

lemma SetError_cursor:
  "rd_buf r \<noteq> None \<Longrightarrow> redisReaderSetError fn ty msg (r\<lparr>rd_pos := x\<rparr>) h = redisReaderSetError fn ty msg r h"
  "rd_buf r \<noteq> None \<Longrightarrow> redisReaderSetError fn ty msg (r\<lparr>rd_stack := st\<rparr>) h = redisReaderSetError fn ty msg r h"
  "rd_buf r \<noteq> None \<Longrightarrow>
    redisReaderSetError fn ty msg (r\<lparr>rd_pos := x, rd_stack := st, rd_reply := a\<rparr>) h = redisReaderSetError fn ty msg (r\<lparr>rd_reply := a\<rparr>) h"
  by (cases "rd_buf r"; cases "fn_of fn freeObject"; simp add: redisReaderSetError_def)+

lemma reader_ok_buf: "reader_ok r \<Longrightarrow> rd_buf r \<noteq> None"
  by (auto simp: reader_ok_def)

lemma finish_item_parse:
  assumes "reader_ok r"
  shows "finish_item fn obj (r\<lparr>rd_pos := rd_len r - length bs\<rparr>) h' =
    rbind (parse_finish obj ((pstate_of r)\<lparr>ps_bytes := bs\<rparr>) h') (run_outcome fn r)"
proof (cases "obj = 0")
  case True
  then show ?thesis using reader_ok_buf [OF assms]
    by (simp add: finish_item_def parse_finish_def redisReaderSetErrorOOM_def run_outcome_def SetError_cursor pstate_of_def)
next
  case False
  then show ?thesis
    by (cases "moveToNextTask (rd_stack r)") (simp_all add: finish_item_def parse_finish_def run_outcome_def pstate_of_def with_pstate_def)
qed

lemma rbind_cong_pair:
  "m = m' \<Longrightarrow> (\<And>a b. f a b = rbind (g a b) k) \<Longrightarrow> rbind m (\<lambda>(a, b). f a b) = rbind (rbind m' (\<lambda>(a, b). g a b)) k"
  by (cases m') auto

lemma pstate_of_simps [simp]:
  "ps_stack (pstate_of r) = rd_stack r" "ps_reply (pstate_of r) = rd_reply r" "ps_bytes (pstate_of r) = unread r"
  by (simp_all add: pstate_of_def)

lemma seekNewline_unread:
  "reader_ok r \<Longrightarrow> seekNewline (mem_at r (rd_pos r)) (rd_len r - rd_pos r) = Inr (crlf (unread r))"
proof (elim reader_mem)
  fix x
  assume "mem_at r (rd_pos r) = unread r @ NUL # x" "length (unread r) = rd_len r - rd_pos r"
  then show ?thesis using seekNewline_crlf [of "unread r" x] by simp
qed

lemma readLine_unread:
  assumes "reader_ok r"
  shows "readLine r = Inr (map_option (\<lambda>q. ((mem_at r (rd_pos r), q), r\<lparr>rd_pos := rd_len r - length (drop (q + 2) (unread r))\<rparr>)) (crlf (unread r)))"
proof (cases "crlf (unread r)")
  case (Some q)
  have "rd_pos r + q + 2 = rd_len r - length (drop (q + 2) (unread r))"
    using crlf_Some [OF Some] length_unread [OF assms] assms by (auto simp: reader_ok_def)
  with Some show ?thesis using seekNewline_unread [OF assms] by (simp add: readLine_def)
qed (use seekNewline_unread [OF assms] in \<open>simp add: readLine_def\<close>)

lemma wait_unread: "reader_ok r \<Longrightarrow> with_pstate r (pstate_of r) = r"
  using length_unread [of r] by (simp add: with_pstate_def reader_ok_def)

lemma readLongLong_unread:
  "reader_ok r \<Longrightarrow> crlf (unread r) = Some q \<Longrightarrow> readLongLong (mem_at r (rd_pos r)) = readLongLong (take (Suc q) (unread r))"
  by (elim reader_mem) (simp add: readLongLong_take)

lemma createString_unread:
  assumes "reader_ok r" "fn_local fn" "i + n \<le> length (unread r)" "fn_of fn createString = Some f"
  shows "f st (drop i (mem_at r (rd_pos r))) n h = f st (take n (drop i (unread r))) n h"
proof -
  from assms(1) obtain x where x: "mem_at r (rd_pos r) = unread r @ NUL # x" by (elim reader_mem)
  have "f st (drop i (mem_at r (rd_pos r))) n h = f st (take n (drop i (mem_at r (rd_pos r)))) n h"
    using assms(2,3,4) unfolding fn_local_def x by (metis length_append length_drop le_diff_conv2 add_leE trans_le_add1 add.commute)
  also have "take n (drop i (mem_at r (rd_pos r))) = take n (drop i (unread r))" using assms(3) x by simp
  finally show ?thesis .
qed

lemma processLineItem_parse:
  assumes r: "reader_ok r" and fn: "fn_local fn"
  shows "processLineItem fn r h = rbind (parse_line fn (pstate_of r) h) (run_outcome fn r)"
proof (cases "crlf (unread r)")
  case None
  then show ?thesis by (simp add: processLineItem_def parse_line_def readLine_unread [OF r] run_outcome_def wait_unread [OF r])
next
  case (Some q)
  have len: "q \<le> length (unread r)" using crlf_Some [OF Some] by simp
  have str: "map_option (\<lambda>f. f st (mem_at r (rd_pos r)) q) (fn_of fn createString) =
      map_option (\<lambda>f. f st (take q (unread r)) q) (fn_of fn createString)" for st
    using createString_unread [OF r fn, of 0 q] len by (cases "fn_of fn createString") (auto intro!: ext)
  show ?thesis
    unfolding processLineItem_def parse_line_def readLine_unread [OF r] pstate_of_simps Some option.map option.case rbind_simps prod.case
    by (rule rbind_cong_pair)
      (simp_all only: readLongLong_unread [OF r Some] str finish_item_parse [OF r])
qed

lemma cursor_after:
  "reader_ok r \<Longrightarrow> k \<le> length (unread r) \<Longrightarrow> rd_len r - length (drop k (unread r)) = rd_pos r + k"
  using length_unread [of r] by (auto simp: reader_ok_def)

lemma processBulkItem_parse:
  assumes r: "reader_ok r" and fn: "fn_local fn"
  shows "processBulkItem fn r h = rbind (parse_bulk fn (pstate_of r) h) (run_outcome fn r)"
proof (cases "crlf (unread r)")
  case None
  then show ?thesis
    by (simp add: processBulkItem_def parse_bulk_def seekNewline_unread [OF r] run_outcome_def wait_unread [OF r])
next
  case (Some q)
  have q: "q + 2 \<le> length (unread r)" using crlf_Some [OF Some] by simp
  have fin: "finish_item fn obj (if obj = 0 then r else r\<lparr>rd_pos := rd_pos r + k\<rparr>) h' =
      rbind (parse_finish obj ((pstate_of r)\<lparr>ps_bytes := drop k (unread r)\<rparr>) h') (run_outcome fn r)"
    if "k \<le> length (unread r)" for k obj h'
  proof -
    have "finish_item fn 0 r h' = finish_item fn 0 (r\<lparr>rd_pos := rd_pos r + k\<rparr>) h'"
      using reader_ok_buf [OF r] by (simp add: finish_item_def redisReaderSetErrorOOM_def SetError_cursor)
    then show ?thesis using finish_item_parse [OF r, of fn obj "drop k (unread r)" h'] unfolding cursor_after [OF r that]
      by (cases "obj = 0") simp_all
  qed
  note unfold = processBulkItem_def parse_bulk_def Let_def seekNewline_unread [OF r] pstate_of_simps Some option.case rbind_simps
    readLongLong_unread [OF r Some]
  show ?thesis
  proof (cases "readLongLong (take (Suc q) (unread r))")
    case (Inr len)
    show ?thesis
    proof (cases "len < 0")
      case True
      show ?thesis unfolding unfold Inr if_P [OF True] by (rule rbind_cong_pair) (simp_all only: fin [OF q])
    next
      case False
      have iff: "rd_pos r + (q + 2 + (nat len + 2)) \<le> rd_len r \<longleftrightarrow> q + 2 + (nat len + 2) \<le> length (unread r)"
        using length_unread [OF r] r by (auto simp: reader_ok_def)
      show ?thesis
      proof (cases "q + 2 + (nat len + 2) \<le> length (unread r)")
        case True
        have str: "map_option (\<lambda>f. f st (drop (q + 2) (mem_at r (rd_pos r))) (nat len)) (fn_of fn createString) =
            map_option (\<lambda>f. f st (take (nat len) (drop (q + 2) (unread r))) (nat len)) (fn_of fn createString)" for st
          using createString_unread [OF r fn, of "q + 2" "nat len"] True by (cases "fn_of fn createString") (auto intro!: ext)
        show ?thesis unfolding unfold Inr if_not_P [OF False] iff if_P [OF True] str
          by (rule rbind_cong_pair) (simp_all only: fin [OF True])
      next
        case no: False
        show ?thesis unfolding unfold Inr if_not_P [OF False] iff if_not_P [OF no]
          by (simp add: run_outcome_def wait_unread [OF r])
      qed
    qed
  qed (simp add: unfold)
qed

lemma processMultiBulkItem_parse:
  assumes r: "reader_ok r"
  shows "processMultiBulkItem fn r h = rbind (parse_multi fn (rd_privdata r) (pstate_of r) h) (run_outcome fn r)"
proof (cases "length (rd_stack r) = 9")
  case True
  then show ?thesis by (simp add: processMultiBulkItem_def parse_multi_def run_outcome_def)
next
  case short: False
  show ?thesis
  proof (cases "crlf (unread r)")
    case None
    with short show ?thesis
      by (simp add: processMultiBulkItem_def parse_multi_def readLine_unread [OF r] run_outcome_def wait_unread [OF r])
  next
    case (Some q)
    note unfold = processMultiBulkItem_def parse_multi_def if_not_P [OF short] Let_def readLine_unread [OF r] pstate_of_simps Some
      option.map option.case rbind_simps prod.case readLongLong_unread [OF r Some]
    show ?thesis
    proof (cases "readLongLong (take (Suc q) (unread r))")
      case (Inr n)
      show ?thesis
      proof (cases "n = - 1")
        case True
        show ?thesis unfolding unfold Inr if_P [OF True] by (rule rbind_cong_pair) (simp_all only: finish_item_parse [OF r])
      next
        case False
        show ?thesis unfolding unfold Inr if_not_P [OF False]
        proof (rule rbind_cong_pair)
          fix obj h'
          show "(if obj \<noteq> 0 \<and> 0 < n then
              Inr (r\<lparr>rd_pos := rd_len r - length (drop (q + 2) (unread r)),
                rd_stack := child_task r # (hd (rd_stack r))\<lparr>rt_elements := sint (word_of_int n :: u32), rt_obj := obj\<rparr> # tl (rd_stack r),
                rd_reply := if length (rd_stack r) = 1 then obj else rd_reply r\<rparr>, h', True)
            else finish_item fn obj (r\<lparr>rd_pos := rd_len r - length (drop (q + 2) (unread r))\<rparr>) h') =
            rbind (if obj \<noteq> 0 \<and> 0 < n then
              Inr (Item ((pstate_of r)\<lparr>ps_bytes := drop (q + 2) (unread r),
                ps_stack := fresh_task 0 (rd_privdata r) # (hd (rd_stack r))\<lparr>rt_elements := sint (word_of_int n :: u32), rt_obj := obj\<rparr> # tl (rd_stack r),
                ps_reply := if length (rd_stack r) = 1 then obj else rd_reply r\<rparr>) h')
            else parse_finish obj ((pstate_of r)\<lparr>ps_bytes := drop (q + 2) (unread r)\<rparr>) h') (run_outcome fn r)"
            using finish_item_parse [OF r, of fn obj "drop (q + 2) (unread r)" h']
            by (simp add: run_outcome_def with_pstate_def child_task_def fresh_task_def)
        qed simp
      qed
    qed (simp add: unfold)
  qed
qed

lemma processTyped_parse:
  "reader_ok r \<Longrightarrow> fn_local fn \<Longrightarrow>
    processTyped fn r h = rbind (parse_typed fn (rd_privdata r) (pstate_of r) h) (run_outcome fn r)"
  by (simp add: processTyped_def parse_typed_def Let_def processLineItem_parse processBulkItem_parse processMultiBulkItem_parse)

lemma processItem_parse:
  assumes r: "reader_ok r" and fn: "fn_local fn"
  shows "processItem fn r h = rbind (parse_item fn (rd_privdata r) (pstate_of r) h) (run_outcome fn r)"
proof (cases "rt_type (hd (rd_stack r)) < 0")
  case False
  then show ?thesis using processTyped_parse [OF r fn] by (simp add: processItem_def parse_item_def)
next
  case neg: True
  show ?thesis
  proof (cases "unread r")
    case Nil
    then have "readBytes r 1 = None" using length_unread [OF r] by (simp add: readBytes_def)
    with neg Nil show ?thesis using wait_unread [OF r]
      by (simp add: processItem_def parse_item_def run_outcome_def)
  next
    case (Cons c bs)
    let ?r = "r\<lparr>rd_pos := rd_pos r + 1\<rparr>"
    obtain x where x: "mem_at r (rd_pos r) = unread r @ NUL # x" using r by (elim reader_mem)
    have read: "readBytes r 1 = Some (mem_at r (rd_pos r), ?r)" "byte_at (mem_at r (rd_pos r)) 0 = Inr c"
      using length_unread [OF r] Cons x by (simp_all add: readBytes_def byte_at_def)
    show ?thesis
    proof (cases "type_of_byte c")
      case None
      with neg Cons read reader_ok_buf [OF r] show ?thesis
        by (simp add: processItem_def parse_item_def run_outcome_def redisReaderSetErrorProtocolByte_def SetError_cursor)
    next
      case (Some ty)
      let ?s = "?r\<lparr>rd_stack := (hd (rd_stack r))\<lparr>rt_type := ty\<rparr> # tl (rd_stack r)\<rparr>"
      have s: "reader_ok ?s" using r Cons length_unread [OF r] by (auto simp: reader_ok_def)
      have "drop (Suc (rd_pos r)) (content y) = bs" if "rd_buf r = Some y" for y
        using Cons that by (simp add: unread_def drop_Suc tl_drop [symmetric])
      then have "unread ?s = bs" using reader_ok_buf [OF r] by (auto simp: unread_def)
      then have p: "pstate_of ?s = (pstate_of r)\<lparr>ps_stack := (hd (rd_stack r))\<lparr>rt_type := ty\<rparr> # tl (rd_stack r), ps_bytes := bs\<rparr>"
        by (simp add: pstate_of_def)
      have run: "run_outcome fn ?s = run_outcome fn r" using reader_ok_buf [OF r]
        by (auto simp: run_outcome_def with_pstate_def SetError_cursor fun_eq_iff split: outcome.splits)
      have "processItem fn r h = processTyped fn ?s h" using neg read Some by (simp add: processItem_def)
      also have "\<dots> = rbind (parse_typed fn (rd_privdata r) (pstate_of ?s) h) (run_outcome fn r)"
        using processTyped_parse [OF s fn, of h] unfolding run by simp
      also have "parse_typed fn (rd_privdata r) (pstate_of ?s) h = parse_item fn (rd_privdata r) (pstate_of r) h"
        unfolding p using neg Cons Some by (simp add: parse_item_def)
      finally show ?thesis .
    qed
  qed
qed

subsection \<open>More input\<close>

definition ext :: "string \<Rightarrow> pstate \<Rightarrow> pstate" where
  "ext e p = p\<lparr>ps_bytes := ps_bytes p @ e\<rparr>"

lemma ext_sel [simp]:
  "ps_stack (ext e p) = ps_stack p" "ps_reply (ext e p) = ps_reply p" "ps_bytes (ext e p) = ps_bytes p @ e"
  by (simp_all add: ext_def)

lemma ext_upd:
  "ext e (p\<lparr>ps_stack := st\<rparr>) = (ext e p)\<lparr>ps_stack := st\<rparr>" "ext e (p\<lparr>ps_reply := a\<rparr>) = (ext e p)\<lparr>ps_reply := a\<rparr>"
  "(ext e p)\<lparr>ps_bytes := bs @ e\<rparr> = ext e (p\<lparr>ps_bytes := bs\<rparr>)"
  by (simp_all add: ext_def)

lemmas ext_simps = ext_sel ext_upd

fun ext_outcome :: "string \<Rightarrow> 'h outcome \<Rightarrow> 'h outcome" where
  "ext_outcome e (Item p h) = Item (ext e p) h"
| "ext_outcome e (Wait p h) = Wait (ext e p) h"
| "ext_outcome e (Broken ty msg a h) = Broken ty msg a h"

fun waits :: "'h outcome \<Rightarrow> bool" where
  "waits (Wait p h) = True"
| "waits _ = False"

text \<open>Either the step waits with its state unchanged, or more input does not change what it does.\<close>

definition settled :: "string \<Rightarrow> 'h outcome result \<Rightarrow> 'h outcome result \<Rightarrow> bool" where
  "settled e m m' \<longleftrightarrow> m' = map_sum id (ext_outcome e) m \<and> (\<forall>oc. m = Inr oc \<longrightarrow> \<not> waits oc)"

lemma settledI: "m' = map_sum id (ext_outcome e) m \<Longrightarrow> (\<And>oc. m = Inr oc \<Longrightarrow> \<not> waits oc) \<Longrightarrow> settled e m m'"
  by (simp add: settled_def)

lemma settled_rbind: "(\<And>x. m = Inr x \<Longrightarrow> settled e (f x) (f' x)) \<Longrightarrow> settled e (rbind m f) (rbind m f')"
  by (cases m) (auto simp: settled_def)

lemma settled_rbind_pair:
  "(\<And>a b. settled e (f a b) (f' a b)) \<Longrightarrow> settled e (rbind m (\<lambda>(a, b). f a b)) (rbind m (\<lambda>(a, b). f' a b))"
  by (rule settled_rbind) (auto split: prod.splits)

lemma settled_Inl: "settled e (Inl x) (Inl x)"
  by (simp add: settled_def)

lemma settled_if: "settled e a a' \<Longrightarrow> settled e b b' \<Longrightarrow> settled e (if c then a else b) (if c then a' else b')"
  by simp

lemma parse_finish_settled: "settled e (parse_finish obj p h) (parse_finish obj (ext e p) h)"
  by (cases "moveToNextTask (ps_stack p)") (auto simp: parse_finish_def ext_upd intro!: settledI)

lemma parse_line_settled:
  assumes q: "crlf (ps_bytes p) = Some q"
  shows "settled e (parse_line fn p h) (parse_line fn (ext e p) h)"
proof -
  have "q + 2 \<le> length (ps_bytes p)" using crlf_Some [OF q] by simp
  then have cut: "take (Suc q) (ps_bytes p @ e) = take (Suc q) (ps_bytes p)" "take q (ps_bytes p @ e) = take q (ps_bytes p)"
    "drop (q + 2) (ps_bytes p @ e) = drop (q + 2) (ps_bytes p) @ e" by simp_all
  show ?thesis unfolding parse_line_def ext_simps crlf_append [OF q, of e] q option.case cut
    by ((simp only: ext_simps)?, rule settled_rbind_pair, rule parse_finish_settled)
qed

lemma parse_bulk_settled:
  assumes q: "crlf (ps_bytes p) = Some q" and "parse_bulk fn p h \<noteq> Inr (Wait p h)"
  shows "settled e (parse_bulk fn p h) (parse_bulk fn (ext e p) h)"
proof -
  have len: "q + 2 \<le> length (ps_bytes p)" using crlf_Some [OF q] by simp
  then have cut: "take (Suc q) (ps_bytes p @ e) = take (Suc q) (ps_bytes p)"
    "drop (q + 2) (ps_bytes p @ e) = drop (q + 2) (ps_bytes p) @ e" by simp_all
  note unfold = parse_bulk_def ext_simps crlf_append [OF q, of e] q option.case cut
  show ?thesis
  proof (cases "readLongLong (take (Suc q) (ps_bytes p))")
    case (Inl x)
    then show ?thesis unfolding unfold by (simp add: settled_def)
  next
    case (Inr n)
    consider (neg) "n < 0" | (pos) "\<not> n < 0" "q + 2 + (nat n + 2) \<le> length (ps_bytes p)"
      | (short) "\<not> n < 0" "\<not> q + 2 + (nat n + 2) \<le> length (ps_bytes p)" by blast
    then show ?thesis
    proof cases
      case neg
      show ?thesis unfolding unfold Inr rbind_simps if_P [OF neg]
        by ((simp only: ext_simps)?, rule settled_rbind_pair, rule parse_finish_settled)
    next
      case pos
      have more: "take (nat n) (drop (q + 2) (ps_bytes p) @ e) = take (nat n) (drop (q + 2) (ps_bytes p))"
        "drop (q + 2 + (nat n + 2)) (ps_bytes p @ e) = drop (q + 2 + (nat n + 2)) (ps_bytes p) @ e"
        "q + 2 + (nat n + 2) \<le> length (ps_bytes p @ e)" using pos(2) by simp_all
      show ?thesis unfolding unfold Inr rbind_simps if_not_P [OF pos(1)] if_P [OF pos(2)] if_P [OF more(3)] more(1,2)
        by ((simp only: ext_simps)?, rule settled_rbind_pair, rule parse_finish_settled)
    next
      case short
      then show ?thesis using assms(2) by (simp add: parse_bulk_def q Inr)
    qed
  qed
qed

lemma parse_multi_settled:
  assumes "length (ps_stack p) = 9 \<or> crlf (ps_bytes p) = Some q"
  shows "settled e (parse_multi fn priv p h) (parse_multi fn priv (ext e p) h)"
proof (cases "length (ps_stack p) = 9")
  case True
  then show ?thesis by (simp add: parse_multi_def settled_def)
next
  case short: False
  with assms have q: "crlf (ps_bytes p) = Some q" by simp
  then have "q + 2 \<le> length (ps_bytes p)" using crlf_Some by simp
  then have cut: "take (Suc q) (ps_bytes p @ e) = take (Suc q) (ps_bytes p)"
    "drop (q + 2) (ps_bytes p @ e) = drop (q + 2) (ps_bytes p) @ e" by simp_all
  note unfold = parse_multi_def ext_simps if_not_P [OF short] crlf_append [OF q, of e] q option.case cut Let_def
  show ?thesis
  proof (cases "readLongLong (take (Suc q) (ps_bytes p))")
    case (Inl x)
    then show ?thesis unfolding unfold by (simp add: settled_def)
  next
    case (Inr n)
    show ?thesis
    proof (cases "n = - 1")
      case True
      show ?thesis unfolding unfold Inr rbind_simps if_P [OF True]
        by ((simp only: ext_simps)?, rule settled_rbind_pair, rule parse_finish_settled)
    next
      case False
      show ?thesis unfolding unfold Inr rbind_simps if_not_P [OF False] ext_simps
        by (rule settled_rbind_pair, rule settled_if, simp add: settled_def ext_upd, rule parse_finish_settled)
    qed
  qed
qed

lemma parse_typed_settled:
  "parse_typed fn priv p h = Inr (Wait p h) \<or> settled e (parse_typed fn priv p h) (parse_typed fn priv (ext e p) h)"
proof (cases "crlf (ps_bytes p)")
  case None
  then show ?thesis by (simp add: parse_typed_def Let_def parse_line_def parse_bulk_def parse_multi_def settled_def)
next
  case (Some q)
  have "parse_bulk fn p h = Inr (Wait p h) \<or> settled e (parse_bulk fn p h) (parse_bulk fn (ext e p) h)"
    using parse_bulk_settled [OF Some, of fn h e] by argo
  then show ?thesis using parse_line_settled [OF Some, of e fn h] parse_multi_settled [OF disjI2, OF Some, of e fn priv h]
    by (simp add: parse_typed_def Let_def settled_Inl)
qed

lemma parse_item_settled:
  assumes "parse_item fn priv p h = m" and "\<And>p' h'. m \<noteq> Inr (Wait p' h')"
  shows "parse_item fn priv (ext e p) h = map_sum id (ext_outcome e) m"
proof (cases "rt_type (hd (ps_stack p)) < 0")
  case False
  then show ?thesis using parse_typed_settled [of fn priv p h e] assms by (auto simp: parse_item_def settled_def)
next
  case True
  show ?thesis
  proof (cases "ps_bytes p")
    case Nil
    then show ?thesis using assms(1) assms(2) [of p h] True by (simp add: parse_item_def)
  next
    case (Cons c bs)
    let ?p = "\<lambda>ty. p\<lparr>ps_stack := (hd (ps_stack p))\<lparr>rt_type := ty\<rparr> # tl (ps_stack p), ps_bytes := bs\<rparr>"
    show ?thesis
    proof (cases "type_of_byte c")
      case None
      with assms(1) True Cons show ?thesis by (auto simp: parse_item_def)
    next
      case (Some ty)
      have "parse_item fn priv (ext e p) h = parse_typed fn priv (ext e (?p ty)) h"
        using True Cons Some by (simp add: parse_item_def ext_def)
      moreover have "parse_typed fn priv (?p ty) h = m" using assms(1) True Cons Some by (simp add: parse_item_def)
      ultimately show ?thesis using parse_typed_settled [of fn priv "?p ty" h e] assms(2) by (auto simp: settled_def)
    qed
  qed
qed

lemma parse_typed_Wait: "parse_typed fn priv p h = Inr (Wait p' h') \<Longrightarrow> p' = p \<and> h' = h"
  using parse_typed_settled [of fn priv p h "[]"] by (auto simp: settled_def)

lemma type_of_byte_pos: "type_of_byte c = Some ty \<Longrightarrow> 0 < ty"
  by (auto simp: type_of_byte_def split: if_splits)

lemma parse_item_Wait:
  assumes "parse_item fn priv p h = Inr (Wait p' h')"
  shows "h' = h" and "ps_stack p \<noteq> [] \<Longrightarrow> ps_stack p' \<noteq> []" and "parse_item fn priv (ext e p) h = parse_item fn priv (ext e p') h"
    and "ps_bytes p' = ps_bytes p \<or> (\<exists>c. ps_bytes p = c # ps_bytes p')"
proof -
  have "h' = h \<and> (ps_stack p \<noteq> [] \<longrightarrow> ps_stack p' \<noteq> []) \<and> parse_item fn priv (ext e p) h = parse_item fn priv (ext e p') h \<and>
    (ps_bytes p' = ps_bytes p \<or> (\<exists>c. ps_bytes p = c # ps_bytes p'))"
  proof (cases "rt_type (hd (ps_stack p)) < 0 \<and> ps_bytes p \<noteq> []")
    case False
    then show ?thesis using assms parse_typed_Wait [of fn priv p h p' h'] by (auto simp: parse_item_def split: if_splits)
  next
    case True
    then obtain c bs where bs: "ps_bytes p = c # bs" by (auto simp: neq_Nil_conv)
    obtain ty where ty: "type_of_byte c = Some ty"
      using assms True bs by (cases "type_of_byte c") (simp_all add: parse_item_def)
    let ?p = "p\<lparr>ps_stack := (hd (ps_stack p))\<lparr>rt_type := ty\<rparr> # tl (ps_stack p), ps_bytes := bs\<rparr>"
    have "parse_typed fn priv ?p h = Inr (Wait p' h')" using assms True bs ty by (simp add: parse_item_def)
    from parse_typed_Wait [OF this] have p': "p' = ?p" "h' = h" by simp_all
    have "parse_item fn priv (ext e p) h = parse_typed fn priv (ext e p') h"
      using True bs ty p' by (simp add: parse_item_def ext_def)
    also have "\<dots> = parse_item fn priv (ext e p') h" using type_of_byte_pos [OF ty] p' by (simp add: parse_item_def)
    finally show ?thesis using p' bs by simp
  qed
  then show "h' = h" "ps_stack p \<noteq> [] \<Longrightarrow> ps_stack p' \<noteq> []" "parse_item fn priv (ext e p) h = parse_item fn priv (ext e p') h"
    "ps_bytes p' = ps_bytes p \<or> (\<exists>c. ps_bytes p = c # ps_bytes p')" by simp_all
qed

lemma parse_finish_Item: "parse_finish obj p h = Inr (Item p' h') \<Longrightarrow> ps_bytes p' = ps_bytes p"
  by (auto simp: parse_finish_def rbind_eq_Inr_iff split: if_splits)

lemma rbind_parse_finish:
  "rbind m (\<lambda>(obj, h'). parse_finish obj p h') = Inr (Item p' h'') \<Longrightarrow> ps_bytes p' = ps_bytes p"
  by (auto simp: rbind_eq_Inr_iff dest: parse_finish_Item)

definition eats :: "pstate \<Rightarrow> pstate \<Rightarrow> bool" where
  "eats p p' \<longleftrightarrow> (\<exists>k. 0 < k \<and> k \<le> length (ps_bytes p) \<and> ps_bytes p' = drop k (ps_bytes p))"

lemma eatsI: "ps_bytes p' = drop k (ps_bytes p) \<Longrightarrow> 0 < k \<Longrightarrow> k \<le> length (ps_bytes p) \<Longrightarrow> eats p p'"
  by (auto simp: eats_def)

lemma parse_line_eats: "parse_line fn p h = Inr (Item p' h') \<Longrightarrow> eats p p'"
  unfolding parse_line_def
  by (cases "crlf (ps_bytes p)") (auto dest!: rbind_parse_finish crlf_Some intro: eatsI)

lemma parse_bulk_eats: "parse_bulk fn p h = Inr (Item p' h') \<Longrightarrow> eats p p'"
  unfolding parse_bulk_def
  by (cases "crlf (ps_bytes p)"; cases "readLongLong (take (Suc (the (crlf (ps_bytes p)))) (ps_bytes p))")
    (auto dest!: rbind_parse_finish crlf_Some intro: eatsI split: if_splits)

lemma parse_multi_eats:
  assumes "parse_multi fn priv p h = Inr (Item p' h')"
  shows "eats p p'"
proof -
  have short: "length (ps_stack p) \<noteq> 9" using assms by (auto simp: parse_multi_def)
  then obtain q where q: "crlf (ps_bytes p) = Some q"
    using assms by (cases "crlf (ps_bytes p)") (auto simp: parse_multi_def)
  then obtain n where n: "readLongLong (take (Suc q) (ps_bytes p)) = Inr n"
    using assms short by (cases "readLongLong (take (Suc q) (ps_bytes p))") (auto simp: parse_multi_def)
  have "ps_bytes p' = drop (q + 2) (ps_bytes p)"
  proof (cases "n = - 1")
    case True
    with assms short q n show ?thesis by (auto simp: parse_multi_def dest: rbind_parse_finish)
  next
    case False
    with assms short q n show ?thesis
      by (auto simp: parse_multi_def Let_def rbind_eq_Inr_iff split: if_splits dest: parse_finish_Item)
  qed
  then show ?thesis using crlf_Some [OF q] by (intro eatsI [of p' "q + 2"]) simp_all
qed

lemma parse_item_eats:
  assumes "parse_item fn priv p h = Inr (Item p' h')"
  shows "eats p p'"
proof -
  have typed: "parse_typed fn priv p h = Inr (Item p' h') \<Longrightarrow> eats p p'" for p
    by (auto simp: parse_typed_def Let_def split: if_splits dest: parse_line_eats parse_bulk_eats parse_multi_eats)
  show ?thesis
  proof (cases "rt_type (hd (ps_stack p)) < 0")
    case False
    then show ?thesis using assms typed by (simp add: parse_item_def)
  next
    case True
    then obtain c bs ty where "ps_bytes p = c # bs"
      "parse_typed fn priv (p\<lparr>ps_stack := (hd (ps_stack p))\<lparr>rt_type := ty\<rparr> # tl (ps_stack p), ps_bytes := bs\<rparr>) h = Inr (Item p' h')"
      using assms by (auto simp: parse_item_def split: list.splits option.splits)
    from this(1) typed [OF this(2)] obtain k where "ps_bytes p' = drop (Suc k) (ps_bytes p)" "Suc k \<le> length (ps_bytes p)"
      by (auto simp: eats_def)
    then show ?thesis by (intro eatsI [of p' "Suc k"]) simp_all
  qed
qed

subsection \<open>Whole replies\<close>

function parse_loop :: "'h redisReplyObjectFunctions option \<Rightarrow> nat \<Rightarrow> pstate \<Rightarrow> 'h \<Rightarrow> 'h outcome result" where
  "parse_loop fn priv p h =
     (if ps_stack p = [] then Inr (Item p h)
      else (case parse_item fn priv p h of
              Inl e \<Rightarrow> Inl e
            | Inr (Item p' h') \<Rightarrow> parse_loop fn priv p' h'
            | Inr oc \<Rightarrow> Inr oc))"
  by pat_completeness auto
termination
  by (relation "measure (\<lambda>(fn, priv, p, h). length (ps_bytes p))") (auto dest!: parse_item_eats simp: eats_def)

declare parse_loop.simps [simp del]

end
