(* ===== verification/Redis_Chunks.thy ===== *)
theory Redis_Chunks
  imports Redis_Reader_Laws
begin

text \<open>
  Feeding the reader of \<^verbatim>\<open>read.c\<close> in chunks: the replies depend on the bytes only, not on how they
  were cut.
\<close>

definition tail_of :: "pstate \<Rightarrow> pstate \<Rightarrow> bool" where
  "tail_of p p' \<longleftrightarrow> (\<exists>k. ps_bytes p' = drop k (ps_bytes p))"

lemma eats_tail: "eats p p1 \<Longrightarrow> tail_of p1 p' \<Longrightarrow> tail_of p p'"
  by (auto simp: tail_of_def eats_def)

lemma parse_loop_unfold:
  "ps_stack p \<noteq> [] \<Longrightarrow> parse_loop fn priv p h =
     (case parse_item fn priv p h of
        Inl e \<Rightarrow> Inl e
      | Inr (Item p' h') \<Rightarrow> parse_loop fn priv p' h'
      | Inr oc \<Rightarrow> Inr oc)"
  by (subst parse_loop.simps) simp

lemma parse_loop_Wait:
  "parse_loop fn priv p h = Inr (Wait p' h') \<Longrightarrow>
    ps_stack p' \<noteq> [] \<and> parse_loop fn priv (ext e p) h = parse_loop fn priv (ext e p') h' \<and> tail_of p p'"
proof (induction fn priv p h rule: parse_loop.induct)
  case (1 fn priv p h)
  then have st: "ps_stack p \<noteq> []" by (subst (asm) (2) parse_loop.simps) auto
  from "1.prems" consider (item) p1 h1 where "parse_item fn priv p h = Inr (Item p1 h1)" "parse_loop fn priv p1 h1 = Inr (Wait p' h')"
    | (wait) "parse_item fn priv p h = Inr (Wait p' h')"
    unfolding parse_loop_unfold [OF st] by (auto split: sum.splits outcome.splits)
  then show ?case
  proof cases
    case item
    have "parse_loop fn priv (ext e p) h = parse_loop fn priv (ext e p1) h1"
      using parse_item_settled [OF item(1), of e] st by (simp add: parse_loop_unfold)
    then show ?thesis using "1.IH" [OF st item(1) refl item(2)] eats_tail [OF parse_item_eats [OF item(1)]] by simp
  next
    case wait
    note w = parse_item_Wait [OF wait]
    have "parse_loop fn priv (ext e p) h = parse_loop fn priv (ext e p') h'"
      using w(1,2,3) st by (simp add: parse_loop_unfold)
    moreover have "tail_of p p'" using w(4) by (auto simp: tail_of_def intro: exI [of _ 0] exI [of _ 1])
    ultimately show ?thesis using w(2) st by blast
  qed
qed

lemma parse_loop_settled:
  "parse_loop fn priv p h = m \<Longrightarrow> (\<And>p' h'. m \<noteq> Inr (Wait p' h')) \<Longrightarrow>
    parse_loop fn priv (ext e p) h = map_sum id (ext_outcome e) m"
proof (induction fn priv p h rule: parse_loop.induct)
  case (1 fn priv p h)
  show ?case
  proof (cases "ps_stack p = []")
    case True
    then have "m = Inr (Item p h)" using "1.prems"(1) by (subst (asm) parse_loop.simps) simp
    with True show ?thesis by (subst parse_loop.simps) simp
  next
    case st: False
    have no: "parse_item fn priv p h \<noteq> Inr (Wait p' h')" for p' h'
    proof
      assume "parse_item fn priv p h = Inr (Wait p' h')"
      then have "m = Inr (Wait p' h')" using "1.prems"(1) st by (simp add: parse_loop_unfold)
      then show False using "1.prems"(2) by blast
    qed
    note step = parse_item_settled [OF refl no, of e]
    show ?thesis
    proof (cases "parse_item fn priv p h")
      case (Inl x)
      then have "m = Inl x" using "1.prems"(1) st by (simp add: parse_loop_unfold)
      with Inl step st show ?thesis by (simp add: parse_loop_unfold)
    next
      case (Inr oc)
      show ?thesis
      proof (cases oc)
        case (Item p1 h1)
        with Inr have i: "parse_item fn priv p h = Inr (Item p1 h1)" by simp
        have "parse_loop fn priv p1 h1 = m" using "1.prems"(1) st i by (simp add: parse_loop_unfold)
        from "1.IH" [OF st i refl this "1.prems"(2)] show ?thesis using step i st by (simp add: parse_loop_unfold)
      next
        case (Wait p1 h1)
        then show ?thesis using no Inr by blast
      next
        case (Broken ty msg a h1)
        with Inr have "m = Inr (Broken ty msg a h1)" using "1.prems"(1) st by (simp add: parse_loop_unfold)
        then show ?thesis using step Inr st Broken by (simp add: parse_loop_unfold)
      qed
    qed
  qed
qed

lemma parse_loop_Item:
  "parse_loop fn priv p h = Inr (Item p' h') \<Longrightarrow> ps_stack p' = [] \<and> tail_of p p'"
proof (induction fn priv p h rule: parse_loop.induct)
  case (1 fn priv p h)
  show ?case
  proof (cases "ps_stack p = []")
    case True
    with "1.prems" show ?thesis by (subst (asm) parse_loop.simps) (auto simp: tail_of_def intro: exI [of _ 0])
  next
    case st: False
    then obtain p1 h1 where i: "parse_item fn priv p h = Inr (Item p1 h1)" "parse_loop fn priv p1 h1 = Inr (Item p' h')"
      using "1.prems" by (auto simp: parse_loop_unfold split: sum.splits outcome.splits)
    then show ?thesis using "1.IH" [OF st i(1) refl i(2)] eats_tail [OF parse_item_eats [OF i(1)]] by simp
  qed
qed

subsection \<open>The loop of \<^verbatim>\<open>redisReaderGetReply\<close>\<close>

definition run_end ::
  "'h redisReplyObjectFunctions option \<Rightarrow> redisReader \<Rightarrow> 'h outcome \<Rightarrow> (redisReader \<times> 'h) result" where
  "run_end fn r oc =
     (case oc of
        Item p h \<Rightarrow> Inr (with_pstate r p, h)
      | Wait p h \<Rightarrow> Inr (with_pstate r p, h)
      | Broken ty msg a h \<Rightarrow> redisReaderSetError fn ty msg (r\<lparr>rd_reply := a\<rparr>) h)"

lemma with_pstate_ok:
  assumes "reader_ok r" and "ps_bytes p = drop k (unread r)"
  shows "reader_ok (with_pstate r p)" and "pstate_of (with_pstate r p) = p"
proof -
  from assms(1) obtain s where s: "rd_buf r = Some s" "sds_ok s" "rd_len r = sdslen s" "rd_pos r \<le> rd_len r"
    by (auto simp: reader_ok_def)
  show "reader_ok (with_pstate r p)" using assms(1) by (simp add: reader_ok_def with_pstate_def)
  have "unread (with_pstate r p) = drop (rd_len r - (length (unread r) - k)) (content s)"
    using s(1) assms(2) unfolding unread_def [of "with_pstate r p"] by (simp add: with_pstate_def)
  also have "\<dots> = drop k (unread r)"
  proof (cases "k \<le> length (unread r)")
    case True
    have "unread r = drop (rd_pos r) (content s)" using s by (simp add: unread_def)
    with cursor_after [OF assms(1) True] show ?thesis by (simp add: add.commute)
  next
    case False
    then show ?thesis using s length_content [OF s(2)] by simp
  qed
  finally show "pstate_of (with_pstate r p) = p" using assms(2) by (simp add: pstate_of_def with_pstate_def)
qed

lemma run_end_with: "reader_ok r \<Longrightarrow> run_end fn (with_pstate r p) = run_end fn r"
  using reader_ok_buf [of r]
  by (auto simp: run_end_def with_pstate_def fun_eq_iff redisReaderSetError_def split: outcome.splits option.splits)

lemma process_loop_parse:
  "reader_ok r \<Longrightarrow> fn_local fn \<Longrightarrow>
    process_loop fn r h = rbind (parse_loop fn (rd_privdata r) (pstate_of r) h) (run_end fn r)"
proof (induction fn r h rule: process_loop.induct)
  case (1 fn r h)
  show ?case
  proof (cases "rd_stack r = []")
    case True
    then show ?thesis using wait_unread [OF "1.prems"(1)]
      by (subst process_loop.simps, subst parse_loop.simps) (simp add: run_end_def)
  next
    case st: False
    then have st': "ps_stack (pstate_of r) \<noteq> []" by simp
    note item = processItem_parse [OF "1.prems", of h]
    show ?thesis
    proof (cases "parse_item fn (rd_privdata r) (pstate_of r) h")
      case (Inl x)
      with item st show ?thesis by (subst process_loop.simps) (simp add: parse_loop_unfold [OF st'])
    next
      case (Inr oc)
      show ?thesis
      proof (cases oc)
        case (Item p h1)
        let ?r = "with_pstate r p"
        obtain k where "ps_bytes p = drop k (unread r)"
          using parse_item_eats [of fn "rd_privdata r" "pstate_of r" h p h1] Inr Item by (auto simp: eats_def)
        note ok = with_pstate_ok [OF "1.prems"(1) this]
        have i: "processItem fn r h = Inr (?r, h1, True)" using item Inr Item by (simp add: run_outcome_def)
        have "process_loop fn r h = process_loop fn ?r h1" using i st by (subst process_loop.simps) simp
        also have "\<dots> = rbind (parse_loop fn (rd_privdata ?r) (pstate_of ?r) h1) (run_end fn ?r)"
          by (rule "1.IH" [OF st i refl refl _ ok(1) "1.prems"(2)]) simp
        finally show ?thesis using Inr Item ok(2) run_end_with [OF "1.prems"(1), of fn p]
          by (simp add: parse_loop_unfold [OF st'] with_pstate_def)
      next
        case (Wait p h1)
        with item Inr st show ?thesis
          by (subst process_loop.simps) (simp add: parse_loop_unfold [OF st'] run_outcome_def run_end_def)
      next
        case (Broken ty msg a h1)
        with item Inr st show ?thesis
          by (subst process_loop.simps) (cases "redisReaderSetError fn ty msg (r\<lparr>rd_reply := a\<rparr>) h1";
            simp add: parse_loop_unfold [OF st'] run_outcome_def run_end_def case_prod_beta)
      qed
    qed
  qed
qed

subsection \<open>Feeding\<close>

lemma sdsrange_tail:
  assumes "sds_ok s" and "n \<le> sdslen s"
  shows "\<exists>s'. sdsrange s (to_int n) (- 1) = Inr s' \<and> sds_ok s' \<and> content s' = drop n (content s)"
proof -
  have "to_int n = int n" using assms sds_ok_dest(4) [OF assms(1)] by (intro to_int_small) simp
  moreover obtain s' where "sdsrange s (int n) (- 1) = Inr s'" "sds_ok s'"
    "content s' = take (nat (int (sdslen s) - int n)) (drop n (content s))"
    using sdsrange_ok [OF assms(1), of "int n" "- 1"] by (auto simp: Let_def)
  ultimately show ?thesis using length_content [OF assms(1)] by (auto simp flip: of_nat_diff)
qed

lemma discard_read_ok:
  assumes "reader_ok r"
  shows "\<exists>r'. discard_read r = Inr r' \<and> reader_ok r' \<and> pstate_of r' = pstate_of r \<and> rd_privdata r' = rd_privdata r \<and> rd_len r' \<le> rd_len r \<and>
    rd_pos r' < 1024"
proof (cases "1024 \<le> rd_pos r")
  case True
  from assms obtain s where s: "rd_buf r = Some s" "sds_ok s" "rd_len r = sdslen s" "rd_pos r \<le> rd_len r" "rd_err r = 0"
    by (auto simp: reader_ok_def)
  then obtain s' where s': "sdsrange s (to_int (rd_pos r)) (- 1) = Inr s'" "sds_ok s'" "content s' = drop (rd_pos r) (content s)"
    using sdsrange_tail [of s "rd_pos r"] by auto
  then have "sdslen s' \<le> sdslen s" using length_content [of s'] length_content [of s] s by simp
  with True s s' show ?thesis by (auto simp: discard_read_def reader_ok_def pstate_of_def unread_def)
qed (use assms in \<open>simp add: discard_read_def\<close>)

lemma redisReaderFeed_ok:
  assumes r: "reader_ok r" and A: "\<And>n. al_ok A n" and "bytes \<noteq> []" and len: "rd_len r + length bytes < 2 ^ 30"
  shows "\<exists>r'. redisReaderFeed A fn r bytes h = Inr (r', h, True) \<and> reader_ok r' \<and> pstate_of r' = ext bytes (pstate_of r) \<and>
    rd_privdata r' = rd_privdata r \<and> rd_len r' = rd_len r + length bytes"
proof -
  from r obtain s where s: "rd_buf r = Some s" "sds_ok s" "rd_len r = sdslen s" "rd_pos r \<le> rd_len r" "rd_err r = 0"
    by (auto simp: reader_ok_def)
  have "\<exists>r1 s1. feed_buf A r = Inr r1 \<and> rd_buf r1 = Some s1 \<and> sds_ok s1 \<and> rd_len r = sdslen s1 \<and> rd_pos r1 \<le> rd_len r \<and>
    pstate_of r1 = pstate_of r \<and> rd_privdata r1 = rd_privdata r \<and> rd_err r1 = 0"
  proof (cases "rd_len r = 0 \<and> rd_maxbuf r \<noteq> 0 \<and> rd_maxbuf r < sdsavail s")
    case True
    obtain e where e: "sdsempty A = Inr (Some e)" "sds_ok e" "content e = []"
      using sdsempty_ok [of A] A by (auto simp: yields_def)
    have "content s = []" "sdslen e = 0" using True s length_content [of s] length_content [of e] e by auto
    with True s e show ?thesis by (auto simp: feed_buf_def pstate_of_def unread_def)
  qed (use s in \<open>auto simp: feed_buf_def\<close>)
  then obtain r1 s1 where 1: "feed_buf A r = Inr r1" "rd_buf r1 = Some s1" "sds_ok s1" "rd_len r = sdslen s1" "rd_pos r1 \<le> rd_len r"
    "pstate_of r1 = pstate_of r" "rd_privdata r1 = rd_privdata r" "rd_err r1 = 0" by blast
  obtain s2 where 2: "sdscatlen A s1 bytes (length bytes) = Inr (Some s2)" "sds_ok s2" "content s2 = content s1 @ bytes"
    using sdscatlen_ok [of s1 "length bytes" bytes A] 1 A len by (auto simp: yields_def)
  have "sdslen s2 = rd_len r + length bytes" using length_content [of s2] length_content [of s1] 1 2 by simp
  moreover have "pstate_of (r1\<lparr>rd_buf := Some s2, rd_len := sdslen s2\<rparr>) = ext bytes (pstate_of r1)"
    using 1 2 length_content [of s1] by (simp add: pstate_of_def unread_def ext_def)
  ultimately show ?thesis using assms(3) s 1 2 by (auto simp: redisReaderFeed_def reader_ok_def)
qed

text \<open>A call of \<^verbatim>\<open>redisReaderGetReply\<close> starts a reply when none is under way.\<close>

definition started :: "nat \<Rightarrow> pstate \<Rightarrow> pstate" where
  "started priv p = (if ps_stack p = [] then p\<lparr>ps_stack := [fresh_task (- 1) priv]\<rparr> else p)"

lemma ext_ext: "ext e (ext b q) = ext (b @ e) q"
  by (simp add: ext_def)

lemma started_ext: "started priv (ext e p) = ext e (started priv p)"
  by (simp add: started_def ext_upd)

lemma unread_upd [simp]:
  "unread (r\<lparr>rd_stack := st\<rparr>) = unread r" "unread (r\<lparr>rd_reply := a\<rparr>) = unread r"
  by (cases "rd_buf r"; simp add: unread_def)+

lemma pstate_of_started:
  "pstate_of (r\<lparr>rd_stack := ps_stack (started priv (pstate_of r))\<rparr>) = started priv (pstate_of r)"
  by (simp add: started_def pstate_of_def)

lemma GetReply_loop:
  assumes r: "reader_ok r" and "0 < rd_len r" and fn: "fn_local fn"
  defines "r0 \<equiv> r\<lparr>rd_stack := ps_stack (started (rd_privdata r) (pstate_of r))\<rparr>"
  shows "redisReaderGetReply fn r h =
    rbind (rbind (parse_loop fn (rd_privdata r) (started (rd_privdata r) (pstate_of r)) h) (run_end fn r0)) (\<lambda>(r1, h1).
        if rd_err r1 \<noteq> 0 then Inr (r1, h1, 0, False)
        else
          rbind (discard_read r1) (\<lambda>r2.
          if rd_stack r2 = [] then Inr (r2\<lparr>rd_reply := 0\<rparr>, h1, rd_reply r2, True)
          else Inr (r2, h1, 0, True)))"
    and "reader_ok r0"
proof -
  have r0: "r0 = (if rd_stack r = [] then r\<lparr>rd_stack := [root_task r]\<rparr> else r)"
    by (simp add: r0_def started_def fresh_task_def root_task_def)
  have p0: "pstate_of r0 = started (rd_privdata r) (pstate_of r)"
    unfolding r0_def by (rule pstate_of_started)
  show ok: "reader_ok r0" using r by (simp add: r0_def reader_ok_def)
  have "rd_privdata r0 = rd_privdata r" by (simp add: r0_def)
  then show "redisReaderGetReply fn r h =
    rbind (rbind (parse_loop fn (rd_privdata r) (started (rd_privdata r) (pstate_of r)) h) (run_end fn r0)) (\<lambda>(r1, h1).
        if rd_err r1 \<noteq> 0 then Inr (r1, h1, 0, False)
        else
          rbind (discard_read r1) (\<lambda>r2.
          if rd_stack r2 = [] then Inr (r2\<lparr>rd_reply := 0\<rparr>, h1, rd_reply r2, True)
          else Inr (r2, h1, 0, True)))"
    unfolding redisReaderGetReply_def r0 [symmetric] using assms(2) r process_loop_parse [OF ok fn, of h]
    by (simp add: p0 reader_ok_def)
qed

lemma with_pstate_end:
  assumes r: "reader_ok r" and tail: "tail_of (pstate_of r) p"
  obtains r2 where "discard_read (with_pstate r p) = Inr r2" "reader_ok r2" "pstate_of r2 = p"
    "rd_privdata r2 = rd_privdata r" "rd_len r2 \<le> rd_len r" "rd_pos r2 < 1024"
proof -
  from tail obtain k where "ps_bytes p = drop k (unread r)" by (auto simp: tail_of_def)
  note ok = with_pstate_ok [OF r this]
  have "rd_privdata (with_pstate r p) = rd_privdata r" "rd_len (with_pstate r p) = rd_len r" by (simp_all add: with_pstate_def)
  then show thesis using discard_read_ok [OF ok(1)] ok(2) that by auto
qed

lemma GetReply_Wait:
  assumes r: "reader_ok r" and len: "0 < rd_len r" and fn: "fn_local fn"
    and wait: "parse_loop fn (rd_privdata r) (started (rd_privdata r) (pstate_of r)) h = Inr (Wait p h')"
  shows "\<exists>r'. redisReaderGetReply fn r h = Inr (r', h', 0, True) \<and> reader_ok r' \<and> pstate_of r' = p \<and>
    rd_privdata r' = rd_privdata r \<and> rd_len r' \<le> rd_len r"
proof -
  let ?r0 = "r\<lparr>rd_stack := ps_stack (started (rd_privdata r) (pstate_of r))\<rparr>"
  note loop = GetReply_loop [OF r len fn]
  have "pstate_of ?r0 = started (rd_privdata r) (pstate_of r)" by (rule pstate_of_started)
  then have "tail_of (pstate_of ?r0) p" "ps_stack p \<noteq> []" using parse_loop_Wait [OF wait] by simp_all
  with with_pstate_end [OF loop(2)] obtain r2 where
    "discard_read (with_pstate ?r0 p) = Inr r2" "reader_ok r2" "pstate_of r2 = p" "rd_privdata r2 = rd_privdata r" "rd_len r2 \<le> rd_len r"
    by auto
  moreover have "rd_stack r2 \<noteq> []" using \<open>ps_stack p \<noteq> []\<close> \<open>pstate_of r2 = p\<close> by auto
  moreover have "rd_err (with_pstate ?r0 p) = 0" using r by (simp add: with_pstate_def reader_ok_def)
  ultimately show ?thesis using loop(1) wait by (simp add: run_end_def)
qed

lemma GetReply_Item:
  assumes r: "reader_ok r" and len: "0 < rd_len r" and fn: "fn_local fn"
    and item: "parse_loop fn (rd_privdata r) (started (rd_privdata r) (pstate_of r)) h = Inr (Item p h')"
  shows "\<exists>r'. redisReaderGetReply fn r h = Inr (r', h', ps_reply p, True) \<and> reader_ok r' \<and> pstate_of r' = p\<lparr>ps_reply := 0\<rparr> \<and>
    rd_privdata r' = rd_privdata r \<and> rd_len r' \<le> rd_len r \<and> rd_pos r' < 1024"
proof -
  let ?r0 = "r\<lparr>rd_stack := ps_stack (started (rd_privdata r) (pstate_of r))\<rparr>"
  note loop = GetReply_loop [OF r len fn]
  have "pstate_of ?r0 = started (rd_privdata r) (pstate_of r)" by (rule pstate_of_started)
  then have "tail_of (pstate_of ?r0) p" "ps_stack p = []" using parse_loop_Item [OF item] by simp_all
  with with_pstate_end [OF loop(2)] obtain r2 where
    2: "discard_read (with_pstate ?r0 p) = Inr r2" "reader_ok r2" "pstate_of r2 = p" "rd_privdata r2 = rd_privdata r" "rd_len r2 \<le> rd_len r" "rd_pos r2 < 1024"
    by auto
  have "rd_stack r2 = []" "rd_reply r2 = ps_reply p" using \<open>ps_stack p = []\<close> 2(3) by auto
  moreover have "reader_ok (r2\<lparr>rd_reply := 0\<rparr>)" "pstate_of (r2\<lparr>rd_reply := 0\<rparr>) = p\<lparr>ps_reply := 0\<rparr>"
    using 2(2,3) by (auto simp: reader_ok_def pstate_of_def unread_def)
  moreover have "rd_err (with_pstate ?r0 p) = 0" using r by (simp add: with_pstate_def reader_ok_def)
  ultimately show ?thesis using loop(1) item 2 by (simp add: run_end_def)
qed

text \<open>What is still to come completes a reply: the parser, given these bytes as well, ends with \<open>p\<close> and \<open>h'\<close>.\<close>

definition completes ::
  "'h redisReplyObjectFunctions option \<Rightarrow> redisReader \<Rightarrow> 'h \<Rightarrow> string \<Rightarrow> pstate \<Rightarrow> 'h \<Rightarrow> bool" where
  "completes fn r h e p h' \<longleftrightarrow> reader_ok r \<and> rd_len r + length e < 2 ^ 30 \<and> ps_bytes p = [] \<and>
     parse_loop fn (rd_privdata r) (ext e (started (rd_privdata r) (pstate_of r))) h = Inr (Item p h')"

text \<open>Asking for a reply before all of it has arrived.\<close>

lemma poll_step:
  assumes fn: "fn_local fn" and c: "completes fn r h e p h'" and e: "e \<noteq> []"
  shows "\<exists>r2 h2. redisReaderGetReply fn r h = Inr (r2, h2, 0, True) \<and> completes fn r2 h2 e p h' \<and> rd_privdata r2 = rd_privdata r"
proof (cases "rd_len r = 0")
  case True
  then show ?thesis using c by (auto simp: redisReaderGetReply_def completes_def reader_ok_def)
next
  case False
  let ?p = "started (rd_privdata r) (pstate_of r)"
  have r: "reader_ok r" "0 < rd_len r" and whole: "parse_loop fn (rd_privdata r) (ext e ?p) h = Inr (Item p h')" and p: "ps_bytes p = []"
    using c False by (simp_all add: completes_def)
  obtain p1 h1 where wait: "parse_loop fn (rd_privdata r) ?p h = Inr (Wait p1 h1)"
  proof (rule ccontr)
    assume "\<not> thesis"
    with that have "parse_loop fn (rd_privdata r) ?p h \<noteq> Inr (Wait p' h'')" for p' h'' by blast
    from parse_loop_settled [OF refl this, of e] whole
    have "map_sum id (ext_outcome e) (parse_loop fn (rd_privdata r) ?p h) = Inr (Item p h')" by simp
    then obtain p' where "p = ext e p'"
      by (cases "parse_loop fn (rd_privdata r) ?p h") (auto elim!: ext_outcome.elims)
    then show False using p e by simp
  qed
  from GetReply_Wait [OF r fn wait] obtain r2 where r2: "redisReaderGetReply fn r h = Inr (r2, h1, 0, True)" "reader_ok r2"
    "pstate_of r2 = p1" "rd_privdata r2 = rd_privdata r" "rd_len r2 \<le> rd_len r" by blast
  have "started (rd_privdata r2) (pstate_of r2) = p1" using parse_loop_Wait [OF wait] r2(3) by (simp add: started_def)
  then have "completes fn r2 h1 e p h'"
    using c whole parse_loop_Wait [OF wait, of e] r2 by (simp add: completes_def)
  then show ?thesis using r2 by blast
qed

lemma feed_step:
  assumes A: "\<And>n. al_ok A n" and c: "completes fn r h (b @ e) p h'" and b: "b \<noteq> []"
  shows "\<exists>r1. redisReaderFeed A fn r b h = Inr (r1, h, True) \<and> completes fn r1 h e p h' \<and> 0 < rd_len r1 \<and> rd_privdata r1 = rd_privdata r"
proof -
  have r: "reader_ok r" "rd_len r + length b < 2 ^ 30" using c by (simp_all add: completes_def)
  from redisReaderFeed_ok [OF r(1) A b r(2), of fn h] obtain r1 where
    r1: "redisReaderFeed A fn r b h = Inr (r1, h, True)" "reader_ok r1" "pstate_of r1 = ext b (pstate_of r)"
    "rd_privdata r1 = rd_privdata r" "rd_len r1 = rd_len r + length b" by blast
  have "ext e (started (rd_privdata r1) (pstate_of r1)) = ext (b @ e) (started (rd_privdata r) (pstate_of r))"
    using r1(3,4) by (simp add: started_ext ext_ext)
  then show ?thesis using r1 c b by (auto simp: completes_def)
qed

lemma last_step:
  assumes fn: "fn_local fn" and c: "completes fn r h [] p h'" and "0 < rd_len r"
  shows "\<exists>r'. redisReaderGetReply fn r h = Inr (r', h', ps_reply p, True) \<and> reader_ok r' \<and> pstate_of r' = p\<lparr>ps_reply := 0\<rparr> \<and>
    rd_privdata r' = rd_privdata r \<and> rd_len r' \<le> rd_len r \<and> rd_pos r' < 1024"
  using c assms(3) by (intro GetReply_Item [OF _ _ fn]) (simp_all add: completes_def ext_def)

fun feed_chunks ::
  "allocator \<Rightarrow> 'h redisReplyObjectFunctions option \<Rightarrow> string list \<Rightarrow> redisReader \<Rightarrow> 'h \<Rightarrow> (redisReader \<times> 'h \<times> nat list) result" where
  "feed_chunks A fn [] r h = Inr (r, h, [])"
| "feed_chunks A fn (c # cs) r h =
     rbind (redisReaderFeed A fn r c h) (\<lambda>(r1, h1, ok).
     if \<not> ok then Inr (r1, h1, [])
     else
       rbind (redisReaderGetReply fn r1 h1) (\<lambda>(r2, h2, a, ok).
       if \<not> ok then Inr (r2, h2, [])
       else rbind (feed_chunks A fn cs r2 h2) (\<lambda>(r3, h3, as). Inr (r3, h3, a # as))))"

lemma feed_chunks_parse:
  assumes A: "\<And>n. al_ok A n" and fn: "fn_local fn"
  shows "cs \<noteq> [] \<Longrightarrow> [] \<notin> set cs \<Longrightarrow> completes fn r h (concat cs) p h' \<Longrightarrow>
    \<exists>r'. feed_chunks A fn cs r h = Inr (r', h', replicate (length cs - 1) 0 @ [ps_reply p]) \<and> reader_ok r' \<and>
      pstate_of r' = p\<lparr>ps_reply := 0\<rparr> \<and> rd_privdata r' = rd_privdata r"
proof (induction cs arbitrary: r h)
  case (Cons c cs)
  obtain r1 where r1: "redisReaderFeed A fn r c h = Inr (r1, h, True)" "completes fn r1 h (concat cs) p h'" "0 < rd_len r1"
    "rd_privdata r1 = rd_privdata r" using feed_step [OF A, of fn r h c "concat cs" p h'] Cons.prems by auto
  show ?case
  proof (cases "cs = []")
    case True
    then have "completes fn r1 h [] p h'" using r1(2) by simp
    from last_step [OF fn this r1(3)] True r1 show ?thesis by auto
  next
    case False
    then have "concat cs \<noteq> []" using Cons.prems(2) by (cases cs) auto
    from poll_step [OF fn r1(2) this] obtain r2 h2 where
      r2: "redisReaderGetReply fn r1 h = Inr (r2, h2, 0, True)" "completes fn r2 h2 (concat cs) p h'" "rd_privdata r2 = rd_privdata r1" by blast
    from Cons.IH [OF False _ r2(2)] Cons.prems(2) r2(3) r1(4)
    obtain r' where "feed_chunks A fn cs r2 h2 = Inr (r', h', replicate (length cs - 1) 0 @ [ps_reply p])" "reader_ok r'"
      "pstate_of r' = p\<lparr>ps_reply := 0\<rparr>" "rd_privdata r' = rd_privdata r" by auto
    with r1(1) r2(1) False show ?thesis by (cases cs) auto
  qed
qed simp

end
