(* ===== verification/Redis_Roundtrip.thy ===== *)
theory Redis_Roundtrip
  imports Redis_Chunks
begin

text \<open>
  Round trip of the Redis protocol: the reader of \<^verbatim>\<open>read.c\<close> with the reply objects of \<^verbatim>\<open>hiredis.c\<close>
  rebuilds every reply from its encoding, however the encoding is cut into chunks, and
  \<^verbatim>\<open>freeReplyObject\<close> releases exactly what was built.
\<close>

subsection \<open>Numbers\<close>

lemma readLongLong_loop_digits:
  "list_all isdigit ds \<Longrightarrow> readLongLong_loop (ds @ CR # x) (word_of_nat n) mult =
    Inr (sint (word_of_int mult * word_of_nat (foldl (\<lambda>a c. 10 * a + digit_val c) n ds) :: u64))"
proof (induction ds arbitrary: n)
  case (Cons c ds)
  have "(word_of_nat n :: u64) * 10 + word_of_nat (of_char c - 48) = word_of_nat (10 * n + digit_val c)"
    by (simp add: digit_val_def mult.commute)
  moreover have "isdigit c" "c \<noteq> CR" using Cons.prems by (auto simp: isdigit_def)
  ultimately have "readLongLong_loop ((c # ds) @ CR # x) (word_of_nat n) mult =
      readLongLong_loop (ds @ CR # x) (word_of_nat (10 * n + digit_val c)) mult"
    by (simp only: append_Cons readLongLong_loop.simps if_False if_True)
  with Cons.IH [of "10 * n + digit_val c"] Cons.prems show ?case by simp
qed simp

lemma sint_of_int: "- (2 ^ 63) \<le> n \<Longrightarrow> n < 2 ^ 63 \<Longrightarrow> sint (word_of_int n :: u64) = n"
  by (simp add: signed_of_int signed_take_bit_int_eq_self)

lemma readLongLong_int:
  assumes "- (2 ^ 63) \<le> n" "n < 2 ^ 63"
  shows "readLongLong (int_to_string n @ CR # x) = Inr n"
proof -
  have digits: "list_all isdigit (to_string k)" for k by (simp add: list_all_iff to_string_digits)
  have val: "foldl (\<lambda>a c. 10 * a + digit_val c) 0 (to_string k) = k" for k
    using digits_val_to_string [of k] by (simp add: digits_val_def)
  show ?thesis
  proof (cases "n < 0")
    case True
    have "(word_of_nat (nat (- n)) :: u64) = - word_of_int n" using True by (simp add: of_nat_nat)
    then have w: "word_of_int (- 1) * word_of_nat (nat (- n)) = (word_of_int n :: u64)" by simp
    have "readLongLong (int_to_string n @ CR # x) = readLongLong_loop (to_string (nat (- n)) @ CR # x) (word_of_nat 0) (- 1)"
      using True by (simp add: readLongLong_def int_to_string_def)
    also have "\<dots> = Inr n" unfolding readLongLong_loop_digits [OF digits] val w sint_of_int [OF assms] ..
    finally show ?thesis .
  next
    case False
    obtain c cs where c: "to_string (nat n) = c # cs" by (cases "to_string (nat n)") simp_all
    then have "isdigit c" using digits [of "nat n"] by simp
    then have "c \<noteq> CHR ''-''" "c \<noteq> CHR ''+''" by (auto simp: isdigit_def)
    then have "readLongLong (int_to_string n @ CR # x) = readLongLong_loop (to_string (nat n) @ CR # x) (word_of_nat 0) 1"
      using False c by (simp add: readLongLong_def int_to_string_def)
    moreover have w: "word_of_int 1 * word_of_nat (nat n) = (word_of_int n :: u64)" using False by (simp add: of_nat_nat)
    have "readLongLong_loop (to_string (nat n) @ CR # x) (word_of_nat 0) 1 = Inr n"
      unfolding readLongLong_loop_digits [OF digits] val w sint_of_int [OF assms] ..
    ultimately show ?thesis by simp
  qed
qed

lemma int_to_string_no_cr: "CR \<notin> set (int_to_string n)"
proof
  assume "CR \<in> set (int_to_string n)"
  then have "CR \<in> set (to_string (nat n)) \<or> CR \<in> set (to_string (nat (- n)))"
    by (auto simp: int_to_string_def split: if_splits)
  then have "isdigit CR" using to_string_digits by blast
  then show False by (simp add: isdigit_def)
qed

subsection \<open>Replies and their encoding\<close>

datatype reply =
    RStatus string
  | RError string
  | RInteger int
  | RString string
  | RNil
  | RArray "reply list"

definition line :: "char \<Rightarrow> string \<Rightarrow> string" where
  "line c s = c # s @ [CR, LF]"

fun encode :: "reply \<Rightarrow> string" where
  "encode (RStatus s) = line (CHR ''+'') s"
| "encode (RError s) = line (CHR ''-'') s"
| "encode (RInteger n) = line (CHR '':'') (int_to_string n)"
| "encode (RString s) = line (CHR ''$'') (to_string (length s)) @ s @ [CR, LF]"
| "encode RNil = line (CHR ''$'') ''-1''"
| "encode (RArray vs) = line (CHR ''*'') (to_string (length vs)) @ concat (map encode vs)"

text \<open>What the protocol can carry: lines without CR, 64-bit integers, 31-bit counts.\<close>

fun wf_reply :: "reply \<Rightarrow> bool" where
  "wf_reply (RStatus s) = (CR \<notin> set s)"
| "wf_reply (RError s) = (CR \<notin> set s)"
| "wf_reply (RInteger n) = (- (2 ^ 63) \<le> n \<and> n < 2 ^ 63)"
| "wf_reply (RString s) = (length s < 2 ^ 31)"
| "wf_reply RNil = True"
| "wf_reply (RArray vs) = (length vs < 2 ^ 31 \<and> list_all wf_reply vs)"

fun depth :: "reply \<Rightarrow> nat" where
  "depth (RArray vs) = Suc (fold max (map depth vs) 0)"
| "depth _ = 0"

fun nodes :: "reply \<Rightarrow> nat" where
  "nodes (RArray vs) = Suc (sum_list (map nodes vs))"
| "nodes _ = 1"

subsection \<open>Replies in the heap\<close>

text \<open>A reply occupies consecutive addresses: the object itself, then its elements in order.\<close>

definition string_obj :: "int \<Rightarrow> string \<Rightarrow> redisReply" where
  "string_obj ty s = (blank_reply ty)\<lparr>ry_str := Some (s @ [NUL]), ry_len := to_int (length s)\<rparr>"

definition array_obj :: "nat list \<Rightarrow> redisReply" where
  "array_obj as = (blank_reply REDIS_REPLY_ARRAY)\<lparr>ry_element := (if as = [] then None else Some as), ry_elements := length as\<rparr>"

fun addrs :: "nat \<Rightarrow> reply list \<Rightarrow> nat list" where
  "addrs a [] = []"
| "addrs a (v # vs) = a # addrs (a + nodes v) vs"

fun rep :: "(nat \<rightharpoonup> redisReply) \<Rightarrow> nat \<Rightarrow> reply \<Rightarrow> bool"
  and reps :: "(nat \<rightharpoonup> redisReply) \<Rightarrow> nat \<Rightarrow> reply list \<Rightarrow> bool" where
  "rep m a (RStatus s) = (m a = Some (string_obj REDIS_REPLY_STATUS s))"
| "rep m a (RError s) = (m a = Some (string_obj REDIS_REPLY_ERROR s))"
| "rep m a (RInteger n) = (m a = Some ((blank_reply REDIS_REPLY_INTEGER)\<lparr>ry_integer := n\<rparr>))"
| "rep m a (RString s) = (m a = Some (string_obj REDIS_REPLY_STRING s))"
| "rep m a RNil = (m a = Some (blank_reply REDIS_REPLY_NIL))"
| "rep m a (RArray vs) = (m a = Some (array_obj (addrs (Suc a) vs)) \<and> reps m (Suc a) vs)"
| "reps m a [] = True"
| "reps m a (v # vs) = (rep m a v \<and> reps m (a + nodes v) vs)"

lemma length_addrs [simp]: "length (addrs a vs) = length vs"
  by (induction a vs rule: addrs.induct) simp_all

lemma nodes_pos [simp]: "0 < nodes v"
  by (cases v) simp_all

lemma rep_frame:
  "rep m a v \<Longrightarrow> (\<And>x. a \<le> x \<Longrightarrow> x < a + nodes v \<Longrightarrow> m' x = m x) \<Longrightarrow> rep m' a v"
  "reps m a vs \<Longrightarrow> (\<And>x. a \<le> x \<Longrightarrow> x < a + sum_list (map nodes vs) \<Longrightarrow> m' x = m x) \<Longrightarrow> reps m' a vs"
  by (induction m a v and m a vs rule: rep_reps.induct) simp_all

definition heap_ok :: "reply_heap \<Rightarrow> bool" where
  "heap_ok h \<longleftrightarrow> 0 < rh_next h \<and> (\<forall>x. rh_next h \<le> x \<longrightarrow> rh_objs h x = None)"

lemma heap_ok_next: "heap_ok h \<Longrightarrow> rh_next h \<noteq> 0"
  by (simp add: heap_ok_def)

definition slot_ok :: "task_stack \<Rightarrow> reply_heap \<Rightarrow> bool" where
  "slot_ok st h \<longleftrightarrow>
     (case st of
        cur # prv # ps \<Rightarrow>
          (\<exists>r es. rh_objs h (rt_obj prv) = Some r \<and> ry_type r = REDIS_REPLY_ARRAY \<and> ry_element r = Some es \<and>
             0 \<le> rt_idx cur \<and> nat (rt_idx cur) < length es)
      | _ \<Rightarrow> True)"

definition stored :: "task_stack \<Rightarrow> nat \<Rightarrow> reply_heap \<Rightarrow> reply_heap" where
  "stored st a h = (case store_in_parent st a h of Inr h' \<Rightarrow> h' | Inl e \<Rightarrow> h)"

definition alloc_obj :: "redisReply \<Rightarrow> reply_heap \<Rightarrow> reply_heap" where
  "alloc_obj r h = \<lparr>rh_next = Suc (rh_next h), rh_objs = (rh_objs h)(rh_next h \<mapsto> r)\<rparr>"

text \<open>The heap after a reply of \<open>n\<close> objects was created for a task.\<close>

definition grows :: "task_stack \<Rightarrow> reply_heap \<Rightarrow> reply_heap \<Rightarrow> nat \<Rightarrow> bool" where
  "grows st h h' n \<longleftrightarrow> rh_next h' = rh_next h + n \<and> heap_ok h' \<and>
     (\<forall>x < rh_next h. rh_objs h' x = rh_objs (stored st (rh_next h) h) x)"

lemma store_alloc:
  assumes "heap_ok h" and "slot_ok st h"
  shows "\<exists>h'. store_in_parent st (rh_next h) (alloc_obj r h) = Inr h' \<and> grows st h h' 1 \<and> rh_objs h' (rh_next h) = Some r"
proof (cases st rule: remdups_adj.cases)
  case 1
  then show ?thesis using assms(1)
    by (auto simp: store_in_parent_def grows_def stored_def alloc_obj_def heap_ok_def)
next
  case (2 cur)
  then show ?thesis using assms(1)
    by (auto simp: store_in_parent_def grows_def stored_def alloc_obj_def heap_ok_def)
next
  case (3 cur prv ps)
  with assms(2) obtain o' es where o': "rh_objs h (rt_obj prv) = Some o'" "ry_type o' = REDIS_REPLY_ARRAY" "ry_element o' = Some es"
    "0 \<le> rt_idx cur" "nat (rt_idx cur) < length es" by (auto simp: slot_ok_def)
  have "rt_obj prv < rh_next h" using o'(1) assms(1) by (auto simp: heap_ok_def not_less [symmetric])
  with 3 o' assms(1) show ?thesis
    by (auto simp: store_in_parent_def grows_def stored_def alloc_obj_def heap_ok_def)
qed

text \<open>The creation functions while memory can be had.\<close>

definition creates :: "(nat \<times> reply_heap) result \<Rightarrow> task_stack \<Rightarrow> reply_heap \<Rightarrow> redisReply \<Rightarrow> reply_heap \<Rightarrow> bool" where
  "creates m st h r h' \<longleftrightarrow> m = Inr (rh_next h, h') \<and> grows st h h' 1 \<and> rh_objs h' (rh_next h) = Some r"

lemma createReplyObject_ok: "al_ok A 48 \<Longrightarrow> createReplyObject A ty h = (rh_next h, alloc_obj (blank_reply ty) h)"
  by (simp add: createReplyObject_def alloc_obj_def)

lemma obj_update_alloc: "obj_update (rh_next h) f (alloc_obj r h) = Inr (alloc_obj (f r) h)"
  by (simp add: obj_update_def alloc_obj_def)

lemma createString_ok:
  assumes A: "\<And>n. al_ok A n" and h: "heap_ok h" and st: "slot_ok st h"
    and "rt_type (hd st) \<in> {REDIS_REPLY_ERROR, REDIS_REPLY_STATUS, REDIS_REPLY_STRING}"
  shows "\<exists>h'. creates (createStringObject A st s (length s) h) st h (string_obj (rt_type (hd st)) s) h'"
proof -
  obtain h' where h': "store_in_parent st (rh_next h) (alloc_obj (string_obj (rt_type (hd st)) s) h) = Inr h'"
    "grows st h h' 1" "rh_objs h' (rh_next h) = Some (string_obj (rt_type (hd st)) s)" using store_alloc [OF h st] by blast
  moreover have "createStringObject A st s (length s) h = Inr (rh_next h, h')"
    using assms h'(1) heap_ok_next [OF h] unfolding createStringObject_def Let_def createReplyObject_ok [OF A] prod.case
    by (simp add: peek_def obj_update_alloc string_obj_def)
  ultimately show ?thesis by (auto simp: creates_def)
qed

lemma createInteger_ok:
  assumes A: "\<And>n. al_ok A n" and h: "heap_ok h" and st: "slot_ok st h"
  shows "\<exists>h'. creates (createIntegerObject A st n h) st h ((blank_reply REDIS_REPLY_INTEGER)\<lparr>ry_integer := n\<rparr>) h'"
proof -
  let ?r = "(blank_reply REDIS_REPLY_INTEGER)\<lparr>ry_integer := n\<rparr>"
  obtain h' where h': "store_in_parent st (rh_next h) (alloc_obj ?r h) = Inr h'"
    "grows st h h' 1" "rh_objs h' (rh_next h) = Some ?r" using store_alloc [OF h st] by blast
  moreover have "createIntegerObject A st n h = Inr (rh_next h, h')"
    using h'(1) heap_ok_next [OF h] unfolding createIntegerObject_def Let_def createReplyObject_ok [OF A] prod.case
    by (simp add: obj_update_alloc)
  ultimately show ?thesis by (auto simp: creates_def)
qed

lemma createNil_ok:
  assumes A: "\<And>n. al_ok A n" and h: "heap_ok h" and st: "slot_ok st h"
  shows "\<exists>h'. creates (createNilObject A st h) st h (blank_reply REDIS_REPLY_NIL) h'"
proof -
  obtain h' where h': "store_in_parent st (rh_next h) (alloc_obj (blank_reply REDIS_REPLY_NIL) h) = Inr h'"
    "grows st h h' 1" "rh_objs h' (rh_next h) = Some (blank_reply REDIS_REPLY_NIL)" using store_alloc [OF h st] by blast
  moreover have "createNilObject A st h = Inr (rh_next h, h')"
    using h'(1) heap_ok_next [OF h] unfolding createNilObject_def Let_def createReplyObject_ok [OF A] prod.case by simp
  ultimately show ?thesis by (auto simp: creates_def)
qed

lemma createArray_ok:
  assumes A: "\<And>n. al_ok A n" and h: "heap_ok h" and st: "slot_ok st h" and n: "n < 2 ^ 31"
  shows "\<exists>h'. creates (createArrayObject A st (int n) h) st h (array_obj (replicate n 0)) h'"
proof -
  obtain h' where h': "store_in_parent st (rh_next h) (alloc_obj (array_obj (replicate n 0)) h) = Inr h'"
    "grows st h h' 1" "rh_objs h' (rh_next h) = Some (array_obj (replicate n 0))" using store_alloc [OF h st] by blast
  have "unat (word_of_nat n :: u64) = n" using n by (simp add: unat_of_nat take_bit_nat_eq_self)
  then have "createArrayObject A st (int n) h = Inr (rh_next h, h')"
    using h'(1) A heap_ok_next [OF h] unfolding createArrayObject_def Let_def createReplyObject_ok [OF A] prod.case
    by (cases "n = 0") (simp_all add: obj_update_alloc array_obj_def)
  with h' show ?thesis by (auto simp: creates_def)
qed

subsection \<open>Parsing an encoding\<close>

lemma fn_of_default [simp]:
  "fn_of (Some (defaultFunctions A)) createString = Some (createStringObject A)"
  "fn_of (Some (defaultFunctions A)) createArray = Some (createArrayObject A)"
  "fn_of (Some (defaultFunctions A)) createInteger = Some (createIntegerObject A)"
  "fn_of (Some (defaultFunctions A)) createNil = Some (createNilObject A)"
  "fn_of (Some (defaultFunctions A)) freeObject = Some freeReplyObject"
  by (simp_all add: fn_of_def defaultFunctions_def)

text \<open>The parser after one item was created for the head of the stack.\<close>

definition next_item ::
  "reply_heap redisReplyObjectFunctions option \<Rightarrow> nat \<Rightarrow> task_stack \<Rightarrow> nat \<Rightarrow> string \<Rightarrow> reply_heap \<Rightarrow> reply_heap outcome result" where
  "next_item fn priv st a rest h =
     rbind (moveToNextTask st) (\<lambda>st'. parse_loop fn priv \<lparr>ps_stack = st', ps_reply = a, ps_bytes = rest\<rparr> h)"

definition root_reply :: "pstate \<Rightarrow> nat \<Rightarrow> nat" where
  "root_reply p a = (if length (ps_stack p) = 1 then a else ps_reply p)"

lemma parse_loop_finish:
  assumes "ps_stack p = cur # ps" and "a \<noteq> 0"
    and "parse_item fn priv p h = parse_finish a q h'" and "ps_stack q = cur' # ps" "ps_reply q = ps_reply p" "ps_bytes q = rest"
  shows "parse_loop fn priv p h = next_item fn priv (cur' # ps) (root_reply p a) rest h'"
proof -
  have "ps_stack p \<noteq> []" using assms(1) by simp
  moreover have "q\<lparr>ps_stack := st, ps_reply := b\<rparr> = \<lparr>ps_stack = st, ps_reply = b, ps_bytes = rest\<rparr>" for st b
    using assms(6) by (cases q) simp
  ultimately show ?thesis using assms(1,2,4,5) unfolding parse_loop_unfold [OF \<open>ps_stack p \<noteq> []\<close>] assms(3)
    by (cases "moveToNextTask (cur' # ps)") (simp_all add: parse_finish_def next_item_def root_reply_def)
qed

text \<open>The state after the type byte of an encoded line.\<close>

definition typed_state :: "pstate \<Rightarrow> int \<Rightarrow> string \<Rightarrow> pstate" where
  "typed_state p ty bs = p\<lparr>ps_stack := (hd (ps_stack p))\<lparr>rt_type := ty\<rparr> # tl (ps_stack p), ps_bytes := bs\<rparr>"

lemma typed_state_sel [simp]:
  "ps_stack (typed_state p ty bs) = (hd (ps_stack p))\<lparr>rt_type := ty\<rparr> # tl (ps_stack p)"
  "ps_reply (typed_state p ty bs) = ps_reply p" "ps_bytes (typed_state p ty bs) = bs"
  "(typed_state p ty bs)\<lparr>ps_bytes := bs'\<rparr> = typed_state p ty bs'"
  by (simp_all add: typed_state_def)

lemma parse_item_line:
  assumes "rt_type (hd (ps_stack p)) < 0" and "ps_bytes p = line c l @ rest" and "type_of_byte c = Some ty"
  shows "parse_item fn priv p h = parse_typed fn priv (typed_state p ty (l @ CR # LF # rest)) h"
  using assms by (simp add: parse_item_def line_def typed_state_def)

lemma crlf_cut:
  assumes "CR \<notin> set l"
  shows "crlf (l @ CR # LF # rest) = Some (length l)" "take (Suc (length l)) (l @ CR # LF # rest) = l @ [CR]"
    "take (length l) (l @ CR # LF # rest) = l" "drop (length l + 2) (l @ CR # LF # rest) = rest"
  using crlf_line [OF assms] by simp_all

lemma slot_ok_type: "slot_ok (cur\<lparr>rt_type := ty\<rparr> # ps) h = slot_ok (cur # ps) h"
  by (simp add: slot_ok_def split: list.splits)

lemma store_in_parent_type: "store_in_parent (cur\<lparr>rt_type := ty\<rparr> # ps) a h = store_in_parent (cur # ps) a h"
  by (cases ps) (simp_all add: store_in_parent_def cong: option.case_cong if_cong)

lemma grows_type: "grows (cur\<lparr>rt_type := ty\<rparr> # ps) h h' n = grows (cur # ps) h h' n"
  by (simp add: grows_def stored_def store_in_parent_type)

text \<open>What parsing the encoding of \<open>v\<close> does: the reply is in the heap, its address is stored in the
  parent, and the parser goes on with the next task.\<close>

definition parses :: "allocator \<Rightarrow> nat \<Rightarrow> reply \<Rightarrow> bool" where
  "parses A priv v \<longleftrightarrow> (\<forall>p h cur ps rest.
     ps_stack p = cur # ps \<longrightarrow> rt_type cur < 0 \<longrightarrow> ps_bytes p = encode v @ rest \<longrightarrow> length ps + depth v \<le> 8 \<longrightarrow>
     heap_ok h \<longrightarrow> slot_ok (cur # ps) h \<longrightarrow>
     (\<exists>h' cur'. rt_idx cur' = rt_idx cur \<and> grows (cur # ps) h h' (nodes v) \<and> rep (rh_objs h') (rh_next h) v \<and>
        parse_loop (Some (defaultFunctions A)) priv p h =
          next_item (Some (defaultFunctions A)) priv (cur' # ps) (root_reply p (rh_next h)) rest h'))"

lemma parsesD:
  "parses A priv v \<Longrightarrow> ps_stack p = cur # ps \<Longrightarrow> rt_type cur < 0 \<Longrightarrow> ps_bytes p = encode v @ rest \<Longrightarrow> length ps + depth v \<le> 8 \<Longrightarrow>
     heap_ok h \<Longrightarrow> slot_ok (cur # ps) h \<Longrightarrow>
     \<exists>h' cur'. rt_idx cur' = rt_idx cur \<and> grows (cur # ps) h h' (nodes v) \<and> rep (rh_objs h') (rh_next h) v \<and>
        parse_loop (Some (defaultFunctions A)) priv p h =
          next_item (Some (defaultFunctions A)) priv (cur' # ps) (root_reply p (rh_next h)) rest h'"
  by (simp add: parses_def)

lemma parses_leafI:
  assumes "nodes v = 1"
    and "\<And>p h cur ps rest. ps_stack p = cur # ps \<Longrightarrow> rt_type cur < 0 \<Longrightarrow> ps_bytes p = encode v @ rest \<Longrightarrow>
      heap_ok h \<Longrightarrow> slot_ok (cur # ps) h \<Longrightarrow>
      \<exists>h' ty r. creates (Inr (rh_next h, h')) (cur\<lparr>rt_type := ty\<rparr> # ps) h r h' \<and> rep [rh_next h \<mapsto> r] (rh_next h) v \<and>
        parse_item (Some (defaultFunctions A)) priv p h = parse_finish (rh_next h) (typed_state p ty rest) h'"
  shows "parses A priv v"
  unfolding parses_def
proof (intro allI impI)
  fix p :: pstate and h cur ps rest
  assume p: "ps_stack p = cur # ps" "rt_type cur < 0" "ps_bytes p = encode v @ rest" and h: "heap_ok h" "slot_ok (cur # ps) h"
  from assms(2) [OF p h] obtain h' ty r where c: "creates (Inr (rh_next h, h')) (cur\<lparr>rt_type := ty\<rparr> # ps) h r h'"
    and rep: "rep [rh_next h \<mapsto> r] (rh_next h) v"
    and item: "parse_item (Some (defaultFunctions A)) priv p h = parse_finish (rh_next h) (typed_state p ty rest) h'" by blast
  have "rep (rh_objs h') (rh_next h) v" 
    by (rule rep_frame(1) [OF rep]) (use c assms(1) in \<open>auto simp: creates_def le_less_Suc_eq\<close>)
  moreover have "parse_loop (Some (defaultFunctions A)) priv p h =
      next_item (Some (defaultFunctions A)) priv (cur\<lparr>rt_type := ty\<rparr> # ps) (root_reply p (rh_next h)) rest h'"
    using p(1) heap_ok_next [OF h(1)] item by (intro parse_loop_finish [OF p(1), where q = "typed_state p ty rest"]) simp_all
  ultimately show "\<exists>h' cur'. rt_idx cur' = rt_idx cur \<and> grows (cur # ps) h h' (nodes v) \<and> rep (rh_objs h') (rh_next h) v \<and>
        parse_loop (Some (defaultFunctions A)) priv p h =
          next_item (Some (defaultFunctions A)) priv (cur' # ps) (root_reply p (rh_next h)) rest h'"
    using c assms(1) by (intro exI [of _ h'] exI [of _ "cur\<lparr>rt_type := ty\<rparr>"]) (simp add: creates_def grows_type)
qed

lemma parse_line_string:
  assumes "CR \<notin> set s" "ty \<noteq> REDIS_REPLY_INTEGER"
  shows "parse_line (Some (defaultFunctions A)) (typed_state p ty (s @ CR # LF # rest)) h =
    rbind (createStringObject A ((hd (ps_stack p))\<lparr>rt_type := ty\<rparr> # tl (ps_stack p)) s (length s) h)
      (\<lambda>(obj, h'). parse_finish obj (typed_state p ty rest) h')"
  using assms(2) by (simp add: parse_line_def crlf_cut [OF assms(1)] create_def)

lemma parses_string_line:
  assumes "encode v = line c s" "type_of_byte c = Some ty" "ty = REDIS_REPLY_ERROR \<or> ty = REDIS_REPLY_STATUS" "CR \<notin> set s"
    and "\<And>m a. rep m a v = (m a = Some (string_obj ty s))" "nodes v = 1" and A: "\<And>n. al_ok A n"
  shows "parses A priv v"
proof (rule parses_leafI)
  fix p :: pstate and h cur ps rest
  assume p: "ps_stack p = cur # ps" "rt_type cur < 0" "ps_bytes p = encode v @ rest" and h: "heap_ok h" "slot_ok (cur # ps) h"
  let ?st = "cur\<lparr>rt_type := ty\<rparr> # ps"
  from createString_ok [of A h ?st s] A h assms(3) obtain h' where
    c: "creates (createStringObject A ?st s (length s) h) ?st h (string_obj ty s) h'" by (auto simp: slot_ok_type)
  moreover have "parse_item (Some (defaultFunctions A)) priv p h = parse_finish (rh_next h) (typed_state p ty rest) h'"
    using parse_item_line [of p c s rest ty "Some (defaultFunctions A)" priv h] assms p c parse_line_string [OF assms(4), of ty A p rest h]
    by (auto simp: parse_typed_def creates_def)
  ultimately show "\<exists>h' ty r. creates (Inr (rh_next h, h')) (cur\<lparr>rt_type := ty\<rparr> # ps) h r h' \<and> rep [rh_next h \<mapsto> r] (rh_next h) v \<and>
        parse_item (Some (defaultFunctions A)) priv p h = parse_finish (rh_next h) (typed_state p ty rest) h'"
    using assms(5) by (intro exI [of _ h'] exI [of _ ty] exI [of _ "string_obj ty s"]) (simp add: creates_def)
qed (rule assms(6))

lemma parses_integer:
  assumes "wf_reply (RInteger n)" and A: "\<And>n. al_ok A n"
  shows "parses A priv (RInteger n)"
proof (rule parses_leafI)
  fix p :: pstate and h cur ps rest
  assume p: "ps_stack p = cur # ps" "rt_type cur < 0" "ps_bytes p = encode (RInteger n) @ rest" and h: "heap_ok h" "slot_ok (cur # ps) h"
  let ?st = "cur\<lparr>rt_type := REDIS_REPLY_INTEGER\<rparr> # ps"
  from createInteger_ok [of A h ?st n] A h obtain h' where
    c: "creates (createIntegerObject A ?st n h) ?st h ((blank_reply REDIS_REPLY_INTEGER)\<lparr>ry_integer := n\<rparr>) h'" by (auto simp: slot_ok_type)
  have "parse_item (Some (defaultFunctions A)) priv p h =
      parse_typed (Some (defaultFunctions A)) priv (typed_state p REDIS_REPLY_INTEGER (int_to_string n @ CR # LF # rest)) h"
    using p by (intro parse_item_line [where c = "CHR '':''"]) (simp_all add: type_of_byte_def)
  also have "\<dots> = parse_finish (rh_next h) (typed_state p REDIS_REPLY_INTEGER rest) h'"
    using p(1) c readLongLong_int [of n "[]"] assms(1) crlf_cut [OF int_to_string_no_cr, of n rest]
    by (simp add: parse_typed_def parse_line_def creates_def)
  finally show "\<exists>h' ty r. creates (Inr (rh_next h, h')) (cur\<lparr>rt_type := ty\<rparr> # ps) h r h' \<and>
        rep [rh_next h \<mapsto> r] (rh_next h) (RInteger n) \<and>
        parse_item (Some (defaultFunctions A)) priv p h = parse_finish (rh_next h) (typed_state p ty rest) h'"
    using c by (intro exI [of _ h'] exI [of _ REDIS_REPLY_INTEGER]) (simp add: creates_def)
qed simp

lemma parses_nil:
  assumes A: "\<And>n. al_ok A n"
  shows "parses A priv RNil"
proof (rule parses_leafI)
  fix p :: pstate and h cur ps rest
  assume p: "ps_stack p = cur # ps" "rt_type cur < 0" "ps_bytes p = encode RNil @ rest" and h: "heap_ok h" "slot_ok (cur # ps) h"
  let ?st = "cur\<lparr>rt_type := REDIS_REPLY_STRING\<rparr> # ps"
  from createNil_ok [of A h ?st] A h obtain h' where
    c: "creates (createNilObject A ?st h) ?st h (blank_reply REDIS_REPLY_NIL) h'" by (auto simp: slot_ok_type)
  have "to_string (Suc 0) = ''1''" by code_simp
  then have n: "int_to_string (- 1) = ''-1''" by (simp add: int_to_string_def)
  have "parse_item (Some (defaultFunctions A)) priv p h =
      parse_typed (Some (defaultFunctions A)) priv (typed_state p REDIS_REPLY_STRING (''-1'' @ CR # LF # rest)) h"
    using p by (intro parse_item_line [where c = "CHR ''$''"]) (simp_all add: type_of_byte_def)
  also have "\<dots> = parse_finish (rh_next h) (typed_state p REDIS_REPLY_STRING rest) h'"
    using p(1) c readLongLong_int [of "- 1" "[]"] n crlf_cut [of "''-1''" rest]
    by (simp add: parse_typed_def parse_bulk_def creates_def create_def)
  finally show "\<exists>h' ty r. creates (Inr (rh_next h, h')) (cur\<lparr>rt_type := ty\<rparr> # ps) h r h' \<and>
        rep [rh_next h \<mapsto> r] (rh_next h) RNil \<and>
        parse_item (Some (defaultFunctions A)) priv p h = parse_finish (rh_next h) (typed_state p ty rest) h'"
    using c by (intro exI [of _ h'] exI [of _ REDIS_REPLY_STRING]) (simp add: creates_def)
qed simp

lemma to_string_int: "to_string n = int_to_string (int n)"
  by (simp add: int_to_string_def)

lemma parses_string:
  assumes "wf_reply (RString s)" and A: "\<And>n. al_ok A n"
  shows "parses A priv (RString s)"
proof (rule parses_leafI)
  fix p :: pstate and h cur ps rest
  assume p: "ps_stack p = cur # ps" "rt_type cur < 0" "ps_bytes p = encode (RString s) @ rest" and h: "heap_ok h" "slot_ok (cur # ps) h"
  let ?st = "cur\<lparr>rt_type := REDIS_REPLY_STRING\<rparr> # ps" and ?n = "int_to_string (int (length s))" and ?r = "s @ CR # LF # rest"
  from createString_ok [of A h ?st s] A h obtain h' where
    c: "creates (createStringObject A ?st s (length s) h) ?st h (string_obj REDIS_REPLY_STRING s) h'" by (auto simp: slot_ok_type)
  have item: "parse_item (Some (defaultFunctions A)) priv p h =
      parse_typed (Some (defaultFunctions A)) priv (typed_state p REDIS_REPLY_STRING (?n @ CR # LF # ?r)) h"
    using p by (intro parse_item_line [where c = "CHR ''$''"]) (simp_all add: type_of_byte_def to_string_int)
  have "4 + length s = Suc (Suc (length s + 2))" by simp
  then have "drop (4 + length s) (CR # LF # ?r) = rest" by (simp only: drop_Suc_Cons) simp
  then have "parse_typed (Some (defaultFunctions A)) priv (typed_state p REDIS_REPLY_STRING (?n @ CR # LF # ?r)) h =
      parse_finish (rh_next h) (typed_state p REDIS_REPLY_STRING rest) h'"
    using p(1) c readLongLong_int [of "int (length s)" "[]"] assms(1) crlf_cut [OF int_to_string_no_cr, of "int (length s)" ?r]
    by (simp add: parse_typed_def parse_bulk_def creates_def create_def)
  with item show "\<exists>h' ty r. creates (Inr (rh_next h, h')) (cur\<lparr>rt_type := ty\<rparr> # ps) h r h' \<and>
        rep [rh_next h \<mapsto> r] (rh_next h) (RString s) \<and>
        parse_item (Some (defaultFunctions A)) priv p h = parse_finish (rh_next h) (typed_state p ty rest) h'"
    using c by (intro exI [of _ h'] exI [of _ REDIS_REPLY_STRING]) (simp add: creates_def)
qed simp

lemma stored_elem:
  assumes "rh_objs h (rt_obj cur) = Some r" "ry_type r = REDIS_REPLY_ARRAY" "ry_element r = Some es" "rt_idx child = int i" "i < length es"
  shows "rh_objs (stored (child # cur # ps) a h) = (rh_objs h)(rt_obj cur \<mapsto> r\<lparr>ry_element := Some (es[i := a])\<rparr>)"
  using assms by (simp add: stored_def store_in_parent_def)

text \<open>The elements of an array from index \<open>i\<close> on.\<close>

lemma parses_elements:
  assumes "\<forall>v \<in> set vs. parses A priv v" and "\<forall>v \<in> set vs. length ps + 1 + depth v \<le> 8" and "vs \<noteq> []"
    and "ps_stack p = child # cur # ps" and "rt_type child < 0" and "rt_idx child = int i"
    and "rt_type cur = REDIS_REPLY_ARRAY" "rt_elements cur = int (i + length vs)"
    and "ps_bytes p = concat (map encode vs) @ rest" and "heap_ok h"
    and "rh_objs h (rt_obj cur) = Some r" "ry_type r = REDIS_REPLY_ARRAY" "ry_element r = Some es" "length es = i + length vs"
  shows "\<exists>h'. parse_loop (Some (defaultFunctions A)) priv p h = next_item (Some (defaultFunctions A)) priv (cur # ps) (ps_reply p) rest h' \<and>
    rh_next h' = rh_next h + sum_list (map nodes vs) \<and> heap_ok h' \<and>
    (\<forall>x < rh_next h. x \<noteq> rt_obj cur \<longrightarrow> rh_objs h' x = rh_objs h x) \<and>
    rh_objs h' (rt_obj cur) = Some (r\<lparr>ry_element := Some (take i es @ addrs (rh_next h) vs)\<rparr>) \<and> reps (rh_objs h') (rh_next h) vs"
  using assms
proof (induction vs arbitrary: p child i h r es)
  case (Cons v vs)
  let ?fn = "Some (defaultFunctions A)"
  have slot: "slot_ok (child # cur # ps) h" using Cons.prems by (simp add: slot_ok_def)
  obtain h1 cur' where 1: "rt_idx cur' = rt_idx child" "grows (child # cur # ps) h h1 (nodes v)" "rep (rh_objs h1) (rh_next h) v"
    "parse_loop ?fn priv p h = next_item ?fn priv (cur' # cur # ps) (root_reply p (rh_next h)) (concat (map encode vs) @ rest) h1"
    using parsesD [of A priv v p child "cur # ps" "concat (map encode vs) @ rest" h] Cons.prems(1,2,4,5,9,10) slot by auto
  have reply: "root_reply p (rh_next h) = ps_reply p" using Cons.prems(4) by (simp add: root_reply_def)
  have a: "rt_obj cur < rh_next h" using Cons.prems(10,11) by (auto simp: heap_ok_def not_less [symmetric])
  have objs: "\<forall>x < rh_next h. rh_objs h1 x = ((rh_objs h)(rt_obj cur \<mapsto> r\<lparr>ry_element := Some (es[i := rh_next h])\<rparr>)) x"
    using 1(2) stored_elem [of h cur r es child i ps "rh_next h"] Cons.prems by (simp add: grows_def)
  have h1: "heap_ok h1" "rh_next h1 = rh_next h + nodes v" using 1(2) by (simp_all add: grows_def)
  have es: "take (Suc i) (es[i := rh_next h]) = take i es @ [rh_next h]"
    using Cons.prems(14) by (simp add: take_Suc_conv_app_nth)
  show ?case
  proof (cases "vs = []")
    case True
    have "moveToNextTask (cur' # cur # ps) = moveToNextTask (cur # ps)" using True 1(1) Cons.prems(6,7,8) by simp
    then have "parse_loop ?fn priv p h = next_item ?fn priv (cur # ps) (ps_reply p) rest h1"
      using 1(4) True by (simp add: next_item_def reply)
    moreover have "es[i := rh_next h] = take i es @ [rh_next h]" using es True Cons.prems(14) by simp
    ultimately show ?thesis using True 1(3) h1 objs a by (intro exI [of _ h1]) simp
  next
    case False
    let ?c = "cur'\<lparr>rt_type := - 1, rt_elements := - 1, rt_idx := rt_idx cur' + 1\<rparr>"
    let ?p = "\<lparr>ps_stack = ?c # cur # ps, ps_reply = ps_reply p, ps_bytes = concat (map encode vs) @ rest\<rparr>"
    let ?r = "r\<lparr>ry_element := Some (es[i := rh_next h])\<rparr>"
    have "moveToNextTask (cur' # cur # ps) = Inr (?c # cur # ps)" using False 1(1) Cons.prems(6,7,8) by simp
    then have loop: "parse_loop ?fn priv p h = parse_loop ?fn priv ?p h1" using 1(4) by (simp add: next_item_def reply)
    have "\<exists>h'. parse_loop ?fn priv ?p h1 = next_item ?fn priv (cur # ps) (ps_reply ?p) rest h' \<and>
      rh_next h' = rh_next h1 + sum_list (map nodes vs) \<and> heap_ok h' \<and>
      (\<forall>x < rh_next h1. x \<noteq> rt_obj cur \<longrightarrow> rh_objs h' x = rh_objs h1 x) \<and>
      rh_objs h' (rt_obj cur) = Some (?r\<lparr>ry_element := Some (take (Suc i) (es[i := rh_next h]) @ addrs (rh_next h1) vs)\<rparr>) \<and>
      reps (rh_objs h') (rh_next h1) vs"
      by (rule Cons.IH [where child = ?c]) (use Cons.prems False 1(1) h1 objs a in simp_all)
    then obtain h' where h': "parse_loop ?fn priv ?p h1 = next_item ?fn priv (cur # ps) (ps_reply p) rest h'"
      "rh_next h' = rh_next h1 + sum_list (map nodes vs)" "heap_ok h'" "\<forall>x < rh_next h1. x \<noteq> rt_obj cur \<longrightarrow> rh_objs h' x = rh_objs h1 x"
      "rh_objs h' (rt_obj cur) = Some (r\<lparr>ry_element := Some (take i es @ rh_next h # addrs (rh_next h1) vs)\<rparr>)"
      "reps (rh_objs h') (rh_next h1) vs" using es by auto
    have "rep (rh_objs h') (rh_next h) v" by (rule rep_frame(1) [OF 1(3)]) (use h'(4) h1 a in auto)
    with h' h1 loop objs show ?thesis by (intro exI [of _ h']) simp
  qed
qed simp

lemma fold_max_ge: "x \<in> set xs \<or> x \<le> b \<Longrightarrow> x \<le> fold max xs (b :: nat)"
proof (induction xs arbitrary: b)
  case (Cons y xs)
  then show ?case using Cons.IH [of "max y b"] by (auto simp: le_max_iff_disj)
qed simp

lemma sint_count: "n < 2 ^ 31 \<Longrightarrow> sint (word_of_nat n :: u32) = int n"
  using to_int_small [of n] by (simp add: to_int_def)

lemma parses_array:
  assumes "wf_reply (RArray vs)" and "\<forall>v \<in> set vs. parses A priv v" and A: "\<And>n. al_ok A n"
  shows "parses A priv (RArray vs)"
  unfolding parses_def
proof (intro allI impI)
  fix p :: pstate and h cur ps rest
  assume p: "ps_stack p = cur # ps" "rt_type cur < 0" "ps_bytes p = encode (RArray vs) @ rest"
    and depth: "length ps + depth (RArray vs) \<le> 8" and h: "heap_ok h" "slot_ok (cur # ps) h"
  let ?fn = "Some (defaultFunctions A)" and ?st = "cur\<lparr>rt_type := REDIS_REPLY_ARRAY\<rparr> # ps"
  let ?n = "int_to_string (int (length vs))" and ?r = "concat (map encode vs) @ rest"
  let ?p = "typed_state p REDIS_REPLY_ARRAY ?r"
  obtain h1 where c: "creates (createArrayObject A ?st (int (length vs)) h) ?st h (array_obj (replicate (length vs) 0)) h1"
    using createArray_ok [of A h ?st "length vs"] A h assms(1) by (auto simp: slot_ok_type)
  then have h1: "grows (cur # ps) h h1 1" "rh_objs h1 (rh_next h) = Some (array_obj (replicate (length vs) 0))"
    "createArrayObject A ?st (int (length vs)) h = Inr (rh_next h, h1)" by (simp_all add: creates_def grows_type)
  have item: "parse_item ?fn priv p h = parse_typed ?fn priv (typed_state p REDIS_REPLY_ARRAY (?n @ CR # LF # ?r)) h"
    using p by (intro parse_item_line [where c = "CHR ''*''"]) (simp_all add: type_of_byte_def to_string_int)
  have count: "sint (word_of_nat (length vs) :: u32) = int (length vs)" using assms(1) by (intro sint_count) simp
  note facts = p(1) h1(3) readLongLong_int [of "int (length vs)" "[]"] assms(1) crlf_cut [OF int_to_string_no_cr, of "int (length vs)" ?r]
    count depth heap_ok_next [OF h(1)]
  show "\<exists>h' cur'. rt_idx cur' = rt_idx cur \<and> grows (cur # ps) h h' (nodes (RArray vs)) \<and> rep (rh_objs h') (rh_next h) (RArray vs) \<and>
        parse_loop ?fn priv p h = next_item ?fn priv (cur' # ps) (root_reply p (rh_next h)) rest h'"
  proof (cases "vs = []")
    case True
    have "parse_item ?fn priv p h = parse_finish (rh_next h) ?p h1"
      unfolding item using True facts by (simp add: parse_typed_def parse_multi_def create_def Let_def)
    then have "parse_loop ?fn priv p h = next_item ?fn priv ?st (root_reply p (rh_next h)) rest h1"
      using p(1) True heap_ok_next [OF h(1)] by (intro parse_loop_finish [OF p(1), where q = ?p]) simp_all
    with True h1 show ?thesis by (intro exI [of _ h1] exI [of _ "cur\<lparr>rt_type := REDIS_REPLY_ARRAY\<rparr>"]) simp
  next
    case False
    let ?cur = "cur\<lparr>rt_type := REDIS_REPLY_ARRAY, rt_elements := int (length vs), rt_obj := rh_next h\<rparr>"
    let ?q = "?p\<lparr>ps_stack := fresh_task 0 priv # ?cur # ps, ps_reply := root_reply p (rh_next h)\<rparr>"
    have "parse_item ?fn priv p h = Inr (Item ?q h1)"
      unfolding item using False facts by (simp add: parse_typed_def parse_multi_def create_def Let_def root_reply_def)
    then have loop: "parse_loop ?fn priv p h = parse_loop ?fn priv ?q h1" using p(1) by (simp add: parse_loop_unfold)
    have es: "ry_type (array_obj (replicate (length vs) 0)) = REDIS_REPLY_ARRAY"
      "ry_element (array_obj (replicate (length vs) 0)) = Some (replicate (length vs) 0)"
      "(array_obj (replicate (length vs) 0))\<lparr>ry_element := Some (addrs (Suc (rh_next h)) vs)\<rparr> = array_obj (addrs (Suc (rh_next h)) vs)"
      using False by (cases vs; simp add: array_obj_def blank_reply_def)+
    have next1: "rh_next h1 = Suc (rh_next h)" "heap_ok h1" using h1(1) by (simp_all add: grows_def)
    have "\<exists>h'. parse_loop ?fn priv ?q h1 = next_item ?fn priv (?cur # ps) (ps_reply ?q) rest h' \<and>
      rh_next h' = rh_next h1 + sum_list (map nodes vs) \<and> heap_ok h' \<and>
      (\<forall>x < rh_next h1. x \<noteq> rt_obj ?cur \<longrightarrow> rh_objs h' x = rh_objs h1 x) \<and>
      rh_objs h' (rt_obj ?cur) = Some ((array_obj (replicate (length vs) 0))\<lparr>ry_element :=
        Some (take 0 (replicate (length vs) 0) @ addrs (rh_next h1) vs)\<rparr>) \<and> reps (rh_objs h') (rh_next h1) vs"
    proof (rule parses_elements [where i = 0 and child = "fresh_task 0 priv"])
      show "\<forall>v \<in> set vs. length ps + 1 + depth v \<le> 8" using depth fold_max_ge [of _ "map depth vs" 0] by fastforce
    qed (use assms(2) False h1(2) es next1 in \<open>simp_all add: fresh_task_def\<close>)
    then obtain h' where h': "parse_loop ?fn priv ?q h1 = next_item ?fn priv (?cur # ps) (root_reply p (rh_next h)) rest h'"
      "rh_next h' = rh_next h1 + sum_list (map nodes vs)" "heap_ok h'" "\<forall>x < rh_next h1. x \<noteq> rh_next h \<longrightarrow> rh_objs h' x = rh_objs h1 x"
      "rh_objs h' (rh_next h) = Some (array_obj (addrs (Suc (rh_next h)) vs))" "reps (rh_objs h') (Suc (rh_next h)) vs"
      using es(3) next1 by auto
    moreover have "grows (cur # ps) h h' (nodes (RArray vs))"
      using h1(1) h'(2,3,4) next1 unfolding grows_def by (simp add: less_Suc_eq)
    ultimately show ?thesis using loop by (intro exI [of _ h'] exI [of _ ?cur]) simp
  qed
qed

lemma parses_wf: "wf_reply v \<Longrightarrow> (\<And>n. al_ok A n) \<Longrightarrow> parses A priv v"
proof (induction v)
  case (RStatus s)
  then show ?case by (intro parses_string_line [where c = "CHR ''+''" and s = s and ty = REDIS_REPLY_STATUS]) (simp_all add: type_of_byte_def)
next
  case (RError s)
  then show ?case by (intro parses_string_line [where c = "CHR ''-''" and s = s and ty = REDIS_REPLY_ERROR]) (simp_all add: type_of_byte_def)
next
  case (RArray vs)
  then show ?case by (intro parses_array) (simp_all add: list_all_iff)
qed (simp_all add: parses_integer parses_string parses_nil)

lemma fn_local_default: "fn_local (Some (defaultFunctions A))"
proof -
  have local: "createStringObject A st m n h = createStringObject A st (take n m) n h" if "n \<le> length m" for st m n h
  proof -
    have "peek m n = peek (take n m) n" using that by (simp add: peek_def)
    then show ?thesis unfolding createStringObject_def by (simp only:)
  qed
  show ?thesis unfolding fn_local_def fn_of_default option.inject
  proof (intro allI impI)
    fix f st n h and m :: string
    assume "createStringObject A = f" "n \<le> length m"
    then show "f st m n h = f st (take n m) n h" using local by blast
  qed
qed

lemma createReader_ok:
  assumes "\<And>n. al_ok A n"
  shows "\<exists>r. redisReaderCreateWithFunctions A = Inr (Some r) \<and> reader_ok r \<and> rd_len r = 0 \<and>
    pstate_of r = \<lparr>ps_stack = [], ps_reply = 0, ps_bytes = []\<rparr>"
proof -
  obtain e where e: "sdsempty A = Inr (Some e)" "sds_ok e" "content e = []"
    using sdsempty_ok [of A] assms by (auto simp: yields_def)
  then have "sdslen e = 0" using length_content [of e] by simp
  with e assms show ?thesis
    by (auto simp: redisReaderCreateWithFunctions_def reader_ok_def pstate_of_def unread_def)
qed

lemma parse_encode:
  assumes "wf_reply v" "depth v \<le> 8" "heap_ok h" and A: "\<And>n. al_ok A n"
  shows "\<exists>h'. parse_loop (Some (defaultFunctions A)) priv \<lparr>ps_stack = [fresh_task (- 1) priv], ps_reply = 0, ps_bytes = encode v\<rparr> h =
      Inr (Item \<lparr>ps_stack = [], ps_reply = rh_next h, ps_bytes = []\<rparr> h') \<and>
    rh_next h' = rh_next h + nodes v \<and> heap_ok h' \<and> (\<forall>x < rh_next h. rh_objs h' x = rh_objs h x) \<and> rep (rh_objs h') (rh_next h) v"
proof -
  let ?p = "\<lparr>ps_stack = [fresh_task (- 1) priv], ps_reply = 0, ps_bytes = encode v\<rparr>"
  obtain h' cur' where h': "grows [fresh_task (- 1) priv] h h' (nodes v)" "rep (rh_objs h') (rh_next h) v"
    "parse_loop (Some (defaultFunctions A)) priv ?p h = next_item (Some (defaultFunctions A)) priv [cur'] (root_reply ?p (rh_next h)) [] h'"
    using parsesD [OF parses_wf [OF assms(1) A], of ?p "fresh_task (- 1) priv" "[]" "[]" h priv] assms(2,3)
    by (auto simp: fresh_task_def slot_ok_def)
  then show ?thesis
    by (intro exI [of _ h']) (simp add: next_item_def root_reply_def parse_loop.simps grows_def stored_def store_in_parent_def)
qed

lemma feed_encoding:
  assumes A: "\<And>n. al_ok A n" and v: "wf_reply v" "depth v \<le> 8" "length (encode v) < 2 ^ 30"
    and cs: "concat cs = encode v" "[] \<notin> set cs" and h: "heap_ok h" and r: "redisReaderCreateWithFunctions A = Inr (Some r)"
  shows "\<exists>r' h'. feed_chunks A (Some (defaultFunctions A)) cs r h = Inr (r', h', replicate (length cs - 1) 0 @ [rh_next h]) \<and>
    reader_ok r' \<and> pstate_of r' = \<lparr>ps_stack = [], ps_reply = 0, ps_bytes = []\<rparr> \<and>
    rh_next h' = rh_next h + nodes v \<and> heap_ok h' \<and> (\<forall>x < rh_next h. rh_objs h' x = rh_objs h x) \<and> rep (rh_objs h') (rh_next h) v"
proof -
  have r: "reader_ok r" "rd_len r = 0" "pstate_of r = \<lparr>ps_stack = [], ps_reply = 0, ps_bytes = []\<rparr>"
    using createReader_ok [of A] A r by auto
  obtain h' where h': "parse_loop (Some (defaultFunctions A)) (rd_privdata r)
      \<lparr>ps_stack = [fresh_task (- 1) (rd_privdata r)], ps_reply = 0, ps_bytes = encode v\<rparr> h =
      Inr (Item \<lparr>ps_stack = [], ps_reply = rh_next h, ps_bytes = []\<rparr> h')"
    "rh_next h' = rh_next h + nodes v" "heap_ok h'" "\<forall>x < rh_next h. rh_objs h' x = rh_objs h x" "rep (rh_objs h') (rh_next h) v"
    using parse_encode [OF v(1,2) h A] by blast
  have "cs \<noteq> []" using cs(1) by (cases v) (auto simp: line_def)
  then have "\<exists>r'. feed_chunks A (Some (defaultFunctions A)) cs r h =
      Inr (r', h', replicate (length cs - 1) 0 @ [ps_reply \<lparr>ps_stack = [], ps_reply = rh_next h, ps_bytes = []\<rparr>]) \<and> reader_ok r' \<and>
      pstate_of r' = \<lparr>ps_stack = [], ps_reply = rh_next h, ps_bytes = []\<rparr>\<lparr>ps_reply := 0\<rparr> \<and> rd_privdata r' = rd_privdata r"
    using r cs v(3) h'(1)
    by (intro feed_chunks_parse [OF A fn_local_default]) (simp_all add: completes_def started_def ext_def)
  with h' show ?thesis by auto
qed

text \<open>
  C3. The reader parses what the protocol encodes, whatever the chunks. A fresh reader that is fed the
  encoding of a reply, cut anywhere into non-empty chunks, and asked for a reply after each of
  them, answers that there is none yet until the last chunk and then returns an object that holds
  exactly the encoded reply (nested arrays up to depth 8, strings of any bytes); its buffer and
  task stack are empty again.
\<close>

theorem reader_roundtrip:
  assumes "\<And>n. al_ok A n" and "wf_reply v" "depth v \<le> 8" "length (encode v) < 2 ^ 30"
    and "concat cs = encode v" "[] \<notin> set cs" and "heap_ok h" and "redisReaderCreateWithFunctions A = Inr (Some r)"
  shows "\<exists>r' h' a. feed_chunks A (Some (defaultFunctions A)) cs r h = Inr (r', h', replicate (length cs - 1) 0 @ [a]) \<and>
    a \<noteq> 0 \<and> rep (rh_objs h') a v \<and> rd_err r' = 0 \<and> unread r' = [] \<and> rd_stack r' = []"
proof -
  from feed_encoding [OF assms] obtain r' h' where
    "feed_chunks A (Some (defaultFunctions A)) cs r h = Inr (r', h', replicate (length cs - 1) 0 @ [rh_next h])"
    "reader_ok r'" "pstate_of r' = \<lparr>ps_stack = [], ps_reply = 0, ps_bytes = []\<rparr>" "rep (rh_objs h') (rh_next h) v" by blast
  then show ?thesis using heap_ok_next [OF assms(7)] by (auto simp: reader_ok_def pstate_of_def)
qed

lemma heap_ok_heap0: "heap_ok heap0"
  by (simp add: heap_ok_def heap0_def)

theorem reader_roundtrip_witness:
  "\<exists>r r' h' a. feed_chunks any_memory (Some (defaultFunctions any_memory)) [''*1'', [CR, LF] @ ''$-1'', [CR], [LF]] r heap0 = Inr (r', h', [0, 0, 0, a]) \<and>
    rep (rh_objs h') a (RArray [RNil])"
proof -
  have A: "\<And>n. al_ok any_memory n" by (simp add: any_memory_def)
  obtain r where r: "redisReaderCreateWithFunctions any_memory = Inr (Some r)" using createReader_ok [of any_memory] A by auto
  have "to_string 1 = ''1''" by code_simp
  then have "encode (RArray [RNil]) = ''*1'' @ [CR, LF] @ ''$-1'' @ [CR, LF]" by (simp add: line_def)
  let ?cs = "[''*1'', [CR, LF] @ ''$-1'', [CR], [LF]]"
  have "concat ?cs = encode (RArray [RNil])" "length (encode (RArray [RNil])) < 2 ^ 30" "[] \<notin> set ?cs"
    using \<open>encode (RArray [RNil]) = _\<close> by simp_all
  moreover have "wf_reply (RArray [RNil])" "depth (RArray [RNil]) \<le> 8" by simp_all
  ultimately obtain r' h' a where
    "feed_chunks any_memory (Some (defaultFunctions any_memory)) ?cs r heap0 = Inr (r', h', replicate (length ?cs - 1) 0 @ [a])"
    "rep (rh_objs h') a (RArray [RNil])" using reader_roundtrip [OF A _ _ _ _ _ heap_ok_heap0 r, of "RArray [RNil]" ?cs] by blast
  moreover have "replicate (length ?cs - 1) 0 @ [a] = [0, 0, 0, a]" by simp
  ultimately show ?thesis by metis
qed

subsection \<open>Releasing a reply\<close>

definition wipe :: "nat \<Rightarrow> nat \<Rightarrow> reply_heap \<Rightarrow> reply_heap" where
  "wipe a n h = h\<lparr>rh_objs := (\<lambda>x. if a \<le> x \<and> x < a + n then None else rh_objs h x)\<rparr>"

lemma wipe_wipe: "wipe (a + m) n (wipe a m h) = wipe a (m + n) h"
  by (auto simp: wipe_def fun_eq_iff)

lemma drop_wipe: "drop_obj a (wipe (Suc a) n h) = wipe a (Suc n) h"
  by (auto simp: drop_obj_def wipe_def fun_eq_iff)

lemma wipe_none: "wipe a 0 h = h"
  by (cases h) (auto simp: wipe_def fun_eq_iff)

lemma wipe_one: "wipe a (Suc 0) h = drop_obj a h"
  by (auto simp: drop_obj_def wipe_def fun_eq_iff)

lemma free_reply_rep:
  "rep m a v \<Longrightarrow> (\<And>x. a \<le> x \<Longrightarrow> x < a + nodes v \<Longrightarrow> rh_objs h x = m x) \<Longrightarrow> 0 < a \<Longrightarrow> depth v < n \<Longrightarrow>
     free_reply n a h = Inr (wipe a (nodes v) h)"
  "reps m a vs \<Longrightarrow> (\<And>x. a \<le> x \<Longrightarrow> x < a + sum_list (map nodes vs) \<Longrightarrow> rh_objs h x = m x) \<Longrightarrow> 0 < a \<Longrightarrow>
     \<forall>v \<in> set vs. depth v < n \<Longrightarrow>
     free_elements (free_reply n) (addrs a vs) h = Inr (wipe a (sum_list (map nodes vs)) h)"
proof (induction m a v and m a vs arbitrary: n h and n h rule: rep_reps.induct)
  case (6 m a vs)
  then obtain k where k: "n = Suc k" by (cases n) auto
  have "\<forall>v \<in> set vs. depth v < k" using "6.prems"(4) k fold_max_ge [of _ "map depth vs" 0] by fastforce
  with 6 have "free_elements (free_reply k) (addrs (Suc a) vs) h = Inr (wipe (Suc a) (sum_list (map nodes vs)) h)" by simp
  with 6 k show ?case
    by (cases vs) (simp_all add: array_obj_def blank_reply_def wipe_one drop_wipe)
next
  case (8 m a v vs)
  have "free_elements (free_reply n) (addrs (a + nodes v) vs) (wipe a (nodes v) h) =
      Inr (wipe (a + nodes v) (sum_list (map nodes vs)) (wipe a (nodes v) h))"
    by (rule "8.IH"(2)) (use "8.prems" in \<open>auto simp: wipe_def\<close>)
  moreover have "free_reply n a h = Inr (wipe a (nodes v) h)" by (rule "8.IH"(1)) (use "8.prems" in auto)
  ultimately show ?case using "8.prems"(3) by (simp add: wipe_wipe)
qed (auto simp: string_obj_def blank_reply_def wipe_one wipe_none gr0_conv_Suc)

lemma depth_le_nodes: "depth v \<le> nodes v"
proof (induction v)
  case (RArray vs)
  have "fold max xs b \<le> b + sum_list (xs :: nat list)" for xs b
  proof (induction xs arbitrary: b)
    case (Cons x xs)
    have "max x b + sum_list xs \<le> b + (x + sum_list xs)" by simp
    with Cons.IH [of "max x b"] show ?case unfolding fold_simps sum_list.Cons by (rule order_trans)
  qed simp
  from this [of "map depth vs" 0] have "fold max (map depth vs) 0 \<le> sum_list (map depth vs)" by simp
  also have "\<dots> \<le> sum_list (map nodes vs)" using RArray by (intro sum_list_mono) simp
  finally show ?case by simp
qed simp_all

lemma freeReplyObject_rep:
  assumes "rep (rh_objs h) a v" "0 < a" "a + nodes v \<le> rh_next h"
  shows "freeReplyObject a h = Inr (wipe a (nodes v) h)"
  using free_reply_rep(1) [OF assms(1) refl assms(2), of "Suc (rh_next h)"] assms depth_le_nodes [of v]
  by (simp add: freeReplyObject_def)

text \<open>A reply that was built on top of a heap is released without a trace.\<close>

lemma released:
  assumes "heap_ok h" "rh_next h' = rh_next h + nodes v" "heap_ok h'" "\<forall>x < rh_next h. rh_objs h' x = rh_objs h x"
    "rep (rh_objs h') (rh_next h) v"
  shows "\<exists>h2. freeReplyObject (rh_next h) h' = Inr h2 \<and> heap_ok h2 \<and> rh_objs h2 = rh_objs h"
proof -
  let ?h2 = "wipe (rh_next h) (nodes v) h'"
  have "freeReplyObject (rh_next h) h' = Inr ?h2" using assms by (intro freeReplyObject_rep) (simp_all add: heap_ok_def)
  moreover have "rh_objs ?h2 = rh_objs h" using assms by (auto simp: wipe_def heap_ok_def fun_eq_iff)
  moreover have "heap_ok ?h2" using assms by (auto simp: wipe_def heap_ok_def)
  ultimately show ?thesis by blast
qed

text \<open>
  C37. Nothing is leaked and nothing is freed twice: when the reply that the reader built is passed to
  \<^verbatim>\<open>freeReplyObject\<close>, the call returns and the live objects are exactly those from before the reply was
  read.
\<close>

theorem reply_released:
  assumes "\<And>n. al_ok A n" and "wf_reply v" "depth v \<le> 8" "length (encode v) < 2 ^ 30"
    and "concat cs = encode v" "[] \<notin> set cs" and "heap_ok h" and "redisReaderCreateWithFunctions A = Inr (Some r)"
  shows "\<exists>r' h' a h''. feed_chunks A (Some (defaultFunctions A)) cs r h = Inr (r', h', replicate (length cs - 1) 0 @ [a]) \<and>
    freeReplyObject a h' = Inr h'' \<and> rh_objs h'' = rh_objs h"
proof -
  from feed_encoding [OF assms] obtain r' h' where
    feed: "feed_chunks A (Some (defaultFunctions A)) cs r h = Inr (r', h', replicate (length cs - 1) 0 @ [rh_next h])"
    and h': "rh_next h' = rh_next h + nodes v" "heap_ok h'" "\<forall>x < rh_next h. rh_objs h' x = rh_objs h x" "rep (rh_objs h') (rh_next h) v"
    by blast
  have "freeReplyObject (rh_next h) h' = Inr (wipe (rh_next h) (nodes v) h')"
    using h' assms(7) by (intro freeReplyObject_rep) (simp_all add: heap_ok_def)
  moreover have "rh_objs (wipe (rh_next h) (nodes v) h') = rh_objs h"
    using h' assms(7) by (auto simp: wipe_def heap_ok_def fun_eq_iff)
  ultimately show ?thesis using feed by blast
qed

theorem reply_released_witness:
  "\<exists>r r' h' h'' a. feed_chunks any_memory (Some (defaultFunctions any_memory)) [''+OK'', [CR, LF]] r heap0 = Inr (r', h', [0, a]) \<and>
    freeReplyObject a h' = Inr h'' \<and> rh_objs h'' = Map.empty"
proof -
  have A: "\<And>n. al_ok any_memory n" by (simp add: any_memory_def)
  obtain r where r: "redisReaderCreateWithFunctions any_memory = Inr (Some r)" using createReader_ok [of any_memory] A by auto
  let ?cs = "[''+OK'', [CR, LF]]"
  have "concat ?cs = encode (RStatus ''OK'')" "length (encode (RStatus ''OK'')) < 2 ^ 30" "[] \<notin> set ?cs"
    by (simp_all add: line_def)
  moreover have "wf_reply (RStatus ''OK'')" "depth (RStatus ''OK'') \<le> 8" by simp_all
  ultimately obtain r' h' a h'' where
    "feed_chunks any_memory (Some (defaultFunctions any_memory)) ?cs r heap0 = Inr (r', h', replicate (length ?cs - 1) 0 @ [a])"
    "freeReplyObject a h' = Inr h''" "rh_objs h'' = rh_objs heap0"
    using reply_released [OF A _ _ _ _ _ heap_ok_heap0 r, of "RStatus ''OK''" ?cs] by blast
  moreover have "replicate (length ?cs - 1) 0 @ [a] = [0, a]" "rh_objs heap0 = Map.empty" by (simp_all add: heap0_def)
  ultimately show ?thesis by metis
qed

subsection \<open>Counts that do not fit an \<^verbatim>\<open>int\<close>\<close>

lemma parse_multi_truncated:
  assumes "0 < n" "n < 2 ^ 63" "sint (word_of_int n :: u32) \<le> 0" and "heap_ok h" and A: "\<And>n. al_ok A n"
  shows "parse_loop (Some (defaultFunctions A)) priv
      \<lparr>ps_stack = [fresh_task (- 1) priv], ps_reply = 0, ps_bytes = line (CHR ''*'') (int_to_string n) @ encode (RInteger 1)\<rparr> h = Inl InvalidAccess"
proof -
  let ?fn = "Some (defaultFunctions A)" and ?count = "sint (word_of_int n :: u32)"
  let ?p = "\<lparr>ps_stack = [fresh_task (- 1) priv], ps_reply = 0, ps_bytes = line (CHR ''*'') (int_to_string n) @ encode (RInteger 1)\<rparr>"
  let ?cur = "(fresh_task (- 1) priv)\<lparr>rt_type := REDIS_REPLY_ARRAY\<rparr>"
  let ?h = "alloc_obj ((blank_reply REDIS_REPLY_ARRAY)\<lparr>ry_element := None, ry_elements := unat (word_of_int ?count :: u64)\<rparr>) h"
  let ?q = "\<lparr>ps_stack = [fresh_task 0 priv, ?cur\<lparr>rt_elements := ?count, rt_obj := rh_next h\<rparr>], ps_reply = rh_next h, ps_bytes = encode (RInteger 1)\<rparr>"
  have create: "createArrayObject A [?cur] ?count h = Inr (rh_next h, ?h)"
    using assms(3) heap_ok_next [OF assms(4)]
    by (simp add: createArrayObject_def createReplyObject_ok [OF A] obj_update_alloc store_in_parent_def not_less)
  have "parse_item ?fn priv ?p h = parse_typed ?fn priv (typed_state ?p REDIS_REPLY_ARRAY (int_to_string n @ CR # LF # encode (RInteger 1))) h"
    by (intro parse_item_line [where c = "CHR ''*''"]) (simp_all add: type_of_byte_def fresh_task_def)
  also have "\<dots> = Inr (Item ?q ?h)"
    using create readLongLong_int [of n "[]"] assms(1,2) crlf_cut [OF int_to_string_no_cr, of n "encode (RInteger 1)"] heap_ok_next [OF assms(4)]
    by (simp add: parse_typed_def parse_multi_def create_def Let_def typed_state_def del: encode.simps)
  finally have 1: "parse_loop ?fn priv ?p h = parse_loop ?fn priv ?q ?h" by (simp add: parse_loop_unfold)
  have "parse_item ?fn priv ?q ?h = parse_typed ?fn priv (typed_state ?q REDIS_REPLY_INTEGER (int_to_string 1 @ CR # LF # [])) ?h"
    by (intro parse_item_line [where c = "CHR '':''"]) (simp_all add: type_of_byte_def fresh_task_def)
  also have "\<dots> = Inl InvalidAccess"
    using readLongLong_int [of 1 "[]"] crlf_cut [OF int_to_string_no_cr, of 1 "[]"] A
    by (simp add: parse_typed_def parse_line_def createIntegerObject_def createReplyObject_def alloc_obj_def obj_update_def store_in_parent_def blank_reply_def)
  finally show ?thesis unfolding 1 by (simp add: parse_loop_unfold)
qed

text \<open>
  C38. The element count of an array is read as a 64-bit number but kept in an \<^verbatim>\<open>int\<close>: for a count whose
  low 32 bits are zero or negative (such as 4294967296) no element array is allocated, the first
  element is still expected, and storing it writes through the null pointer.
\<close>

theorem multibulk_count_truncated:
  assumes "\<And>n. al_ok A n" and "0 < n" "n < 2 ^ 63" "sint (word_of_int n :: u32) \<le> 0" and "heap_ok h"
    and "redisReaderCreateWithFunctions A = Inr (Some r)"
  shows "feed_chunks A (Some (defaultFunctions A)) [line (CHR ''*'') (int_to_string n) @ encode (RInteger 1)] r h = Inl InvalidAccess"
proof -
  let ?fn = "Some (defaultFunctions A)" and ?bytes = "line (CHR ''*'') (int_to_string n) @ encode (RInteger 1)"
  have r: "reader_ok r" "rd_len r = 0" "pstate_of r = \<lparr>ps_stack = [], ps_reply = 0, ps_bytes = []\<rparr>"
    using createReader_ok [of A] assms(1,6) by auto
  have "length (int_to_string n) \<le> 20" "length (int_to_string 1) \<le> 20" using assms(2,3) by (intro int_to_string_length; simp)+
  then have "rd_len r + length ?bytes < 2 ^ 30" "?bytes \<noteq> []" using r(2) by (simp_all add: line_def)
  then obtain r1 where r1: "redisReaderFeed A ?fn r ?bytes h = Inr (r1, h, True)" "reader_ok r1" "pstate_of r1 = ext ?bytes (pstate_of r)"
    "rd_len r1 = rd_len r + length ?bytes" using redisReaderFeed_ok [OF r(1) assms(1), of ?bytes ?fn h] by blast
  have "started (rd_privdata r1) (pstate_of r1) =
      \<lparr>ps_stack = [fresh_task (- 1) (rd_privdata r1)], ps_reply = 0, ps_bytes = ?bytes\<rparr>" using r1(3) r(3) by (simp add: started_def ext_def)
  moreover have "0 < rd_len r1" using r1(4) by (simp add: line_def)
  ultimately have "redisReaderGetReply ?fn r1 h = Inl InvalidAccess"
    using GetReply_loop(1) [OF r1(2) _ fn_local_default, of A h] parse_multi_truncated [OF assms(2-5,1), of "rd_privdata r1"] by simp
  with r1(1) show ?thesis by simp
qed

theorem multibulk_count_truncated_witness:
  "\<exists>r. feed_chunks any_memory (Some (defaultFunctions any_memory)) [line (CHR ''*'') (int_to_string (2 ^ 32)) @ encode (RInteger 1)] r heap0 =
    Inl InvalidAccess"
proof -
  have A: "\<And>n. al_ok any_memory n" by (simp add: any_memory_def)
  obtain r where r: "redisReaderCreateWithFunctions any_memory = Inr (Some r)" using createReader_ok [of any_memory] A by auto
  show ?thesis using multibulk_count_truncated [of any_memory "2 ^ 32" heap0 r] A r heap_ok_heap0 by auto
qed

end
