(* ===== verification/Redis_Format.thy ===== *)
theory Redis_Format
  imports Redis_Roundtrip
begin

text \<open>
  The command formatters of \<^verbatim>\<open>redis/hiredis/hiredis.c\<close>. A call returns the length of the command and
  the command with its terminator, or a negative code. \<^verbatim>\<open>int\<close> lengths keep 32 bits. Variable
  arguments are a list of typed values; reading one that is not there, or one of another type, is
  \<open>InvalidAccess\<close>. What \<^verbatim>\<open>vsnprintf\<close> prints for a conversion and the arguments is the parameter \<open>pf\<close>.
\<close>

subsection \<open>Lengths\<close>

function countDigits_loop :: "nat \<Rightarrow> nat \<Rightarrow> nat" where
  "countDigits_loop v result =
     (if v < 10 then result
      else if v < 100 then result + 1
      else if v < 1000 then result + 2
      else if v < 10000 then result + 3
      else countDigits_loop (v div 10000) (result + 4))"
  by pat_completeness auto
termination by (relation "measure fst") auto

declare countDigits_loop.simps [simp del]

definition countDigits :: "nat \<Rightarrow> nat" where
  "countDigits v = countDigits_loop v 1"

definition bulklen :: "nat \<Rightarrow> nat" where
  "bulklen len = 1 + countDigits len + 2 + len + 2"

text \<open>\<^verbatim>\<open>totlen += n\<close> on an \<^verbatim>\<open>int\<close>.\<close>

definition add_int :: "int \<Rightarrow> nat \<Rightarrow> int" where
  "add_int a n = sint (word_of_int (a + int n) :: u32)"

subsection \<open>Writing the command\<close>

fun put_args :: "(string \<times> nat) list \<Rightarrow> string \<Rightarrow> int \<Rightarrow> (string \<times> int) result" where
  "put_args [] cmd pos = Inr (cmd, pos)"
| "put_args ((p, len) # args) cmd pos =
     (let hdr = ''$'' @ to_string len @ [CR, LF] in
      rbind (poke cmd pos (hdr @ [NUL])) (\<lambda>cmd1.
      rbind (peek p len) (\<lambda>bytes.
      rbind (poke cmd1 (pos + int (length hdr)) bytes) (\<lambda>cmd2.
      rbind (poke cmd2 (pos + int (length hdr) + int len) [CR, LF]) (\<lambda>cmd3.
      put_args args cmd3 (pos + int (length hdr) + int len + 2))))))"

definition emit_command :: "allocator \<Rightarrow> int \<Rightarrow> (string \<times> nat) list \<Rightarrow> (int \<times> string) option result" where
  "emit_command A totlen args =
     (let n = unat (word_of_int (totlen + 1) :: u64); hdr = ''*'' @ to_string (length args) @ [CR, LF] in
      if \<not> al_ok A n then Inr None
      else
        rbind (poke (replicate n (al_junk A)) 0 (hdr @ [NUL])) (\<lambda>cmd.
        rbind (put_args args cmd (int (length hdr))) (\<lambda>(cmd1, pos).
        if pos \<noteq> totlen then Inl AssertFailure
        else rbind (poke cmd1 pos [NUL]) (\<lambda>cmd2. Inr (Some (totlen, cmd2))))))"

subsection \<open>\<^verbatim>\<open>redisvFormatCommand\<close>\<close>

datatype vararg =
    VStr string
  | VSize nat
  | VInt int
  | VLong int
  | VLongLong int
  | VDouble real

datatype vkind = KInt | KLong | KLongLong | KDouble

fun va_take :: "vkind \<Rightarrow> vararg list \<Rightarrow> vararg list result" where
  "va_take KInt (VInt n # ap) = Inr ap"
| "va_take KLong (VLong n # ap) = Inr ap"
| "va_take KLongLong (VLongLong n # ap) = Inr ap"
| "va_take KDouble (VDouble x # ap) = Inr ap"
| "va_take k ap = Inl InvalidAccess"

text \<open>The printf conversion after a percent sign: the argument it takes and how many characters it has.
  \<^verbatim>\<open>strchr\<close> finds the terminator of its set, so a conversion that the end of the format cuts off is
  taken for an integer one.\<close>

definition nth_char :: "string \<Rightarrow> nat \<Rightarrow> char" where
  "nth_char p i = (if i < length p then p ! i else NUL)"

definition scan_conv :: "string \<Rightarrow> (vkind \<times> nat) option" where
  "scan_conv p =
     (let p1 = dropWhile (\<lambda>c. c \<noteq> NUL \<and> strchr ''#0-+ '' c) p;
          p2 = dropWhile isdigit p1;
          p3 = (if p2 \<noteq> [] \<and> hd p2 = CHR ''.'' then dropWhile isdigit (tl p2) else p2);
          k = length p - length p3;
          int_at = (\<lambda>i. nth_char p3 i \<noteq> NUL \<and> strchr ''diouxX'' (nth_char p3 i)) in
      if strchr ''diouxX'' (nth_char p3 0) then Some (KInt, k + 1)
      else if strchr ''eEfFgGaA'' (nth_char p3 0) then Some (KDouble, k + 1)
      else if nth_char p3 0 = CHR ''h'' \<and> nth_char p3 1 = CHR ''h'' then (if int_at 2 then Some (KInt, k + 3) else None)
      else if nth_char p3 0 = CHR ''h'' then (if int_at 1 then Some (KInt, k + 2) else None)
      else if nth_char p3 0 = CHR ''l'' \<and> nth_char p3 1 = CHR ''l'' then (if int_at 2 then Some (KLongLong, k + 3) else None)
      else if nth_char p3 0 = CHR ''l'' then (if int_at 1 then Some (KLong, k + 2) else None)
      else None)"

lemma scan_conv_pos: "scan_conv p = Some (k, n) \<Longrightarrow> 0 < n"
  by (auto simp: scan_conv_def Let_def split: if_splits)

record fmt_state =
  f_cur :: sds
  f_touched :: bool
  f_args :: "sds list"
  f_totlen :: int

datatype fmt_end = Formatted fmt_state | MemoryErr | FormatErr

text \<open>The current argument becomes the next element of the vector.\<close>

definition push_arg :: "allocator \<Rightarrow> fmt_state \<Rightarrow> fmt_state option" where
  "push_arg A st =
     (if al_ok A (8 * (length (f_args st) + 1)) then
        Some (st\<lparr>f_args := f_args st @ [f_cur st], f_totlen := add_int (f_totlen st) (bulklen (sdslen (f_cur st)))\<rparr>)
      else None)"

text \<open>An append to the current argument, then the rest of the format.\<close>

definition with_arg :: "sds option result \<Rightarrow> fmt_state \<Rightarrow> (fmt_state \<Rightarrow> fmt_end result) \<Rightarrow> fmt_end result" where
  "with_arg m st k =
     rbind m (\<lambda>r. case r of None \<Rightarrow> Inr MemoryErr | Some s \<Rightarrow> k (st\<lparr>f_cur := s, f_touched := True\<rparr>))"

lemma with_arg_cong [fundef_cong]:
  "m = m' \<Longrightarrow> st = st' \<Longrightarrow> (\<And>x. k x = k' x) \<Longrightarrow> with_arg m st k = with_arg m' st' k'"
  by presburger

function format_loop ::
  "allocator \<Rightarrow> (string \<Rightarrow> vararg list \<Rightarrow> string) \<Rightarrow> string \<Rightarrow> vararg list \<Rightarrow> fmt_state \<Rightarrow> fmt_end result" where
  "format_loop A pf [] ap st = Inr (Formatted st)"
| "format_loop A pf (ch # c) ap st =
     (if ch \<noteq> CHR ''%'' \<or> c = [] then
        (if ch = CHR '' '' then
           (if f_touched st then
              (case push_arg A st of
                 None \<Rightarrow> Inr MemoryErr
               | Some st1 \<Rightarrow>
                   (case sdsempty A of
                      Inl e \<Rightarrow> Inl e
                    | Inr None \<Rightarrow> Inr MemoryErr
                    | Inr (Some s) \<Rightarrow> format_loop A pf c ap (st1\<lparr>f_cur := s, f_touched := False\<rparr>)))
            else format_loop A pf c ap st)
         else with_arg (sdscatlen A (f_cur st) [ch] 1) st (format_loop A pf c ap))
      else if hd c = CHR ''s'' then
        (case ap of
           VStr t # ap' \<Rightarrow>
             with_arg (if c_str t \<noteq> [] then sdscatlen A (f_cur st) t (length (c_str t)) else Inr (Some (f_cur st))) st
               (format_loop A pf (tl c) ap')
         | _ \<Rightarrow> Inl InvalidAccess)
      else if hd c = CHR ''b'' then
        (case ap of
           VStr t # VSize n # ap' \<Rightarrow>
             with_arg (if 0 < n then sdscatlen A (f_cur st) t n else Inr (Some (f_cur st))) st (format_loop A pf (tl c) ap')
         | _ \<Rightarrow> Inl InvalidAccess)
      else if hd c = CHR ''%'' then with_arg (sdscat A (f_cur st) ''%'') st (format_loop A pf (tl c) ap)
      else
        (case scan_conv c of
           None \<Rightarrow> Inr FormatErr
         | Some (k, n) \<Rightarrow>
             (case va_take k ap of
                Inl e \<Rightarrow> Inl e
              | Inr ap' \<Rightarrow>
                  if Suc n < 14 then
                    with_arg (sdscatvprintf A (f_cur st) (pf (ch # take n c) ap)) st
                      (\<lambda>st1. if length c < n then Inl InvalidAccess else format_loop A pf (drop n c) ap' st1)
                  else format_loop A pf (tl c) ap' (st\<lparr>f_touched := True\<rparr>))))"
  by pat_completeness auto
termination
  by (relation "measure (\<lambda>(A, pf, c, ap, st). length c)") (auto dest!: scan_conv_pos)

definition redisvFormatCommand ::
  "allocator \<Rightarrow> (string \<Rightarrow> vararg list \<Rightarrow> string) \<Rightarrow> string \<Rightarrow> vararg list \<Rightarrow> (int \<times> string) result" where
  "redisvFormatCommand A pf format ap =
     rbind (sdsempty A) (\<lambda>e.
     case e of
       None \<Rightarrow> Inr (- 1, [])
     | Some s \<Rightarrow>
         rbind (format_loop A pf format ap \<lparr>f_cur = s, f_touched = False, f_args = [], f_totlen = 0\<rparr>) (\<lambda>r.
         case r of
           MemoryErr \<Rightarrow> Inr (- 1, [])
         | FormatErr \<Rightarrow> Inr (- 2, [])
         | Formatted st \<Rightarrow>
             (case (if f_touched st then push_arg A st else Some st) of
                None \<Rightarrow> Inr (- 1, [])
              | Some st1 \<Rightarrow>
                  rbind (emit_command A (add_int (f_totlen st1) (1 + countDigits (length (f_args st1)) + 2))
                           (map (\<lambda>a. (sd_buf a, sdslen a)) (f_args st1))) (\<lambda>cmd.
                  case cmd of None \<Rightarrow> Inr (- 1, []) | Some r \<Rightarrow> Inr r))))"

definition redisFormatCommand ::
  "allocator \<Rightarrow> (string \<Rightarrow> vararg list \<Rightarrow> string) \<Rightarrow> string \<Rightarrow> vararg list \<Rightarrow> (int \<times> string) result" where
  "redisFormatCommand A pf format ap =
     rbind (redisvFormatCommand A pf format ap) (\<lambda>(len, cmd). Inr (if len < 0 then (- 1, cmd) else (len, cmd)))"

subsection \<open>The formatters of argument vectors\<close>

text \<open>The arguments with their lengths; without a vector of lengths they are C strings.\<close>

definition arg_pairs :: "string list \<Rightarrow> nat list option \<Rightarrow> (string \<times> nat) list" where
  "arg_pairs argv argvlen =
     (case argvlen of None \<Rightarrow> map (\<lambda>a. (a, length (c_str a))) argv | Some lens \<Rightarrow> zip argv lens)"

definition redisFormatCommandArgv :: "allocator \<Rightarrow> string list \<Rightarrow> nat list option \<Rightarrow> (int \<times> string) result" where
  "redisFormatCommandArgv A argv argvlen =
     (let args = arg_pairs argv argvlen;
          totlen = fold (\<lambda>(_, len) t. add_int t (bulklen len)) args (int (1 + countDigits (length args) + 2)) in
      rbind (emit_command A totlen args) (\<lambda>cmd. case cmd of None \<Rightarrow> Inr (- 1, []) | Some r \<Rightarrow> Inr r))"

fun sds_args :: "allocator \<Rightarrow> (string \<times> nat) list \<Rightarrow> sds \<Rightarrow> sds option result" where
  "sds_args A [] cmd = Inr (Some cmd)"
| "sds_args A ((p, len) # args) cmd =
     rbind (sdscatfmt A cmd (''$%T'' @ [CR, LF]) [Arg_uint len]) (\<lambda>cmd1.
     and_then (sdscatlen A cmd1 p len) (\<lambda>cmd2.
     and_then (sdscatlen A cmd2 [CR, LF] 2) (sds_args A args)))"

definition redisFormatSdsCommandArgv :: "allocator \<Rightarrow> string list \<Rightarrow> nat list option \<Rightarrow> (int \<times> sds option) result" where
  "redisFormatSdsCommandArgv A argv argvlen =
     (let args = arg_pairs argv argvlen;
          totlen = 1 + countDigits (length args) + 2 + sum_list (map (\<lambda>(_, len). bulklen len) args) in
      rbind (sdsempty A) (\<lambda>e.
      case e of
        None \<Rightarrow> Inr (- 1, None)
      | Some cmd \<Rightarrow>
          rbind (sdsMakeRoomFor A cmd totlen) (\<lambda>r.
          case r of
            None \<Rightarrow> Inr (- 1, None)
          | Some cmd1 \<Rightarrow>
              rbind (sdscatfmt A cmd1 (''*%i'' @ [CR, LF]) [Arg_int (int (length args))]) (\<lambda>cmd2.
              rbind (sds_args A args cmd2) (\<lambda>r.
              case r of
                None \<Rightarrow> Inl InvalidAccess
              | Some cmd3 \<Rightarrow> if sdslen cmd3 \<noteq> totlen then Inl AssertFailure else Inr (to_int totlen, Some cmd3))))))"

end
