(* ===== verification/Redis_Format_Laws.thy ===== *)
theory Redis_Format_Laws
  imports Redis_Format
begin

text \<open>
  The command formatters write the encoding of an array of strings, their length computations are
  exact, so that neither assertion can fail, and the reader reads a command back.
\<close>

subsection \<open>Lengths\<close>

lemma length_to_string: "length (to_string v) = (if v < 10 then 1 else Suc (length (to_string (v div 10))))"
  by (subst to_string.simps) simp

lemma countDigits_loop_to_string: "countDigits_loop v (Suc r) = r + length (to_string v)"
proof (induction v "Suc r" arbitrary: r rule: countDigits_loop.induct)
  case (1 v)
  have step: "countDigits_loop (v div 10000) (Suc (r + 4)) = r + 4 + length (to_string (v div 10000))" if "\<not> v < 10000"
    using 1 [of "r + 4"] that by simp
  have div: "v div 10 div 10 div 10 div 10 = v div 10000" by (simp add: div_mult2_eq [symmetric])
  have "length (to_string v) = 4 + length (to_string (v div 10000))" if "\<not> v < 10000"
    using that length_to_string [of v] length_to_string [of "v div 10"] length_to_string [of "v div 10 div 10"]
      length_to_string [of "v div 10 div 10 div 10"] div by (simp add: div_less_iff_less_mult div_mult2_eq [symmetric])
  moreover have "v < 10 \<Longrightarrow> length (to_string v) = 1" "\<not> v < 10 \<Longrightarrow> v < 100 \<Longrightarrow> length (to_string v) = 2"
    "\<not> v < 100 \<Longrightarrow> v < 1000 \<Longrightarrow> length (to_string v) = 3" "\<not> v < 1000 \<Longrightarrow> v < 10000 \<Longrightarrow> length (to_string v) = 4"
    using length_to_string [of v] length_to_string [of "v div 10"] length_to_string [of "v div 10 div 10"]
      length_to_string [of "v div 10 div 10 div 10"] by (simp_all add: div_less_iff_less_mult div_mult2_eq [symmetric])
  ultimately show ?case using step by (subst countDigits_loop.simps) simp
qed

lemma countDigits_to_string: "countDigits v = length (to_string v)"
  using countDigits_loop_to_string [of v 0] by (simp add: countDigits_def)

lemma bulklen_encode: "bulklen (length s) = length (encode (RString s))"
  by (simp add: bulklen_def countDigits_to_string line_def)

subsection \<open>Writing the command\<close>

definition arg_ok :: "string \<times> nat \<Rightarrow> bool" where
  "arg_ok a \<longleftrightarrow> snd a \<le> length (fst a)"

definition arg_bytes :: "string \<times> nat \<Rightarrow> string" where
  "arg_bytes a = take (snd a) (fst a)"

definition command :: "string list \<Rightarrow> string" where
  "command ss = encode (RArray (map RString ss))"

definition bulks :: "string list \<Rightarrow> string" where
  "bulks ss = concat (map (\<lambda>s. encode (RString s)) ss)"

lemma bulks_simps [simp]: "bulks [] = []" "bulks (s # ss) = encode (RString s) @ bulks ss" "bulks (ss @ ts) = bulks ss @ bulks ts"
  by (simp_all add: bulks_def)

lemma command_bulks: "command ss = line (CHR ''*'') (to_string (length ss)) @ bulks ss"
  by (simp add: command_def bulks_def comp_def)

lemma arg_bytes_length: "arg_ok a \<Longrightarrow> length (arg_bytes a) = snd a"
  by (simp add: arg_ok_def arg_bytes_def)

text \<open>A write right behind what is already there.\<close>

lemma poke_after:
  assumes "i + length t \<le> length buf"
  shows "\<exists>buf'. poke buf (int i) t = Inr buf' \<and> length buf' = length buf \<and> take (i + length t) buf' = take i buf @ t"
  using poke_ok [OF assms] assms by simp

lemma put_args_ok:
  "list_all arg_ok args \<Longrightarrow> n + length (bulks (map arg_bytes args)) + 1 \<le> length cmd \<Longrightarrow>
    \<exists>cmd'. put_args args cmd (int n) = Inr (cmd', int (n + length (bulks (map arg_bytes args)))) \<and> length cmd' = length cmd \<and>
      take (n + length (bulks (map arg_bytes args))) cmd' = take n cmd @ bulks (map arg_bytes args)"
proof (induction args arbitrary: n cmd)
  case (Cons a args)
  obtain p len where a: "a = (p, len)" by fastforce
  define hdr where "hdr = ''$'' @ to_string len @ [CR, LF]"
  define bytes where "bytes = take len p"
  have len: "length bytes = len" "arg_bytes a = bytes" "peek p len = Inr bytes"
    using Cons.prems(1) a by (simp_all add: bytes_def arg_ok_def arg_bytes_def peek_def)
  have enc: "encode (RString bytes) = hdr @ bytes @ [CR, LF]" by (simp add: hdr_def line_def len(1))
  have room: "n + length hdr + len + 2 + length (bulks (map arg_bytes args)) + 1 \<le> length cmd"
    using Cons.prems(2) len enc by simp
  obtain cmd1 where 1: "poke cmd (int n) (hdr @ [NUL]) = Inr cmd1" "length cmd1 = length cmd"
    "take (n + length (hdr @ [NUL])) cmd1 = take n cmd @ hdr @ [NUL]"
    using room poke_after [of n "hdr @ [NUL]" cmd] by auto
  have "take (n + length hdr) (take (n + length (hdr @ [NUL])) cmd1) = take n cmd @ hdr" unfolding 1(3) using room by simp
  then have hdr: "take (n + length hdr) cmd1 = take n cmd @ hdr" by (simp add: take_take)
  obtain cmd2 where 2: "poke cmd1 (int (n + length hdr)) bytes = Inr cmd2" "length cmd2 = length cmd1"
    "take (n + length hdr + length bytes) cmd2 = take (n + length hdr) cmd1 @ bytes"
    using room 1(2) len(1) poke_after [of "n + length hdr" bytes cmd1] by auto
  obtain cmd3 where 3: "poke cmd2 (int (n + length hdr + len)) [CR, LF] = Inr cmd3" "length cmd3 = length cmd2"
    "take (n + length hdr + len + 2) cmd3 = take (n + length hdr + len) cmd2 @ [CR, LF]"
    using room 1(2) 2(2) poke_after [of "n + length hdr + len" "[CR, LF]" cmd2] by auto
  have "put_args (a # args) cmd (int n) = put_args args cmd3 (int (n + length hdr + len + 2))"
    unfolding a put_args.simps Let_def hdr_def [symmetric] using 1(1) 2(1) 3(1) len(3) by (simp add: ac_simps)
  moreover have "take (n + length hdr + len + 2) cmd3 = take n cmd @ encode (RString bytes)" using hdr 2(3) 3(3) len(1) enc by simp
  moreover have "length (encode (RString bytes)) = length hdr + len + 2" using enc len(1) by simp
  ultimately show ?case using Cons.IH [of "n + length hdr + len + 2" cmd3] Cons.prems(1) room 1(2) 2(2) 3(2) len(2)
    by (auto simp: add.assoc simp del: encode.simps)
qed simp

lemma emit_command_ok:
  assumes "\<And>n. al_ok A n" and "list_all arg_ok args" and "length (command (map arg_bytes args)) < 2 ^ 31"
    and "totlen = int (length (command (map arg_bytes args)))"
  shows "emit_command A totlen args = Inr (Some (totlen, command (map arg_bytes args) @ [NUL]))"
proof -
  define hdr where "hdr = ''*'' @ to_string (length args) @ [CR, LF]"
  let ?L = "length (bulks (map arg_bytes args))" and ?c = "command (map arg_bytes args)"
  have c: "?c = hdr @ bulks (map arg_bytes args)" by (simp add: command_bulks hdr_def line_def)
  have n: "unat (word_of_int (totlen + 1) :: u64) = length ?c + 1"
  proof -
    have "(word_of_int (totlen + 1) :: u64) = word_of_nat (length ?c + 1)" using assms(4) by simp
    then show ?thesis using assms(3) by (simp only: unat_of_nat) (simp add: take_bit_nat_eq_self)
  qed
  obtain cmd where 1: "poke (replicate (length ?c + 1) (al_junk A)) (int 0) (hdr @ [NUL]) = Inr cmd" "length cmd = length ?c + 1"
    "take (0 + length (hdr @ [NUL])) cmd = take 0 (replicate (length ?c + 1) (al_junk A)) @ hdr @ [NUL]"
    using c poke_after [of 0 "hdr @ [NUL]" "replicate (length ?c + 1) (al_junk A)"] by auto
  have hdr: "take (length hdr) cmd = hdr" using arg_cong [OF 1(3), of "take (length hdr)"] by simp
  obtain cmd' where 2: "put_args args cmd (int (length hdr)) = Inr (cmd', int (length hdr + ?L))" "length cmd' = length cmd"
    "take (length hdr + ?L) cmd' = take (length hdr) cmd @ bulks (map arg_bytes args)"
    using put_args_ok [OF assms(2), of "length hdr" cmd] 1(2) c by auto
  have pos: "length hdr + ?L = length ?c" using c by simp
  obtain cmd2 where 3: "poke cmd' (int (length ?c)) [NUL] = Inr cmd2" "length cmd2 = length cmd'"
    "take (length ?c + length [NUL]) cmd2 = take (length ?c) cmd' @ [NUL]"
    using 1(2) 2(2) poke_after [of "length ?c" "[NUL]" cmd'] by auto
  have "take (length ?c) cmd' = ?c" using 2(3) hdr pos c by metis
  moreover have "take (length ?c + length [NUL]) cmd2 = cmd2" using 3(2) 2(2) 1(2) by simp
  ultimately have "cmd2 = ?c @ [NUL]" using 3(3) by simp
  then show ?thesis using 1(1) 2(1) 3(1) n assms(1,4) pos unfolding emit_command_def Let_def hdr_def [symmetric] by simp
qed

lemma add_int_small: "a + n < 2 ^ 31 \<Longrightarrow> add_int (int a) n = int (a + n)"
  using to_int_small [of "a + n"] by (simp add: add_int_def to_int_def)

lemma fold_add_int:
  "a + sum_list (map (\<lambda>(_, len). bulklen len) args) < 2 ^ 31 \<Longrightarrow>
    fold (\<lambda>(_, len) t. add_int t (bulklen len)) args (int a) = int (a + sum_list (map (\<lambda>(_, len). bulklen len) args))"
proof (induction args arbitrary: a)
  case (Cons x args)
  obtain p len where "x = (p, len)" by fastforce
  then show ?case using Cons.IH [of "a + bulklen len"] Cons.prems by (simp add: add_int_small)
qed simp

lemma sum_bulklen: "list_all arg_ok args \<Longrightarrow> sum_list (map (\<lambda>(_, len). bulklen len) args) = length (bulks (map arg_bytes args))"
proof (induction args)
  case (Cons a args)
  then show ?case using bulklen_encode [of "arg_bytes a"] arg_bytes_length [of a] by (simp add: case_prod_beta del: encode.simps)
qed simp

lemma command_length:
  "list_all arg_ok args \<Longrightarrow>
    length (command (map arg_bytes args)) = 1 + countDigits (length args) + 2 + sum_list (map (\<lambda>(_, len). bulklen len) args)"
  by (simp add: sum_bulklen command_bulks line_def countDigits_to_string)

lemma redisFormatCommandArgv_ok:
  assumes "\<And>n. al_ok A n" and "list_all arg_ok (arg_pairs argv argvlen)"
    and "length (command (map arg_bytes (arg_pairs argv argvlen))) < 2 ^ 31"
  shows "redisFormatCommandArgv A argv argvlen =
    (let cmd = command (map arg_bytes (arg_pairs argv argvlen)) in Inr (int (length cmd), cmd @ [NUL]))"
proof -
  have "fold (\<lambda>(_, len) t. add_int t (bulklen len)) (arg_pairs argv argvlen) (int (1 + countDigits (length (arg_pairs argv argvlen)) + 2)) =
      int (length (command (map arg_bytes (arg_pairs argv argvlen))))"
    using fold_add_int [of "1 + countDigits (length (arg_pairs argv argvlen)) + 2" "arg_pairs argv argvlen"]
      command_length [OF assms(2)] assms(3) by simp
  then show ?thesis unfolding redisFormatCommandArgv_def Let_def
    using emit_command_ok [OF assms(1-3) refl] by simp
qed

lemma sdscatfmt_header:
  assumes "\<And>n. al_ok A n" "sds_ok s" "sdslen s + length (to_string n) + 10 < 2 ^ 30" "n < 2 ^ 63"
  shows "\<exists>s'. sdscatfmt A s (''$%T'' @ [CR, LF]) [Arg_uint n] = Inr s' \<and> sds_ok s' \<and> content s' = content s @ line (CHR ''$'') (to_string n)"
    and "\<exists>s'. sdscatfmt A s (''*%i'' @ [CR, LF]) [Arg_int (int n)] = Inr s' \<and> sds_ok s' \<and> content s' = content s @ line (CHR ''*'') (to_string n)"
  using sdscatfmt_ok [of A s "''$%T'' @ [CR, LF]" "[Arg_uint n]" "line (CHR ''$'') (to_string n)"]
    sdscatfmt_ok [of A s "''*%i'' @ [CR, LF]" "[Arg_int (int n)]" "line (CHR ''*'') (to_string n)"] assms
  by (simp_all add: line_def sdsull2str_decimal sdsll2str_int int_to_string_def)

lemma sds_args_ok:
  assumes A: "\<And>n. al_ok A n"
  shows "list_all arg_ok args \<Longrightarrow> sds_ok s \<Longrightarrow> sdslen s + length (bulks (map arg_bytes args)) + 10 < 2 ^ 30 \<Longrightarrow>
    yields (sds_args A args s) (content s @ bulks (map arg_bytes args))"
proof (induction args arbitrary: s)
  case (Cons a args)
  obtain p len where a: "a = (p, len)" by fastforce
  then have len: "len \<le> length p" "length (arg_bytes a) = len" "arg_bytes a = take len p"
    using Cons.prems(1) by (simp_all add: arg_ok_def arg_bytes_def)
  let ?b = "encode (RString (arg_bytes a))"
  have enc: "?b = line (CHR ''$'') (to_string len) @ take len p @ [CR, LF]" using len by simp
  have total: "sdslen s + length ?b + length (bulks (map arg_bytes args)) + 10 < 2 ^ 30" using Cons.prems(3) by (simp del: encode.simps)
  have bound: "length ?b = length (line (CHR ''$'') (to_string len)) + len + 2" "length (line (CHR ''$'') (to_string len)) = length (to_string len) + 3"
    unfolding enc using len(1) by (simp_all add: line_def)
  from sdscatfmt_header(1) [OF A Cons.prems(2), of len] total bound obtain s1 where
    s1: "sdscatfmt A s (''$%T'' @ [CR, LF]) [Arg_uint len] = Inr s1" "sds_ok s1" "content s1 = content s @ line (CHR ''$'') (to_string len)" by auto
  have l1: "sdslen s1 = sdslen s + length (line (CHR ''$'') (to_string len))"
    using length_content [OF s1(2)] length_content [OF Cons.prems(2)] s1(3) by simp
  have "sds_args A (a # args) s = and_then (sdscatlen A s1 p len) (\<lambda>s2. and_then (sdscatlen A s2 [CR, LF] 2) (sds_args A args))"
    using s1(1) by (simp add: a)
  also have "yields \<dots> (content s @ bulks (map arg_bytes (a # args)))"
  proof (rule and_then_yields)
    show "yields (sdscatlen A s1 p len) (content s1 @ take len p)" using total bound l1 s1(2) len(1) A by (intro sdscatlen_ok) simp_all
    fix s2
    assume s2: "sds_ok s2" "content s2 = content s1 @ take len p"
    have l2: "sdslen s2 = sdslen s1 + len" using length_content [OF s2(1)] length_content [OF s1(2)] s2(2) len(1) by simp
    show "yields (and_then (sdscatlen A s2 [CR, LF] 2) (sds_args A args)) (content s @ bulks (map arg_bytes (a # args)))"
    proof (rule and_then_yields)
      show "yields (sdscatlen A s2 [CR, LF] 2) (content s2 @ take 2 [CR, LF])"
        using total bound l1 l2 s2(1) A by (intro sdscatlen_ok) simp_all
      fix s3
      assume s3: "sds_ok s3" "content s3 = content s2 @ take 2 [CR, LF]"
      then have c3: "content s3 = content s @ ?b" using s1(3) s2(2) enc by simp
      then have "sdslen s3 = sdslen s + length ?b" using length_content [OF s3(1)] length_content [OF Cons.prems(2)] by simp
      with Cons.IH [OF _ s3(1)] Cons.prems(1) total c3
      show "yields (sds_args A args s3) (content s @ bulks (map arg_bytes (a # args)))" by (simp del: encode.simps)
    qed
  qed
  finally show ?case .
qed (simp add: yields_def)

lemma redisFormatSdsCommandArgv_ok:
  assumes A: "\<And>n. al_ok A n" and args: "list_all arg_ok (arg_pairs argv argvlen)"
    and len: "length (command (map arg_bytes (arg_pairs argv argvlen))) + 10 < 2 ^ 30"
  shows "\<exists>s. redisFormatSdsCommandArgv A argv argvlen = Inr (int (length (command (map arg_bytes (arg_pairs argv argvlen)))), Some s) \<and>
    sds_ok s \<and> content s = command (map arg_bytes (arg_pairs argv argvlen))"
proof -
  let ?args = "arg_pairs argv argvlen"
  let ?cmd = "command (map arg_bytes ?args)" and ?hdr = "line (CHR ''*'') (to_string (length ?args))"
  have cmd: "?cmd = ?hdr @ bulks (map arg_bytes ?args)" by (simp add: command_bulks)
  have small: "length ?args < 2 ^ 63"
  proof -
    have "length xs \<le> length (bulks (xs :: string list))" for xs by (induction xs) (simp_all add: line_def)
    from this [of "map arg_bytes ?args"] show ?thesis using len cmd by simp
  qed
  have hlen: "length ?hdr = length (to_string (length ?args)) + 3" by (simp add: line_def)
  obtain e where e: "sdsempty A = Inr (Some e)" "sds_ok e" "content e = []" using sdsempty_ok [of A] A by (auto simp: yields_def)
  then have "sdslen e = 0" using length_content [of e] by simp
  with sdsMakeRoomFor_ok [OF e(2), of "length ?cmd" A] A len obtain s1 where
    s1: "sdsMakeRoomFor A e (length ?cmd) = Inr (Some s1)" "sds_ok s1" "content s1 = []" using e(3) by auto
  then have l1: "sdslen s1 = 0" using length_content [of s1] by simp
  from sdscatfmt_header(2) [OF A s1(2) _ small] l1 len cmd hlen obtain s2 where
    s2: "sdscatfmt A s1 (''*%i'' @ [CR, LF]) [Arg_int (int (length ?args))] = Inr s2" "sds_ok s2" "content s2 = ?hdr"
    using s1(3) by auto
  then have l2: "sdslen s2 = length ?hdr" using length_content [of s2] by simp
  from sds_args_ok [OF A args s2(2)] l2 len cmd obtain s3 where
    s3: "sds_args A ?args s2 = Inr (Some s3)" "sds_ok s3" "content s3 = ?cmd" using s2(3) by (auto simp: yields_def)
  then have l3: "sdslen s3 = length ?cmd" using length_content [of s3] by simp
  have "redisFormatSdsCommandArgv A argv argvlen = Inr (to_int (length ?cmd), Some s3)"
    unfolding redisFormatSdsCommandArgv_def Let_def command_length [OF args, symmetric]
    using e(1) s1(1) s2(1) s3(1) l3 by simp
  then show ?thesis using s3 to_int_small [of "length ?cmd"] len by simp
qed

text \<open>
  C11. The two formatters of argument vectors agree and their size computation is exact: for arguments of
  any bytes, given with or without lengths, both succeed, both return the length of the encoding of
  the array of the arguments, and both hold exactly that encoding; so the assertions that compare
  the bytes written with the bytes reserved cannot fail.
\<close>

theorem formatters_agree:
  assumes "\<And>n. al_ok A n" and "list_all arg_ok (arg_pairs argv argvlen)"
    and "length (command (map arg_bytes (arg_pairs argv argvlen))) + 10 < 2 ^ 30"
  shows "let cmd = command (map arg_bytes (arg_pairs argv argvlen)) in
    redisFormatCommandArgv A argv argvlen = Inr (int (length cmd), cmd @ [NUL]) \<and>
    (\<exists>s. redisFormatSdsCommandArgv A argv argvlen = Inr (int (length cmd), Some s) \<and> sds_ok s \<and> content s = cmd)"
  using redisFormatCommandArgv_ok [OF assms(1,2)] redisFormatSdsCommandArgv_ok [OF assms] assms(3) by (simp add: Let_def)

theorem formatters_agree_witness:
  "redisFormatCommandArgv any_memory [''GET'', ''k'' @ [NUL]] (Some [3, 2]) =
    Inr (int (length (command [''GET'', ''k'' @ [NUL]])), command [''GET'', ''k'' @ [NUL]] @ [NUL])"
proof -
  have A: "\<And>n. al_ok any_memory n" by (simp add: any_memory_def)
  let ?args = "[(''GET'', 3), (''k'' @ [NUL], 2)]" and ?ss = "[''GET'', ''k'' @ [NUL]]"
  have args: "arg_pairs ?ss (Some [3, 2]) = ?args" "map arg_bytes ?args = ?ss" "list_all arg_ok ?args"
    by (simp_all add: arg_pairs_def arg_ok_def arg_bytes_def)
  have "length (command ?ss) + 10 < 2 ^ 30" by (simp add: command_bulks line_def length_to_string)
  then show ?thesis using formatters_agree [OF A, of ?ss "Some [3, 2]"] args(3) unfolding args(1,2) Let_def by blast
qed

subsection \<open>Formats without conversions\<close>

text \<open>A doubled percent sign stands for one; a percent sign at the end stands for itself.\<close>

fun unpct :: "string \<Rightarrow> string option" where
  "unpct [] = Some []"
| "unpct [c] = Some [c]"
| "unpct (c # d # s) =
     (if c = CHR ''%'' then (if d = CHR ''%'' then map_option ((#) (CHR ''%'')) (unpct s) else None)
      else map_option ((#) c) (unpct (d # s)))"

definition words :: "string \<Rightarrow> string list" where
  "words s = filter (\<lambda>w. w \<noteq> []) (split_on (CHR '' '') s)"

lemma words_plain: "CHR '' '' \<notin> set u \<Longrightarrow> words u = (if u = [] then [] else [u])"
proof -
  have "d \<notin> set u \<Longrightarrow> split_on d u = [u]" for d by (induction u) auto
  then show "CHR '' '' \<notin> set u \<Longrightarrow> words u = (if u = [] then [] else [u])" by (simp add: words_def)
qed

lemma words_blank: "CHR '' '' \<notin> set u \<Longrightarrow> words (u @ CHR '' '' # t) = (if u = [] then [] else [u]) @ words t"
  by (simp add: words_def split_on_append_sep)

definition format_ok :: "fmt_state \<Rightarrow> bool" where
  "format_ok st \<longleftrightarrow> sds_ok (f_cur st) \<and> list_all sds_ok (f_args st) \<and> (f_touched st \<longleftrightarrow> content (f_cur st) \<noteq> []) \<and>
     CHR '' '' \<notin> set (content (f_cur st)) \<and> f_totlen st = int (length (bulks (map content (f_args st))))"

definition pot :: "fmt_state \<Rightarrow> nat \<Rightarrow> nat" where
  "pot st n = length (bulks (map content (f_args st))) + sdslen (f_cur st) + 30 * n"

definition all_words :: "fmt_state \<Rightarrow> string list" where
  "all_words st = map content (f_args st) @ (if f_touched st then [content (f_cur st)] else [])"

lemma with_arg_append:
  assumes "yields m (content (f_cur st) @ [ch])" "format_ok st" "ch \<noteq> CHR '' ''"
  shows "\<exists>st1. with_arg m st k = k st1 \<and> format_ok st1 \<and> content (f_cur st1) = content (f_cur st) @ [ch] \<and>
    f_args st1 = f_args st \<and> pot st1 n \<le> pot st n + 1"
proof -
  obtain s where s: "m = Inr (Some s)" "sds_ok s" "content s = content (f_cur st) @ [ch]" using assms(1) by (auto simp: yields_def)
  have "sdslen s = Suc (sdslen (f_cur st))" using length_content [of s] length_content [of "f_cur st"] s assms(2) by (simp add: format_ok_def)
  then show ?thesis using s assms(2,3)
    by (intro exI [of _ "st\<lparr>f_cur := s, f_touched := True\<rparr>"]) (simp add: with_arg_def format_ok_def pot_def)
qed

lemma push_arg_ok:
  assumes A: "\<And>n. al_ok A n" and st: "format_ok st" and "f_touched st" and small: "pot st 1 < 2 ^ 30"
  shows "\<exists>st1. push_arg A st = Some st1 \<and> f_args st1 = f_args st @ [f_cur st] \<and>
    f_totlen st1 = int (length (bulks (map content (f_args st1)))) \<and> length (bulks (map content (f_args st1))) \<le> pot st 1"
proof -
  let ?b = "length (bulks (map content (f_args st)))" and ?e = "length (encode (RString (content (f_cur st))))"
  have len: "length (content (f_cur st)) = sdslen (f_cur st)" using st by (simp add: format_ok_def length_content)
  have "length (to_string (sdslen (f_cur st))) \<le> 20"
    using small by (intro to_string_length) (simp_all add: pot_def)
  then have e: "?e \<le> sdslen (f_cur st) + 30" using len by (simp add: line_def)
  have "add_int (int ?b) ?e = int (?b + ?e)" using e small by (intro add_int_small) (simp add: pot_def)
  then show ?thesis using A st e bulklen_encode [of "content (f_cur st)"] len
    by (simp add: push_arg_def format_ok_def pot_def del: encode.simps)
qed

text \<open>One character of the format is appended to the current word or ends it.\<close>

definition snap :: "fmt_state \<Rightarrow> string list \<times> string" where
  "snap st = (map content (f_args st), content (f_cur st))"

definition feed_char :: "char \<Rightarrow> string list \<times> string \<Rightarrow> string list \<times> string" where
  "feed_char ch w = (if ch \<noteq> CHR '' '' then (fst w, snd w @ [ch]) else if snd w = [] then w else (fst w @ [snd w], []))"

lemma words_feed_char:
  "CHR '' '' \<notin> set (snd w) \<Longrightarrow> fst (feed_char ch w) @ words (snd (feed_char ch w) @ t) = fst w @ words (snd w @ ch # t)"
  using words_blank [of "snd w" t] by (auto simp: feed_char_def)

lemma format_char:
  assumes A: "\<And>n. al_ok A n" and ch: "ch \<noteq> CHR ''%'' \<or> c = []" and st: "format_ok st" and small: "pot st (Suc n) < 2 ^ 30"
  shows "\<exists>st1. format_loop A pf (ch # c) ap st = format_loop A pf c ap st1 \<and> format_ok st1 \<and> pot st1 n < 2 ^ 30 \<and>
    snap st1 = feed_char ch (snap st)"
proof (cases "ch = CHR '' ''")
  case False
  have "yields (sdscatlen A (f_cur st) [ch] 1) (content (f_cur st) @ take 1 [ch])"
    using st small A by (intro sdscatlen_ok) (simp_all add: format_ok_def pot_def)
  with with_arg_append [of _ st ch "format_loop A pf c ap" n] st False obtain st1 where
    1: "with_arg (sdscatlen A (f_cur st) [ch] 1) st (format_loop A pf c ap) = format_loop A pf c ap st1" "format_ok st1"
      "content (f_cur st1) = content (f_cur st) @ [ch]" "f_args st1 = f_args st" "pot st1 n \<le> pot st n + 1"
    by auto
  then show ?thesis using ch False small by (intro exI [of _ st1]) (auto simp: pot_def snap_def feed_char_def)
next
  case blank: True
  show ?thesis
  proof (cases "f_touched st")
    case False
    then have "content (f_cur st) = []" using st by (simp add: format_ok_def)
    then show ?thesis using small st blank False by (intro exI [of _ st]) (simp add: pot_def snap_def feed_char_def)
  next
    case True
    have "pot st 1 < 2 ^ 30" using small by (simp add: pot_def)
    from push_arg_ok [OF A st True this] obtain st1 where
      1: "push_arg A st = Some st1" "f_args st1 = f_args st @ [f_cur st]" "f_totlen st1 = int (length (bulks (map content (f_args st1))))"
        "length (bulks (map content (f_args st1))) \<le> pot st 1" by blast
    obtain e where e: "sdsempty A = Inr (Some e)" "sds_ok e" "content e = []" using sdsempty_ok [of A] A by (auto simp: yields_def)
    let ?st = "st1\<lparr>f_cur := e, f_touched := False\<rparr>"
    have "format_ok ?st" "snap ?st = feed_char ch (snap st)"
      using st 1 e True blank by (simp_all add: format_ok_def snap_def feed_char_def)
    moreover have "pot ?st n < 2 ^ 30" using 1(4) small length_content [OF e(2)] e(3) by (simp add: pot_def)
    ultimately show ?thesis using blank True 1(1) e(1) by (intro exI [of _ ?st]) simp
  qed
qed

lemma format_chars:
  assumes A: "\<And>n. al_ok A n"
  shows "CHR ''%'' \<notin> set cs \<Longrightarrow> format_ok st \<Longrightarrow> pot st (length cs + n) < 2 ^ 30 \<Longrightarrow>
    \<exists>st1. format_loop A pf (cs @ c) ap st = format_loop A pf c ap st1 \<and> format_ok st1 \<and> pot st1 n < 2 ^ 30 \<and>
      snap st1 = fold feed_char cs (snap st)"
proof (induction cs arbitrary: st)
  case (Cons ch cs)
  from format_char [OF A, of ch "cs @ c" st "length cs + n" pf ap] Cons.prems obtain st1 where
    1: "format_loop A pf (ch # cs @ c) ap st = format_loop A pf (cs @ c) ap st1" "format_ok st1" "pot st1 (length cs + n) < 2 ^ 30"
      "snap st1 = feed_char ch (snap st)" by auto
  from Cons.IH [OF _ 1(2,3)] 1(1,4) Cons.prems(1) show ?case by auto
qed auto

lemma format_loop_plain:
  assumes A: "\<And>n. al_ok A n"
  shows "unpct c = Some t \<Longrightarrow> format_ok st \<Longrightarrow> pot st (length c + 1) < 2 ^ 30 \<Longrightarrow>
    \<exists>st'. format_loop A pf c ap st = Inr (Formatted st') \<and> format_ok st' \<and> pot st' 1 < 2 ^ 30 \<and>
      all_words st' = map content (f_args st) @ words (content (f_cur st) @ t)"
proof (induction c arbitrary: st t rule: unpct.induct)
  case 1
  then show ?case by (auto simp: all_words_def format_ok_def words_plain)
next
  have char: "\<exists>st'. format_loop A pf (ch # c) ap st = Inr (Formatted st') \<and> format_ok st' \<and> pot st' 1 < 2 ^ 30 \<and>
      all_words st' = map content (f_args st) @ words (content (f_cur st) @ ch # t)"
    if ch: "ch \<noteq> CHR ''%'' \<or> c = []" and st: "format_ok st" and small: "pot st (length c + 2) < 2 ^ 30"
      and IH: "\<And>st1. format_ok st1 \<Longrightarrow> pot st1 (length c + 1) < 2 ^ 30 \<Longrightarrow>
        \<exists>st'. format_loop A pf c ap st1 = Inr (Formatted st') \<and> format_ok st' \<and> pot st' 1 < 2 ^ 30 \<and>
          all_words st' = map content (f_args st1) @ words (content (f_cur st1) @ t)" for ch c st t
  proof -
    from format_char [OF A ch st, of "length c + 1" pf ap] small obtain st1 where
      1: "format_loop A pf (ch # c) ap st = format_loop A pf c ap st1" "format_ok st1" "pot st1 (length c + 1) < 2 ^ 30"
        "snap st1 = feed_char ch (snap st)" by auto
    have "map content (f_args st1) @ words (content (f_cur st1) @ t) = map content (f_args st) @ words (content (f_cur st) @ ch # t)"
      using words_feed_char [of "snap st" ch t] 1(4) [symmetric] st by (simp add: snap_def format_ok_def)
    with IH [OF 1(2,3)] 1(1) show ?thesis by simp
  qed
  {
    case (2 c)
    then have "t = [c]" by simp
    then show ?case
      by (simp only:) (rule char, use "2.prems" in \<open>simp_all add: all_words_def format_ok_def words_plain\<close>)
  next
    case (3 c d s)
    show ?case
    proof (cases "c = CHR ''%''")
      case True
      then obtain t' where t': "d = CHR ''%''" "unpct s = Some t'" "t = CHR ''%'' # t'" using "3.prems"(1) by (auto split: if_splits)
      have "yields (sdscat A (f_cur st) ''%'') (content (f_cur st) @ c_str ''%'')"
        using "3.prems" A by (intro sdscat_ok) (simp_all add: format_ok_def pot_def c_str_def)
      with with_arg_append [of _ st "CHR ''%''" "format_loop A pf s ap" "length s + 1"] "3.prems"(2) obtain st1 where
        1: "with_arg (sdscat A (f_cur st) ''%'') st (format_loop A pf s ap) = format_loop A pf s ap st1" "format_ok st1"
          "content (f_cur st1) = content (f_cur st) @ ''%''" "f_args st1 = f_args st" "pot st1 (length s + 1) \<le> pot st (length s + 1) + 1"
        by (auto simp: c_str_def)
      have "pot st1 (length s + 1) < 2 ^ 30" using 1(5) "3.prems"(3) by (simp add: pot_def)
      from "3.IH"(1) [OF True t'(1,2) 1(2) this] have "\<exists>st'. format_loop A pf s ap st1 = Inr (Formatted st') \<and> format_ok st' \<and>
        pot st' 1 < 2 ^ 30 \<and> all_words st' = map content (f_args st) @ words (content (f_cur st) @ t)"
        using 1(3,4) t'(3) by simp
      moreover have "format_loop A pf (c # d # s) ap st = format_loop A pf s ap st1" using True t'(1) 1(1) by simp
      ultimately show ?thesis by simp
    next
      case False
      then obtain t' where t': "unpct (d # s) = Some t'" "t = c # t'" using "3.prems"(1) by auto
      show ?thesis unfolding t'(2)
        by (rule char) (use False "3.prems" "3.IH"(2) [OF False t'(1)] in simp_all)
    qed
  }
qed

lemma sds_arg: "sds_ok a \<Longrightarrow> arg_ok (sd_buf a, sdslen a) \<and> arg_bytes (sd_buf a, sdslen a) = content a"
  using sds_ok_dest(3) [of a] by (simp add: arg_ok_def arg_bytes_def content_def)

lemma emit_sds_args:
  assumes A: "\<And>n. al_ok A n" and "list_all sds_ok args" and len: "length (bulks (map content args)) < 2 ^ 30"
  shows "emit_command A (add_int (int (length (bulks (map content args)))) (1 + countDigits (length args) + 2))
      (map (\<lambda>a. (sd_buf a, sdslen a)) args) =
    Inr (Some (int (length (command (map content args))), command (map content args) @ [NUL]))"
proof -
  let ?args = "map (\<lambda>a. (sd_buf a, sdslen a)) args"
  have args: "map arg_bytes ?args = map content args" "list_all arg_ok ?args"
    using assms(2) sds_arg by (auto simp: list_all_iff)
  have "length xs \<le> length (bulks (xs :: string list))" for xs by (induction xs) (simp_all add: line_def)
  from this [of "map content args"] have "length args < 10 ^ 20" using len by simp
  then have "length (to_string (length args)) \<le> 20" by (intro to_string_length) simp_all
  then have total: "length (bulks (map content args)) + (1 + countDigits (length args) + 2) < 2 ^ 31"
    using len by (simp add: countDigits_to_string)
  have cmd: "length (command (map content args)) = length (bulks (map content args)) + (1 + countDigits (length args) + 2)"
    by (simp add: command_bulks line_def countDigits_to_string)
  have "emit_command A (int (length (command (map arg_bytes ?args)))) ?args =
      Inr (Some (int (length (command (map arg_bytes ?args))), command (map arg_bytes ?args) @ [NUL]))"
    by (rule emit_command_ok [OF A args(2) _ refl], unfold args(1)) (use total cmd in simp)
  then show ?thesis unfolding args(1) using add_int_small [OF total] cmd by simp
qed

lemma redisvFormatCommand_finish:
  assumes A: "\<And>n. al_ok A n" and e: "sdsempty A = Inr (Some e)"
    and st: "format_loop A pf format ap \<lparr>f_cur = e, f_touched = False, f_args = [], f_totlen = 0\<rparr> = Inr (Formatted st)"
      "format_ok st" "pot st 1 < 2 ^ 30"
  shows "redisvFormatCommand A pf format ap = Inr (int (length (command (all_words st))), command (all_words st) @ [NUL])"
proof -
  have "\<exists>st1. (if f_touched st then push_arg A st else Some st) = Some st1 \<and> map content (f_args st1) = all_words st \<and>
    list_all sds_ok (f_args st1) \<and> f_totlen st1 = int (length (bulks (map content (f_args st1)))) \<and>
    length (bulks (map content (f_args st1))) < 2 ^ 30"
  proof (cases "f_touched st")
    case True
    from push_arg_ok [OF A st(2) True st(3)] obtain st1 where
      1: "push_arg A st = Some st1" "f_args st1 = f_args st @ [f_cur st]" "f_totlen st1 = int (length (bulks (map content (f_args st1))))"
        "length (bulks (map content (f_args st1))) \<le> pot st 1" by blast
    moreover have "list_all sds_ok (f_args st1)" using st(2) 1(2) by (simp add: format_ok_def)
    moreover have "map content (f_args st1) = all_words st" using 1(2) True by (simp add: all_words_def)
    moreover have "length (bulks (map content (f_args st1))) < 2 ^ 30" using 1(4) st(3) by (rule order_le_less_trans)
    ultimately show ?thesis using True by metis
  next
    case False
    then show ?thesis using st(2,3) by (auto simp: all_words_def format_ok_def pot_def)
  qed
  then obtain st1 where 1: "(if f_touched st then push_arg A st else Some st) = Some st1" "map content (f_args st1) = all_words st"
    "list_all sds_ok (f_args st1)" "f_totlen st1 = int (length (bulks (map content (f_args st1))))"
    "length (bulks (map content (f_args st1))) < 2 ^ 30" by blast
  show ?thesis unfolding redisvFormatCommand_def e rbind_simps option.case st(1) fmt_end.case 1(1,4)
    unfolding emit_sds_args [OF A 1(3,5)] using 1(2) by simp
qed

lemma format_start: "sds_ok e \<Longrightarrow> content e = [] \<Longrightarrow> 30 * n < 2 ^ 30 \<Longrightarrow>
  format_ok \<lparr>f_cur = e, f_touched = False, f_args = [], f_totlen = 0\<rparr> \<and> pot \<lparr>f_cur = e, f_touched = False, f_args = [], f_totlen = 0\<rparr> n < 2 ^ 30"
  using length_content [of e] by (simp add: format_ok_def pot_def)

lemma redisvFormatCommand_plain:
  assumes A: "\<And>n. al_ok A n" and t: "unpct format = Some t" and len: "30 * (length format + 1) < 2 ^ 30"
  shows "redisvFormatCommand A pf format ap = Inr (int (length (command (words t))), command (words t) @ [NUL])"
proof -
  obtain e where e: "sdsempty A = Inr (Some e)" "sds_ok e" "content e = []" using sdsempty_ok [of A] A by (auto simp: yields_def)
  let ?st = "\<lparr>f_cur = e, f_touched = False, f_args = [], f_totlen = 0\<rparr>"
  from format_start [OF e(2,3) len] have "format_ok ?st" "pot ?st (length format + 1) < 2 ^ 30" by blast+
  from format_loop_plain [OF A t this, of pf ap] obtain st where
    st: "format_loop A pf format ap ?st = Inr (Formatted st)" "format_ok st" "pot st 1 < 2 ^ 30" "all_words st = words t"
    using e(3) by auto
  from redisvFormatCommand_finish [OF A e(1) st(1-3)] st(4) show ?thesis by simp
qed

text \<open>A literal command word followed by one \<^verbatim>\<open>%s\<close> argument.\<close>

lemma redisvFormatCommand_string:
  assumes A: "\<And>n. al_ok A n" and cmd: "CHR ''%'' \<notin> set cmd" "CHR '' '' \<notin> set cmd" "cmd \<noteq> []"
    and key: "c_str key \<noteq> []" "CHR '' '' \<notin> set (c_str key)" and len: "30 * (length cmd + length (c_str key) + 5) < 2 ^ 30"
  shows "redisvFormatCommand A pf (cmd @ '' %s'') (VStr key # ap) =
    Inr (int (length (command [cmd, c_str key])), command [cmd, c_str key] @ [NUL])"
proof -
  obtain e where e: "sdsempty A = Inr (Some e)" "sds_ok e" "content e = []" using sdsempty_ok [of A] A by (auto simp: yields_def)
  let ?st = "\<lparr>f_cur = e, f_touched = False, f_args = [], f_totlen = 0\<rparr>" and ?n = "length (c_str key) + 1"
  from len have "30 * (length (cmd @ '' '') + ?n) < 2 ^ 30" by simp
  from format_start [OF e(2,3) this] have 0: "format_ok ?st" "pot ?st (length (cmd @ '' '') + ?n) < 2 ^ 30" by blast+
  have "CHR ''%'' \<notin> set (cmd @ '' '')" using cmd(1) by simp
  from format_chars [OF A this 0, of pf "''%s''" "VStr key # ap"] obtain st where
    st: "format_loop A pf ((cmd @ '' '') @ ''%s'') (VStr key # ap) ?st = format_loop A pf ''%s'' (VStr key # ap) st" "format_ok st"
      "pot st ?n < 2 ^ 30" "snap st = fold feed_char (cmd @ '' '') (snap ?st)" by blast
  have "CHR '' '' \<notin> set ds \<Longrightarrow> fold feed_char ds (as, u) = (as, u @ ds)" for ds u and as :: "string list"
    by (induction ds arbitrary: u) (auto simp: feed_char_def)
  from this [OF cmd(2)] have snap: "snap st = ([cmd], [])" using st(4) e(3) cmd(3) by (simp add: snap_def feed_char_def)
  have "yields (sdscatlen A (f_cur st) key (length (c_str key))) (content (f_cur st) @ take (length (c_str key)) key)"
    using st(2,3) A by (intro sdscatlen_ok) (simp_all add: format_ok_def pot_def c_str_def length_takeWhile_le)
  then obtain s where s: "sdscatlen A (f_cur st) key (length (c_str key)) = Inr (Some s)" "sds_ok s" "content s = c_str key"
    using snap by (auto simp: yields_def snap_def c_str_def takeWhile_eq_take [symmetric])
  let ?st' = "st\<lparr>f_cur := s, f_touched := True\<rparr>"
  have "format_loop A pf ''%s'' (VStr key # ap) st = Inr (Formatted ?st')" using key s(1) by (simp add: with_arg_def)
  moreover have "format_ok ?st'" using st(2) s key by (simp add: format_ok_def)
  moreover have "pot ?st' 1 < 2 ^ 30" using st(3) length_content [OF s(2)] s(3) by (simp add: pot_def)
  moreover have "all_words ?st' = [cmd, c_str key]" using snap s(3) by (simp add: all_words_def snap_def)
  ultimately show ?thesis
    using redisvFormatCommand_finish [OF A e(1), of pf "cmd @ '' %s''" "VStr key # ap" ?st'] st(1) by simp
qed

end
