(* ===== verification/Redis_Context.thy ===== *)
theory Redis_Context
  imports Redis_Format_Laws
begin

text \<open>
  The connection contexts of \<^verbatim>\<open>redis/hiredis/hiredis.c\<close>: output buffer, reader, error state, and the
  calls that append commands and wait for replies. The socket is an explicit state: the outcomes
  that the coming \<^verbatim>\<open>read\<close> and \<^verbatim>\<open>write\<close> calls will have, and the bytes sent so far. A call for which no
  outcome is left waits for ever (\<open>Deadlock\<close>). The functions that open a connection are in
  \<open>Redis_Connect\<close>, on top of the model of \<^verbatim>\<open>net.c\<close>.
\<close>

datatype redis_flag = BLOCK | CONNECTED | DISCONNECTING | FREEING | IN_CALLBACK | SUBSCRIBED | MONITORING | REUSEADDR

datatype redisConnectionType = CONN_TCP | CONN_UNIX

record timeval =
  tv_sec :: int
  tv_usec :: int

record redisContext =
  rc_err :: int
  rc_errstr :: string
  rc_fd :: int
  rc_flags :: "redis_flag set"
  rc_obuf :: "sds option"
  rc_reader :: "redisReader option"
  rc_connection_type :: redisConnectionType
  rc_timeout :: "timeval option"
  rc_host :: "string option"
  rc_source_addr :: "string option"
  rc_port :: int
  rc_path :: "string option"

text \<open>\<^verbatim>\<open>read\<close>: bytes (none at the end of the stream), \<^verbatim>\<open>EAGAIN\<close>, \<^verbatim>\<open>EINTR\<close>, or a failure with its message;
  \<^verbatim>\<open>write\<close>: how many bytes the socket has room for, or the same errors.\<close>

datatype read_outcome = RBytes string | RAgain | RIntr | RFail string

datatype write_outcome = WCount nat | WAgain | WIntr | WFail string

record socket =
  so_reads :: "read_outcome list"
  so_writes :: "write_outcome list"
  so_sent :: string

type_synonym reply_fns = "reply_heap redisReplyObjectFunctions option"

definition redisSetError :: "int \<Rightarrow> string option \<Rightarrow> string \<Rightarrow> redisContext \<Rightarrow> redisContext result" where
  "redisSetError ty str strerr c =
     (case str of
        Some s \<Rightarrow> Inr (c\<lparr>rc_err := ty, rc_errstr := take 127 (c_str s)\<rparr>)
      | None \<Rightarrow>
          if ty \<noteq> REDIS_ERR_IO then Inl AssertFailure else Inr (c\<lparr>rc_err := ty, rc_errstr := take 127 (c_str strerr)\<rparr>))"

text \<open>The context structure takes 208 bytes; a fresh one has descriptor 0.\<close>

definition redisContextInit :: "allocator \<Rightarrow> redisContext option result" where
  "redisContextInit A =
     (if \<not> al_ok A 208 then Inr None
      else
        rbind (sdsempty A) (\<lambda>obuf.
        rbind (redisReaderCreateWithFunctions A) (\<lambda>reader.
        if obuf = None \<or> reader = None then Inr None
        else Inr (Some \<lparr>rc_err = 0, rc_errstr = [], rc_fd = 0, rc_flags = {}, rc_obuf = obuf, rc_reader = reader,
                        rc_connection_type = CONN_TCP, rc_timeout = None, rc_host = None, rc_source_addr = None, rc_port = 0,
                        rc_path = None\<rparr>))))"

text \<open>\<^verbatim>\<open>redisFree\<close> closes the descriptor and releases a reply that is still being built; the result lists
  the closed descriptor.\<close>

definition redisFree :: "reply_fns \<Rightarrow> redisContext option \<Rightarrow> reply_heap \<Rightarrow> (int list \<times> reply_heap) result" where
  "redisFree fn c h =
     (case c of
        None \<Rightarrow> Inr ([], h)
      | Some c \<Rightarrow>
          rbind (case rc_reader c of None \<Rightarrow> Inr h | Some r \<Rightarrow> redisReaderFree fn r h) (\<lambda>h'.
          Inr (if 0 < rc_fd c then [rc_fd c] else [], h')))"

definition redisFreeKeepFd :: "reply_fns \<Rightarrow> redisContext \<Rightarrow> reply_heap \<Rightarrow> (int \<times> int list \<times> reply_heap) result" where
  "redisFreeKeepFd fn c h =
     rbind (redisFree fn (Some (c\<lparr>rc_fd := - 1\<rparr>)) h) (\<lambda>(closed, h'). Inr (rc_fd c, closed, h'))"

definition init_and :: "allocator \<Rightarrow> (redisContext \<Rightarrow> redisContext) \<Rightarrow> redisContext option result" where
  "init_and A f = rbind (redisContextInit A) (\<lambda>c. Inr (map_option f c))"

definition redisConnectFd :: "allocator \<Rightarrow> int \<Rightarrow> redisContext option result" where
  "redisConnectFd A fd = init_and A (\<lambda>c. c\<lparr>rc_fd := fd, rc_flags := {BLOCK, CONNECTED} \<union> rc_flags c\<rparr>)"

subsection \<open>Reading and writing\<close>

definition redisBufferRead ::
  "allocator \<Rightarrow> reply_fns \<Rightarrow> redisContext \<Rightarrow> socket \<Rightarrow> reply_heap \<Rightarrow> (redisContext \<times> socket \<times> reply_heap \<times> bool) result" where
  "redisBufferRead A fn c so h =
     (if rc_err c \<noteq> 0 then Inr (c, so, h, False)
      else (case so_reads so of
        [] \<Rightarrow> Inl Deadlock
      | RBytes b # rs \<Rightarrow>
          (let so' = so\<lparr>so_reads := (if length b \<le> 16384 then rs else RBytes (drop 16384 b) # rs)\<rparr> in
           if b = [] then
             rbind (redisSetError REDIS_ERR_EOF (Some ''Server closed the connection'') [] c) (\<lambda>c'. Inr (c', so', h, False))
           else (case rc_reader c of
             None \<Rightarrow> Inl InvalidAccess
           | Some r \<Rightarrow>
               rbind (redisReaderFeed A fn r (take 16384 b) h) (\<lambda>(r', h', ok).
               if ok then Inr (c\<lparr>rc_reader := Some r'\<rparr>, so', h', True)
               else rbind (redisSetError (rd_err r') (Some (rd_errstr r')) [] (c\<lparr>rc_reader := Some r'\<rparr>))
                      (\<lambda>c'. Inr (c', so', h', False)))))
      | RIntr # rs \<Rightarrow> Inr (c, so\<lparr>so_reads := rs\<rparr>, h, True)
      | RAgain # rs \<Rightarrow>
          if BLOCK \<notin> rc_flags c then Inr (c, so\<lparr>so_reads := rs\<rparr>, h, True)
          else rbind (redisSetError REDIS_ERR_IO None ''Resource temporarily unavailable'' c) (\<lambda>c'. Inr (c', so\<lparr>so_reads := rs\<rparr>, h, False))
      | RFail msg # rs \<Rightarrow>
          rbind (redisSetError REDIS_ERR_IO None msg c) (\<lambda>c'. Inr (c', so\<lparr>so_reads := rs\<rparr>, h, False))))"

text \<open>The write itself, with what is left in the buffer.\<close>

definition write_some :: "allocator \<Rightarrow> redisContext \<Rightarrow> sds \<Rightarrow> socket \<Rightarrow> (redisContext \<times> socket \<times> bool) result" where
  "write_some A c obuf so =
     (case so_writes so of
        [] \<Rightarrow> Inl Deadlock
      | WCount k # ws \<Rightarrow>
          (let n = min k (sdslen obuf); so' = so\<lparr>so_writes := ws, so_sent := so_sent so @ take n (content obuf)\<rparr> in
           if n = 0 then Inr (c, so', True)
           else if n = sdslen obuf then rbind (sdsempty A) (\<lambda>e. Inr (c\<lparr>rc_obuf := e\<rparr>, so', True))
           else rbind (sdsrange obuf (int n) (- 1)) (\<lambda>s. Inr (c\<lparr>rc_obuf := Some s\<rparr>, so', True)))
      | WIntr # ws \<Rightarrow> Inr (c, so\<lparr>so_writes := ws\<rparr>, True)
      | WAgain # ws \<Rightarrow>
          if BLOCK \<notin> rc_flags c then Inr (c, so\<lparr>so_writes := ws\<rparr>, True)
          else rbind (redisSetError REDIS_ERR_IO None ''Resource temporarily unavailable'' c) (\<lambda>c'. Inr (c', so\<lparr>so_writes := ws\<rparr>, False))
      | WFail msg # ws \<Rightarrow>
          rbind (redisSetError REDIS_ERR_IO None msg c) (\<lambda>c'. Inr (c', so\<lparr>so_writes := ws\<rparr>, False)))"

definition redisBufferWrite :: "allocator \<Rightarrow> redisContext \<Rightarrow> socket \<Rightarrow> (redisContext \<times> socket \<times> bool \<times> bool) result" where
  "redisBufferWrite A c so =
     (if rc_err c \<noteq> 0 then Inr (c, so, False, False)
      else (case rc_obuf c of
        None \<Rightarrow> Inl InvalidAccess
      | Some obuf \<Rightarrow>
          rbind (if 0 < sdslen obuf then write_some A c obuf so else Inr (c, so, True)) (\<lambda>(c', so', ok).
          if \<not> ok then Inr (c', so', False, False)
          else (case rc_obuf c' of None \<Rightarrow> Inl InvalidAccess | Some s \<Rightarrow> Inr (c', so', sdslen s = 0, True)))))"

definition redisGetReplyFromReader ::
  "reply_fns \<Rightarrow> redisContext \<Rightarrow> reply_heap \<Rightarrow> (redisContext \<times> reply_heap \<times> nat \<times> bool) result" where
  "redisGetReplyFromReader fn c h =
     (case rc_reader c of
        None \<Rightarrow> Inl InvalidAccess
      | Some r \<Rightarrow>
          rbind (redisReaderGetReply fn r h) (\<lambda>(r', h', reply, ok).
          if ok then Inr (c\<lparr>rc_reader := Some r'\<rparr>, h', reply, True)
          else rbind (redisSetError (rd_err r') (Some (rd_errstr r')) [] (c\<lparr>rc_reader := Some r'\<rparr>))
                 (\<lambda>c'. Inr (c', h', reply, False))))"

lemma redisBufferWrite_consumes:
  assumes "redisBufferWrite A c so = Inr (c', so', False, True)"
  shows "length (so_writes so') < length (so_writes so)"
proof -
  obtain obuf where o: "rc_err c = 0" "rc_obuf c = Some obuf"
    using assms by (auto simp: redisBufferWrite_def split: if_splits option.splits)
  have "0 < sdslen obuf" using assms o by (auto simp: redisBufferWrite_def split: if_splits)
  then obtain c1 where "write_some A c obuf so = Inr (c1, so', True)"
    using assms o by (auto simp: redisBufferWrite_def rbind_eq_Inr_iff split: if_splits option.splits)
  then show ?thesis
    by (auto simp: write_some_def Let_def rbind_eq_Inr_iff split: list.splits write_outcome.splits if_splits)
qed

function write_loop :: "allocator \<Rightarrow> redisContext \<Rightarrow> socket \<Rightarrow> (redisContext \<times> socket \<times> bool) result" where
  "write_loop A c so =
     (case redisBufferWrite A c so of
        Inl e \<Rightarrow> Inl e
      | Inr (c', so', wdone, ok) \<Rightarrow>
          if \<not> ok then Inr (c', so', False) else if wdone then Inr (c', so', True) else write_loop A c' so')"
  by pat_completeness auto
termination
  by (relation "measure (\<lambda>(A, c, so). length (so_writes so))") (auto dest: redisBufferWrite_consumes)

declare write_loop.simps [simp del]

definition read_size :: "read_outcome \<Rightarrow> nat" where
  "read_size r = (case r of RBytes b \<Rightarrow> Suc (length b) | _ \<Rightarrow> 1)"

lemma redisBufferRead_consumes:
  "redisBufferRead A fn c so h = Inr (c', so', h', True) \<Longrightarrow> sum_list (map read_size (so_reads so')) < sum_list (map read_size (so_reads so))"
  by (auto simp: redisBufferRead_def read_size_def Let_def rbind_eq_Inr_iff split: if_splits list.splits read_outcome.splits option.splits)

function read_loop ::
  "allocator \<Rightarrow> reply_fns \<Rightarrow> redisContext \<Rightarrow> socket \<Rightarrow> reply_heap \<Rightarrow> (redisContext \<times> socket \<times> reply_heap \<times> nat \<times> bool) result" where
  "read_loop A fn c so h =
     (case redisBufferRead A fn c so h of
        Inl e \<Rightarrow> Inl e
      | Inr (c1, so1, h1, ok) \<Rightarrow>
          if \<not> ok then Inr (c1, so1, h1, 0, False)
          else (case redisGetReplyFromReader fn c1 h1 of
                  Inl e \<Rightarrow> Inl e
                | Inr (c2, h2, aux, ok) \<Rightarrow>
                    if \<not> ok then Inr (c2, so1, h2, 0, False)
                    else if aux \<noteq> 0 then Inr (c2, so1, h2, aux, True) else read_loop A fn c2 so1 h2))"
  by pat_completeness auto
termination
  by (relation "measure (\<lambda>(A, fn, c, so, h). sum_list (map read_size (so_reads so)))") (auto dest: redisBufferRead_consumes)

declare read_loop.simps [simp del]

definition redisGetReply ::
  "allocator \<Rightarrow> reply_fns \<Rightarrow> redisContext \<Rightarrow> socket \<Rightarrow> reply_heap \<Rightarrow> (redisContext \<times> socket \<times> reply_heap \<times> nat \<times> bool) result" where
  "redisGetReply A fn c so h =
     rbind (redisGetReplyFromReader fn c h) (\<lambda>(c1, h1, aux, ok).
     if \<not> ok then Inr (c1, so, h1, 0, False)
     else if aux = 0 \<and> BLOCK \<in> rc_flags c1 then
       rbind (write_loop A c1 so) (\<lambda>(c2, so2, ok).
       if \<not> ok then Inr (c2, so2, h1, 0, False) else read_loop A fn c2 so2 h1)
     else Inr (c1, so, h1, aux, True))"

subsection \<open>Commands\<close>

definition appendCommand :: "allocator \<Rightarrow> redisContext \<Rightarrow> string \<Rightarrow> nat \<Rightarrow> (redisContext \<times> bool) result" where
  "appendCommand A c cmd len =
     (case rc_obuf c of
        None \<Rightarrow> Inl InvalidAccess
      | Some obuf \<Rightarrow>
          rbind (sdscatlen A obuf cmd len) (\<lambda>new.
          case new of
            None \<Rightarrow> rbind (redisSetError REDIS_ERR_OOM (Some ''Out of memory'') [] c) (\<lambda>c'. Inr (c', False))
          | Some s \<Rightarrow> Inr (c\<lparr>rc_obuf := Some s\<rparr>, True)))"

definition redisAppendFormattedCommand :: "allocator \<Rightarrow> redisContext \<Rightarrow> string \<Rightarrow> nat \<Rightarrow> (redisContext \<times> bool) result" where
  "redisAppendFormattedCommand A c cmd len = appendCommand A c cmd len"

definition redisvAppendCommand ::
  "allocator \<Rightarrow> (string \<Rightarrow> vararg list \<Rightarrow> string) \<Rightarrow> redisContext \<Rightarrow> string \<Rightarrow> vararg list \<Rightarrow> (redisContext \<times> bool) result" where
  "redisvAppendCommand A pf c format ap =
     rbind (redisvFormatCommand A pf format ap) (\<lambda>(len, cmd).
     if len = - 1 then rbind (redisSetError REDIS_ERR_OOM (Some ''Out of memory'') [] c) (\<lambda>c'. Inr (c', False))
     else if len = - 2 then rbind (redisSetError REDIS_ERR_OTHER (Some ''Invalid format string'') [] c) (\<lambda>c'. Inr (c', False))
     else appendCommand A c cmd (nat len))"

definition redisAppendCommand ::
  "allocator \<Rightarrow> (string \<Rightarrow> vararg list \<Rightarrow> string) \<Rightarrow> redisContext \<Rightarrow> string \<Rightarrow> vararg list \<Rightarrow> (redisContext \<times> bool) result" where
  "redisAppendCommand A pf c format ap = redisvAppendCommand A pf c format ap"

definition redisAppendCommandArgv ::
  "allocator \<Rightarrow> redisContext \<Rightarrow> string list \<Rightarrow> nat list option \<Rightarrow> (redisContext \<times> bool) result" where
  "redisAppendCommandArgv A c argv argvlen =
     rbind (redisFormatSdsCommandArgv A argv argvlen) (\<lambda>(len, cmd).
     if len = - 1 then rbind (redisSetError REDIS_ERR_OOM (Some ''Out of memory'') [] c) (\<lambda>c'. Inr (c', False))
     else (case cmd of None \<Rightarrow> Inl InvalidAccess | Some s \<Rightarrow> appendCommand A c (sd_buf s) (nat len)))"

definition redisBlockForReply ::
  "allocator \<Rightarrow> reply_fns \<Rightarrow> redisContext \<Rightarrow> socket \<Rightarrow> reply_heap \<Rightarrow> (redisContext \<times> socket \<times> reply_heap \<times> nat) result" where
  "redisBlockForReply A fn c so h =
     (if BLOCK \<in> rc_flags c then
        rbind (redisGetReply A fn c so h) (\<lambda>(c', so', h', reply, ok). Inr (c', so', h', if ok then reply else 0))
      else Inr (c, so, h, 0))"

definition redisvCommand ::
  "allocator \<Rightarrow> (string \<Rightarrow> vararg list \<Rightarrow> string) \<Rightarrow> reply_fns \<Rightarrow> redisContext \<Rightarrow> string \<Rightarrow> vararg list \<Rightarrow> socket \<Rightarrow> reply_heap \<Rightarrow>
   (redisContext \<times> socket \<times> reply_heap \<times> nat) result" where
  "redisvCommand A pf fn c format ap so h =
     rbind (redisvAppendCommand A pf c format ap) (\<lambda>(c', ok).
     if ok then redisBlockForReply A fn c' so h else Inr (c', so, h, 0))"

definition redisCommand ::
  "allocator \<Rightarrow> (string \<Rightarrow> vararg list \<Rightarrow> string) \<Rightarrow> reply_fns \<Rightarrow> redisContext \<Rightarrow> string \<Rightarrow> vararg list \<Rightarrow> socket \<Rightarrow> reply_heap \<Rightarrow>
   (redisContext \<times> socket \<times> reply_heap \<times> nat) result" where
  "redisCommand A pf fn c format ap so h = redisvCommand A pf fn c format ap so h"

definition redisCommandArgv ::
  "allocator \<Rightarrow> reply_fns \<Rightarrow> redisContext \<Rightarrow> string list \<Rightarrow> nat list option \<Rightarrow> socket \<Rightarrow> reply_heap \<Rightarrow>
   (redisContext \<times> socket \<times> reply_heap \<times> nat) result" where
  "redisCommandArgv A fn c argv argvlen so h =
     rbind (redisAppendCommandArgv A c argv argvlen) (\<lambda>(c', ok).
     if ok then redisBlockForReply A fn c' so h else Inr (c', so, h, 0))"

end
