(* ===== verification/Redis_Net.thy ===== *)
theory Redis_Net
  imports Redis_Context "HOL-Library.Signed_Division"
begin

text \<open>
  \<^verbatim>\<open>redis/hiredis/net.c\<close>: opening, configuring and closing the socket of a connection. The operating
  system is an explicit state: the outcomes the coming system calls will have, those of the coming
  calls of \<^verbatim>\<open>getaddrinfo\<close>, the value of \<^verbatim>\<open>errno\<close>, and the calls made so far with what they returned.
  A call for which no outcome is left does not return (\<open>Deadlock\<close>). Numbers of the C library are
  those of Linux on a 64-bit machine.
\<close>

unbundle bit_operations_syntax

subsection \<open>The operating system\<close>

datatype sockopt =
    SO_REUSEADDR int | SO_KEEPALIVE int | TCP_KEEPIDLE int | TCP_KEEPINTVL int | TCP_KEEPCNT int | TCP_NODELAY int
  | SO_RCVTIMEO timeval | SO_SNDTIMEO timeval

datatype sys_call =
    SysSocket int int int
  | SysClose int
  | SysGetfl int
  | SysSetfl int int
  | SysSetsockopt int sockopt
  | SysGetError int
  | SysBind int string
  | SysConnect int string
  | SysPoll int int
  | Getaddrinfo "string option" "string option" int
  | Freeaddrinfo

datatype sys_outcome = SysOk nat | SysErr int

record addrinfo =
  ai_family :: int
  ai_socktype :: int
  ai_protocol :: int
  ai_addr :: string

record os =
  os_errno :: int
  os_outcomes :: "sys_outcome list"
  os_resolved :: "(int + addrinfo list) list"
  os_calls :: "(sys_call \<times> int) list"

text \<open>The texts of error numbers, and the byte an uninitialised \<^verbatim>\<open>char\<close> on the stack has.\<close>

record net_env =
  ne_strerror :: "int \<Rightarrow> string"
  ne_gai_strerror :: "int \<Rightarrow> string"
  ne_junk :: char

definition EADDRNOTAVAIL :: int where "EADDRNOTAVAIL = 99"
definition ETIMEDOUT :: int where "ETIMEDOUT = 110"
definition EHOSTUNREACH :: int where "EHOSTUNREACH = 113"
definition EINPROGRESS :: int where "EINPROGRESS = 115"
definition AF_LOCAL :: int where "AF_LOCAL = 1"
definition AF_INET :: int where "AF_INET = 2"
definition AF_INET6 :: int where "AF_INET6 = 10"
definition SOCK_STREAM :: int where "SOCK_STREAM = 1"
definition O_NONBLOCK :: int where "O_NONBLOCK = 2048"
definition INT_MAX :: int where "INT_MAX = 2147483647"
definition LONG_MAX :: int where "LONG_MAX = 9223372036854775807"

definition syscall :: "sys_call \<Rightarrow> os \<Rightarrow> (int \<times> os) result" where
  "syscall call w =
     (case os_outcomes w of
        [] \<Rightarrow> Inl Deadlock
      | SysOk v # rest \<Rightarrow> Inr (int v, w\<lparr>os_outcomes := rest, os_calls := os_calls w @ [(call, int v)]\<rparr>)
      | SysErr e # rest \<Rightarrow> Inr (- 1, w\<lparr>os_outcomes := rest, os_errno := e, os_calls := os_calls w @ [(call, - 1)]\<rparr>))"

text \<open>Closing an open socket succeeds.\<close>

definition sys_close :: "int \<Rightarrow> os \<Rightarrow> os" where
  "sys_close fd w = w\<lparr>os_calls := os_calls w @ [(SysClose fd, 0)]\<rparr>"

definition getaddrinfo ::
  "string option \<Rightarrow> string option \<Rightarrow> int \<Rightarrow> os \<Rightarrow> ((int + addrinfo list) \<times> os) result" where
  "getaddrinfo host port family w =
     (case os_resolved w of
        [] \<Rightarrow> Inl Deadlock
      | r # rs \<Rightarrow>
          Inr (r, w\<lparr>os_resolved := rs,
                    os_calls := os_calls w @ [(Getaddrinfo host port family, case r of Inl e \<Rightarrow> e | Inr _ \<Rightarrow> 0)]\<rparr>))"

definition freeaddrinfo :: "os \<Rightarrow> os" where
  "freeaddrinfo w = w\<lparr>os_calls := os_calls w @ [(Freeaddrinfo, 0)]\<rparr>"

subsection \<open>Errors and options of the socket\<close>

type_synonym net_result = "(redisContext \<times> os \<times> bool) result"

definition redisContextCloseFd :: "redisContext \<Rightarrow> os \<Rightarrow> redisContext \<times> os" where
  "redisContextCloseFd c w =
     (if 0 \<le> rc_fd c then (c\<lparr>rc_fd := - 1\<rparr>, sys_close (rc_fd c) w) else (c, w))"

text \<open>The message is built in a buffer of 128 bytes.\<close>

definition errno_text :: "net_env \<Rightarrow> string option \<Rightarrow> int \<Rightarrow> string" where
  "errno_text E pfx errno =
     (let p = (case pfx of None \<Rightarrow> [] | Some s \<Rightarrow> s @ '': '') in p @ take (127 - length p) (ne_strerror E errno))"

definition redisSetErrorFromErrno :: "net_env \<Rightarrow> int \<Rightarrow> string option \<Rightarrow> redisContext \<Rightarrow> os \<Rightarrow> redisContext result" where
  "redisSetErrorFromErrno E ty pfx c w = redisSetError ty (Some (errno_text E pfx (os_errno w))) [] c"

text \<open>The error is recorded, the socket is closed, and the function returns \<^verbatim>\<open>REDIS_ERR\<close>.\<close>

definition fail_close :: "net_env \<Rightarrow> string option \<Rightarrow> redisContext \<Rightarrow> os \<Rightarrow> net_result" where
  "fail_close E pfx c w =
     rbind (redisSetErrorFromErrno E REDIS_ERR_IO pfx c w) (\<lambda>c1.
     let (c2, w2) = redisContextCloseFd c1 w in Inr (c2, w2, False))"

definition fail_open :: "net_env \<Rightarrow> int \<Rightarrow> string \<Rightarrow> redisContext \<Rightarrow> os \<Rightarrow> net_result" where
  "fail_open E ty msg c w = rbind (redisSetError ty (Some msg) [] c) (\<lambda>c1. Inr (c1, w, False))"

definition redisSetReuseAddr :: "net_env \<Rightarrow> redisContext \<Rightarrow> os \<Rightarrow> net_result" where
  "redisSetReuseAddr E c w =
     rbind (syscall (SysSetsockopt (rc_fd c) (SO_REUSEADDR 1)) w) (\<lambda>(r, w1).
     if r = - 1 then fail_close E None c w1 else Inr (c, w1, True))"

definition redisCreateSocket :: "net_env \<Rightarrow> redisContext \<Rightarrow> int \<Rightarrow> os \<Rightarrow> net_result" where
  "redisCreateSocket E c ty w =
     rbind (syscall (SysSocket ty SOCK_STREAM 0) w) (\<lambda>(s, w1).
     if s = - 1 then rbind (redisSetErrorFromErrno E REDIS_ERR_IO None c w1) (\<lambda>c1. Inr (c1, w1, False))
     else
       let c1 = c\<lparr>rc_fd := s\<rparr> in
       if ty = AF_INET then redisSetReuseAddr E c1 w1 else Inr (c1, w1, True))"

definition redisSetBlocking :: "net_env \<Rightarrow> redisContext \<Rightarrow> bool \<Rightarrow> os \<Rightarrow> net_result" where
  "redisSetBlocking E c blocking w =
     rbind (syscall (SysGetfl (rc_fd c)) w) (\<lambda>(flags, w1).
     if flags = - 1 then fail_close E (Some ''fcntl(F_GETFL)'') c w1
     else
       let flags' = (if blocking then flags AND NOT O_NONBLOCK else flags OR O_NONBLOCK) in
       rbind (syscall (SysSetfl (rc_fd c) flags') w1) (\<lambda>(r, w2).
       if r = - 1 then fail_close E (Some ''fcntl(F_SETFL)'') c w2 else Inr (c, w2, True)))"

definition keepalive_opt :: "net_env \<Rightarrow> redisContext \<Rightarrow> sockopt \<Rightarrow> os \<Rightarrow> net_result" where
  "keepalive_opt E c opt w =
     rbind (syscall (SysSetsockopt (rc_fd c) opt) w) (\<lambda>(r, w1).
     if r < 0 then fail_open E REDIS_ERR_OTHER (ne_strerror E (os_errno w1)) c w1 else Inr (c, w1, True))"

text \<open>Calls in sequence, up to the first that fails.\<close>

definition net_then :: "net_result \<Rightarrow> (redisContext \<Rightarrow> os \<Rightarrow> net_result) \<Rightarrow> net_result" where
  "net_then m f = rbind m (\<lambda>(c, w, ok). if ok then f c w else Inr (c, w, False))"

definition redisKeepAlive :: "net_env \<Rightarrow> redisContext \<Rightarrow> int \<Rightarrow> os \<Rightarrow> net_result" where
  "redisKeepAlive E c interval w =
     net_then (keepalive_opt E c (SO_KEEPALIVE 1) w) (\<lambda>c w.
     net_then (keepalive_opt E c (TCP_KEEPIDLE interval) w) (\<lambda>c w.
     let val = interval sdiv 3; val = (if val = 0 then 1 else val) in
     net_then (keepalive_opt E c (TCP_KEEPINTVL val) w) (\<lambda>c w.
     keepalive_opt E c (TCP_KEEPCNT 3) w)))"

definition redisSetTcpNoDelay :: "net_env \<Rightarrow> redisContext \<Rightarrow> os \<Rightarrow> net_result" where
  "redisSetTcpNoDelay E c w =
     rbind (syscall (SysSetsockopt (rc_fd c) (TCP_NODELAY 1)) w) (\<lambda>(r, w1).
     if r = - 1 then fail_close E (Some ''setsockopt(TCP_NODELAY)'') c w1 else Inr (c, w1, True))"

definition redisCheckSocketError :: "net_env \<Rightarrow> redisContext \<Rightarrow> os \<Rightarrow> net_result" where
  "redisCheckSocketError E c w =
     rbind (syscall (SysGetError (rc_fd c)) w) (\<lambda>(err, w1).
     if err = - 1 then
       rbind (redisSetErrorFromErrno E REDIS_ERR_IO (Some ''getsockopt(SO_ERROR)'') c w1) (\<lambda>c1. Inr (c1, w1, False))
     else if err \<noteq> 0 then
       let w2 = w1\<lparr>os_errno := err\<rparr> in
       rbind (redisSetErrorFromErrno E REDIS_ERR_IO None c w2) (\<lambda>c1. Inr (c1, w2, False))
     else Inr (c, w1, True))"

definition MAX_MSEC :: int where
  "MAX_MSEC = (LONG_MAX - 999) div 1000"

text \<open>The sum is a \<^verbatim>\<open>long\<close>.\<close>

definition wait_msec :: "timeval \<Rightarrow> int" where
  "wait_msec t =
     (let msec = signed_take_bit 63 (tv_sec t * 1000 + (tv_usec t + 999) sdiv 1000) in
      if msec < 0 \<or> INT_MAX < msec then INT_MAX else msec)"

definition redisContextWaitReady :: "net_env \<Rightarrow> redisContext \<Rightarrow> timeval option \<Rightarrow> os \<Rightarrow> net_result" where
  "redisContextWaitReady E c timeout w =
     (if (case timeout of None \<Rightarrow> False | Some t \<Rightarrow> 1000000 < tv_usec t \<or> MAX_MSEC < tv_sec t) then fail_close E None c w
      else
        let msec = (case timeout of None \<Rightarrow> - 1 | Some t \<Rightarrow> wait_msec t) in
        if os_errno w = EINPROGRESS then
          rbind (syscall (SysPoll (rc_fd c) msec) w) (\<lambda>(res, w1).
          if res = - 1 then fail_close E (Some ''poll(2)'') c w1
          else if res = 0 then fail_close E None c (w1\<lparr>os_errno := ETIMEDOUT\<rparr>)
          else redisCheckSocketError E c w1)
        else fail_close E None c w)"

definition redisContextSetTimeout :: "net_env \<Rightarrow> redisContext \<Rightarrow> timeval \<Rightarrow> os \<Rightarrow> net_result" where
  "redisContextSetTimeout E c tv w =
     rbind (syscall (SysSetsockopt (rc_fd c) (SO_RCVTIMEO tv)) w) (\<lambda>(r, w1).
     if r = - 1 then
       rbind (redisSetErrorFromErrno E REDIS_ERR_IO (Some ''setsockopt(SO_RCVTIMEO)'') c w1) (\<lambda>c1. Inr (c1, w1, False))
     else
       rbind (syscall (SysSetsockopt (rc_fd c) (SO_SNDTIMEO tv)) w1) (\<lambda>(r, w2).
       if r = - 1 then
         rbind (redisSetErrorFromErrno E REDIS_ERR_IO (Some ''setsockopt(SO_SNDTIMEO)'') c w2) (\<lambda>c1. Inr (c1, w2, False))
       else Inr (c, w2, True)))"

subsection \<open>What the context keeps of the arguments\<close>

text \<open>A pointer argument: null, the pointer the context already holds, or another object.\<close>

datatype 'a ptr_arg = Null | Own | Given 'a

definition own :: "'a option \<Rightarrow> 'a ptr_arg" where
  "own held = (case held of None \<Rightarrow> Null | Some _ \<Rightarrow> Own)"

definition strdup :: "allocator \<Rightarrow> string \<Rightarrow> string option" where
  "strdup A s = (if al_ok A (length (c_str s) + 1) then Some (c_str s) else None)"

definition pointee :: "'a ptr_arg \<Rightarrow> 'a option \<Rightarrow> 'a option" where
  "pointee arg held = (case arg of Null \<Rightarrow> None | Own \<Rightarrow> held | Given a \<Rightarrow> Some a)"

text \<open>The host and the path: a pointer other than the one held is copied.\<close>

definition keep_name :: "allocator \<Rightarrow> string ptr_arg \<Rightarrow> string option \<Rightarrow> string option result" where
  "keep_name A arg held =
     (case arg of
        Null \<Rightarrow> if held = None then Inr None else Inl InvalidAccess
      | Own \<Rightarrow> Inr held
      | Given a \<Rightarrow> Inr (strdup A a))"

definition keep_timeout :: "allocator \<Rightarrow> timeval ptr_arg \<Rightarrow> timeval option \<Rightarrow> timeval option result" where
  "keep_timeout A arg held =
     (case arg of
        Null \<Rightarrow> Inr None
      | Own \<Rightarrow> Inr held
      | Given t \<Rightarrow> if held = None \<and> \<not> al_ok A 16 then Inl InvalidAccess else Inr (Some t))"

definition keep_source :: "allocator \<Rightarrow> string ptr_arg \<Rightarrow> string option \<Rightarrow> string option" where
  "keep_source A arg held = (case arg of Null \<Rightarrow> None | Own \<Rightarrow> held | Given a \<Rightarrow> strdup A a)"

subsection \<open>Connecting\<close>

fun bind_loop :: "int \<Rightarrow> addrinfo list \<Rightarrow> os \<Rightarrow> (os \<times> bool) result" where
  "bind_loop s [] w = Inr (w, False)"
| "bind_loop s (b # bs) w =
     rbind (syscall (SysBind s (ai_addr b)) w) (\<lambda>(r, w1). if r \<noteq> - 1 then Inr (w1, True) else bind_loop s bs w1)"

definition bind_source :: "net_env \<Rightarrow> int \<Rightarrow> bool \<Rightarrow> int \<Rightarrow> redisContext \<Rightarrow> os \<Rightarrow> net_result" where
  "bind_source E family reuseaddr s c w =
     (case rc_source_addr c of
        None \<Rightarrow> Inr (c, w, True)
      | Some src \<Rightarrow>
          rbind (getaddrinfo (Some src) None family w) (\<lambda>(r, w1).
          case r of
            Inl rv \<Rightarrow> fail_open E REDIS_ERR_OTHER (take 127 (''Can't get addr: '' @ ne_gai_strerror E rv)) c w1
          | Inr bservinfo \<Rightarrow>
              rbind (if reuseaddr then syscall (SysSetsockopt s (SO_REUSEADDR 1)) w1 else Inr (0, w1)) (\<lambda>(n, w2).
              if n < 0 then Inr (c, w2, False)
              else
                rbind (bind_loop s bservinfo w2) (\<lambda>(w3, bound).
                let w4 = freeaddrinfo w3 in
                if bound then Inr (c, w4, True)
                else fail_open E REDIS_ERR_OTHER (take 127 (''Can't bind socket: '' @ ne_strerror E (os_errno w4))) c w4))))"

datatype connect_step = StepNext | StepRetry | StepError | StepDone

text \<open>What follows a connection that is made or under way.\<close>

definition established :: "net_env \<Rightarrow> bool \<Rightarrow> redisContext \<Rightarrow> os \<Rightarrow> (redisContext \<times> os \<times> connect_step) result" where
  "established E blocking c w =
     rbind (if blocking then redisSetBlocking E c True w else Inr (c, w, True)) (\<lambda>(c1, w1, ok).
     if \<not> ok then Inr (c1, w1, StepError)
     else
       rbind (redisSetTcpNoDelay E c1 w1) (\<lambda>(c2, w2, ok).
       if \<not> ok then Inr (c2, w2, StepError)
       else Inr (c2\<lparr>rc_flags := insert CONNECTED (rc_flags c2)\<rparr>, w2, StepDone)))"

definition connect_address ::
  "net_env \<Rightarrow> bool \<Rightarrow> bool \<Rightarrow> int \<Rightarrow> addrinfo \<Rightarrow> redisContext \<Rightarrow> os \<Rightarrow> (redisContext \<times> os \<times> connect_step) result" where
  "connect_address E blocking reuseaddr s p c w =
     rbind (syscall (SysConnect s (ai_addr p)) w) (\<lambda>(r, w1).
     if r = - 1 then
       if os_errno w1 = EHOSTUNREACH then let (c2, w2) = redisContextCloseFd c w1 in Inr (c2, w2, StepNext)
       else if os_errno w1 = EINPROGRESS \<and> \<not> blocking then established E blocking c w1
       else if os_errno w1 = EADDRNOTAVAIL \<and> reuseaddr then Inr (c, w1, StepRetry)
       else
         rbind (redisContextWaitReady E c (rc_timeout c) w1) (\<lambda>(c2, w2, ok).
         if \<not> ok then Inr (c2, w2, StepError) else established E blocking c2 w2)
     else established E blocking c w1)"

definition try_address ::
  "net_env \<Rightarrow> int \<Rightarrow> bool \<Rightarrow> bool \<Rightarrow> addrinfo \<Rightarrow> redisContext \<Rightarrow> os \<Rightarrow> (redisContext \<times> os \<times> connect_step) result" where
  "try_address E family blocking reuseaddr p c w =
     rbind (syscall (SysSocket (ai_family p) (ai_socktype p) (ai_protocol p)) w) (\<lambda>(s, w1).
     if s = - 1 then Inr (c, w1, StepNext)
     else
       rbind (redisSetBlocking E (c\<lparr>rc_fd := s\<rparr>) False w1) (\<lambda>(c2, w2, ok).
       if \<not> ok then Inr (c2, w2, StepError)
       else
         rbind (bind_source E family reuseaddr s c2 w2) (\<lambda>(c3, w3, ok).
         if \<not> ok then Inr (c3, w3, StepError) else connect_address E blocking reuseaddr s p c3 w3)))"

definition REDIS_CONNECT_RETRIES :: nat where
  "REDIS_CONNECT_RETRIES = 10"

function connect_loop ::
  "net_env \<Rightarrow> int \<Rightarrow> bool \<Rightarrow> bool \<Rightarrow> addrinfo list \<Rightarrow> nat \<Rightarrow> redisContext \<Rightarrow> os \<Rightarrow> net_result" where
  "connect_loop E family blocking reuseaddr [] reuses c w =
     fail_open E REDIS_ERR_OTHER (take 127 (''Can't create socket: '' @ ne_strerror E (os_errno w))) c w"
| "connect_loop E family blocking reuseaddr (p # ps) reuses c w =
     rbind (try_address E family blocking reuseaddr p c w) (\<lambda>(c1, w1, step).
     case step of
       StepNext \<Rightarrow> connect_loop E family blocking reuseaddr ps reuses c1 w1
     | StepRetry \<Rightarrow>
         if REDIS_CONNECT_RETRIES \<le> Suc reuses then Inr (c1, w1, False)
         else connect_loop E family blocking reuseaddr (p # ps) (Suc reuses) c1 w1
     | StepError \<Rightarrow> Inr (c1, w1, False)
     | StepDone \<Rightarrow> Inr (c1, w1, True))"
  by pat_completeness auto
termination
  by (relation "measures [\<lambda>(E, family, blocking, reuseaddr, ps, reuses, c, w). length ps,
                          \<lambda>(E, family, blocking, reuseaddr, ps, reuses, c, w). REDIS_CONNECT_RETRIES - reuses]") auto

text \<open>\<^verbatim>\<open>_redisContextConnectTcp\<close>; the port is printed into a buffer of six bytes.\<close>

definition resolve :: "string option \<Rightarrow> string option \<Rightarrow> string option \<Rightarrow> os \<Rightarrow> ((int + addrinfo list) \<times> int \<times> os) result" where
  "resolve host addr port w =
     rbind (getaddrinfo host port AF_INET w) (\<lambda>(r, w1).
     case r of
       Inr servinfo \<Rightarrow> Inr (Inr servinfo, AF_INET, w1)
     | Inl _ \<Rightarrow> rbind (getaddrinfo addr port AF_INET6 w1) (\<lambda>(r, w2). Inr (r, AF_INET6, w2)))"

definition connectTcp ::
  "allocator \<Rightarrow> net_env \<Rightarrow> redisContext \<Rightarrow> string ptr_arg \<Rightarrow> int \<Rightarrow> timeval ptr_arg \<Rightarrow> string ptr_arg \<Rightarrow> os \<Rightarrow> net_result" where
  "connectTcp A E c addr port timeout source_addr w =
     rbind (keep_name A addr (rc_host c)) (\<lambda>host.
     rbind (keep_timeout A timeout (rc_timeout c)) (\<lambda>tv.
     let c1 = c\<lparr>rc_connection_type := CONN_TCP, rc_port := port, rc_host := host, rc_timeout := tv,
                rc_source_addr := keep_source A source_addr (rc_source_addr c)\<rparr> in
     rbind (resolve host (pointee addr (rc_host c)) (Some (take 5 (int_to_string port))) w) (\<lambda>(r, family, w1).
     case r of
       Inl rv \<Rightarrow> fail_open E REDIS_ERR_OTHER (ne_gai_strerror E rv) c1 w1
     | Inr servinfo \<Rightarrow>
         rbind (connect_loop E family (BLOCK \<in> rc_flags c) (REUSEADDR \<in> rc_flags c) servinfo 0 c1 w1) (\<lambda>(c2, w2, ok).
         Inr (c2, freeaddrinfo w2, ok)))))"

definition redisContextConnectTcp ::
  "allocator \<Rightarrow> net_env \<Rightarrow> redisContext \<Rightarrow> string ptr_arg \<Rightarrow> int \<Rightarrow> timeval ptr_arg \<Rightarrow> os \<Rightarrow> net_result" where
  "redisContextConnectTcp A E c addr port timeout w = connectTcp A E c addr port timeout Null w"

definition redisContextConnectBindTcp ::
  "allocator \<Rightarrow> net_env \<Rightarrow> redisContext \<Rightarrow> string ptr_arg \<Rightarrow> int \<Rightarrow> timeval ptr_arg \<Rightarrow> string ptr_arg \<Rightarrow> os \<Rightarrow> net_result" where
  "redisContextConnectBindTcp A E c addr port timeout source_addr w = connectTcp A E c addr port timeout source_addr w"

text \<open>\<^verbatim>\<open>strncpy\<close> fills 107 of the 108 bytes of \<^verbatim>\<open>sun_path\<close>; the last one is not initialised.\<close>

definition sun_path :: "net_env \<Rightarrow> string \<Rightarrow> string" where
  "sun_path E path = (let p = take 107 (c_str path) in if length p < 107 then p else c_str (p @ [ne_junk E]))"

text \<open>What follows \<^verbatim>\<open>connect\<close>, which returned \<open>r\<close>.\<close>

definition unix_connected :: "net_env \<Rightarrow> bool \<Rightarrow> int \<Rightarrow> redisContext \<Rightarrow> os \<Rightarrow> net_result" where
  "unix_connected E blocking r c w =
     net_then (if r = - 1 \<and> \<not> (os_errno w = EINPROGRESS \<and> \<not> blocking)
               then redisContextWaitReady E c (rc_timeout c) w else Inr (c, w, True)) (\<lambda>c w.
     net_then (if blocking then redisSetBlocking E c True w else Inr (c, w, True)) (\<lambda>c w.
     Inr (c\<lparr>rc_flags := insert CONNECTED (rc_flags c)\<rparr>, w, True)))"

definition redisContextConnectUnix ::
  "allocator \<Rightarrow> net_env \<Rightarrow> redisContext \<Rightarrow> string ptr_arg \<Rightarrow> timeval ptr_arg \<Rightarrow> os \<Rightarrow> net_result" where
  "redisContextConnectUnix A E c path timeout w =
     net_then (redisCreateSocket E c AF_LOCAL w) (\<lambda>c1 w1.
     net_then (redisSetBlocking E c1 False w1) (\<lambda>c2 w2.
     rbind (keep_name A path (rc_path c)) (\<lambda>kept.
     rbind (keep_timeout A timeout (rc_timeout c)) (\<lambda>tv.
     let c3 = c2\<lparr>rc_connection_type := CONN_UNIX, rc_path := kept, rc_timeout := tv\<rparr> in
     (case pointee path (rc_path c) of
        None \<Rightarrow> Inl InvalidAccess
      | Some p \<Rightarrow>
          rbind (syscall (SysConnect (rc_fd c3) (sun_path E p)) w2) (\<lambda>(r, w3).
          unix_connected E (BLOCK \<in> rc_flags c) r c3 w3))))))"

end
