(* ===== verification/Redis_Connect.thy ===== *)
theory Redis_Connect
  imports Redis_Net
begin

text \<open>
  The functions of \<^verbatim>\<open>redis/hiredis/hiredis.c\<close> that open a connection, on top of the model of \<^verbatim>\<open>net.c\<close>.
  They ignore what the connecting function returns: a failure shows in the error field of the
  context only.
\<close>

type_synonym connection = "(redisContext option \<times> os) result"

definition redisReconnect ::
  "allocator \<Rightarrow> net_env \<Rightarrow> reply_fns \<Rightarrow> redisContext \<Rightarrow> os \<Rightarrow> reply_heap \<Rightarrow> (redisContext \<times> os \<times> reply_heap \<times> bool) result" where
  "redisReconnect A E fn c w h =
     (let w1 = (if 0 < rc_fd c then sys_close (rc_fd c) w else w) in
      case rc_reader c of
        None \<Rightarrow> Inl InvalidAccess
      | Some r \<Rightarrow>
          rbind (redisReaderFree fn r h) (\<lambda>h'.
          rbind (sdsempty A) (\<lambda>obuf.
          rbind (redisReaderCreateWithFunctions A) (\<lambda>reader.
          let c1 = c\<lparr>rc_err := 0, rc_errstr := [], rc_obuf := obuf, rc_reader := reader\<rparr> in
          rbind (case rc_connection_type c of
                   CONN_TCP \<Rightarrow>
                     redisContextConnectBindTcp A E c1 (own (rc_host c)) (rc_port c) (own (rc_timeout c)) (own (rc_source_addr c)) w1
                 | CONN_UNIX \<Rightarrow> redisContextConnectUnix A E c1 (own (rc_path c)) (own (rc_timeout c)) w1)
            (\<lambda>(c2, w2, ok). Inr (c2, w2, h', ok))))))"

definition connect_new ::
  "allocator \<Rightarrow> (redisContext \<Rightarrow> redisContext) \<Rightarrow> (redisContext \<Rightarrow> os \<Rightarrow> net_result) \<Rightarrow> os \<Rightarrow> connection" where
  "connect_new A set_flags connect w =
     rbind (redisContextInit A) (\<lambda>c.
     case c of
       None \<Rightarrow> Inr (None, w)
     | Some c \<Rightarrow> rbind (connect (set_flags c) w) (\<lambda>(c', w', _). Inr (Some c', w')))"

definition set_block :: "redisContext \<Rightarrow> redisContext" where
  "set_block c = c\<lparr>rc_flags := insert BLOCK (rc_flags c)\<rparr>"

definition clear_block :: "redisContext \<Rightarrow> redisContext" where
  "clear_block c = c\<lparr>rc_flags := rc_flags c - {BLOCK}\<rparr>"

definition redisConnect :: "allocator \<Rightarrow> net_env \<Rightarrow> string \<Rightarrow> int \<Rightarrow> os \<Rightarrow> connection" where
  "redisConnect A E ip port w = connect_new A set_block (\<lambda>c. redisContextConnectTcp A E c (Given ip) port Null) w"

definition redisConnectWithTimeout :: "allocator \<Rightarrow> net_env \<Rightarrow> string \<Rightarrow> int \<Rightarrow> timeval \<Rightarrow> os \<Rightarrow> connection" where
  "redisConnectWithTimeout A E ip port tv w =
     connect_new A set_block (\<lambda>c. redisContextConnectTcp A E c (Given ip) port (Given tv)) w"

definition redisConnectNonBlock :: "allocator \<Rightarrow> net_env \<Rightarrow> string \<Rightarrow> int \<Rightarrow> os \<Rightarrow> connection" where
  "redisConnectNonBlock A E ip port w = connect_new A clear_block (\<lambda>c. redisContextConnectTcp A E c (Given ip) port Null) w"

text \<open>The two functions that bind the source address do not test the context.\<close>

definition connect_untested ::
  "allocator \<Rightarrow> (redisContext \<Rightarrow> redisContext) \<Rightarrow> (redisContext \<Rightarrow> os \<Rightarrow> net_result) \<Rightarrow> os \<Rightarrow> connection" where
  "connect_untested A set_flags connect w =
     rbind (redisContextInit A) (\<lambda>c.
     case c of
       None \<Rightarrow> Inl InvalidAccess
     | Some c \<Rightarrow> rbind (connect (set_flags c) w) (\<lambda>(c', w', _). Inr (Some c', w')))"

definition redisConnectBindNonBlock :: "allocator \<Rightarrow> net_env \<Rightarrow> string \<Rightarrow> int \<Rightarrow> string \<Rightarrow> os \<Rightarrow> connection" where
  "redisConnectBindNonBlock A E ip port source_addr w =
     connect_untested A clear_block (\<lambda>c. redisContextConnectBindTcp A E c (Given ip) port Null (Given source_addr)) w"

definition set_reuse :: "redisContext \<Rightarrow> redisContext" where
  "set_reuse c = (clear_block c)\<lparr>rc_flags := insert REUSEADDR (rc_flags (clear_block c))\<rparr>"

definition redisConnectBindNonBlockWithReuse :: "allocator \<Rightarrow> net_env \<Rightarrow> string \<Rightarrow> int \<Rightarrow> string \<Rightarrow> os \<Rightarrow> connection" where
  "redisConnectBindNonBlockWithReuse A E ip port source_addr w =
     connect_untested A set_reuse (\<lambda>c. redisContextConnectBindTcp A E c (Given ip) port Null (Given source_addr)) w"

definition redisConnectUnix :: "allocator \<Rightarrow> net_env \<Rightarrow> string \<Rightarrow> os \<Rightarrow> connection" where
  "redisConnectUnix A E path w = connect_new A set_block (\<lambda>c. redisContextConnectUnix A E c (Given path) Null) w"

definition redisConnectUnixWithTimeout :: "allocator \<Rightarrow> net_env \<Rightarrow> string \<Rightarrow> timeval \<Rightarrow> os \<Rightarrow> connection" where
  "redisConnectUnixWithTimeout A E path tv w =
     connect_new A set_block (\<lambda>c. redisContextConnectUnix A E c (Given path) (Given tv)) w"

definition redisConnectUnixNonBlock :: "allocator \<Rightarrow> net_env \<Rightarrow> string \<Rightarrow> os \<Rightarrow> connection" where
  "redisConnectUnixNonBlock A E path w = connect_new A clear_block (\<lambda>c. redisContextConnectUnix A E c (Given path) Null) w"

definition redisSetTimeout :: "net_env \<Rightarrow> redisContext \<Rightarrow> timeval \<Rightarrow> os \<Rightarrow> net_result" where
  "redisSetTimeout E c tv w = (if BLOCK \<in> rc_flags c then redisContextSetTimeout E c tv w else Inr (c, w, False))"

definition REDIS_KEEPALIVE_INTERVAL :: int where
  "REDIS_KEEPALIVE_INTERVAL = 15"

definition redisEnableKeepAlive :: "net_env \<Rightarrow> redisContext \<Rightarrow> os \<Rightarrow> net_result" where
  "redisEnableKeepAlive E c w = redisKeepAlive E c REDIS_KEEPALIVE_INTERVAL w"

end
