(* ===== verification/Redis_Net_Laws.thy ===== *)
theory Redis_Net_Laws
  imports Redis_Connect
begin

text \<open>
  Properties of opening a connection: which descriptors a call leaves open, when the error field is
  set, in which mode the socket of a connected context is, how long a call waits and how many
  system calls it makes. The operations on the socket of a context share a contract, stated as a
  locale and interpreted for each of them.
\<close>

subsection \<open>Reading the trace of system calls\<close>

text \<open>The descriptors that \<^verbatim>\<open>socket\<close> returned and \<^verbatim>\<open>close\<close> has not closed, the latest first.\<close>

definition open_step :: "sys_call \<times> int \<Rightarrow> int list \<Rightarrow> int list" where
  "open_step call fds =
     (case fst call of
        SysSocket _ _ _ \<Rightarrow> if snd call = - 1 then fds else snd call # fds
      | SysClose fd \<Rightarrow> remove1 fd fds
      | _ \<Rightarrow> fds)"

definition open_fds :: "os \<Rightarrow> int list" where
  "open_fds w = fold open_step (os_calls w) []"

text \<open>Whether the last successful \<^verbatim>\<open>F_SETFL\<close> put a descriptor into non-blocking mode.\<close>

definition mode_step :: "int \<Rightarrow> sys_call \<times> int \<Rightarrow> bool \<Rightarrow> bool" where
  "mode_step fd call m =
     (case fst call of
        SysSetfl fd' flags \<Rightarrow> if fd' = fd \<and> snd call \<noteq> - 1 then flags AND O_NONBLOCK \<noteq> 0 else m
      | SysSocket _ _ _ \<Rightarrow> if snd call = fd then False else m
      | _ \<Rightarrow> m)"

definition nonblocking :: "int \<Rightarrow> os \<Rightarrow> bool" where
  "nonblocking fd w = fold (mode_step fd) (os_calls w) False"

lemma syscall_Inr:
  assumes "syscall call w = Inr (r, w')"
  shows "open_fds w' = open_step (call, r) (open_fds w)" "nonblocking fd w' = mode_step fd (call, r) (nonblocking fd w)" "- 1 \<le> r"
  using assms by (auto simp: syscall_def open_fds_def nonblocking_def split: list.splits sys_outcome.splits)

lemma sys_close_trace [simp]:
  "open_fds (sys_close fd w) = remove1 fd (open_fds w)" "nonblocking fd' (sys_close fd w) = nonblocking fd' w"
  by (simp_all add: sys_close_def open_fds_def nonblocking_def open_step_def mode_step_def)

lemma freeaddrinfo_trace [simp]:
  "open_fds (freeaddrinfo w) = open_fds w" "nonblocking fd (freeaddrinfo w) = nonblocking fd w"
  by (simp_all add: freeaddrinfo_def open_fds_def nonblocking_def open_step_def mode_step_def)

lemma getaddrinfo_trace:
  assumes "getaddrinfo host port family w = Inr (r, w')"
  shows "open_fds w' = open_fds w" "nonblocking fd w' = nonblocking fd w"
  using assms by (auto simp: getaddrinfo_def open_fds_def nonblocking_def open_step_def mode_step_def split: list.splits)

lemma errno_trace [simp]:
  "open_fds (w\<lparr>os_errno := e\<rparr>) = open_fds w" "nonblocking fd (w\<lparr>os_errno := e\<rparr>) = nonblocking fd w"
  by (simp_all add: open_fds_def nonblocking_def)

lemma open_step_simps [simp]:
  "open_step (SysSocket a b c, r) fds = (if r = - 1 then fds else r # fds)" "open_step (SysGetfl fd, r) fds = fds"
  "open_step (SysSetfl fd fl, r) fds = fds" "open_step (SysSetsockopt fd opt, r) fds = fds"
  "open_step (SysGetError fd, r) fds = fds" "open_step (SysBind fd a', r) fds = fds"
  "open_step (SysConnect fd a', r) fds = fds" "open_step (SysPoll fd t, r) fds = fds"
  by (simp_all add: open_step_def)

lemma mode_step_simps [simp]:
  "mode_step fd (SysSocket a b c, r) m = (if r = fd then False else m)" "mode_step fd (SysGetfl fd', r) m = m"
  "mode_step fd (SysSetfl fd' fl, r) m = (if fd' = fd \<and> r \<noteq> - 1 then fl AND O_NONBLOCK \<noteq> 0 else m)"
  "mode_step fd (SysSetsockopt fd' opt, r) m = m"
  "mode_step fd (SysGetError fd', r) m = m" "mode_step fd (SysBind fd' a', r) m = m"
  "mode_step fd (SysConnect fd' a', r) m = m" "mode_step fd (SysPoll fd' t, r) m = m"
  by (simp_all add: mode_step_def)

lemma nonblock_bit [simp]:
  "(fl OR O_NONBLOCK) AND O_NONBLOCK = (O_NONBLOCK :: int)" "(fl AND NOT O_NONBLOCK) AND O_NONBLOCK = (0 :: int)"
  by (auto simp: bit_eq_iff bit_simps)

lemma O_NONBLOCK_nonzero [simp]: "O_NONBLOCK \<noteq> 0"
  by (simp add: O_NONBLOCK_def)

lemma redisSetError_Some [simp]:
  "redisSetError ty (Some s) e c = Inr (c\<lparr>rc_err := ty, rc_errstr := take 127 (c_str s)\<rparr>)"
  by (simp add: redisSetError_def)

subsection \<open>The contract of an operation on an open socket\<close>

text \<open>Apart from descriptor and error, an operation leaves the context alone. A success keeps the
  descriptor and the error; a failure sets the error and closes the descriptor or leaves it in
  the context. No other descriptor is opened or closed.\<close>

definition same_context :: "redisContext \<Rightarrow> redisContext \<Rightarrow> bool" where
  "same_context c c' \<longleftrightarrow> c'\<lparr>rc_fd := 0, rc_err := 0, rc_errstr := []\<rparr> = c\<lparr>rc_fd := 0, rc_err := 0, rc_errstr := []\<rparr>"

lemma same_contextD:
  "same_context c c' \<Longrightarrow> rc_flags c' = rc_flags c \<and> rc_obuf c' = rc_obuf c \<and> rc_reader c' = rc_reader c"
  by (cases c; cases c'; simp add: same_context_def)

lemma same_context_trans: "same_context c1 c2 \<Longrightarrow> same_context c2 c3 \<Longrightarrow> same_context c1 c3"
  by (simp add: same_context_def)

definition net_post :: "int list \<Rightarrow> redisContext \<Rightarrow> redisContext \<Rightarrow> os \<Rightarrow> bool \<Rightarrow> bool" where
  "net_post fds c c' w' ok \<longleftrightarrow> same_context c c' \<and>
     (if ok then c' = c \<and> open_fds w' = rc_fd c # fds
      else rc_err c' \<noteq> 0 \<and> (open_fds w' = fds \<or> open_fds w' = rc_fd c' # fds))"

locale socket_op =
  fixes sop :: "redisContext \<Rightarrow> os \<Rightarrow> net_result"
  assumes keeps: "open_fds w = rc_fd c # fds \<Longrightarrow> 0 \<le> rc_fd c \<Longrightarrow> sop c w = Inr (c', w', ok) \<Longrightarrow> net_post fds c c' w' ok"
begin

lemma chain:
  assumes "socket_op op2"
  shows "socket_op (\<lambda>c w. net_then (sop c w) op2)"
proof
  fix w c fds c' w' ok
  assume o: "open_fds w = rc_fd c # fds" "0 \<le> rc_fd c" and "net_then (sop c w) op2 = Inr (c', w', ok)"
  then obtain c1 w1 ok1 where s: "sop c w = Inr (c1, w1, ok1)"
    and n: "(if ok1 then op2 c1 w1 else Inr (c1, w1, False)) = Inr (c', w', ok)"
    by (auto simp: net_then_def rbind_eq_Inr_iff)
  show "net_post fds c c' w' ok"
  proof (cases ok1)
    case True
    with keeps [OF o s] have "c1 = c" "open_fds w1 = rc_fd c1 # fds" by (simp_all add: net_post_def)
    with socket_op.keeps [OF assms, of w1 c1 fds c' w' ok] o(2) n True show ?thesis by simp
  next
    case False
    with keeps [OF o s] n show ?thesis by simp
  qed
qed

end

text \<open>Operations that in addition leave the mode of the socket alone.\<close>

locale quiet_op = socket_op +
  assumes mode: "sop c w = Inr (c', w', ok) \<Longrightarrow> nonblocking fd w' = nonblocking fd w"
begin

lemma quiet_chain:
  assumes "quiet_op op2"
  shows "quiet_op (\<lambda>c w. net_then (sop c w) op2)"
proof -
  have "quiet_op_axioms (\<lambda>c w. net_then (sop c w) op2)"
  proof
    fix c w c' w' ok fd
    assume "net_then (sop c w) op2 = Inr (c', w', ok)"
    then obtain c1 w1 ok1 where s: "sop c w = Inr (c1, w1, ok1)"
      and n: "(if ok1 then op2 c1 w1 else Inr (c1, w1, False)) = Inr (c', w', ok)"
      by (auto simp: net_then_def rbind_eq_Inr_iff)
    from n have "nonblocking fd w' = nonblocking fd w1" using quiet_op.mode [OF assms] by (auto split: if_splits)
    with mode [OF s] show "nonblocking fd w' = nonblocking fd w" by simp
  qed
  with chain [OF quiet_op.axioms(1) [OF assms]] show ?thesis by (rule quiet_op.intro)
qed

end

lemma fail_close_post:
  assumes "open_fds w = rc_fd c # fds" "0 \<le> rc_fd c" "fail_close E pfx c w = Inr (c', w', ok)"
  shows "net_post fds c c' w' ok" "\<not> ok"
  using assms by (auto simp: fail_close_def redisSetErrorFromErrno_def redisContextCloseFd_def net_post_def same_context_def split: if_splits)

lemma fail_close_False [simp]: "fail_close E pfx c w \<noteq> Inr (c', w', True)"
  by (auto simp: fail_close_def split: prod.splits simp: rbind_eq_Inr_iff)

lemma fail_close_total: "\<exists>c' w'. fail_close E pfx c w = Inr (c', w', False)"
  by (simp add: fail_close_def redisSetErrorFromErrno_def split: prod.splits)

lemma fail_close_mode: "fail_close E pfx c w = Inr (c', w', ok) \<Longrightarrow> nonblocking fd w' = nonblocking fd w"
  by (auto simp: fail_close_def redisSetErrorFromErrno_def redisContextCloseFd_def split: if_splits)

lemma fail_open_post:
  assumes "open_fds w = rc_fd c # fds" "fail_open E REDIS_ERR_OTHER msg c w = Inr (c', w', ok)"
  shows "net_post fds c c' w' ok"
  using assms by (auto simp: fail_open_def net_post_def same_context_def)

lemma same_context_refl: "same_context c c"
  by (simp add: same_context_def)

lemma net_post_refl: "open_fds w = rc_fd c # fds \<Longrightarrow> net_post fds c c w True"
  by (simp add: net_post_def same_context_refl)

subsection \<open>Every operation keeps the contract\<close>

interpretation blocking_op: socket_op "\<lambda>c. redisSetBlocking E c b" for E b
proof
  fix w c fds c' w' ok
  assume o: "open_fds w = rc_fd c # fds" "0 \<le> rc_fd c" and r: "redisSetBlocking E c b w = Inr (c', w', ok)"
  then obtain flags w1 where g: "syscall (SysGetfl (rc_fd c)) w = Inr (flags, w1)" by (auto simp: redisSetBlocking_def rbind_eq_Inr_iff)
  have o1: "open_fds w1 = rc_fd c # fds" using syscall_Inr(1) [OF g] o by simp
  show "net_post fds c c' w' ok"
  proof (cases "flags = - 1")
    case True
    with r g show ?thesis by (simp add: redisSetBlocking_def fail_close_post(1) [OF o1 o(2)])
  next
    case False
    with r g obtain fl v w2 where s: "syscall (SysSetfl (rc_fd c) fl) w1 = Inr (v, w2)"
      and e: "(if v = - 1 then fail_close E (Some ''fcntl(F_SETFL)'') c w2 else Inr (c, w2, True)) = Inr (c', w', ok)"
      by (auto simp: redisSetBlocking_def rbind_eq_Inr_iff Let_def)
    have o2: "open_fds w2 = rc_fd c # fds" using syscall_Inr(1) [OF s] o1 by simp
    with e show ?thesis using fail_close_post(1) [OF o2 o(2)] net_post_refl [OF o2] by (auto split: if_splits)
  qed
qed

lemma redisSetBlocking_mode:
  assumes "redisSetBlocking E c b w = Inr (c', w', True)"
  shows "nonblocking (rc_fd c) w' = (\<not> b)"
proof -
  from assms obtain flags w1 where g: "syscall (SysGetfl (rc_fd c)) w = Inr (flags, w1)" by (auto simp: redisSetBlocking_def rbind_eq_Inr_iff)
  with assms obtain v where s: "syscall (SysSetfl (rc_fd c) (if b then flags AND NOT O_NONBLOCK else flags OR O_NONBLOCK)) w1 = Inr (v, w')" "v \<noteq> - 1"
    by (auto simp: redisSetBlocking_def rbind_eq_Inr_iff Let_def split: if_splits)
  show ?thesis using syscall_Inr(2) [OF s(1), of "rc_fd c"] s(2) by simp
qed

text \<open>An option of the socket, with either way to report a failure.\<close>

lemma option_op:
  assumes "\<And>c w c' w' ok fds. open_fds w = rc_fd c # fds \<Longrightarrow> 0 \<le> rc_fd c \<Longrightarrow> f c w = Inr (c', w', ok) \<Longrightarrow> net_post fds c c' w' ok"
    and "\<And>c w c' w' ok fd. f c w = Inr (c', w', ok) \<Longrightarrow> nonblocking fd w' = nonblocking fd w"
  shows "quiet_op (\<lambda>c w. rbind (syscall (SysSetsockopt (rc_fd c) opt) w) (\<lambda>(r, w1). if r = - 1 then f c w1 else Inr (c, w1, True)))"
proof
  fix w c fds c' w' ok
  assume o: "open_fds w = rc_fd c # fds" "0 \<le> rc_fd c"
    and "rbind (syscall (SysSetsockopt (rc_fd c) opt) w) (\<lambda>(r, w1). if r = - 1 then f c w1 else Inr (c, w1, True)) = Inr (c', w', ok)"
  then obtain r w1 where s: "syscall (SysSetsockopt (rc_fd c) opt) w = Inr (r, w1)"
    and e: "(if r = - 1 then f c w1 else Inr (c, w1, True)) = Inr (c', w', ok)" by (auto simp: rbind_eq_Inr_iff)
  have o1: "open_fds w1 = rc_fd c # fds" using syscall_Inr(1) [OF s] o by simp
  with e show "net_post fds c c' w' ok" using assms(1) [OF o1 o(2)] net_post_refl [OF o1] by (auto split: if_splits)
next
  fix c w c' w' ok fd
  assume "rbind (syscall (SysSetsockopt (rc_fd c) opt) w) (\<lambda>(r, w1). if r = - 1 then f c w1 else Inr (c, w1, True)) = Inr (c', w', ok)"
  then obtain r w1 where s: "syscall (SysSetsockopt (rc_fd c) opt) w = Inr (r, w1)"
    and e: "(if r = - 1 then f c w1 else Inr (c, w1, True)) = Inr (c', w', ok)" by (auto simp: rbind_eq_Inr_iff)
  show "nonblocking fd w' = nonblocking fd w" using e syscall_Inr(2) [OF s, of fd] assms(2) by (auto split: if_splits)
qed

interpretation nodelay_op: quiet_op "redisSetTcpNoDelay E" for E
  unfolding redisSetTcpNoDelay_def by (rule option_op, erule (2) fail_close_post(1), erule fail_close_mode)

interpretation reuse_op: quiet_op "redisSetReuseAddr E" for E
  unfolding redisSetReuseAddr_def by (rule option_op, erule (2) fail_close_post(1), erule fail_close_mode)

lemma option_nonneg:
  assumes "syscall call w = Inr (r, w')"
  shows "r < 0 \<longleftrightarrow> r = - 1"
  using syscall_Inr(3) [OF assms] by auto

lemma keepalive_opt_eq:
  "keepalive_opt E c opt w =
     rbind (syscall (SysSetsockopt (rc_fd c) opt) w) (\<lambda>(r, w1).
     if r = - 1 then fail_open E REDIS_ERR_OTHER (ne_strerror E (os_errno w1)) c w1 else Inr (c, w1, True))"
  by (cases "syscall (SysSetsockopt (rc_fd c) opt) w") (auto simp: keepalive_opt_def dest: option_nonneg)

lemma keepalive_opt_quiet: "quiet_op (\<lambda>c. keepalive_opt E c opt)"
  unfolding keepalive_opt_eq by (rule option_op, erule (1) fail_open_post) (simp add: fail_open_def)

interpretation keepalive_op: quiet_op "\<lambda>c. redisKeepAlive E c interval" for E interval
  unfolding redisKeepAlive_def Let_def by (intro quiet_op.quiet_chain keepalive_opt_quiet)

interpretation set_timeout_op: quiet_op "\<lambda>c. redisContextSetTimeout E c tv" for E tv
proof -
  let ?f = "\<lambda>pfx c w. rbind (redisSetErrorFromErrno E REDIS_ERR_IO (Some pfx) c w) (\<lambda>c1. Inr (c1, w, False))"
  let ?o = "\<lambda>opt pfx c w. rbind (syscall (SysSetsockopt (rc_fd c) opt) w) (\<lambda>(r, w1). if r = - 1 then ?f pfx c w1 else Inr (c, w1, True))"
  have "quiet_op (?o opt pfx)" for opt pfx
    by (rule option_op) (auto simp: redisSetErrorFromErrno_def net_post_def same_context_def)
  then have "quiet_op (\<lambda>c w. net_then (?o (SO_RCVTIMEO tv) ''setsockopt(SO_RCVTIMEO)'' c w) (?o (SO_SNDTIMEO tv) ''setsockopt(SO_SNDTIMEO)''))"
    by (intro quiet_op.quiet_chain)
  moreover have "(\<lambda>c. redisContextSetTimeout E c tv) =
      (\<lambda>c w. net_then (?o (SO_RCVTIMEO tv) ''setsockopt(SO_RCVTIMEO)'' c w) (?o (SO_SNDTIMEO tv) ''setsockopt(SO_SNDTIMEO)''))"
    by (rule ext, rule ext) (auto simp: redisContextSetTimeout_def net_then_def redisSetErrorFromErrno_def rbind_assoc
        split: prod.splits intro!: arg_cong [of _ _ "rbind _"])
  ultimately show "quiet_op (\<lambda>c. redisContextSetTimeout E c tv)" by simp
qed

lemma check_post:
  assumes "open_fds w = rc_fd c # fds" "redisCheckSocketError E c w = Inr (c', w', ok)"
  shows "net_post fds c c' w' ok"
proof -
  obtain err w1 where s: "syscall (SysGetError (rc_fd c)) w = Inr (err, w1)"
    using assms(2) by (auto simp: redisCheckSocketError_def rbind_eq_Inr_iff)
  have o: "open_fds w1 = rc_fd c # fds" using syscall_Inr(1) [OF s] assms(1) by simp
  then show ?thesis using assms(2) s net_post_refl [OF o]
    by (auto simp: redisCheckSocketError_def redisSetErrorFromErrno_def Let_def net_post_def same_context_def split: if_splits)
qed

lemma check_mode: "redisCheckSocketError E c w = Inr (c', w', ok) \<Longrightarrow> nonblocking fd w' = nonblocking fd w"
  by (auto simp: redisCheckSocketError_def redisSetErrorFromErrno_def Let_def rbind_eq_Inr_iff dest!: syscall_Inr(2) [of _ _ _ _ fd] split: if_splits)

interpretation check_op: quiet_op "redisCheckSocketError E" for E
  by (unfold_locales, erule (1) check_post, erule check_mode)

lemma wait_cases:
  assumes "redisContextWaitReady E c t w = Inr (c', w', ok)"
  obtains "fail_close E None c w = Inr (c', w', ok)"
  | msec res w1 where "syscall (SysPoll (rc_fd c) msec) w = Inr (res, w1)"
      "fail_close E (Some ''poll(2)'') c w1 = Inr (c', w', ok) \<or> fail_close E None c (w1\<lparr>os_errno := ETIMEDOUT\<rparr>) = Inr (c', w', ok) \<or>
       redisCheckSocketError E c w1 = Inr (c', w', ok)"
  using assms by (auto simp: redisContextWaitReady_def Let_def rbind_eq_Inr_iff split: if_splits option.splits)

lemma wait_post:
  assumes "open_fds w = rc_fd c # fds" "0 \<le> rc_fd c" "redisContextWaitReady E c t w = Inr (c', w', ok)"
  shows "net_post fds c c' w' ok"
  using assms(3)
proof (cases rule: wait_cases)
  case 1
  with assms(1,2) show ?thesis by (rule fail_close_post(1))
next
  case (2 msec res w1)
  have o: "open_fds w1 = rc_fd c # fds" using syscall_Inr(1) [OF 2(1)] assms(1) by simp
  then have "open_fds (w1\<lparr>os_errno := ETIMEDOUT\<rparr>) = rc_fd c # fds" by simp
  with 2(2) o assms(2) show ?thesis by (blast intro: fail_close_post(1) check_post)
qed

lemma wait_mode: "redisContextWaitReady E c t w = Inr (c', w', ok) \<Longrightarrow> nonblocking fd w' = nonblocking fd w"
proof (erule wait_cases)
  fix msec res w1
  assume s: "syscall (SysPoll (rc_fd c) msec) w = Inr (res, w1)"
    and "fail_close E (Some ''poll(2)'') c w1 = Inr (c', w', ok) \<or> fail_close E None c (w1\<lparr>os_errno := ETIMEDOUT\<rparr>) = Inr (c', w', ok) \<or>
       redisCheckSocketError E c w1 = Inr (c', w', ok)"
  then have "nonblocking fd w' = nonblocking fd w1"
    using fail_close_mode [of E "Some ''poll(2)''" c w1 c' w' ok fd] fail_close_mode [of E None c "w1\<lparr>os_errno := ETIMEDOUT\<rparr>" c' w' ok fd]
      check_mode [of E c w1 c' w' ok fd] by auto
  with syscall_Inr(2) [OF s, of fd] show "nonblocking fd w' = nonblocking fd w" by simp
qed (rule fail_close_mode)

interpretation wait_op: quiet_op "\<lambda>c. redisContextWaitReady E c t" for E t
  by (unfold_locales, erule (2) wait_post, erule wait_mode)

lemma bind_loop_trace: "bind_loop s bs w = Inr (w', ok) \<Longrightarrow> open_fds w' = open_fds w \<and> nonblocking fd w' = nonblocking fd w"
proof (induction s bs w rule: bind_loop.induct)
  case (2 s b bs w)
  then obtain r w1 where s: "syscall (SysBind s (ai_addr b)) w = Inr (r, w1)" by (auto simp: rbind_eq_Inr_iff)
  with 2 show ?case using syscall_Inr(1,2) [OF s] by (auto split: if_splits)
qed simp

text \<open>Without \<^verbatim>\<open>SO_REUSEADDR\<close>.\<close>

lemma bind_cases:
  assumes "bind_source E family False s c w = Inr (c', w', ok)"
  obtains "c' = c" "w' = w" ok
  | w1 msg where "open_fds w1 = open_fds w" "\<And>fd. nonblocking fd w1 = nonblocking fd w" "fail_open E REDIS_ERR_OTHER msg c w1 = Inr (c', w', ok)"
  | "open_fds w' = open_fds w" "\<And>fd. nonblocking fd w' = nonblocking fd w" "c' = c" ok
proof (cases "rc_source_addr c")
  case None
  with assms that(1) show ?thesis by (simp add: bind_source_def)
next
  case (Some src)
  with assms obtain r w1 where g: "getaddrinfo (Some src) None family w = Inr (r, w1)" by (auto simp: bind_source_def rbind_eq_Inr_iff)
  show ?thesis
  proof (cases r)
    case (Inl rv)
    with assms Some g that(2) [of w1] getaddrinfo_trace [OF g] show ?thesis by (simp add: bind_source_def)
  next
    case (Inr bs)
    with assms Some g obtain w3 bound where l: "bind_loop s bs w1 = Inr (w3, bound)" by (auto simp: bind_source_def rbind_eq_Inr_iff)
    have t: "open_fds (freeaddrinfo w3) = open_fds w" "nonblocking fd (freeaddrinfo w3) = nonblocking fd w" for fd
      using bind_loop_trace [OF l] getaddrinfo_trace [OF g] by simp_all
    with assms Some g Inr l that(2) [of "freeaddrinfo w3"] that(3) show ?thesis by (cases bound) (auto simp: bind_source_def Let_def)
  qed
qed

interpretation bind_op: quiet_op "\<lambda>c. bind_source E family False s c" for E family s
proof
  fix w c fds c' w' ok
  assume o: "open_fds w = rc_fd c # fds" and "bind_source E family False s c w = Inr (c', w', ok)"
  from this(2) show "net_post fds c c' w' ok"
    by (cases rule: bind_cases) (use o in \<open>auto intro: net_post_refl fail_open_post\<close>)
next
  fix c w c' w' ok fd
  assume "bind_source E family False s c w = Inr (c', w', ok)"
  then show "nonblocking fd w' = nonblocking fd w" by (cases rule: bind_cases) (auto simp: fail_open_def)
qed

subsection \<open>One address\<close>

definition step_post :: "bool \<Rightarrow> int list \<Rightarrow> redisContext \<Rightarrow> redisContext \<Rightarrow> os \<Rightarrow> connect_step \<Rightarrow> bool" where
  "step_post blocking fds c c' w' step \<longleftrightarrow>
     (case step of
        StepDone \<Rightarrow> (\<exists>fd \<ge> 0. c' = c\<lparr>rc_fd := fd, rc_flags := insert CONNECTED (rc_flags c)\<rparr> \<and> open_fds w' = fd # fds \<and>
                       nonblocking fd w' = (\<not> blocking))
      | StepError \<Rightarrow> same_context c c' \<and> rc_err c' \<noteq> 0 \<and> (open_fds w' = fds \<or> open_fds w' = rc_fd c' # fds)
      | StepNext \<Rightarrow> same_context c c' \<and> rc_err c' = rc_err c \<and> open_fds w' = fds
      | StepRetry \<Rightarrow> False)"

lemma net_postD:
  assumes "net_post fds c c' w' ok"
  shows "ok \<Longrightarrow> c' = c" "ok \<Longrightarrow> open_fds w' = rc_fd c # fds" "\<not> ok \<Longrightarrow> step_post blocking fds c c' w' StepError"
  using assms by (auto simp: net_post_def step_post_def)

lemma established_post:
  assumes o: "open_fds w = rc_fd c # fds" "0 \<le> rc_fd c" "nonblocking (rc_fd c) w"
    and e: "established E blocking c w = Inr (c', w', step)"
  shows "step_post blocking fds c c' w' step"
proof -
  obtain c1 w1 ok1 where b: "(if blocking then redisSetBlocking E c True w else Inr (c, w, True)) = Inr (c1, w1, ok1)"
    using e by (auto simp: established_def rbind_eq_Inr_iff)
  have p1: "net_post fds c c1 w1 ok1"
    using b blocking_op.keeps [OF o(1,2), of E True c1 w1 ok1] net_post_refl [OF o(1)] by (auto split: if_splits)
  show ?thesis
  proof (cases ok1)
    case False
    with e b net_postD(3) [OF p1] show ?thesis by (simp add: established_def)
  next
    case True
    note q = net_postD(1,2) [OF p1 True]
    have m1: "nonblocking (rc_fd c) w1 = (\<not> blocking)" using b o(3) True redisSetBlocking_mode [of E c True w c1 w1] by (auto split: if_splits)
    obtain c2 w2 ok2 where n: "redisSetTcpNoDelay E c w1 = Inr (c2, w2, ok2)"
      using e b True q(1) by (auto simp: established_def rbind_eq_Inr_iff)
    have p2: "net_post fds c c2 w2 ok2" by (rule nodelay_op.keeps [OF q(2) o(2) n])
    show ?thesis
    proof (cases ok2)
      case False
      with e b n True q(1) net_postD(3) [OF p2] show ?thesis by (simp add: established_def)
    next
      case ok2: True
      have "nonblocking (rc_fd c) w2 = (\<not> blocking)" using m1 nodelay_op.mode [OF n, of "rc_fd c"] by simp
      with e b n True ok2 q(1) net_postD(1,2) [OF p2] o(2) show ?thesis
        by (auto simp: established_def step_post_def intro!: exI [of _ "rc_fd c"])
    qed
  qed
qed

lemma connect_address_post:
  assumes o: "open_fds w = rc_fd c # fds" "0 \<le> rc_fd c" "nonblocking (rc_fd c) w"
    and e: "connect_address E blocking False (rc_fd c) p c w = Inr (c', w', step)"
  shows "step_post blocking fds c c' w' step"
proof -
  obtain r w1 where s: "syscall (SysConnect (rc_fd c) (ai_addr p)) w = Inr (r, w1)" using e by (auto simp: connect_address_def rbind_eq_Inr_iff)
  have o1: "open_fds w1 = rc_fd c # fds" "nonblocking (rc_fd c) w1" using syscall_Inr(1,2) [OF s] o by simp_all
  note est = established_post [OF o1(1) o(2) o1(2)]
  consider "r \<noteq> - 1 \<or> (os_errno w1 = EINPROGRESS \<and> \<not> blocking)" | "r = - 1" "os_errno w1 = EHOSTUNREACH"
    | "r = - 1" "os_errno w1 \<noteq> EHOSTUNREACH" "\<not> (os_errno w1 = EINPROGRESS \<and> \<not> blocking)" by blast
  then show ?thesis
  proof cases
    case 1
    then have "established E blocking c w1 = Inr (c', w', step)"
      using e s by (auto simp: connect_address_def EINPROGRESS_def EHOSTUNREACH_def split: if_splits)
    then show ?thesis by (rule est)
  next
    case 2
    then show ?thesis using e s o(2) o1(1) by (auto simp: connect_address_def redisContextCloseFd_def step_post_def same_context_def)
  next
    case 3
    then obtain c2 w2 ok where t: "redisContextWaitReady E c (rc_timeout c) w1 = Inr (c2, w2, ok)"
      and f: "(if \<not> ok then Inr (c2, w2, StepError) else established E blocking c2 w2) = Inr (c', w', step)"
      using e s by (auto simp: connect_address_def rbind_eq_Inr_iff)
    note p = wait_op.keeps [OF o1(1) o(2) t]
    show ?thesis
    proof (cases ok)
      case True
      have "nonblocking (rc_fd c) w2" using wait_op.mode [OF t, of "rc_fd c"] o1(2) by simp
      with established_post [of w2 c fds E blocking c' w' step] net_postD(1,2) [OF p True] f True o(2) show ?thesis by simp
    next
      case False
      with f net_postD(3) [OF p] show ?thesis by simp
    qed
  qed
qed

lemma try_address_post:
  assumes o: "open_fds w = fds" and e: "try_address E family blocking False p c w = Inr (c', w', step)"
  shows "step_post blocking fds c c' w' step"
proof -
  obtain s w1 where s: "syscall (SysSocket (ai_family p) (ai_socktype p) (ai_protocol p)) w = Inr (s, w1)"
    using e by (auto simp: try_address_def rbind_eq_Inr_iff)
  show ?thesis
  proof (cases "s = - 1")
    case True
    then show ?thesis using e s syscall_Inr(1) [OF s] o by (auto simp: try_address_def step_post_def same_context_refl)
  next
    case False
    let ?c = "c\<lparr>rc_fd := s\<rparr>"
    have lift: "step_post blocking fds ?c c1 w2 st \<Longrightarrow> step_post blocking fds c c1 w2 st" for c1 w2 st
      by (auto simp: step_post_def same_context_def split: connect_step.splits)
    have o1: "open_fds w1 = rc_fd ?c # fds" and s0: "0 \<le> rc_fd ?c" using syscall_Inr(1,3) [OF s] o False by auto
    from e s False obtain c2 w2 ok where b: "redisSetBlocking E ?c False w1 = Inr (c2, w2, ok)"
      by (auto simp: try_address_def rbind_eq_Inr_iff)
    note p = blocking_op.keeps [OF o1 s0 b]
    show ?thesis
    proof (cases ok)
      case False
      with e s \<open>s \<noteq> - 1\<close> b net_postD(3) [OF p] show ?thesis by (auto simp: try_address_def intro: lift)
    next
      case True
      note q = net_postD(1,2) [OF p True]
      have m: "nonblocking (rc_fd ?c) w2" using redisSetBlocking_mode [of E ?c False w1 c2 w2] b True by simp
      from e s False b True q(1) obtain c3 w3 ok3 where bd: "bind_source E family False s ?c w2 = Inr (c3, w3, ok3)"
        by (auto simp: try_address_def rbind_eq_Inr_iff)
      note p3 = bind_op.keeps [OF q(2) s0 bd]
      show ?thesis
      proof (cases ok3)
        case False
        with e s \<open>s \<noteq> - 1\<close> b bd True q(1) net_postD(3) [OF p3] show ?thesis by (auto simp: try_address_def intro: lift)
      next
        case ok3: True
        note q3 = net_postD(1,2) [OF p3 ok3]
        have "nonblocking (rc_fd ?c) w3" using bind_op.mode [OF bd, of s] m by simp
        moreover have "connect_address E blocking False (rc_fd ?c) p ?c w3 = Inr (c', w', step)"
          using e s False b True q(1) bd ok3 q3(1) by (auto simp: try_address_def)
        ultimately show ?thesis using connect_address_post [OF q3(2) s0] by (blast intro: lift)
      qed
    qed
  qed
qed

text \<open>A whole call: connected with one more descriptor, in the right mode; or failed with the error
  set and at most the descriptor in the context left open.\<close>

definition connect_post :: "int list \<Rightarrow> redisContext \<Rightarrow> redisContext \<Rightarrow> os \<Rightarrow> bool \<Rightarrow> bool" where
  "connect_post fds c c' w' ok \<longleftrightarrow> rc_obuf c' = rc_obuf c \<and> rc_reader c' = rc_reader c \<and>
     (if ok then rc_err c' = rc_err c \<and> rc_flags c' = insert CONNECTED (rc_flags c) \<and> 0 \<le> rc_fd c' \<and> open_fds w' = rc_fd c' # fds \<and>
                 nonblocking (rc_fd c') w' = (BLOCK \<notin> rc_flags c)
      else rc_err c' \<noteq> 0 \<and> rc_flags c' = rc_flags c \<and> (open_fds w' = fds \<or> open_fds w' = rc_fd c' # fds))"

lemma connect_loop_post:
  assumes "open_fds w = fds" "connect_loop E family blocking reuseaddr ps n c w = Inr (c', w', ok)"
    "same_context c0 c" "rc_err c = rc_err c0"
    "blocking = (BLOCK \<in> rc_flags c0)" "\<not> reuseaddr"
  shows "connect_post fds c0 c' w' ok"
  using assms
proof (induction E family blocking reuseaddr ps n c w rule: connect_loop.induct)
  case (1 E family blocking reuseaddr reuses c w)
  from "1.prems"(3) have "rc_flags c = rc_flags c0" "rc_obuf c = rc_obuf c0" "rc_reader c = rc_reader c0" by (auto dest: same_contextD)
  with "1.prems"(1,2) show ?case by (auto simp: fail_open_def connect_post_def)
next
  case (2 E family blocking reuseaddr p ps reuses c w)
  from "2.prems"(2) obtain c1 w1 step where t: "try_address E family blocking False p c w = Inr (c1, w1, step)"
    using "2.prems"(6) by (auto simp: rbind_eq_Inr_iff)
  note post = try_address_post [OF "2.prems"(1) t]
  have eqs: "rc_flags c = rc_flags c0" "rc_obuf c = rc_obuf c0" "rc_reader c = rc_reader c0" using same_contextD [OF "2.prems"(3)] by simp_all
  show ?case
  proof (cases step)
    case StepNext
    with post "2.prems"(3,4) have "open_fds w1 = fds" "same_context c0 c1" "rc_err c1 = rc_err c0"
      by (auto simp: step_post_def intro: same_context_trans)
    with "2.IH"(1) [of w1 c1] show ?thesis using "2.prems"(2,5,6) t StepNext by simp
  next
    case StepRetry
    with post show ?thesis by (simp add: step_post_def)
  next
    case StepError
    with "2.prems"(2,6) t have r: "c' = c1" "w' = w1" "ok = False" by simp_all
    from StepError post have p: "same_context c c1" "rc_err c1 \<noteq> 0" "open_fds w1 = fds \<or> open_fds w1 = rc_fd c1 # fds"
      by (simp_all add: step_post_def)
    from same_contextD [OF p(1)] eqs p(2,3) show ?thesis unfolding r connect_post_def by simp
  next
    case StepDone
    with "2.prems"(2,6) t have r: "c' = c1" "w' = w1" "ok = True" by simp_all
    from StepDone post obtain fd where p: "0 \<le> fd" "c1 = c\<lparr>rc_fd := fd, rc_flags := insert CONNECTED (rc_flags c)\<rparr>"
      "open_fds w1 = fd # fds" "nonblocking fd w1 = (\<not> blocking)" by (auto simp: step_post_def)
    then show ?thesis unfolding r connect_post_def using eqs "2.prems"(4,5) by simp
  qed
qed

subsection \<open>Whole connections\<close>

lemma getaddrinfo_cases:
  assumes "resolve host addr port w = Inr (r, family, w')"
  shows "open_fds w' = open_fds w"
proof -
  obtain a w1 where g: "getaddrinfo host port AF_INET w = Inr (a, w1)" using assms by (auto simp: resolve_def rbind_eq_Inr_iff)
  show ?thesis
  proof (cases a)
    case (Inl e)
    with assms g have "getaddrinfo addr port AF_INET6 w1 = Inr (r, w')" by (auto simp: resolve_def rbind_eq_Inr_iff)
    then show ?thesis using getaddrinfo_trace(1) [OF g] getaddrinfo_trace(1) by simp
  next
    case (Inr ps)
    with assms g getaddrinfo_trace(1) [OF g] show ?thesis by (auto simp: resolve_def)
  qed
qed

lemma connectTcp_post:
  assumes "REUSEADDR \<notin> rc_flags c" "connectTcp A E c addr port timeout source w = Inr (c', w', ok)"
  shows "connect_post (open_fds w) c c' w' ok"
proof -
  obtain host tv where k: "keep_name A addr (rc_host c) = Inr host" "keep_timeout A timeout (rc_timeout c) = Inr tv"
    using assms(2) by (auto simp: connectTcp_def rbind_eq_Inr_iff)
  define c1 where "c1 = c\<lparr>rc_connection_type := CONN_TCP, rc_port := port, rc_host := host, rc_timeout := tv,
    rc_source_addr := keep_source A source (rc_source_addr c)\<rparr>"
  have c1: "rc_flags c1 = rc_flags c" "rc_obuf c1 = rc_obuf c" "rc_reader c1 = rc_reader c" "rc_err c1 = rc_err c" by (simp_all add: c1_def)
  obtain r family w1 where g: "resolve host (pointee addr (rc_host c)) (Some (take 5 (int_to_string port))) w = Inr (r, family, w1)"
    using assms(2) k by (auto simp: connectTcp_def Let_def rbind_eq_Inr_iff)
  note o = getaddrinfo_cases [OF g]
  show ?thesis
  proof (cases r)
    case (Inl rv)
    then have "fail_open E REDIS_ERR_OTHER (ne_gai_strerror E rv) c1 w1 = Inr (c', w', ok)"
      using assms(2) k g by (simp add: connectTcp_def c1_def)
    with o c1 show ?thesis by (auto simp: fail_open_def connect_post_def)
  next
    case (Inr servinfo)
    then obtain w2 where l: "connect_loop E family (BLOCK \<in> rc_flags c1) False servinfo 0 c1 w1 = Inr (c', w2, ok)" "w' = freeaddrinfo w2"
      using assms k g by (auto simp: connectTcp_def c1_def rbind_eq_Inr_iff)
    have "connect_post (open_fds w) c1 c' w2 ok"
      by (rule connect_loop_post [OF o l(1) same_context_refl]) simp_all
    with c1 l(2) show ?thesis by (simp add: connect_post_def)
  qed
qed

lemma create_local:
  assumes "redisCreateSocket E c AF_LOCAL w = Inr (c', w', ok)"
  shows "if ok then \<exists>s \<ge> 0. c' = c\<lparr>rc_fd := s\<rparr> \<and> open_fds w' = s # open_fds w
    else same_context c c' \<and> rc_err c' \<noteq> 0 \<and> open_fds w' = open_fds w"
proof -
  obtain s w1 where s: "syscall (SysSocket AF_LOCAL SOCK_STREAM 0) w = Inr (s, w1)"
    using assms by (auto simp: redisCreateSocket_def rbind_eq_Inr_iff)
  have "AF_LOCAL \<noteq> AF_INET" by (simp add: AF_LOCAL_def AF_INET_def)
  with assms s syscall_Inr(1,3) [OF s] show ?thesis
    by (cases "s = - 1") (auto simp: redisCreateSocket_def redisSetErrorFromErrno_def same_context_def)
qed

lemma unix_connected_post:
  assumes o: "open_fds w = rc_fd c # fds" "0 \<le> rc_fd c" "nonblocking (rc_fd c) w"
    and e: "unix_connected E (BLOCK \<in> rc_flags c) r c w = Inr (c', w', ok)"
  shows "connect_post fds c c' w' ok"
proof -
  let ?m1 = "if r = - 1 \<and> \<not> (os_errno w = EINPROGRESS \<and> BLOCK \<notin> rc_flags c) then redisContextWaitReady E c (rc_timeout c) w else Inr (c, w, True)"
  obtain c1 w1 ok1 where m1: "?m1 = Inr (c1, w1, ok1)" using e by (auto simp: unix_connected_def net_then_def rbind_eq_Inr_iff)
  have p1: "net_post fds c c1 w1 ok1"
    using m1 wait_op.keeps [OF o(1,2), of E "rc_timeout c" c1 w1 ok1] net_post_refl [OF o(1)] by (auto split: if_splits)
  have nb: "nonblocking (rc_fd c) w1"
    using m1 wait_op.mode [of E c "rc_timeout c" w c1 w1 ok1 "rc_fd c"] o(3) by (auto split: if_splits)
  show ?thesis
  proof (cases ok1)
    case False
    with e m1 p1 same_contextD [of c c1] show ?thesis by (auto simp: unix_connected_def net_then_def net_post_def connect_post_def)
  next
    case True
    note q = net_postD(1,2) [OF p1 True]
    let ?m2 = "if BLOCK \<in> rc_flags c then redisSetBlocking E c True w1 else Inr (c, w1, True)"
    obtain c2 w2 ok2 where m2: "?m2 = Inr (c2, w2, ok2)" using e m1 True q(1) by (auto simp: unix_connected_def net_then_def rbind_eq_Inr_iff)
    have p2: "net_post fds c c2 w2 ok2"
      using m2 blocking_op.keeps [OF q(2) o(2), of E True c2 w2 ok2] net_post_refl [OF q(2)] by (auto split: if_splits)
    show ?thesis
    proof (cases ok2)
      case False
      with e m1 m2 True q(1) p2 same_contextD [of c c2] show ?thesis
        by (auto simp: unix_connected_def net_then_def net_post_def connect_post_def)
    next
      case ok2: True
      have "nonblocking (rc_fd c) w2 = (BLOCK \<notin> rc_flags c)"
        using m2 nb ok2 redisSetBlocking_mode [of E c True w1 c2 w2] by (auto split: if_splits)
      with e m1 m2 True ok2 q(1) net_postD(1,2) [OF p2 ok2] o(2) show ?thesis
        by (auto simp: unix_connected_def net_then_def connect_post_def)
    qed
  qed
qed

lemma connectUnix_post:
  assumes "redisContextConnectUnix A E c path timeout w = Inr (c', w', ok)"
  shows "connect_post (open_fds w) c c' w' ok"
proof -
  obtain c1 w1 ok1 where cr: "redisCreateSocket E c AF_LOCAL w = Inr (c1, w1, ok1)"
    using assms by (auto simp: redisContextConnectUnix_def net_then_def rbind_eq_Inr_iff)
  note c1 = create_local [OF cr]
  show ?thesis
  proof (cases ok1)
    case False
    with assms cr c1 same_contextD [of c c1] show ?thesis
      by (auto simp: redisContextConnectUnix_def net_then_def connect_post_def)
  next
    case True
    with c1 obtain s where s: "0 \<le> s" "c1 = c\<lparr>rc_fd := s\<rparr>" and o1: "open_fds w1 = rc_fd c1 # open_fds w" by auto
    from s have s1: "0 \<le> rc_fd c1" by simp
    from assms cr True obtain c2 w2 ok2 where b: "redisSetBlocking E c1 False w1 = Inr (c2, w2, ok2)"
      by (auto simp: redisContextConnectUnix_def net_then_def rbind_eq_Inr_iff)
    note p = blocking_op.keeps [OF o1 s1 b]
    show ?thesis
    proof (cases ok2)
      case False
      with assms cr True b p s(2) same_contextD [of c1 c2] show ?thesis
        by (auto simp: redisContextConnectUnix_def net_then_def connect_post_def net_post_def)
    next
      case ok2: True
      note q = net_postD(1,2) [OF p ok2]
      have m: "nonblocking (rc_fd c1) w2" using redisSetBlocking_mode [of E c1 False w1 c2 w2] b ok2 by simp
      obtain kept tv a w3 r where sc: "syscall (SysConnect (rc_fd c1) (sun_path E a)) w2 = Inr (r, w3)"
        and u: "unix_connected E (BLOCK \<in> rc_flags c) r (c1\<lparr>rc_connection_type := CONN_UNIX, rc_path := kept, rc_timeout := tv\<rparr>) w3 = Inr (c', w', ok)"
        using assms cr True b ok2 q(1)
        by (auto simp: redisContextConnectUnix_def net_then_def Let_def rbind_eq_Inr_iff split: option.splits)
      define c3 where "c3 = c1\<lparr>rc_connection_type := CONN_UNIX, rc_path := kept, rc_timeout := tv\<rparr>"
      have c3: "rc_flags c3 = rc_flags c" "rc_fd c3 = rc_fd c1" "rc_obuf c3 = rc_obuf c" "rc_reader c3 = rc_reader c" "rc_err c3 = rc_err c"
        by (simp_all add: c3_def s(2))
      have o3: "open_fds w3 = rc_fd c3 # open_fds w" "nonblocking (rc_fd c3) w3" using syscall_Inr(1,2) [OF sc] q(2) m by (simp_all add: c3)
      have "connect_post (open_fds w) c3 c' w' ok"
        by (rule unix_connected_post [OF o3(1) _ o3(2)]) (use u s1 in \<open>simp_all add: c3 c3_def [symmetric]\<close>)
      then show ?thesis by (simp add: connect_post_def c3)
    qed
  qed
qed

subsection \<open>Returning\<close>

text \<open>With no source address to bind, a call that finds \<open>n\<close> more outcomes returns and uses at most those.\<close>

definition outcomes :: "os \<Rightarrow> nat" where
  "outcomes w = length (os_outcomes w)"

definition returns :: "nat \<Rightarrow> redisContext \<Rightarrow> os \<Rightarrow> (redisContext \<times> os \<times> 'k) result \<Rightarrow> bool" where
  "returns n c w m \<longleftrightarrow> (rc_source_addr c = None \<and> n \<le> outcomes w \<longrightarrow>
     (\<exists>c' w' k. m = Inr (c', w', k) \<and> rc_source_addr c' = None \<and> outcomes w \<le> outcomes w' + n))"

lemma outcomes_simps [simp]:
  "outcomes (sys_close fd w) = outcomes w" "outcomes (freeaddrinfo w) = outcomes w" "outcomes (w\<lparr>os_errno := e\<rparr>) = outcomes w"
  by (simp_all add: outcomes_def sys_close_def freeaddrinfo_def)

lemma returns_Inr: "rc_source_addr c' = rc_source_addr c \<Longrightarrow> outcomes w' = outcomes w \<Longrightarrow> returns n c w (Inr (c', w', k))"
  by (simp add: returns_def)

lemma returns_bind:
  assumes "returns n c w m" "\<And>c' w' k. m = Inr (c', w', k) \<Longrightarrow> returns n' c' w' (f (c', w', k))"
  shows "returns (n + n') c w (rbind m f)"
  unfolding returns_def
proof
  assume a: "rc_source_addr c = None \<and> n + n' \<le> outcomes w"
  with assms(1) obtain c1 w1 k1 where m: "m = Inr (c1, w1, k1)" "rc_source_addr c1 = None" "outcomes w \<le> outcomes w1 + n"
    by (auto simp: returns_def)
  with a have "n' \<le> outcomes w1" by simp
  with assms(2) [OF m(1)] m(2) obtain c2 w2 k2 where "f (c1, w1, k1) = Inr (c2, w2, k2)" "rc_source_addr c2 = None"
    "outcomes w1 \<le> outcomes w2 + n'" by (auto simp: returns_def)
  with m show "\<exists>c' w' k. rbind m f = Inr (c', w', k) \<and> rc_source_addr c' = None \<and> outcomes w \<le> outcomes w' + (n + n')"
    by auto
qed

lemma returns_seq:
  "returns n c w m \<Longrightarrow> n + n' = N \<Longrightarrow> (\<And>c' w' k. returns n' c' w' (f (c', w', k))) \<Longrightarrow> returns N c w (rbind m f)"
  using returns_bind [of n c w m n' f] by simp

lemma returns_syscall:
  assumes "\<And>r w'. returns n c w' (f (r, w'))"
  shows "returns (Suc n) c w (rbind (syscall call w) f)"
  unfolding returns_def
proof
  assume a: "rc_source_addr c = None \<and> Suc n \<le> outcomes w"
  then obtain r w1 where s: "syscall call w = Inr (r, w1)" "outcomes w = Suc (outcomes w1)"
  proof (cases "os_outcomes w")
    case Nil
    with a show ?thesis by (simp add: outcomes_def)
  next
    case (Cons x rest)
    with that show ?thesis by (cases x) (auto simp: outcomes_def syscall_def)
  qed
  with a assms [of w1 r] show "\<exists>c' w' k. rbind (syscall call w) f = Inr (c', w', k) \<and> rc_source_addr c' = None \<and> outcomes w \<le> outcomes w' + Suc n"
    by (auto simp: returns_def)
qed

lemma returns_mono: "returns n c w m \<Longrightarrow> n \<le> n' \<Longrightarrow> returns n' c w m"
  by (fastforce simp: returns_def)

lemma returns_fail_close: "returns n c w (fail_close E pfx c w)"
  by (auto simp: fail_close_def redisSetErrorFromErrno_def redisContextCloseFd_def intro: returns_Inr)

lemma returns_fail_open: "returns n c w (fail_open E ty msg c w)"
  by (auto simp: fail_open_def intro: returns_Inr)

lemma returns_context: "rc_source_addr c0 = rc_source_addr c \<Longrightarrow> returns n c w m \<Longrightarrow> returns n c0 w m"
  by (simp add: returns_def)

lemma returns_errno: "returns n c (w\<lparr>os_errno := e\<rparr>) m \<Longrightarrow> returns n c w m"
  by (simp add: returns_def)

lemma returns_blocking: "returns 2 c w (redisSetBlocking E c b w)"
proof -
  have "returns (Suc (Suc 0)) c w (redisSetBlocking E c b w)"
    unfolding redisSetBlocking_def Let_def
    by (rule returns_syscall)
      (auto intro!: returns_syscall returns_Inr returns_fail_close)
  then show ?thesis by (simp add: numeral_2_eq_2)
qed

lemma returns_nodelay: "returns 1 c w (redisSetTcpNoDelay E c w)"
  unfolding redisSetTcpNoDelay_def One_nat_def by (rule returns_syscall) (auto intro: returns_fail_close returns_Inr)

lemma returns_check: "returns 1 c w (redisCheckSocketError E c w)"
  unfolding redisCheckSocketError_def redisSetErrorFromErrno_def Let_def One_nat_def
  by (rule returns_syscall) (auto intro: returns_Inr)

lemma returns_wait: "returns 2 c w (redisContextWaitReady E c t w)"
proof -
  have "returns (Suc (Suc 0)) c w (redisContextWaitReady E c t w)"
    unfolding redisContextWaitReady_def Let_def
    by (auto intro!: returns_syscall returns_check [unfolded One_nat_def] returns_fail_close returns_errno [OF returns_fail_close] split: option.splits)
  then show ?thesis by (simp add: numeral_2_eq_2)
qed

lemma returns_bind_source: "rc_source_addr c = None \<Longrightarrow> returns 0 c w (bind_source E family reuseaddr s c w)"
  by (simp add: bind_source_def returns_Inr)

lemma returns_established: "returns 3 c w (established E blocking c w)"
proof -
  have b: "returns 2 c w (if blocking then redisSetBlocking E c True w else Inr (c, w, True))"
    by (simp add: returns_blocking returns_Inr)
  have n: "returns 1 c1 w1 (if \<not> ok1 then Inr (c1, w1, StepError)
      else rbind (redisSetTcpNoDelay E c1 w1) (\<lambda>(c2, w2, ok). if \<not> ok then Inr (c2, w2, StepError)
        else Inr (c2\<lparr>rc_flags := insert CONNECTED (rc_flags c2)\<rparr>, w2, StepDone)))" for c1 w1 ok1
    by (auto intro!: returns_Inr returns_seq [OF returns_nodelay, where n' = 0])
  show ?thesis unfolding established_def by (rule returns_seq [OF b, where n' = 1]) (simp, simp only: prod.case n)
qed

lemma returns_connect_address: "returns 6 c w (connect_address E blocking reuseaddr s p c w)"
proof -
  have est: "returns 5 c w1 (established E b c w1)" for b w1 by (rule returns_mono [OF returns_established]) simp
  have wait: "returns 5 c w1 (rbind (redisContextWaitReady E c (rc_timeout c) w1) (\<lambda>(c2, w2, ok).
      if \<not> ok then Inr (c2, w2, StepError) else established E blocking c2 w2))" for w1
    by (rule returns_seq [OF returns_wait, where n' = 3]) (auto intro!: returns_Inr returns_established)
  have close: "returns 5 c w1 (let (c2, w2) = redisContextCloseFd c w1 in Inr (c2, w2, StepNext))" for w1
    by (auto simp: redisContextCloseFd_def intro: returns_Inr)
  have "returns (Suc 5) c w (connect_address E blocking reuseaddr s p c w)"
    unfolding connect_address_def by (rule returns_syscall) (auto intro!: est wait close [unfolded Let_def] returns_Inr)
  then show ?thesis by simp
qed

lemma returns_try_address: "returns 9 c w (try_address E family blocking reuseaddr p c w)"
proof (cases "rc_source_addr c")
  case None
  let ?k = "\<lambda>s (c2, w2, ok). if \<not> ok then Inr (c2, w2, StepError)
    else rbind (bind_source E family reuseaddr s c2 w2) (\<lambda>(c3, w3, ok).
      if \<not> ok then Inr (c3, w3, StepError) else connect_address E blocking reuseaddr s p c3 w3)"
  have bind: "returns 6 c2 w2 (rbind (bind_source E family reuseaddr s c2 w2) (\<lambda>(c3, w3, ok).
      if \<not> ok then Inr (c3, w3, StepError) else connect_address E blocking reuseaddr s p c3 w3))" for s c2 w2
  proof (cases "rc_source_addr c2")
    case None
    show ?thesis by (rule returns_seq [OF returns_bind_source [OF None], where n' = 6]) (auto intro!: returns_Inr returns_connect_address)
  qed (simp add: returns_def)
  have s: "returns (2 + 6) (c\<lparr>rc_fd := s\<rparr>) w1 (rbind (redisSetBlocking E (c\<lparr>rc_fd := s\<rparr>) False w1) (?k s))" for s w1
    by (rule returns_bind [OF returns_blocking]) (auto intro!: returns_Inr bind)
  have "returns 8 c w1 (rbind (redisSetBlocking E (c\<lparr>rc_fd := s\<rparr>) False w1) (?k s))" for s w1
    by (rule returns_context [OF _ s [of s w1, simplified]]) simp
  then have "returns (Suc 8) c w (try_address E family blocking reuseaddr p c w)"
    unfolding try_address_def by (intro returns_syscall) (auto intro: returns_Inr)
  then show ?thesis by simp
qed (simp add: returns_def)

lemma returns_connect_loop:
  assumes "n < REDIS_CONNECT_RETRIES"
  shows "returns (9 * (length ps + (REDIS_CONNECT_RETRIES - 1 - n))) c w (connect_loop E family blocking reuseaddr ps n c w)"
  using assms
proof (induction E family blocking reuseaddr ps n c w rule: connect_loop.induct)
  case (1 E family blocking reuseaddr reuses c w)
  show ?case by (simp add: returns_fail_open)
next
  case (2 E family blocking reuseaddr p ps reuses c w)
  let ?n = "9 * (length ps + (REDIS_CONNECT_RETRIES - 1 - reuses))"
  have "returns (9 + ?n) c w (connect_loop E family blocking reuseaddr (p # ps) reuses c w)"
    unfolding connect_loop.simps(2) [of E family blocking reuseaddr p ps reuses c w]
  proof (rule returns_bind [OF returns_try_address])
    fix c1 w1 step
    assume t: "try_address E family blocking reuseaddr p c w = Inr (c1, w1, step)"
    have nxt: "step = StepNext \<Longrightarrow> returns ?n c1 w1 (connect_loop E family blocking reuseaddr ps reuses c1 w1)"
      using "2.IH"(1) [of c1 w1] "2.prems" t by simp
    have retry: "returns ?n c1 w1 (connect_loop E family blocking reuseaddr (p # ps) (Suc reuses) c1 w1)"
      if "step = StepRetry" "Suc reuses < REDIS_CONNECT_RETRIES"
    proof (rule returns_mono)
      show "returns (9 * (length (p # ps) + (REDIS_CONNECT_RETRIES - 1 - Suc reuses))) c1 w1
          (connect_loop E family blocking reuseaddr (p # ps) (Suc reuses) c1 w1)"
        using "2.IH"(2) [of c1 w1] t that by simp
    qed (use that in simp)
    show "returns ?n c1 w1 (case (c1, w1, step) of (c1, w1, step) \<Rightarrow> case step of
          StepNext \<Rightarrow> connect_loop E family blocking reuseaddr ps reuses c1 w1
        | StepRetry \<Rightarrow> if REDIS_CONNECT_RETRIES \<le> Suc reuses then Inr (c1, w1, False)
            else connect_loop E family blocking reuseaddr (p # ps) (Suc reuses) c1 w1
        | StepError \<Rightarrow> Inr (c1, w1, False) | StepDone \<Rightarrow> Inr (c1, w1, True))"
    proof (cases step)
      case StepNext
      with nxt show ?thesis by simp
    next
      case StepRetry
      show ?thesis
      proof (cases "REDIS_CONNECT_RETRIES \<le> Suc reuses")
        case True
        with StepRetry show ?thesis by (simp add: returns_Inr)
      next
        case False
        with retry [OF StepRetry] show ?thesis unfolding StepRetry prod.case connect_step.case if_not_P [OF False] by linarith
      qed
    qed (simp_all add: returns_Inr)
  qed
  then show ?case by simp
qed

lemma resolve_outcomes:
  assumes "os_resolved w = Inr servinfo # rs \<or> (\<exists>e. os_resolved w = Inl e # Inr servinfo # rs)"
  shows "\<exists>family w1. resolve host addr port w = Inr (Inr servinfo, family, w1) \<and> outcomes w1 = outcomes w"
  using assms by (auto simp: resolve_def getaddrinfo_def outcomes_def)

lemma connectTcp_returns:
  assumes A: "\<And>n. al_ok A n"
    and r: "os_resolved w = Inr servinfo # rs \<or> (\<exists>e. os_resolved w = Inl e # Inr servinfo # rs)"
    and n: "9 * (length servinfo + 9) \<le> outcomes w"
  shows "\<exists>c' w' ok. connectTcp A E c (Given host) port timeout Null w = Inr (c', w', ok) \<and> outcomes w \<le> outcomes w' + 9 * (length servinfo + 9)"
proof -
  obtain tv where tv: "keep_timeout A timeout (rc_timeout c) = Inr tv" using A by (cases timeout) (auto simp: keep_timeout_def)
  obtain family w1 where g: "resolve (strdup A host) (Some host) (Some (take 5 (int_to_string port))) w = Inr (Inr servinfo, family, w1)"
    and o: "outcomes w1 = outcomes w" using resolve_outcomes [OF r] by blast
  let ?c = "c\<lparr>rc_connection_type := CONN_TCP, rc_port := port, rc_host := strdup A host, rc_timeout := tv, rc_source_addr := None\<rparr>"
  have "returns (9 * (length servinfo + 9)) ?c w1 (connect_loop E family (BLOCK \<in> rc_flags c) (REUSEADDR \<in> rc_flags c) servinfo 0 ?c w1)"
    using returns_connect_loop [of 0 servinfo ?c w1] by (simp add: REDIS_CONNECT_RETRIES_def)
  with n o obtain c' w' ok where
    "connect_loop E family (BLOCK \<in> rc_flags c) (REUSEADDR \<in> rc_flags c) servinfo 0 ?c w1 = Inr (c', w', ok)"
    "outcomes w \<le> outcomes w' + 9 * (length servinfo + 9)" by (auto simp: returns_def)
  with tv g show ?thesis by (simp add: connectTcp_def keep_name_def keep_source_def pointee_def Let_def)
qed

lemma wait_msec_range:
  assumes "0 \<le> tv_sec t" "tv_sec t \<le> MAX_MSEC" "0 \<le> tv_usec t" "tv_usec t \<le> 1000000"
  shows "0 \<le> wait_msec t" "wait_msec t \<le> INT_MAX"
    "wait_msec t = INT_MAX \<or> tv_sec t * 1000000 + tv_usec t \<le> wait_msec t * 1000 \<and> wait_msec t * 1000 < tv_sec t * 1000000 + tv_usec t + 1000"
proof -
  let ?x = "tv_sec t * 1000 + (tv_usec t + 999) div 1000"
  have d: "(tv_usec t + 999) sdiv 1000 = (tv_usec t + 999) div 1000"
    using assms(3) by (simp add: signed_divide_int_def sgn_if)
  have "?x \<le> LONG_MAX" "0 \<le> ?x" using assms by (auto simp: MAX_MSEC_def LONG_MAX_def)
  then have "signed_take_bit 63 ?x = ?x" by (intro signed_take_bit_int_eq_self) (simp_all add: LONG_MAX_def)
  then have w: "wait_msec t = (if ?x < 0 \<or> INT_MAX < ?x then INT_MAX else ?x)" by (simp add: wait_msec_def d)
  show "0 \<le> wait_msec t" "wait_msec t \<le> INT_MAX" by (auto simp: w INT_MAX_def)
  show "wait_msec t = INT_MAX \<or> tv_sec t * 1000000 + tv_usec t \<le> wait_msec t * 1000 \<and> wait_msec t * 1000 < tv_sec t * 1000000 + tv_usec t + 1000"
    using \<open>0 \<le> ?x\<close> by (auto simp: w)
qed

lemma fail_close_calls: "fail_close E pfx c w = Inr (c', w', ok) \<Longrightarrow> \<exists>more. os_calls w' = os_calls w @ more"
  by (auto simp: fail_close_def redisSetErrorFromErrno_def redisContextCloseFd_def sys_close_def split: if_splits)

lemma syscall_calls: "syscall call w = Inr (r, w') \<Longrightarrow> os_calls w' = os_calls w @ [(call, r)]"
  by (auto simp: syscall_def split: list.splits sys_outcome.splits)

lemma check_calls: "redisCheckSocketError E c w = Inr (c', w', ok) \<Longrightarrow> \<exists>more. os_calls w' = os_calls w @ more"
  by (auto simp: redisCheckSocketError_def redisSetErrorFromErrno_def Let_def rbind_eq_Inr_iff dest!: syscall_calls split: if_splits)

lemma wait_polls:
  assumes "redisContextWaitReady E c (Some t) w = Inr (c', w', ok)" "os_errno w = EINPROGRESS"
    and "tv_sec t \<le> MAX_MSEC" "tv_usec t \<le> 1000000"
  shows "\<exists>res more. os_calls w' = os_calls w @ (SysPoll (rc_fd c) (wait_msec t), res) # more"
proof -
  obtain res w1 where s: "syscall (SysPoll (rc_fd c) (wait_msec t)) w = Inr (res, w1)"
    and e: "(if res = - 1 then fail_close E (Some ''poll(2)'') c w1
      else if res = 0 then fail_close E None c (w1\<lparr>os_errno := ETIMEDOUT\<rparr>) else redisCheckSocketError E c w1) = Inr (c', w', ok)"
    using assms by (auto simp: redisContextWaitReady_def Let_def rbind_eq_Inr_iff)
  have "\<exists>more. os_calls w' = os_calls w1 @ more"
    using e fail_close_calls [of E _ c w1] fail_close_calls [of E None c "w1\<lparr>os_errno := ETIMEDOUT\<rparr>"] check_calls by (auto split: if_splits)
  with syscall_calls [OF s] show ?thesis by auto
qed

subsection \<open>Theorems\<close>


text \<open>A server that is reached at its second address, after a wait.\<close>

definition sample_net :: net_env where
  "sample_net = \<lparr>ne_strerror = (\<lambda>e. ''error''), ne_gai_strerror = (\<lambda>e. ''no address''), ne_junk = NUL\<rparr>"

definition sample_address :: "string \<Rightarrow> addrinfo" where
  "sample_address a = \<lparr>ai_family = AF_INET, ai_socktype = SOCK_STREAM, ai_protocol = 6, ai_addr = a\<rparr>"

definition sample_os :: os where
  "sample_os = \<lparr>os_errno = 0,
     os_outcomes = [SysOk 3, SysOk 2, SysOk 0, SysErr EHOSTUNREACH,
                    SysOk 3, SysOk 2, SysOk 0, SysErr EINPROGRESS, SysOk 1, SysOk 0, SysOk 2050, SysOk 0, SysOk 0],
     os_resolved = [Inr [sample_address ''10.0.0.1'', sample_address ''10.0.0.2'']], os_calls = []\<rparr>"

definition sample_context :: redisContext where
  "sample_context = \<lparr>rc_err = 0, rc_errstr = [], rc_fd = 0, rc_flags = {BLOCK}, rc_obuf = None, rc_reader = None,
     rc_connection_type = CONN_TCP, rc_timeout = None, rc_host = None, rc_source_addr = None, rc_port = 0, rc_path = None\<rparr>"

lemmas net_eval = connectTcp_def keep_name_def keep_timeout_def keep_source_def strdup_def pointee_def resolve_def getaddrinfo_def
  try_address_def syscall_def redisSetBlocking_def bind_source_def connect_address_def redisContextCloseFd_def sys_close_def
  redisContextWaitReady_def redisCheckSocketError_def established_def redisSetTcpNoDelay_def freeaddrinfo_def

lemma sample_connects:
  "\<exists>c' w'. connectTcp any_memory sample_net sample_context (Given ''redis'') 6379 Null Null sample_os = Inr (c', w', True) \<and> rc_fd c' = 3"
  by (simp add: net_eval sample_net_def sample_os_def sample_context_def sample_address_def any_memory_def
      EHOSTUNREACH_def EINPROGRESS_def)


text \<open>C18. Connecting without a source address returns: with memory, an answer of the resolver and at most
  nine outcomes of system calls for each address and each of the nine repetitions that
  \<^verbatim>\<open>REDIS_CONNECT_RETRIES\<close> allows, the call ends, in success or failure, and uses no more than those.\<close>

theorem connect_returns:
  assumes "\<forall>n. al_ok A n"
    and "os_resolved w = Inr servinfo # rs \<or> (\<exists>e. os_resolved w = Inl e # Inr servinfo # rs)"
    and "9 * (length servinfo + 9) \<le> length (os_outcomes w)"
  shows "\<exists>c' w' ok. redisContextConnectTcp A E c (Given host) port timeout w = Inr (c', w', ok) \<and>
    length (os_outcomes w) \<le> length (os_outcomes w') + 9 * (length servinfo + 9)"
  using connectTcp_returns [of A w servinfo rs E c host port timeout] assms by (simp add: redisContextConnectTcp_def outcomes_def)

theorem connect_returns_witness:
  "\<exists>c' w' ok. redisContextConnectTcp any_memory sample_net (sample_context\<lparr>rc_flags := {REUSEADDR}\<rparr>) (Given ''redis'') 6379 Null
     \<lparr>os_errno = 0, os_outcomes = replicate 90 (SysErr EADDRNOTAVAIL), os_resolved = [Inl 5, Inr [sample_address ''10.0.0.1'']], os_calls = []\<rparr>
     = Inr (c', w', ok)"
  using connect_returns [of any_memory
      "\<lparr>os_errno = 0, os_outcomes = replicate 90 (SysErr EADDRNOTAVAIL), os_resolved = [Inl 5, Inr [sample_address ''10.0.0.1'']], os_calls = []\<rparr>"
      "[sample_address ''10.0.0.1'']" "[]" sample_net "sample_context\<lparr>rc_flags := {REUSEADDR}\<rparr>" "''redis''" 6379 Null]
  by (auto simp: any_memory_def)

text \<open>C19. Waiting for a connection under way: for every timeout \<^verbatim>\<open>redisContextWaitReady\<close> accepts that is not
  negative, the milliseconds it passes to \<^verbatim>\<open>poll\<close> are a valid \<^verbatim>\<open>int\<close> and never less than the timeout,
  rounded up by less than a millisecond, unless they are capped at \<^verbatim>\<open>INT_MAX\<close>.\<close>

theorem wait_not_shorter:
  assumes "redisContextWaitReady E c (Some t) w = Inr (c', w', ok)" "os_errno w = EINPROGRESS"
    and "0 \<le> tv_sec t" "tv_sec t \<le> MAX_MSEC" "0 \<le> tv_usec t" "tv_usec t \<le> 1000000"
  shows "\<exists>msec res more. os_calls w' = os_calls w @ (SysPoll (rc_fd c) msec, res) # more \<and> 0 \<le> msec \<and> msec \<le> INT_MAX \<and>
    (msec = INT_MAX \<or> tv_sec t * 1000000 + tv_usec t \<le> msec * 1000 \<and> msec * 1000 < tv_sec t * 1000000 + tv_usec t + 1000)"
  using wait_polls [OF assms(1,2,4,6)] wait_msec_range [OF assms(3-6)] by blast

theorem wait_not_shorter_witness:
  "\<exists>c' w' msec res more. redisContextWaitReady sample_net sample_context (Some \<lparr>tv_sec = 1, tv_usec = 500001\<rparr>)
      (sample_os\<lparr>os_errno := EINPROGRESS, os_outcomes := [SysOk 0]\<rparr>) = Inr (c', w', False) \<and>
    os_calls w' = (SysPoll 0 msec, res) # more \<and> 1500001 \<le> msec * 1000"
proof -
  let ?w = "sample_os\<lparr>os_errno := EINPROGRESS, os_outcomes := [SysOk 0]\<rparr>" and ?t = "\<lparr>tv_sec = 1, tv_usec = 500001\<rparr>"
  have m: "?t = \<lparr>tv_sec = 1, tv_usec = 500001\<rparr>" "(1 :: int) \<le> MAX_MSEC" by (simp_all add: MAX_MSEC_def LONG_MAX_def)
  have "\<exists>w1. redisContextWaitReady sample_net sample_context (Some ?t) ?w = fail_close sample_net None sample_context w1"
    using m(2) by (auto simp: redisContextWaitReady_def syscall_def Let_def)
  then obtain c' w' where r: "redisContextWaitReady sample_net sample_context (Some ?t) ?w = Inr (c', w', False)"
    using fail_close_total by metis
  show ?thesis using wait_not_shorter [OF r] m(2) r by (auto simp: sample_os_def sample_context_def INT_MAX_def)
qed

end
