(* ===== verification/Redis_Command.thy ===== *)
theory Redis_Command
  imports Redis_Context
begin

text \<open>
  A blocking command of hiredis end to end: formatting, partial and interrupted writes, reads in
  chunks, parsing. The server receives exactly the encoded command and the caller gets exactly the
  encoded reply; the context is ready for the next command.
\<close>

subsection \<open>Sending\<close>

text \<open>The write outcomes that are left once \<open>n\<close> bytes are sent.\<close>

fun drain :: "write_outcome list \<Rightarrow> nat \<Rightarrow> write_outcome list option" where
  "drain ws 0 = Some ws"
| "drain (WCount k # ws) n = drain ws (n - k)"
| "drain (WIntr # ws) n = drain ws n"
| "drain _ n = None"

lemma write_loop_ok:
  "rc_err c = 0 \<Longrightarrow> rc_obuf c = Some s \<Longrightarrow> sds_ok s \<Longrightarrow> drain (so_writes so) (sdslen s) = Some ws \<Longrightarrow> \<forall>n. al_ok A n \<Longrightarrow>
    \<exists>s'. write_loop A c so = Inr (c\<lparr>rc_obuf := Some s'\<rparr>, so\<lparr>so_writes := ws, so_sent := so_sent so @ content s\<rparr>, True) \<and>
      sds_ok s' \<and> content s' = []"
proof (induction A c so arbitrary: s rule: write_loop.induct)
  case (1 A c so)
  have len: "length (content s) = sdslen s" using "1.prems" by (simp add: length_content)
  show ?case
  proof (cases "sdslen s = 0")
    case True
    then have "redisBufferWrite A c so = Inr (c, so, True, True)" "content s = []" "ws = so_writes so"
      using "1.prems" len by (simp_all add: redisBufferWrite_def)
    with "1.prems" show ?thesis by (subst write_loop.simps) (auto intro!: exI [of _ s])
  next
    case False
    then obtain w ws' where w: "so_writes so = w # ws'" "w = WIntr \<or> (\<exists>k. w = WCount k)"
      using "1.prems"(4) by (cases "(so_writes so, sdslen s)" rule: drain.cases) auto
    consider (again) c1 so1 s1 where "redisBufferWrite A c so = Inr (c1, so1, False, True)" "c1 = c\<lparr>rc_obuf := Some s1\<rparr>" "sds_ok s1"
        "so_sent so1 @ content s1 = so_sent so @ content s" "drain (so_writes so1) (sdslen s1) = Some ws"
        "so_reads so1 = so_reads so"
      | (finish) s1 where "redisBufferWrite A c so = Inr (c\<lparr>rc_obuf := Some s1\<rparr>, so\<lparr>so_writes := ws, so_sent := so_sent so @ content s\<rparr>, True, True)"
        "sds_ok s1" "content s1 = []"
    proof (cases "w = WIntr")
      case True
      then have "drain ws' (sdslen s) = Some ws" using "1.prems"(4) w(1) False by (cases "sdslen s") simp_all
      then show thesis by (intro again [of c "so\<lparr>so_writes := ws'\<rparr>" s])
        (use True w(1) "1.prems" False in \<open>simp_all add: redisBufferWrite_def write_some_def\<close>)
    next
      case n: False
      then obtain k where k: "w = WCount k" using w(2) by blast
      have rest: "drain ws' (sdslen s - k) = Some ws" using "1.prems"(4) w(1) k False by (cases "sdslen s") simp_all
      consider "k = 0" | "0 < k" "k < sdslen s" | "sdslen s \<le> k" by linarith
      then show thesis
      proof cases
        case 1
        show thesis by (rule again [of c "so\<lparr>so_writes := ws'\<rparr>" s])
          (use 1 k w(1) "1.prems" False rest in \<open>simp_all add: redisBufferWrite_def write_some_def Let_def\<close>)
      next
        case 2
        have "to_int k = int k" using 2 sds_ok_dest(4) [OF "1.prems"(3)] by (intro to_int_small) simp
        with sdsrange_tail [OF "1.prems"(3), of k] 2 obtain s1 where
          s1: "sdsrange s (int k) (- 1) = Inr s1" "sds_ok s1" "content s1 = drop k (content s)" by auto
        have l1: "sdslen s1 = sdslen s - k" using length_content [OF s1(2)] s1(3) len by simp
        show thesis by (rule again [of "c\<lparr>rc_obuf := Some s1\<rparr>" "so\<lparr>so_writes := ws', so_sent := so_sent so @ take k (content s)\<rparr>" s1])
          (use 2 k w(1) "1.prems" False rest s1 l1 in \<open>simp_all add: redisBufferWrite_def write_some_def Let_def\<close>)
      next
        case 3
        obtain e where e: "sdsempty A = Inr (Some e)" "sds_ok e" "content e = []"
          using sdsempty_ok [of A] "1.prems"(5) by (auto simp: yields_def)
        have "sdslen e = 0" using length_content [OF e(2)] e(3) by simp
        show thesis by (rule finish [of e])
          (use 3 k w(1) "1.prems" False rest e len \<open>sdslen e = 0\<close> in \<open>simp_all add: redisBufferWrite_def write_some_def Let_def min_def\<close>)
      qed
    qed
    then show ?thesis
    proof cases
      case again
      have "\<exists>s'. write_loop A c1 so1 = Inr (c1\<lparr>rc_obuf := Some s'\<rparr>, so1\<lparr>so_writes := ws, so_sent := so_sent so1 @ content s1\<rparr>, True) \<and>
          sds_ok s' \<and> content s' = []"
        by (rule "1.IH" [OF again(1) refl refl refl]) (use again "1.prems" in simp_all)
      moreover have "write_loop A c so = write_loop A c1 so1" using again(1) by (subst write_loop.simps) simp
      moreover have "so1\<lparr>so_writes := ws, so_sent := so_sent so1 @ content s1\<rparr> = so\<lparr>so_writes := ws, so_sent := so_sent so @ content s\<rparr>"
        using again(4,6) by (cases so; cases so1) simp
      ultimately show ?thesis using again(2) by simp
    next
      case finish
      then show ?thesis by (subst write_loop.simps) auto
    qed
  qed
qed

subsection \<open>Receiving\<close>

text \<open>The read outcomes deliver the bytes \<open>e\<close>, in chunks and with interruptions.\<close>

fun arrives :: "read_outcome list \<Rightarrow> string \<Rightarrow> bool" where
  "arrives [] e = False"
| "arrives (RBytes b # rs) e =
     (b \<noteq> [] \<and> length b \<le> 16384 \<and> take (length b) e = b \<and>
      (if rs = [] then drop (length b) e = [] else arrives rs (drop (length b) e)))"
| "arrives (RIntr # rs) e = arrives rs e"
| "arrives (RAgain # rs) e = False"
| "arrives (RFail m # rs) e = False"

lemma arrives_not_Nil: "arrives rs e \<Longrightarrow> e \<noteq> []"
  by (induction rs e rule: arrives.induct) auto

lemma read_loop_ok:
  assumes fn: "fn_local fn" and A: "\<And>n. al_ok A n"
  shows "arrives pre e \<Longrightarrow> so_reads so = pre @ rest \<Longrightarrow> rc_err c = 0 \<Longrightarrow> rc_reader c = Some r \<Longrightarrow> completes fn r h e p h' \<Longrightarrow> ps_reply p \<noteq> 0 \<Longrightarrow>
    \<exists>r'. read_loop A fn c so h = Inr (c\<lparr>rc_reader := Some r'\<rparr>, so\<lparr>so_reads := rest\<rparr>, h', ps_reply p, True) \<and> reader_ok r' \<and>
      pstate_of r' = p\<lparr>ps_reply := 0\<rparr> \<and> rd_pos r' < 1024"
proof (induction pre e arbitrary: c so r h rule: arrives.induct)
  case (2 b rs e)
  let ?so = "so\<lparr>so_reads := rs @ rest\<rparr>"
  have b: "b \<noteq> []" "length b \<le> 16384" and e: "e = b @ drop (length b) e" using "2.prems"(1) by (auto, metis append_take_drop_id)
  from feed_step [OF A _ b(1), of fn r h "drop (length b) e" p h'] "2.prems"(5) e obtain r1 where
    r1: "redisReaderFeed A fn r b h = Inr (r1, h, True)" "completes fn r1 h (drop (length b) e) p h'" "0 < rd_len r1" by auto
  have read: "redisBufferRead A fn c so h = Inr (c\<lparr>rc_reader := Some r1\<rparr>, ?so, h, True)"
    using "2.prems"(2,3,4) b r1(1) by (simp add: redisBufferRead_def Let_def)
  show ?case
  proof (cases "rs = []")
    case True
    then have "completes fn r1 h [] p h'" using r1(2) "2.prems"(1) by simp
    from last_step [OF fn this r1(3)] obtain r' where
      "redisReaderGetReply fn r1 h = Inr (r', h', ps_reply p, True)" "reader_ok r'" "pstate_of r' = p\<lparr>ps_reply := 0\<rparr>" "rd_pos r' < 1024" by blast
    with read True "2.prems"(6) show ?thesis by (subst read_loop.simps) (auto simp: redisGetReplyFromReader_def)
  next
    case False
    then have more: "arrives rs (drop (length b) e)" using "2.prems"(1) by simp
    from poll_step [OF fn r1(2) arrives_not_Nil [OF more]] obtain r2 h2 where
      r2: "redisReaderGetReply fn r1 h = Inr (r2, h2, 0, True)" "completes fn r2 h2 (drop (length b) e) p h'" by blast
    have "read_loop A fn c so h = read_loop A fn (c\<lparr>rc_reader := Some r2\<rparr>) ?so h2"
      using read r2(1) by (subst read_loop.simps) (simp add: redisGetReplyFromReader_def)
    moreover have "\<exists>r'. read_loop A fn (c\<lparr>rc_reader := Some r2\<rparr>) ?so h2 =
        Inr (c\<lparr>rc_reader := Some r2\<rparr>\<lparr>rc_reader := Some r'\<rparr>, ?so\<lparr>so_reads := rest\<rparr>, h', ps_reply p, True) \<and> reader_ok r' \<and>
        pstate_of r' = p\<lparr>ps_reply := 0\<rparr> \<and> rd_pos r' < 1024"
      by (rule "2.IH" [OF False more, where r = r2]) (use "2.prems"(3,6) r2(2) in simp_all)
    ultimately show ?thesis by simp
  qed
next
  case (3 rs e)
  let ?so = "so\<lparr>so_reads := rs @ rest\<rparr>"
  have more: "arrives rs e" using "3.prems"(1) by simp
  from poll_step [OF fn "3.prems"(5) arrives_not_Nil [OF more]] obtain r2 h2 where
    r2: "redisReaderGetReply fn r h = Inr (r2, h2, 0, True)" "completes fn r2 h2 e p h'" by blast
  have "redisBufferRead A fn c so h = Inr (c, ?so, h, True)" using "3.prems"(2,3) by (simp add: redisBufferRead_def)
  then have "read_loop A fn c so h = read_loop A fn (c\<lparr>rc_reader := Some r2\<rparr>) ?so h2"
    using r2(1) "3.prems"(4) by (subst read_loop.simps) (simp add: redisGetReplyFromReader_def)
  moreover have "\<exists>r'. read_loop A fn (c\<lparr>rc_reader := Some r2\<rparr>) ?so h2 =
      Inr (c\<lparr>rc_reader := Some r2\<rparr>\<lparr>rc_reader := Some r'\<rparr>, ?so\<lparr>so_reads := rest\<rparr>, h', ps_reply p, True) \<and> reader_ok r' \<and>
      pstate_of r' = p\<lparr>ps_reply := 0\<rparr> \<and> rd_pos r' < 1024"
    by (rule "3.IH" [OF more, where r = r2]) (use "3.prems"(3,6) r2(2) in simp_all)
  ultimately show ?case by simp
qed simp_all

subsection \<open>A whole command\<close>

text \<open>Between two commands nothing is left to send and nothing is left to read.\<close>

definition idle :: "redisReader \<Rightarrow> bool" where
  "idle r \<longleftrightarrow> reader_ok r \<and> rd_len r < 1024 \<and>
     started (rd_privdata r) (pstate_of r) = \<lparr>ps_stack = [fresh_task (- 1) (rd_privdata r)], ps_reply = 0, ps_bytes = []\<rparr>"

definition ready :: "redisContext \<Rightarrow> bool" where
  "ready c \<longleftrightarrow> rc_err c = 0 \<and> BLOCK \<in> rc_flags c \<and>
     (case rc_obuf c of None \<Rightarrow> False | Some s \<Rightarrow> sds_ok s \<and> content s = []) \<and>
     (case rc_reader c of None \<Rightarrow> False | Some r \<Rightarrow> idle r)"

lemma idle_completes:
  assumes "idle r" "wf_reply v" "depth v \<le> 8" "length (encode v) + 1024 < 2 ^ 30" "heap_ok h" and A: "\<And>n. al_ok A n"
  shows "\<exists>h'. completes (Some (defaultFunctions A)) r h (encode v) \<lparr>ps_stack = [], ps_reply = rh_next h, ps_bytes = []\<rparr> h' \<and>
    rh_next h' = rh_next h + nodes v \<and> heap_ok h' \<and> (\<forall>x < rh_next h. rh_objs h' x = rh_objs h x) \<and> rep (rh_objs h') (rh_next h) v"
  using parse_encode [OF assms(2,3,5) A, of "rd_privdata r"] assms(1,4) by (auto simp: completes_def idle_def ext_def)

lemma encode_not_Nil: "encode v \<noteq> []"
  by (cases v) (simp_all add: line_def)

lemma redisGetReply_ok:
  assumes A: "\<And>n. al_ok A n" and c: "rc_err c = 0" "BLOCK \<in> rc_flags c" "rc_obuf c = Some s" "sds_ok s" "rc_reader c = Some r" "idle r"
    and v: "wf_reply v" "depth v \<le> 8" "length (encode v) + 1024 < 2 ^ 30" and h: "heap_ok h"
    and so: "so_reads so = pre @ rest" "arrives pre (encode v)" "drain (so_writes so) (sdslen s) = Some ws"
  shows "\<exists>c' h'. redisGetReply A (Some (defaultFunctions A)) c so h =
      Inr (c', so\<lparr>so_reads := rest, so_writes := ws, so_sent := so_sent so @ content s\<rparr>, h', rh_next h, True) \<and> ready c' \<and>
    rh_next h' = rh_next h + nodes v \<and> heap_ok h' \<and> (\<forall>x < rh_next h. rh_objs h' x = rh_objs h x) \<and> rep (rh_objs h') (rh_next h) v"
proof -
  let ?fn = "Some (defaultFunctions A)" and ?p = "\<lparr>ps_stack = [], ps_reply = rh_next h, ps_bytes = []\<rparr>"
  from idle_completes [OF c(6) v h A] obtain h' where com: "completes ?fn r h (encode v) ?p h'"
    and h': "rh_next h' = rh_next h + nodes v" "heap_ok h'" "\<forall>x < rh_next h. rh_objs h' x = rh_objs h x" "rep (rh_objs h') (rh_next h) v" by blast
  from poll_step [OF fn_local_default com encode_not_Nil] obtain r1 h1 where
    r1: "redisReaderGetReply ?fn r h = Inr (r1, h1, 0, True)" "completes ?fn r1 h1 (encode v) ?p h'" by blast
  let ?c1 = "c\<lparr>rc_reader := Some r1\<rparr>"
  from write_loop_ok [of ?c1 s so ws A] c so(3) A obtain s' where
    w: "write_loop A ?c1 so = Inr (?c1\<lparr>rc_obuf := Some s'\<rparr>, so\<lparr>so_writes := ws, so_sent := so_sent so @ content s\<rparr>, True)" "sds_ok s'" "content s' = []"
    by auto
  let ?so = "so\<lparr>so_writes := ws, so_sent := so_sent so @ content s\<rparr>"
  from read_loop_ok [OF fn_local_default A so(2), of ?so rest "?c1\<lparr>rc_obuf := Some s'\<rparr>" r1 A h1 ?p h'] so(1) c(1) r1(2) heap_ok_next [OF h]
  obtain r' where rd: "read_loop A ?fn (?c1\<lparr>rc_obuf := Some s'\<rparr>) ?so h1 =
      Inr (?c1\<lparr>rc_obuf := Some s'\<rparr>\<lparr>rc_reader := Some r'\<rparr>, ?so\<lparr>so_reads := rest\<rparr>, h', rh_next h, True)"
    "reader_ok r'" "pstate_of r' = ?p\<lparr>ps_reply := 0\<rparr>" "rd_pos r' < 1024" by auto
  have "rd_len r' \<le> rd_pos r'" using length_unread [OF rd(2)] rd(3) by (simp add: pstate_of_def)
  then have "idle r'" using rd by (simp add: idle_def started_def)
  then have "ready (?c1\<lparr>rc_obuf := Some s'\<rparr>\<lparr>rc_reader := Some r'\<rparr>)" using c w by (simp add: ready_def)
  moreover have "redisGetReply A ?fn c so h = Inr (?c1\<lparr>rc_obuf := Some s'\<rparr>\<lparr>rc_reader := Some r'\<rparr>, ?so\<lparr>so_reads := rest\<rparr>, h', rh_next h, True)"
    using r1(1) c(2,5) w(1) rd(1) by (simp add: redisGetReply_def redisGetReplyFromReader_def)
  ultimately show ?thesis using h' by auto
qed

lemma appendCommand_ok:
  assumes A: "\<And>n. al_ok A n" and "rc_obuf c = Some s" "sds_ok s" "len \<le> length cmd" "sdslen s + len < 2 ^ 30"
  shows "\<exists>s'. appendCommand A c cmd len = Inr (c\<lparr>rc_obuf := Some s'\<rparr>, True) \<and> sds_ok s' \<and> content s' = content s @ take len cmd"
  using sdscatlen_ok [of s len cmd A] assms by (auto simp: appendCommand_def yields_def)

text \<open>A reply is awaited on a context that has the bytes \<open>cmd\<close> to send.\<close>

lemma block_ok:
  assumes A: "\<And>n. al_ok A n" and c: "ready c" and app: "appendCommand A c buf (length cmd) = Inr (c1, True)"
    and buf: "take (length cmd) buf = cmd" "length cmd < 2 ^ 30" "length cmd \<le> length buf"
    and v: "wf_reply v" "depth v \<le> 8" "length (encode v) + 1024 < 2 ^ 30" and h: "heap_ok h"
    and so: "so_reads so = pre @ rest" "arrives pre (encode v)" "drain (so_writes so) (length cmd) = Some ws"
  shows "\<exists>c' h'. redisGetReply A (Some (defaultFunctions A)) c1 so h =
      Inr (c', so\<lparr>so_reads := rest, so_writes := ws, so_sent := so_sent so @ cmd\<rparr>, h', rh_next h, True) \<and>
    BLOCK \<in> rc_flags c1 \<and> ready c' \<and> rh_next h' = rh_next h + nodes v \<and> heap_ok h' \<and>
    (\<forall>x < rh_next h. rh_objs h' x = rh_objs h x) \<and> rep (rh_objs h') (rh_next h) v"
proof -
  from c obtain s r where c: "rc_err c = 0" "BLOCK \<in> rc_flags c" "rc_obuf c = Some s" "sds_ok s" "content s = []"
    "rc_reader c = Some r" "idle r" by (auto simp: ready_def split: option.splits)
  have l: "sdslen s = 0" using length_content [OF c(4)] c(5) by simp
  from appendCommand_ok [OF A c(3,4) buf(3)] l c(5) buf(1,2) app obtain s1 where
    s1: "c1 = c\<lparr>rc_obuf := Some s1\<rparr>" "sds_ok s1" "content s1 = cmd" by auto
  then have "sdslen s1 = length cmd" using length_content [of s1] by simp
  with redisGetReply_ok [OF A _ _ _ s1(2) _ c(7) v h so(1,2), of c1 ws] c so(3) s1 show ?thesis by simp
qed

text \<open>Memory being there, the append itself succeeds.\<close>

lemma append_ready:
  assumes A: "\<And>n. al_ok A n" and c: "ready c" and "len \<le> length buf" "len < 2 ^ 30"
  shows "\<exists>c1. appendCommand A c buf len = Inr (c1, True)"
proof -
  from c obtain s where s: "rc_obuf c = Some s" "sds_ok s" "content s = []" by (auto simp: ready_def split: option.splits)
  then have "sdslen s = 0" using length_content [of s] by simp
  with appendCommand_ok [OF A s(1,2) assms(3)] assms(4) show ?thesis by auto
qed

lemma redisCommandArgv_ok:
  assumes A: "\<And>n. al_ok A n" and c: "ready c" and args: "list_all arg_ok (arg_pairs argv argvlen)"
      "map arg_bytes (arg_pairs argv argvlen) = us"
    and len: "length (command us) + 10 < 2 ^ 30" and v: "wf_reply v" "depth v \<le> 8" "length (encode v) + 1024 < 2 ^ 30" and h: "heap_ok h"
    and so: "so_reads so = pre @ rest" "arrives pre (encode v)" "drain (so_writes so) (length (command us)) = Some ws"
  shows "\<exists>c' h'. redisCommandArgv A (Some (defaultFunctions A)) c argv argvlen so h =
      Inr (c', so\<lparr>so_reads := rest, so_writes := ws, so_sent := so_sent so @ command us\<rparr>, h', rh_next h) \<and>
    ready c' \<and> rh_next h' = rh_next h + nodes v \<and> heap_ok h' \<and>
    (\<forall>x < rh_next h. rh_objs h' x = rh_objs h x) \<and> rep (rh_objs h') (rh_next h) v"
proof -
  let ?cmd = "command us"
  from redisFormatSdsCommandArgv_ok [OF A args(1), unfolded args(2), OF len] obtain f where
    f: "redisFormatSdsCommandArgv A argv argvlen = Inr (int (length ?cmd), Some f)" "sds_ok f" "content f = ?cmd" by blast
  have lf: "sdslen f = length ?cmd" using length_content [OF f(2)] f(3) by simp
  then have buf: "take (length ?cmd) (sd_buf f) = ?cmd" "length ?cmd < 2 ^ 30" "length ?cmd \<le> length (sd_buf f)"
    using f(3) sds_ok_dest(3) [OF f(2)] len by (simp_all add: content_def)
  obtain c1 where app: "appendCommand A c (sd_buf f) (length ?cmd) = Inr (c1, True)" using append_ready [OF A c buf(3,2)] by blast
  from block_ok [OF A c app buf v h so] obtain c' h' where g: "redisGetReply A (Some (defaultFunctions A)) c1 so h =
      Inr (c', so\<lparr>so_reads := rest, so_writes := ws, so_sent := so_sent so @ ?cmd\<rparr>, h', rh_next h, True)" "BLOCK \<in> rc_flags c1"
    "ready c'" "rh_next h' = rh_next h + nodes v" "heap_ok h'" "\<forall>x < rh_next h. rh_objs h' x = rh_objs h x" "rep (rh_objs h') (rh_next h) v" by blast
  have "redisAppendCommandArgv A c argv argvlen = Inr (c1, True)" using f(1) app by (simp add: redisAppendCommandArgv_def)
  then show ?thesis using g by (simp add: redisCommandArgv_def redisBlockForReply_def)
qed

lemma redisCommand_string_ok:
  assumes A: "\<And>n. al_ok A n" and c: "ready c" and cmd: "CHR ''%'' \<notin> set cmd" "CHR '' '' \<notin> set cmd" "cmd \<noteq> []"
    and key: "c_str key \<noteq> []" "CHR '' '' \<notin> set (c_str key)" "30 * (length cmd + length (c_str key) + 5) < 2 ^ 30"
      "length (command [cmd, c_str key]) < 2 ^ 30"
    and v: "wf_reply v" "depth v \<le> 8" "length (encode v) + 1024 < 2 ^ 30" and h: "heap_ok h"
    and so: "so_reads so = pre @ rest" "arrives pre (encode v)" "drain (so_writes so) (length (command [cmd, c_str key])) = Some ws"
  shows "\<exists>c' h'. redisCommand A pf (Some (defaultFunctions A)) c (cmd @ '' %s'') [VStr key] so h =
      Inr (c', so\<lparr>so_reads := rest, so_writes := ws, so_sent := so_sent so @ command [cmd, c_str key]\<rparr>, h', rh_next h) \<and>
    ready c' \<and> rh_next h' = rh_next h + nodes v \<and> heap_ok h' \<and>
    (\<forall>x < rh_next h. rh_objs h' x = rh_objs h x) \<and> rep (rh_objs h') (rh_next h) v"
proof -
  let ?cmd = "command [cmd, c_str key]"
  obtain c1 where app: "appendCommand A c (?cmd @ [NUL]) (length ?cmd) = Inr (c1, True)"
    using append_ready [OF A c, of "length ?cmd" "?cmd @ [NUL]"] key(4) by auto
  from block_ok [OF A c app _ key(4) _ v h so] obtain c' h' where g: "redisGetReply A (Some (defaultFunctions A)) c1 so h =
      Inr (c', so\<lparr>so_reads := rest, so_writes := ws, so_sent := so_sent so @ ?cmd\<rparr>, h', rh_next h, True)" "BLOCK \<in> rc_flags c1"
    "ready c'" "rh_next h' = rh_next h + nodes v" "heap_ok h'" "\<forall>x < rh_next h. rh_objs h' x = rh_objs h x" "rep (rh_objs h') (rh_next h) v" by auto
  have "redisvAppendCommand A pf c (cmd @ '' %s'') [VStr key] = Inr (c1, True)"
    using redisvFormatCommand_string [OF A cmd key(1-3)] app by (simp add: redisvAppendCommand_def)
  then show ?thesis using g by (simp add: redisCommand_def redisvCommand_def redisBlockForReply_def)
qed

text \<open>
  C4. A blocking command is exact. On a ready context, with a socket that takes the output in pieces of
  any size, is interrupted, and delivers the encoding of a reply in chunks, \<^verbatim>\<open>redisCommandArgv\<close>
  returns; the bytes sent are exactly the encoding of the arguments (of any bytes), the object
  returned holds exactly the reply, older objects are untouched, and the context is ready again.
\<close>

theorem redisCommandArgv_exact:
  assumes "\<And>n. al_ok A n" and "ready c" and "list_all arg_ok (arg_pairs argv argvlen)"
    and "length (command (map arg_bytes (arg_pairs argv argvlen))) + 10 < 2 ^ 30"
    and "wf_reply v" "depth v \<le> 8" "length (encode v) + 1024 < 2 ^ 30" and "heap_ok h"
    and "so_reads so = pre @ rest" "arrives pre (encode v)"
    and "drain (so_writes so) (length (command (map arg_bytes (arg_pairs argv argvlen)))) = Some ws"
  shows "\<exists>c' h' a. redisCommandArgv A (Some (defaultFunctions A)) c argv argvlen so h =
      Inr (c', so\<lparr>so_reads := rest, so_writes := ws, so_sent := so_sent so @ command (map arg_bytes (arg_pairs argv argvlen))\<rparr>, h', a) \<and>
    a \<noteq> 0 \<and> rep (rh_objs h') a v \<and> (\<forall>x < rh_next h. rh_objs h' x = rh_objs h x) \<and> heap_ok h' \<and> ready c'"
  using redisCommandArgv_ok [OF assms(1-3) refl assms(4-11)] heap_ok_next [OF assms(8)] by blast

lemma redisConnectFd_ready:
  assumes A: "\<And>n. al_ok A n"
  shows "\<exists>c. redisConnectFd A fd = Inr (Some c) \<and> ready c"
proof -
  obtain e where e: "sdsempty A = Inr (Some e)" "sds_ok e" "content e = []" using sdsempty_ok [of A] A by (auto simp: yields_def)
  obtain r where r: "redisReaderCreateWithFunctions A = Inr (Some r)" "reader_ok r" "rd_len r = 0"
    "pstate_of r = \<lparr>ps_stack = [], ps_reply = 0, ps_bytes = []\<rparr>" using createReader_ok [of A] A by blast
  then have "idle r" by (simp add: idle_def started_def)
  with e r A show ?thesis by (simp add: redisConnectFd_def init_and_def redisContextInit_def ready_def)
qed

theorem redisCommandArgv_exact_witness:
  "\<exists>c so c' h' a. redisCommandArgv any_memory (Some (defaultFunctions any_memory)) c [''GET'', ''k''] None so heap0 =
      Inr (c', \<lparr>so_reads = [], so_writes = [], so_sent = command [''GET'', ''k'']\<rparr>, h', a) \<and> rep (rh_objs h') a (RStatus ''OK'')"
proof -
  have A: "\<And>n. al_ok any_memory n" by (simp add: any_memory_def)
  obtain c where c: "ready c" using redisConnectFd_ready [of any_memory 3] A by blast
  let ?cmd = "command [''GET'', ''k'']"
  let ?so = "\<lparr>so_reads = [RIntr, RBytes ''+O'', RBytes [CHR ''K'', CR, LF]], so_writes = [WCount 5, WIntr, WCount 1000], so_sent = []\<rparr>"
  have args: "map arg_bytes (arg_pairs [''GET'', ''k''] None) = [''GET'', ''k'']" "list_all arg_ok (arg_pairs [''GET'', ''k''] None)"
    by (simp_all add: arg_pairs_def arg_bytes_def arg_ok_def c_str_def)
  have len: "length ?cmd = 20" by (simp add: command_bulks line_def length_to_string)
  have "drain [WCount 5, WIntr, WCount 1000] 20 = Some []" by (simp add: numeral_eq_Suc)
  then have dr: "drain (so_writes ?so) (length ?cmd) = Some []" using len by simp
  have ar: "arrives [RIntr, RBytes ''+O'', RBytes [CHR ''K'', CR, LF]] (encode (RStatus ''OK''))" by (simp add: line_def)
  have "\<exists>c' h' a. redisCommandArgv any_memory (Some (defaultFunctions any_memory)) c [''GET'', ''k''] None ?so heap0 =
      Inr (c', ?so\<lparr>so_reads := [], so_writes := [], so_sent := so_sent ?so @ ?cmd\<rparr>, h', a) \<and>
    a \<noteq> 0 \<and> rep (rh_objs h') a (RStatus ''OK'') \<and> (\<forall>x < rh_next heap0. rh_objs h' x = rh_objs heap0 x) \<and> heap_ok h' \<and> ready c'"
    using redisCommandArgv_exact [OF A c args(2), of "RStatus ''OK''" heap0 ?so "so_reads ?so" "[]" "[]"] heap_ok_heap0 ar dr len
    unfolding args(1) by (simp add: line_def)
  then obtain c' h' a where "redisCommandArgv any_memory (Some (defaultFunctions any_memory)) c [''GET'', ''k''] None ?so heap0 =
      Inr (c', \<lparr>so_reads = [], so_writes = [], so_sent = ?cmd\<rparr>, h', a)" "rep (rh_objs h') a (RStatus ''OK'')" by auto
  then show ?thesis by blast
qed

end
