(* ===== verification/Redis_Db.thy ===== *)
theory Redis_Db
  imports Redis_Command Redis_Connect Db_Client
begin

text \<open>
  \<^verbatim>\<open>redis/redis_client.h\<close>, \<^verbatim>\<open>db/redis_db.h\<close> and \<^verbatim>\<open>db/redis_db.cc\<close>: the benchmark's client of a Redis server on
  top of hiredis. The database state is the connection, the socket, and the heap of reply objects
  (the messages on \<^verbatim>\<open>cerr\<close> before the process exits are left out). The pointer variable of \<^verbatim>\<open>RedisClient::Command\<close> is not initialised; its first
  value is the parameter \<open>junk\<close>.
\<close>

record RedisDB =
  rdb_context :: redisContext
  rdb_slaves :: int
  rdb_socket :: socket
  rdb_heap :: reply_heap

text \<open>What the code takes from its surroundings: memory, the conversions of \<^verbatim>\<open>vsnprintf\<close>, and the value of
  an uninitialised pointer.\<close>

record redis_env =
  re_alloc :: allocator
  re_printf :: "string \<Rightarrow> vararg list \<Rightarrow> string"
  re_junk :: nat

definition re_fn :: "redis_env \<Rightarrow> reply_fns" where
  "re_fn E = Some (defaultFunctions (re_alloc E))"

subsection \<open>\<^verbatim>\<open>RedisClient\<close>\<close>

definition RedisClient_new ::
  "redis_env \<Rightarrow> net_env \<Rightarrow> string \<Rightarrow> int \<Rightarrow> int \<Rightarrow> os \<Rightarrow> socket \<Rightarrow> reply_heap \<Rightarrow> (RedisDB \<times> os) result" where
  "RedisClient_new E N host port slaves w so h =
     rbind (redisConnect (re_alloc E) N host port w) (\<lambda>(ctx, w').
     case ctx of
       None \<Rightarrow> Inl (Exit 1)
     | Some c \<Rightarrow>
         if rc_err c \<noteq> 0 then rbind (redisFree (re_fn E) (Some c) h) (\<lambda>_. Inl (Exit 1))
         else Inr (\<lparr>rdb_context = c, rdb_slaves = slaves, rdb_socket = so, rdb_heap = h\<rparr>, w'))"

definition RedisClient_delete :: "redis_env \<Rightarrow> RedisDB \<Rightarrow> (int list \<times> reply_heap) result" where
  "RedisClient_delete E d = redisFree (re_fn E) (Some (rdb_context d)) (rdb_heap d)"

definition HandleError :: "redis_env \<Rightarrow> nat \<Rightarrow> RedisDB \<Rightarrow> 'a result" where
  "HandleError E reply d =
     rbind (if reply \<noteq> 0 then freeReplyObject reply (rdb_heap d) else Inr (rdb_heap d)) (\<lambda>h.
     rbind (redisFree (re_fn E) (Some (rdb_context d)) h) (\<lambda>_. Inl (Exit 2)))"

text \<open>A reply is awaited and released; the pointer variable keeps its value when the call fails.\<close>

definition take_reply :: "redis_env \<Rightarrow> nat \<Rightarrow> RedisDB \<Rightarrow> (nat \<times> RedisDB) result" where
  "take_reply E reply d =
     rbind (redisGetReply (re_alloc E) (re_fn E) (rdb_context d) (rdb_socket d) (rdb_heap d)) (\<lambda>(c, so, h, r, ok).
     let d' = d\<lparr>rdb_context := c, rdb_socket := so, rdb_heap := h\<rparr> in
     if \<not> ok then HandleError E reply d'
     else rbind (freeReplyObject r h) (\<lambda>h'. Inr (r, d'\<lparr>rdb_heap := h'\<rparr>)))"

text \<open>The results of the two appends are not tested.\<close>

definition RedisClient_Command :: "redis_env \<Rightarrow> string \<Rightarrow> RedisDB \<Rightarrow> (int \<times> RedisDB) result" where
  "RedisClient_Command E cmd d =
     rbind (redisAppendCommand (re_alloc E) (re_printf E) (rdb_context d) (c_str cmd) []) (\<lambda>(c1, _).
     rbind (if rdb_slaves d \<noteq> 0
            then redisAppendCommand (re_alloc E) (re_printf E) c1 ''WAIT %d %d'' [VInt (rdb_slaves d), VInt 0]
            else Inr (c1, True)) (\<lambda>(c2, _).
     rbind (take_reply E (re_junk E) (d\<lparr>rdb_context := c2\<rparr>)) (\<lambda>(r, d1).
     if rdb_slaves d \<noteq> 0 then rbind (take_reply E r d1) (\<lambda>(_, d2). Inr (0, d2)) else Inr (0, d1))))"

subsection \<open>\<^verbatim>\<open>RedisDB\<close>\<close>

text \<open>\<^verbatim>\<open>reply->element[i]->str\<close>.\<close>

definition element_str :: "reply_heap \<Rightarrow> redisReply \<Rightarrow> nat \<Rightarrow> string option result" where
  "element_str h r i =
     (case ry_element r of
        None \<Rightarrow> Inl InvalidAccess
      | Some es \<Rightarrow> if i < length es then rbind (reply_object h (es ! i)) (\<lambda>e. Inr (ry_str e)) else Inl InvalidAccess)"

fun field_values :: "reply_heap \<Rightarrow> redisReply \<Rightarrow> nat \<Rightarrow> string list \<Rightarrow> KVPair list result" where
  "field_values h r i [] = Inr []"
| "field_values h r i (f # fs) =
     rbind (element_str h r i) (\<lambda>s.
     rbind (field_values h r (Suc i) fs) (\<lambda>kvs. Inr ((f, case s of None \<Rightarrow> [] | Some v \<Rightarrow> c_str v) # kvs)))"

text \<open>A \<^verbatim>\<open>std::string\<close> is made from a C string; there is none in a null pointer.\<close>

definition to_cpp_string :: "string option \<Rightarrow> string result" where
  "to_cpp_string s = (case s of None \<Rightarrow> Inl InvalidAccess | Some v \<Rightarrow> Inr (c_str v))"

fun all_values :: "reply_heap \<Rightarrow> redisReply \<Rightarrow> nat \<Rightarrow> nat \<Rightarrow> KVPair list result" where
  "all_values h r i 0 = Inr []"
| "all_values h r i (Suc n) =
     rbind (element_str h r (2 * i)) (\<lambda>s. rbind (to_cpp_string s) (\<lambda>f.
     rbind (element_str h r (2 * i + 1)) (\<lambda>t. rbind (to_cpp_string t) (\<lambda>v.
     rbind (all_values h r (Suc i) n) (\<lambda>kvs. Inr ((f, v) # kvs))))))"

definition Redis_Read ::
  "redis_env \<Rightarrow> string \<Rightarrow> string \<Rightarrow> string list option \<Rightarrow> RedisDB \<Rightarrow> (int \<times> KVPair list \<times> RedisDB) result" where
  "Redis_Read E table key flds d =
     (let finish = (\<lambda>(c, so, h, reply) values.
        let d' = d\<lparr>rdb_context := c, rdb_socket := so, rdb_heap := h\<rparr> in
        if reply = 0 then Inr (kOK, [], d')
        else
          rbind (reply_object h reply) (\<lambda>r.
          if ry_type r \<noteq> REDIS_REPLY_ARRAY then Inl AssertFailure
          else
            rbind (values h r) (\<lambda>kvs.
            rbind (freeReplyObject reply h) (\<lambda>h'. Inr (kOK, kvs, d'\<lparr>rdb_heap := h'\<rparr>))))) in
      case flds of
        Some fs \<Rightarrow>
          rbind (redisCommandArgv (re_alloc E) (re_fn E) (rdb_context d) (''HMGET'' # key # fs)
                   (Some (map length (''HMGET'' # key # fs))) (rdb_socket d) (rdb_heap d)) (\<lambda>res.
          finish res (\<lambda>h r. if length fs \<noteq> ry_elements r then Inl AssertFailure else field_values h r 0 fs))
      | None \<Rightarrow>
          rbind (redisCommand (re_alloc E) (re_printf E) (re_fn E) (rdb_context d) ''HGETALL %s'' [VStr key]
                   (rdb_socket d) (rdb_heap d)) (\<lambda>res.
          finish res (\<lambda>h r. all_values h r 0 (ry_elements r div 2))))"

definition Redis_Scan ::
  "string \<Rightarrow> string \<Rightarrow> int \<Rightarrow> string list option \<Rightarrow> RedisDB \<Rightarrow> (int \<times> KVPair list list \<times> RedisDB) result" where
  "Redis_Scan table key len flds d = Inl (Exception ''Scan: function not implemented!'')"

fun append_values :: "KVPair list \<Rightarrow> string \<Rightarrow> string result" where
  "append_values [] cmd = Inr cmd"
| "append_values ((f, v) # kvs) cmd =
     (if CHR '' '' \<in> set f \<or> CHR '' '' \<in> set v then Inl AssertFailure
      else append_values kvs (cmd @ '' '' @ f @ '' '' @ v))"

definition Redis_Update :: "redis_env \<Rightarrow> string \<Rightarrow> string \<Rightarrow> KVPair list \<Rightarrow> RedisDB \<Rightarrow> (int \<times> RedisDB) result" where
  "Redis_Update E table key values d =
     (let len = 5 + length key + 1 + sum_list (map (\<lambda>(f, v). length f + length v + 2) values) in
      rbind (append_values values (''HMSET'' @ '' '' @ key)) (\<lambda>cmd.
      if length cmd \<noteq> len then Inl AssertFailure
      else rbind (RedisClient_Command E cmd d) (\<lambda>(_, d'). Inr (kOK, d'))))"

definition Redis_Insert :: "redis_env \<Rightarrow> string \<Rightarrow> string \<Rightarrow> KVPair list \<Rightarrow> RedisDB \<Rightarrow> (int \<times> RedisDB) result" where
  "Redis_Insert E table key values d = Redis_Update E table key values d"

definition Redis_Delete :: "redis_env \<Rightarrow> string \<Rightarrow> string \<Rightarrow> RedisDB \<Rightarrow> (int \<times> RedisDB) result" where
  "Redis_Delete E table key d = rbind (RedisClient_Command E (''DEL '' @ key) d) (\<lambda>(_, d'). Inr (kOK, d'))"

definition RedisDB_DB :: "redis_env \<Rightarrow> RedisDB DB" where
  "RedisDB_DB E =
     \<lparr>db_Init = \<lambda>_ d. d, db_Read = Redis_Read E, db_Scan = Redis_Scan,
      db_Update = Redis_Update E, db_Insert = Redis_Insert E, db_Delete = Redis_Delete E\<rparr>"

end
