(* ===== verification/Redis_Db_Laws.thy ===== *)
theory Redis_Db_Laws
  imports Redis_Db
begin

text \<open>
  What the Redis back end of the benchmark does on the wire: the command the server receives from
  \<^verbatim>\<open>Update\<close> and \<^verbatim>\<open>Insert\<close>, the values \<^verbatim>\<open>Read\<close> returns, and the values that do not survive because the
  command text is used as a format string.
\<close>

subsection \<open>The words of a command text\<close>

lemma unpct_prefix: "CHR ''%'' \<notin> set s \<Longrightarrow> unpct (s @ t) = map_option ((@) s) (unpct t)"
proof (induction s)
  case (Cons c s)
  then show ?case by (cases "s @ t") (auto simp: option.map_comp comp_def)
next
  case Nil
  show ?case by (cases "unpct t") simp_all
qed

lemma unpct_plain: "CHR ''%'' \<notin> set s \<Longrightarrow> unpct s = Some s"
  using unpct_prefix [of s "[]"] by simp

lemma unpct_pairs: "unpct (replicate (2 * n) (CHR ''%'')) = Some (replicate n (CHR ''%''))"
  by (induction n) simp_all

definition token :: "string \<Rightarrow> bool" where
  "token u \<longleftrightarrow> u \<noteq> [] \<and> CHR '' '' \<notin> set u \<and> NUL \<notin> set u"

definition spaced :: "string list \<Rightarrow> string" where
  "spaced ws = concat (map ((#) (CHR '' '')) ws)"

lemma spaced_simps [simp]: "spaced [] = []" "spaced (w # ws) = CHR '' '' # w @ spaced ws" "spaced (vs @ ws) = spaced vs @ spaced ws"
  by (simp_all add: spaced_def)

lemma words_spaced: "token u \<Longrightarrow> list_all token ws \<Longrightarrow> words (u @ spaced ws) = u # ws"
proof (induction ws arbitrary: u)
  case Nil
  then show ?case by (simp add: token_def words_plain)
next
  case (Cons w ws)
  then show ?case by (simp add: token_def words_blank)
qed

lemma set_spaced: "c \<in> set (spaced ws) \<longleftrightarrow> (ws \<noteq> [] \<and> c = CHR '' '') \<or> (\<exists>w \<in> set ws. c \<in> set w)"
  by (induction ws) auto

subsection \<open>\<^verbatim>\<open>RedisClient::Command\<close>\<close>

text \<open>The server's answer \<open>v\<close> is on its way and the socket takes \<open>n\<close> bytes of output.\<close>

definition answered :: "RedisDB \<Rightarrow> reply \<Rightarrow> nat \<Rightarrow> read_outcome list \<Rightarrow> write_outcome list \<Rightarrow> bool" where
  "answered d v n rest ws \<longleftrightarrow> wf_reply v \<and> depth v \<le> 8 \<and> length (encode v) + 1024 < 2 ^ 30 \<and>
     (\<exists>pre. so_reads (rdb_socket d) = pre @ rest \<and> arrives pre (encode v)) \<and> drain (so_writes (rdb_socket d)) n = Some ws"

definition at_rest :: "RedisDB \<Rightarrow> bool" where
  "at_rest d \<longleftrightarrow> ready (rdb_context d) \<and> heap_ok (rdb_heap d)"

lemma Command_ok:
  assumes A: "\<And>n. al_ok (re_alloc E) n" and d: "at_rest d" "rdb_slaves d = 0"
    and t: "unpct (c_str cmd) = Some t" "30 * (length (c_str cmd) + 1) < 2 ^ 30" "length (command (words t)) < 2 ^ 30"
    and v: "answered d v (length (command (words t))) rest ws"
  shows "\<exists>d'. RedisClient_Command E cmd d = Inr (0, d') \<and> at_rest d' \<and> rdb_slaves d' = 0 \<and>
    rdb_socket d' = \<lparr>so_reads = rest, so_writes = ws, so_sent = so_sent (rdb_socket d) @ command (words t)\<rparr> \<and>
    rh_objs (rdb_heap d') = rh_objs (rdb_heap d)"
proof -
  let ?c = "rdb_context d" and ?cmd = "command (words t)" and ?h = "rdb_heap d"
  from d(1) have c: "ready ?c" and h: "heap_ok ?h" by (simp_all add: at_rest_def)
  obtain c1 where app: "appendCommand (re_alloc E) ?c (?cmd @ [NUL]) (length ?cmd) = Inr (c1, True)"
    using append_ready [OF A c, of "length ?cmd" "?cmd @ [NUL]"] t(3) by auto
  then have app': "redisAppendCommand (re_alloc E) (re_printf E) ?c (c_str cmd) [] = Inr (c1, True)"
    using redisvFormatCommand_plain [OF A t(1,2)] by (simp add: redisAppendCommand_def redisvAppendCommand_def)
  from v obtain pre where so: "so_reads (rdb_socket d) = pre @ rest" "arrives pre (encode v)"
    "drain (so_writes (rdb_socket d)) (length ?cmd) = Some ws" and v': "wf_reply v" "depth v \<le> 8" "length (encode v) + 1024 < 2 ^ 30"
    by (auto simp: answered_def)
  from block_ok [OF A c app _ t(3) _ v' h so]
  obtain c' h' where g: "redisGetReply (re_alloc E) (re_fn E) c1 (rdb_socket d) ?h =
      Inr (c', rdb_socket d\<lparr>so_reads := rest, so_writes := ws, so_sent := so_sent (rdb_socket d) @ ?cmd\<rparr>, h', rh_next ?h, True)"
    "ready c'" "rh_next h' = rh_next ?h + nodes v" "heap_ok h'" "\<forall>x < rh_next ?h. rh_objs h' x = rh_objs ?h x"
    "rep (rh_objs h') (rh_next ?h) v" by (auto simp: re_fn_def)
  from released [OF h g(3-6)] obtain h2 where h2: "freeReplyObject (rh_next ?h) h' = Inr h2" "heap_ok h2" "rh_objs h2 = rh_objs ?h" by blast
  show ?thesis using app' g(1,2) h2 d(2) by (simp add: RedisClient_Command_def take_reply_def at_rest_def)
qed

subsection \<open>\<^verbatim>\<open>Update\<close> and \<^verbatim>\<open>Insert\<close>\<close>

definition pair_words :: "KVPair list \<Rightarrow> string list" where
  "pair_words kvs = concat (map (\<lambda>(f, v). [f, v]) kvs)"

lemma pair_words_simps [simp]: "pair_words [] = []" "pair_words ((f, v) # kvs) = f # v # pair_words kvs"
  by (simp_all add: pair_words_def)

lemma append_values_ok:
  "\<forall>w \<in> set (pair_words kvs). CHR '' '' \<notin> set w \<Longrightarrow> append_values kvs cmd = Inr (cmd @ spaced (pair_words kvs))"
  by (induction kvs arbitrary: cmd) auto

lemma length_spaced_pairs: "length (spaced (pair_words kvs)) = sum_list (map (\<lambda>(f, v). length f + length v + 2) kvs)"
  by (induction kvs) auto

lemma Redis_Update_Command:
  assumes "\<forall>w \<in> set (pair_words kvs). CHR '' '' \<notin> set w"
  shows "Redis_Update E table key kvs d =
    rbind (RedisClient_Command E (''HMSET'' @ spaced (key # pair_words kvs)) d) (\<lambda>(_, d'). Inr (kOK, d'))"
  using append_values_ok [OF assms] length_spaced_pairs [of kvs] by (simp add: Redis_Update_def)

lemma length_to_string_le: "length (to_string n) \<le> Suc n"
proof (induction n rule: less_induct)
  case (less n)
  show ?case using length_to_string [of n] less.IH [of "n div 10"] by (cases "n < 10") auto
qed

lemma length_bulks_tokens: "list_all token ws \<Longrightarrow> length (bulks ws) \<le> 8 * length (spaced ws)"
proof (induction ws)
  case (Cons w ws)
  then show ?case using length_to_string_le [of "length w"] by (cases w) (simp_all add: line_def token_def)
qed simp

lemma length_command_tokens:
  assumes "list_all token ws"
  shows "length (command ws) \<le> 9 * length (spaced ws) + 4"
proof -
  have "length us \<le> length (spaced us)" for us by (induction us) simp_all
  from this [of ws] show ?thesis
    using length_bulks_tokens [OF assms] length_to_string_le [of "length ws"] by (simp add: command_bulks line_def)
qed

lemma Update_sends:
  assumes A: "\<And>n. al_ok (re_alloc E) n" and d: "at_rest d" "rdb_slaves d = 0"
    and kvs: "list_all token (key # pair_words kvs)" "length (spaced (key # pair_words kvs)) < 2 ^ 24"
    and t: "unpct (''HMSET'' @ spaced (key # pair_words kvs)) = Some (''HMSET'' @ spaced us)" "list_all token us"
      "length (spaced us) \<le> length (spaced (key # pair_words kvs))"
    and v: "answered d v (length (command (''HMSET'' # us))) rest ws"
  shows "\<exists>d'. Redis_Update E table key kvs d = Inr (kOK, d') \<and> at_rest d' \<and> rdb_slaves d' = 0 \<and>
    rdb_socket d' = \<lparr>so_reads = rest, so_writes = ws, so_sent = so_sent (rdb_socket d) @ command (''HMSET'' # us)\<rparr> \<and>
    rh_objs (rdb_heap d') = rh_objs (rdb_heap d)"
proof -
  let ?cmd = "''HMSET'' @ spaced (key # pair_words kvs)"
  have tok: "token ''HMSET''" by (simp add: token_def)
  have w: "words (''HMSET'' @ spaced us) = ''HMSET'' # us" by (rule words_spaced [OF tok t(2)])
  have "NUL \<notin> set ?cmd" using kvs(1) by (auto simp: set_spaced list_all_iff token_def)
  then have c: "c_str ?cmd = ?cmd" by (rule c_str_no_nul)
  have cmd: "length (command (''HMSET'' # us)) < 2 ^ 30"
    using length_command_tokens [of "''HMSET'' # us"] tok t(2,3) kvs(2) by simp
  have "\<exists>d'. RedisClient_Command E ?cmd d = Inr (0, d') \<and> at_rest d' \<and> rdb_slaves d' = 0 \<and>
    rdb_socket d' = \<lparr>so_reads = rest, so_writes = ws, so_sent = so_sent (rdb_socket d) @ command (words (''HMSET'' @ spaced us))\<rparr> \<and>
    rh_objs (rdb_heap d') = rh_objs (rdb_heap d)"
    by (rule Command_ok [OF A d]) (use c t(1) kvs(2) cmd v w in simp_all)
  moreover have "\<forall>w \<in> set (pair_words kvs). CHR '' '' \<notin> set w" using kvs(1) by (simp add: list_all_iff token_def)
  ultimately show ?thesis using Redis_Update_Command w by auto
qed

text \<open>
  C6. \<^verbatim>\<open>RedisDB::Update\<close> and \<^verbatim>\<open>Insert\<close> are exact for plain data. On a connection at rest without
  slaves, for a key, fields and values that are not empty and hold no blank, NUL or percent sign, the
  operation returns \<^verbatim>\<open>kOK\<close>; the bytes sent are exactly the encoding of \<^verbatim>\<open>HMSET\<close>, the key, and each field
  followed by its value; the reply is released and the connection is at rest again.
\<close>

theorem RedisDB_Update_exact:
  assumes "\<And>n. al_ok (re_alloc E) n" and "at_rest d" "rdb_slaves d = 0"
    and "list_all token (key # pair_words kvs)" "\<forall>w \<in> set (key # pair_words kvs). CHR ''%'' \<notin> set w"
    and "length (spaced (key # pair_words kvs)) < 2 ^ 24"
    and "answered d v (length (command (''HMSET'' # key # pair_words kvs))) rest ws"
  shows "\<exists>d'. db_Update (RedisDB_DB E) table key kvs d = Inr (kOK, d') \<and> db_Insert (RedisDB_DB E) table key kvs d = Inr (kOK, d') \<and>
    at_rest d' \<and> rdb_slaves d' = 0 \<and> rh_objs (rdb_heap d') = rh_objs (rdb_heap d) \<and>
    rdb_socket d' = \<lparr>so_reads = rest, so_writes = ws,
      so_sent = so_sent (rdb_socket d) @ command (''HMSET'' # key # pair_words kvs)\<rparr>"
proof -
  have "CHR ''%'' \<notin> set (''HMSET'' @ spaced (key # pair_words kvs))" using assms(5) by (simp add: set_spaced)
  from Update_sends [OF assms(1-4,6) unpct_plain [OF this] assms(4) order_refl assms(7)] show ?thesis
    by (auto simp: RedisDB_DB_def Redis_Insert_def)
qed

text \<open>
  C39. Percent signs do not survive \<^verbatim>\<open>RedisDB::Update\<close>: the command text is used as the format string of
  \<^verbatim>\<open>redisAppendCommand\<close>, so a value of \<open>2 n\<close> percent signs, which the workload's \<^verbatim>\<open>BuildValues\<close> can draw,
  reaches the server as \<open>n\<close> percent signs while the operation returns \<^verbatim>\<open>kOK\<close>.
\<close>

theorem RedisDB_Update_percent:
  assumes "\<And>n. al_ok (re_alloc E) n" and "at_rest d" "rdb_slaves d = 0"
    and "token key" "CHR ''%'' \<notin> set key" "token f" "CHR ''%'' \<notin> set f" "0 < n"
    and "length key + length f + 2 * n + 3 < 2 ^ 24"
    and "answered d v (length (command [''HMSET'', key, f, replicate n (CHR ''%'')])) rest ws"
  shows "\<exists>d'. db_Update (RedisDB_DB E) table key [(f, replicate (2 * n) (CHR ''%''))] d = Inr (kOK, d') \<and>
    so_sent (rdb_socket d') = so_sent (rdb_socket d) @ command [''HMSET'', key, f, replicate n (CHR ''%'')]"
proof -
  let ?kvs = "[(f, replicate (2 * n) (CHR ''%''))]" and ?us = "[key, f, replicate n (CHR ''%'')]"
  have tok: "token (replicate m (CHR ''%''))" if "0 < m" for m using that by (simp add: token_def)
  have "unpct ((''HMSET '' @ key @ '' '' @ f @ '' '') @ replicate (2 * n) (CHR ''%'')) =
      Some ((''HMSET '' @ key @ '' '' @ f @ '' '') @ replicate n (CHR ''%''))"
    by (subst unpct_prefix) (use assms(5,7) in \<open>simp_all add: unpct_pairs\<close>)
  then have "unpct (''HMSET'' @ spaced (key # pair_words ?kvs)) = Some (''HMSET'' @ spaced ?us)" by simp
  moreover have "list_all token (key # pair_words ?kvs)" "list_all token ?us" using assms(4,6,8) tok by simp_all
  moreover have "length (spaced (key # pair_words ?kvs)) < 2 ^ 24" "length (spaced ?us) \<le> length (spaced (key # pair_words ?kvs))"
    using assms(9) by simp_all
  ultimately show ?thesis using Update_sends [OF assms(1-3), of key ?kvs ?us v rest ws table] assms(10)
    by (auto simp: RedisDB_DB_def)
qed

subsection \<open>\<^verbatim>\<open>Read\<close>\<close>

fun reply_text :: "reply \<Rightarrow> string option" where
  "reply_text (RStatus s) = Some (c_str s)"
| "reply_text (RError s) = Some (c_str s)"
| "reply_text (RString s) = Some (c_str s)"
| "reply_text _ = None"

lemma c_str_terminated: "c_str (s @ [NUL]) = c_str s"
  by (induction s) (simp_all add: c_str_def)

lemma rep_text: "rep m a v \<Longrightarrow> \<exists>r. m a = Some r \<and> map_option c_str (ry_str r) = reply_text v"
  by (cases v) (auto simp: string_obj_def blank_reply_def array_obj_def c_str_terminated)

lemma reps_nth: "reps m a vs \<Longrightarrow> i < length vs \<Longrightarrow> rep m (addrs a vs ! i) (vs ! i)"
  by (induction vs arbitrary: a i) (auto simp: nth_Cons split: nat.splits)

lemma element_str_ok:
  assumes "reps (rh_objs h) b vs" "i < length vs"
  shows "\<exists>s. element_str h (array_obj (addrs b vs)) i = Inr s \<and> map_option c_str s = reply_text (vs ! i)"
proof -
  have "addrs b vs \<noteq> []" using assms(2) length_addrs [of b vs] by fastforce
  then show ?thesis using rep_text [OF reps_nth [OF assms]] assms(2) by (auto simp: element_str_def reply_object_def array_obj_def)
qed

lemma field_values_ok:
  assumes vs: "reps (rh_objs h) b vs"
  shows "i + length fs = length vs \<Longrightarrow>
    field_values h (array_obj (addrs b vs)) i fs = Inr (zip fs (map (\<lambda>v. case reply_text v of None \<Rightarrow> [] | Some t \<Rightarrow> t) (drop i vs)))"
proof (induction fs arbitrary: i)
  case (Cons f fs)
  then have i: "i < length vs" by simp
  obtain s where s: "element_str h (array_obj (addrs b vs)) i = Inr s" "map_option c_str s = reply_text (vs ! i)"
    using element_str_ok [OF vs i] by blast
  have "(case s of None \<Rightarrow> [] | Some t \<Rightarrow> c_str t) = (case reply_text (vs ! i) of None \<Rightarrow> [] | Some t \<Rightarrow> t)"
    using s(2) [symmetric] by (cases s) simp_all
  then show ?case using Cons s(1) by (simp add: Cons_nth_drop_Suc [OF i, symmetric])
qed simp

definition hash_reply :: "KVPair list \<Rightarrow> reply list" where
  "hash_reply kvs = map RString (pair_words kvs)"

lemma length_hash_reply [simp]: "length (hash_reply kvs) = 2 * length kvs"
  by (induction kvs) (auto simp: hash_reply_def)

lemma hash_reply_nth:
  "i < length kvs \<Longrightarrow> hash_reply kvs ! (2 * i) = RString (fst (kvs ! i)) \<and> hash_reply kvs ! Suc (2 * i) = RString (snd (kvs ! i))"
  by (induction kvs arbitrary: i) (auto simp: hash_reply_def nth_Cons split: nat.splits)

lemma all_values_ok:
  assumes vs: "reps (rh_objs h) b (hash_reply kvs)"
  shows "i + n = length kvs \<Longrightarrow>
    all_values h (array_obj (addrs b (hash_reply kvs))) i n = Inr (map (map_prod c_str c_str) (drop i kvs))"
proof (induction n arbitrary: i)
  case (Suc n)
  then have i: "i < length kvs" by simp
  have "\<exists>s. element_str h (array_obj (addrs b (hash_reply kvs))) j = Inr (Some s) \<and> c_str s = c_str t"
    if "j < 2 * length kvs" "hash_reply kvs ! j = RString t" for j t
    using element_str_ok [OF vs, of j] that by auto
  from this [of "2 * i"] this [of "Suc (2 * i)"] hash_reply_nth [OF i] i obtain s t where
    "element_str h (array_obj (addrs b (hash_reply kvs))) (2 * i) = Inr (Some s)" "c_str s = c_str (fst (kvs ! i))"
    "element_str h (array_obj (addrs b (hash_reply kvs))) (Suc (2 * i)) = Inr (Some t)" "c_str t = c_str (snd (kvs ! i))" by auto
  then show ?case using Suc by (simp add: to_cpp_string_def Cons_nth_drop_Suc [OF i, symmetric] map_prod_def case_prod_beta)
qed simp

text \<open>
  C13. \<^verbatim>\<open>RedisDB::Read\<close> with a list of fields is exact. The server receives \<^verbatim>\<open>HMGET\<close>, the key and the
  fields, of any bytes; when it answers with one reply per field the operation returns \<^verbatim>\<open>kOK\<close> and pairs
  each field with the text of its reply, the empty text for a field that is missing; every object of
  the reply is released and the connection is at rest again.
\<close>

theorem RedisDB_Read_fields:
  assumes "\<And>n. al_ok (re_alloc E) n" and "at_rest d" and "length (command (''HMGET'' # key # flds)) + 10 < 2 ^ 30"
    and "answered d (RArray vs) (length (command (''HMGET'' # key # flds))) rest ws" and "length vs = length flds"
  shows "\<exists>d'. db_Read (RedisDB_DB E) table key (Some flds) d =
      Inr (kOK, zip flds (map (\<lambda>v. case reply_text v of None \<Rightarrow> [] | Some t \<Rightarrow> t) vs), d') \<and>
    at_rest d' \<and> rdb_slaves d' = rdb_slaves d \<and> rh_objs (rdb_heap d') = rh_objs (rdb_heap d) \<and>
    rdb_socket d' = \<lparr>so_reads = rest, so_writes = ws, so_sent = so_sent (rdb_socket d) @ command (''HMGET'' # key # flds)\<rparr>"
proof -
  let ?us = "''HMGET'' # key # flds" and ?h = "rdb_heap d" and ?v = "RArray vs"
  have args: "map arg_bytes (arg_pairs us (Some (map length us))) = us" "list_all arg_ok (arg_pairs us (Some (map length us)))" for us
    by (induction us) (simp_all add: arg_pairs_def arg_bytes_def arg_ok_def)
  from assms(2) have c: "ready (rdb_context d)" and h: "heap_ok ?h" by (simp_all add: at_rest_def)
  from assms(4) obtain pre where so: "so_reads (rdb_socket d) = pre @ rest" "arrives pre (encode ?v)"
    "drain (so_writes (rdb_socket d)) (length (command ?us)) = Some ws" and v: "wf_reply ?v" "depth ?v \<le> 8" "length (encode ?v) + 1024 < 2 ^ 30"
    unfolding answered_def by blast
  from redisCommandArgv_ok [OF assms(1) c args(2,1) assms(3) v h so] obtain c' h' where
    g: "redisCommandArgv (re_alloc E) (re_fn E) (rdb_context d) ?us (Some (map length ?us)) (rdb_socket d) ?h =
      Inr (c', rdb_socket d\<lparr>so_reads := rest, so_writes := ws, so_sent := so_sent (rdb_socket d) @ command ?us\<rparr>, h', rh_next ?h)"
    "ready c'" "rh_next h' = rh_next ?h + nodes ?v" "heap_ok h'" "\<forall>x < rh_next ?h. rh_objs h' x = rh_objs ?h x"
    "rep (rh_objs h') (rh_next ?h) ?v" unfolding re_fn_def by blast
  from released [OF h g(3-6)] obtain h2 where h2: "freeReplyObject (rh_next ?h) h' = Inr h2" "heap_ok h2" "rh_objs h2 = rh_objs ?h" by blast
  let ?r = "array_obj (addrs (Suc (rh_next ?h)) vs)"
  have obj: "reply_object h' (rh_next ?h) = Inr ?r" "ry_type ?r = REDIS_REPLY_ARRAY" "ry_elements ?r = length vs"
    using g(6) by (simp_all add: reply_object_def array_obj_def blank_reply_def)
  have "field_values h' ?r 0 flds = Inr (zip flds (map (\<lambda>v. case reply_text v of None \<Rightarrow> [] | Some t \<Rightarrow> t) vs))"
    using field_values_ok [of h' "Suc (rh_next ?h)" vs 0 flds] g(6) assms(5) by simp
  then show ?thesis using g(1,2) h2 obj heap_ok_next [OF h] assms(5) unfolding RedisDB_DB_def DB.simps Redis_Read_def Let_def
    by (simp add: at_rest_def)
qed


subsection \<open>A connection and a server\<close>

definition sample_env :: redis_env where
  "sample_env = \<lparr>re_alloc = any_memory, re_printf = (\<lambda>_ _. []), re_junk = 0\<rparr>"

text \<open>The server sends one reply; the socket takes 10 bytes, is interrupted, then takes the rest.\<close>

definition sample_socket :: "reply \<Rightarrow> socket" where
  "sample_socket v = \<lparr>so_reads = [RIntr, RBytes (encode v)], so_writes = [WCount 10, WIntr, WCount 1000], so_sent = []\<rparr>"

lemma sample_alloc: "al_ok (re_alloc sample_env) n"
  by (simp add: sample_env_def any_memory_def)

lemma sample_db: "\<exists>d. at_rest d \<and> rdb_slaves d = 0 \<and> rdb_socket d = sample_socket v \<and> rdb_heap d = heap0"
proof -
  obtain c where "ready c" using redisConnectFd_ready [of any_memory 3] by (auto simp: any_memory_def)
  then show ?thesis using heap_ok_heap0
    by (intro exI [of _ "\<lparr>rdb_context = c, rdb_slaves = 0, rdb_socket = sample_socket v, rdb_heap = heap0\<rparr>"]) (simp add: at_rest_def)
qed

lemma sample_answered:
  assumes "rdb_socket d = sample_socket v" "wf_reply v" "depth v \<le> 8" "length (encode v) \<le> 16384" "10 < n" "n \<le> 1010"
  shows "answered d v n [] []"
proof -
  obtain m where m: "n = Suc m" using assms(5) by (cases n) simp_all
  obtain k where k: "n - 10 = Suc k" using assms(5) by (cases "n - 10") simp_all
  have "drain [WCount 10, WIntr, WCount 1000] n = drain [WIntr, WCount 1000] (n - 10)" using m by simp
  also have "\<dots> = Some []" using k assms(6) by simp
  finally show ?thesis using assms(1-4) encode_not_Nil [of v] by (simp add: answered_def sample_socket_def)
qed

lemmas command_size = command_bulks line_def length_to_string

theorem RedisDB_Update_exact_witness:
  "\<exists>d d'. rdb_socket d = sample_socket (RStatus ''OK'') \<and> db_Update (RedisDB_DB sample_env) ''t'' ''k'' [(''f'', ''v'')] d = Inr (kOK, d') \<and>
    so_sent (rdb_socket d') = command [''HMSET'', ''k'', ''f'', ''v'']"
proof -
  obtain d where d: "at_rest d" "rdb_slaves d = 0" "rdb_socket d = sample_socket (RStatus ''OK'')" using sample_db by blast
  have "length (command (''HMSET'' # ''k'' # pair_words [(''f'', ''v'')])) = 36" by (simp add: command_size)
  then have a: "answered d (RStatus ''OK'') (length (command (''HMSET'' # ''k'' # pair_words [(''f'', ''v'')]))) [] []"
    by (intro sample_answered [OF d(3)]) (simp_all add: line_def)
  show ?thesis using RedisDB_Update_exact [OF sample_alloc d(1,2) _ _ _ a] d(3) by (fastforce simp: token_def sample_socket_def)
qed

theorem RedisDB_Update_percent_witness:
  "\<exists>d d'. rdb_socket d = sample_socket (RStatus ''OK'') \<and> db_Update (RedisDB_DB sample_env) ''t'' ''k'' [(''f'', ''%%%%'')] d = Inr (kOK, d') \<and>
    so_sent (rdb_socket d') = command [''HMSET'', ''k'', ''f'', ''%%'']"
proof -
  obtain d where d: "at_rest d" "rdb_slaves d = 0" "rdb_socket d = sample_socket (RStatus ''OK'')" using sample_db by blast
  have "length (command [''HMSET'', ''k'', ''f'', replicate 2 (CHR ''%'')]) = 37" by (simp add: command_size)
  then have a: "answered d (RStatus ''OK'') (length (command [''HMSET'', ''k'', ''f'', replicate 2 (CHR ''%'')])) [] []"
    by (intro sample_answered [OF d(3)]) (simp_all add: line_def)
  have r: "replicate 2 (CHR ''%'') = ''%%''" "replicate (2 * 2) (CHR ''%'') = ''%%%%''" by (simp_all add: numeral_eq_Suc)
  have "\<exists>d'. db_Update (RedisDB_DB sample_env) ''t'' ''k'' [(''f'', replicate (2 * 2) (CHR ''%''))] d = Inr (kOK, d') \<and>
    so_sent (rdb_socket d') = so_sent (rdb_socket d) @ command [''HMSET'', ''k'', ''f'', replicate 2 (CHR ''%'')]"
    by (rule RedisDB_Update_percent [OF sample_alloc d(1,2) _ _ _ _ _ _ a]) (simp_all add: token_def)
  then show ?thesis using d(3) unfolding r by (auto simp: sample_socket_def)
qed

theorem RedisDB_Read_fields_witness:
  "\<exists>d d'. rdb_socket d = sample_socket (RArray [RString ''v'', RNil]) \<and>
    db_Read (RedisDB_DB sample_env) ''t'' ''k'' (Some [''f'', ''g'']) d = Inr (kOK, [(''f'', ''v''), (''g'', [])], d') \<and>
    rh_objs (rdb_heap d') = Map.empty"
proof -
  let ?v = "RArray [RString ''v'', RNil]"
  obtain d where d: "at_rest d" "rdb_socket d = sample_socket ?v" "rdb_heap d = heap0" using sample_db by blast
  have len: "length (command [''HMGET'', ''k'', ''f'', ''g'']) = 36" by (simp add: command_size)
  then have a: "answered d ?v (length (command [''HMGET'', ''k'', ''f'', ''g''])) [] []"
    by (intro sample_answered [OF d(2)]) (simp_all add: line_def length_to_string)
  have "\<exists>d'. db_Read (RedisDB_DB sample_env) ''t'' ''k'' (Some [''f'', ''g'']) d =
      Inr (kOK, zip [''f'', ''g''] (map (\<lambda>v. case reply_text v of None \<Rightarrow> [] | Some t \<Rightarrow> t) [RString ''v'', RNil]), d') \<and>
    at_rest d' \<and> rdb_slaves d' = rdb_slaves d \<and> rh_objs (rdb_heap d') = rh_objs (rdb_heap d) \<and>
    rdb_socket d' = \<lparr>so_reads = [], so_writes = [], so_sent = so_sent (rdb_socket d) @ command [''HMGET'', ''k'', ''f'', ''g'']\<rparr>"
    by (rule RedisDB_Read_fields [OF sample_alloc d(1) _ a]) (simp_all add: len)
  then show ?thesis using d(2,3) by (auto simp: c_str_def heap0_def)
qed


end
