(* ===== verification/Redis_Client_Laws.thy ===== *)
theory Redis_Client_Laws
  imports Redis_Net_Laws Redis_Db_Laws
begin

text \<open>
  From the constructor of \<^verbatim>\<open>RedisClient\<close> down to the system calls: the constructor either ends the
  process or leaves the client in the state that the theorems on commands start from. Two ways in
  which the functions of hiredis that open connections go wrong are shown on concrete runs.
\<close>

lemma redisContextInit_fresh:
  assumes A: "\<And>n. al_ok A n"
  shows "\<exists>c r. redisContextInit A = Inr (Some c) \<and> rc_err c = 0 \<and> rc_flags c = {} \<and> rc_reader c = Some r \<and> rd_reply r = 0 \<and>
    ready (set_block c)"
proof -
  obtain e where e: "sdsempty A = Inr (Some e)" "sds_ok e" "content e = []" using sdsempty_ok [of A] A by (auto simp: yields_def)
  obtain r where r: "redisReaderCreateWithFunctions A = Inr (Some r)" "reader_ok r" "rd_len r = 0"
    "pstate_of r = \<lparr>ps_stack = [], ps_reply = 0, ps_bytes = []\<rparr>" using createReader_ok [of A] A by blast
  then have "idle r" "rd_reply r = 0" by (simp_all add: idle_def started_def pstate_of_def)
  with e r A show ?thesis by (simp add: redisContextInit_def ready_def set_block_def)
qed

lemma redisConnect_returns:
  assumes A: "\<And>n. al_ok A n"
    and r: "os_resolved w = Inr servinfo # rs \<or> (\<exists>e. os_resolved w = Inl e # Inr servinfo # rs)"
    and n: "9 * (length servinfo + 9) \<le> length (os_outcomes w)"
  shows "\<exists>c w' r. redisConnect A N host port w = Inr (Some c, w') \<and> rc_reader c = Some r \<and> rd_reply r = 0 \<and>
    (rc_err c = 0 \<longrightarrow> ready c \<and> CONNECTED \<in> rc_flags c \<and> open_fds w' = rc_fd c # open_fds w \<and> \<not> nonblocking (rc_fd c) w')"
proof -
  obtain c0 r0 where c0: "redisContextInit A = Inr (Some c0)" "rc_err c0 = 0" "rc_flags c0 = {}" "rc_reader c0 = Some r0" "rd_reply r0 = 0"
    "ready (set_block c0)" using redisContextInit_fresh [of A] A by blast
  have "9 * (length servinfo + 9) \<le> outcomes w" using n by (simp add: outcomes_def)
  then obtain c' w' ok where t: "connectTcp A N (set_block c0) (Given host) port Null Null w = Inr (c', w', ok)"
    using connectTcp_returns [of A w servinfo rs N "set_block c0" host port Null] A r by blast
  have flags: "rc_flags (set_block c0) = {BLOCK}" "rc_err (set_block c0) = 0" "rc_reader (set_block c0) = Some r0"
    using c0 by (simp_all add: set_block_def)
  have "REUSEADDR \<notin> rc_flags (set_block c0)" by (simp add: flags)
  note post = connectTcp_post [OF this t]
  have "redisConnect A N host port w = Inr (Some c', w')"
    using c0(1) t by (simp add: redisConnect_def connect_new_def redisContextConnectTcp_def)
  moreover have "rc_reader c' = Some r0" using post flags by (simp add: connect_post_def)
  moreover have "ready c' \<and> CONNECTED \<in> rc_flags c' \<and> open_fds w' = rc_fd c' # open_fds w \<and> \<not> nonblocking (rc_fd c') w'" if "rc_err c' = 0"
  proof -
    have ok using post that by (auto simp: connect_post_def split: if_splits)
    with post flags c0(6) show ?thesis by (simp add: connect_post_def ready_def)
  qed
  ultimately show ?thesis using c0(5) by blast
qed


text \<open>The server of the example answers at its second address.\<close>

definition server_env :: redis_env where
  "server_env = \<lparr>re_alloc = any_memory, re_printf = (\<lambda>f a. []), re_junk = 0\<rparr>"

definition server_os :: os where
  "server_os = \<lparr>os_errno = 0,
     os_outcomes = SysOk 3 # SysOk 2 # SysOk 0 # SysErr EHOSTUNREACH # SysOk 3 # SysOk 2 # SysOk 0 # SysOk 0 # SysOk 2050 # SysOk 0 # SysOk 0 #
       replicate 100 (SysOk 0),
     os_resolved = [Inr [sample_address ''10.0.0.1'', sample_address ''10.0.0.2'']], os_calls = []\<rparr>"

lemma server_answers: "RedisClient_new server_env sample_net ''redis'' 6379 slaves server_os so h \<noteq> Inl (Exit 1)"
proof -
  obtain c where c: "redisContextInit any_memory = Inr (Some c)" "rc_err c = 0" "rc_flags c = {}"
    using redisContextInit_fresh [of any_memory] by (auto simp: any_memory_def)
  then show ?thesis
    by (simp add: RedisClient_new_def redisConnect_def connect_new_def redisContextConnectTcp_def set_block_def net_eval server_env_def
        server_os_def sample_address_def any_memory_def EHOSTUNREACH_def Let_def)
qed


subsection \<open>Two defects\<close>

text \<open>A reconnection closes the old descriptor but keeps its number in the context; when the host cannot be
  resolved, \<^verbatim>\<open>redisFree\<close> closes that number a second time.\<close>

lemma redisReconnect_closes_twice:
  assumes A: "\<And>n. al_ok A n" and c: "0 < rc_fd c" "rc_connection_type c = CONN_TCP" "rc_reader c = Some r" "rd_reply r = 0"
    and "rc_host c \<noteq> None" and w: "os_resolved w = Inl e1 # Inl e2 # rs"
  shows "\<exists>c' w'. redisReconnect A E fn c w h = Inr (c', w', h, False) \<and> (SysClose (rc_fd c), 0) \<in> set (os_calls w') \<and>
    redisFree fn (Some c') h = Inr ([rc_fd c], h)"
proof -
  obtain s where s: "sdsempty A = Inr (Some s)" using sdsempty_ok [of A] A by (auto simp: yields_def)
  obtain r' where r': "redisReaderCreateWithFunctions A = Inr (Some r')" "rd_reply r' = 0"
    using createReader_ok [of A] A by (auto simp: pstate_of_def)
  have free: "rd_reply q = 0 \<Longrightarrow> redisReaderFree fn q h = Inr h" for q by (simp add: redisReaderFree_def split: option.splits)
  obtain host where "rc_host c = Some host" using assms(6) by blast
  with s r' free c w show ?thesis
    by (cases "rc_timeout c"; cases "rc_source_addr c")
      (simp_all add: redisReconnect_def redisContextConnectBindTcp_def connectTcp_def own_def keep_name_def keep_timeout_def
        keep_source_def resolve_def getaddrinfo_def sys_close_def fail_open_def redisFree_def Let_def)
qed

text \<open>When \<^verbatim>\<open>SO_REUSEADDR\<close> cannot be set, the context that is returned has no error although it is not
  connected, and one of the two address lists is never released.\<close>

lemma reuse_failure_unreported:
  "\<exists>c w. redisConnectBindNonBlockWithReuse any_memory sample_net ''redis'' 6379 ''10.0.0.9''
     \<lparr>os_errno = 0, os_outcomes = [SysOk 3, SysOk 2, SysOk 0, SysErr 95],
      os_resolved = [Inr [sample_address ''10.0.0.1''], Inr [sample_address ''10.0.0.9'']], os_calls = []\<rparr> = Inr (Some c, w) \<and>
   rc_err c = 0 \<and> CONNECTED \<notin> rc_flags c \<and> length (filter (\<lambda>(call, _). call = Freeaddrinfo) (os_calls w)) = 1"
proof -
  obtain c where c: "redisContextInit any_memory = Inr (Some c)" "rc_err c = 0" "rc_flags c = {}"
    using redisContextInit_fresh [of any_memory] by (auto simp: any_memory_def)
  then show ?thesis
    by (simp add: redisConnectBindNonBlockWithReuse_def connect_untested_def redisContextConnectBindTcp_def set_reuse_def clear_block_def
        net_eval sample_address_def sample_net_def any_memory_def fail_close_def Let_def)
qed

end
