(* ===== verification/Sds_Self_Test.thy ===== *)
theory Sds_Self_Test
  imports Sds_Args
begin

text \<open>
  The test program at the end of \<^verbatim>\<open>redis/hiredis/sds.c\<close> (\<^verbatim>\<open>SDS_TEST_MAIN\<close>): the calls in their order, with each
  condition it checks. \<^verbatim>\<open>sdscatprintf\<close> gets the text that \<^verbatim>\<open>vsnprintf\<close> makes of its format.
\<close>

definition with_sds :: "sds option result \<Rightarrow> (sds \<Rightarrow> 'a result) \<Rightarrow> 'a result" where
  "with_sds r f = rbind r (\<lambda>s. case s of None \<Rightarrow> Inl InvalidAccess | Some x \<Rightarrow> f x)"

definition mem_is :: "sds \<Rightarrow> string \<Rightarrow> bool" where
  "mem_is x t = (take (length t) (sd_buf x) = t)"

definition test_building :: "allocator \<Rightarrow> bool list result" where
  "test_building A =
     with_sds (sdsnew A (Some ''foo'')) (\<lambda>x1.
     with_sds (sdsnewlen A (Some ''foo'') 2) (\<lambda>x2.
     with_sds (sdscat A x2 ''bar'') (\<lambda>x3.
     with_sds (sdscpy A x3 ''a'') (\<lambda>x4.
     with_sds (sdscpy A x4 ''xyzxxxxxxxxxxyyyyyyyyyykkkkkkkkkk'') (\<lambda>x5.
     with_sds (sdsempty A) (\<lambda>e.
     with_sds (sdscatprintf A e ''123'') (\<lambda>x6.
     Inr [sdslen x1 = 3 \<and> mem_is x1 (''foo'' @ [NUL]), sdslen x2 = 2 \<and> mem_is x2 (''fo'' @ [NUL]),
          sdslen x3 = 5 \<and> mem_is x3 (''fobar'' @ [NUL]), sdslen x4 = 1 \<and> mem_is x4 (''a'' @ [NUL]),
          sdslen x5 = 33 \<and> mem_is x5 (''xyzxxxxxxxxxxyyyyyyyyyykkkkkkkkkk'' @ [NUL]),
          sdslen x6 = 3 \<and> mem_is x6 (''123'' @ [NUL])])))))))"

definition test_range :: "allocator \<Rightarrow> sds \<Rightarrow> int \<Rightarrow> int \<Rightarrow> string \<Rightarrow> bool result" where
  "test_range A x start end' expected =
     with_sds (sdsdup A x) (\<lambda>y.
     rbind (sdsrange y start end') (\<lambda>y'.
     Inr (sdslen y' = length expected \<and> mem_is y' (expected @ [NUL]))))"

definition test_ranges :: "allocator \<Rightarrow> bool list result" where
  "test_ranges A =
     with_sds (sdsnew A (Some ''xxciaoyyy'')) (\<lambda>x0.
     rbind (sdstrim x0 ''xy'') (\<lambda>x.
     rbind (test_range A x 1 1 ''i'') (\<lambda>t1.
     rbind (test_range A x 1 (- 1) ''iao'') (\<lambda>t2.
     rbind (test_range A x (- 2) (- 1) ''ao'') (\<lambda>t3.
     rbind (test_range A x 2 1 '''') (\<lambda>t4.
     rbind (test_range A x 1 100 ''iao'') (\<lambda>t5.
     rbind (test_range A x 100 100 '''') (\<lambda>t6.
     Inr [sdslen x = 4 \<and> mem_is x (''ciao'' @ [NUL]), t1, t2, t3, t4, t5, t6]))))))))"

definition test_cmp :: "allocator \<Rightarrow> string \<Rightarrow> string \<Rightarrow> int result" where
  "test_cmp A s t = with_sds (sdsnew A (Some s)) (\<lambda>x. with_sds (sdsnew A (Some t)) (\<lambda>y. Inr (sdscmp x y)))"

definition test_others :: "allocator \<Rightarrow> bool list result" where
  "test_others A =
     rbind (test_cmp A ''foo'' ''foa'') (\<lambda>c1.
     rbind (test_cmp A ''bar'' ''bar'') (\<lambda>c2.
     rbind (test_cmp A ''aar'' ''bar'') (\<lambda>c3.
     with_sds (sdsnewlen A (Some ([CHR 0x07, CHR 0x0A, NUL] @ ''foo'' @ [CHR 0x0D])) 7) (\<lambda>x.
     with_sds (sdsempty A) (\<lambda>e.
     with_sds (sdscatrepr A e (content x)) (\<lambda>y.
     Inr [0 < c1, c2 = 0, c3 < 0,
          mem_is y ([CHR 0x22, CHR 0x5C] @ ''a'' @ [CHR 0x5C] @ ''n'' @ [CHR 0x5C] @ ''x00foo'' @ [CHR 0x5C] @ ''r'' @ [CHR 0x22])]))))))"

definition test_room :: "allocator \<Rightarrow> bool list result" where
  "test_room A =
     with_sds (sdsnew A (Some ''0'')) (\<lambda>x1.
     with_sds (sdsMakeRoomFor A x1 1) (\<lambda>x2.
     rbind (poke (sd_buf x2) 1 ''1'') (\<lambda>b.
     rbind (sdsIncrLen (x2\<lparr>sd_buf := b\<rparr>) 1) (\<lambda>x3.
     Inr [sd_len x1 = 1 \<and> sd_free x1 = 0, sd_len x2 = 1 \<and> 0 < sd_free x2, take 2 (sd_buf x3) = ''01'', sd_len x3 = 2,
          sd_free x3 = sd_free x2 - 1]))))"

definition sds_test_main :: "allocator \<Rightarrow> bool list result" where
  "sds_test_main A =
     rbind (test_building A) (\<lambda>t1. rbind (test_ranges A) (\<lambda>t2. rbind (test_others A) (\<lambda>t3. rbind (test_room A) (\<lambda>t4.
     Inr (t1 @ t2 @ t3 @ t4)))))"

lemmas sds_eval = any_memory_def sdsnew_def sdsnewlen_def sdsempty_def sdsdup_def sdscat_def sdscatlen_def sdscpy_def sdscpylen_def
  sdsMakeRoomFor_def sdsavail_def sdslen_def sdsIncrLen_def if_room_def with_sds_def mem_is_def poke_def peek_def resize_def
  c_str_def to_int_def content_def sdscatprintf_def sdscatvprintf_def vprintf_loop.simps

lemma char_of_48 [simp]: "char_of (48 :: nat) = CHR ''0''"
  by code_simp

lemma test_building_passes: "test_building any_memory = Inr [True, True, True, True, True, True]"
  by (simp add: test_building_def sds_eval)

lemma test_ranges_passes: "test_ranges any_memory = Inr [True, True, True, True, True, True, True]"
  by code_simp

lemma test_others_passes: "test_others any_memory = Inr [True, True, True, True]"
  by (simp add: test_others_def sds_eval test_cmp_def sdscmp_def sdscatrepr_def and_then_def repr_step_def isprint_def hex2_def hex_char_def)

lemma test_room_passes: "test_room any_memory = Inr [True, True, True, True, True]"
  by (simp add: test_room_def sds_eval)

text \<open>All 22 conditions of the test program hold.\<close>

theorem sds_test_main_passes: "sds_test_main any_memory = Inr (replicate 22 True)"
  by (simp add: sds_test_main_def test_building_passes test_ranges_passes test_others_passes test_room_passes eval_nat_numeral)

end
