(* ===== verification/Redis_Format_Ref.thy ===== *)
theory Redis_Format_Ref
  imports Redis_Format_Laws Sds_Args
begin

text \<open>
  A specification of the printf-like formatter of \<^verbatim>\<open>redis/hiredis/hiredis.c\<close> on plain strings: which arguments a
  format and its values stand for. The formatter, with its growing buffers and its length
  computed beforehand, implements it for every format.
\<close>

subsection \<open>The arguments a format stands for\<close>

text \<open>A malformed conversion gives \<open>FBad\<close>; values that do not fit the conversions give \<open>FStuck\<close>. Both \<open>FWords\<close> and
  \<open>FBad\<close> hold the arguments so far.\<close>

datatype fmt_ref = FWords "string list" | FBad "string list" | FStuck

definition ref_conv :: "(string \<Rightarrow> vararg list \<Rightarrow> string) \<Rightarrow> string \<Rightarrow> vararg list \<Rightarrow> (nat \<times> string \<times> vararg list) option option" where
  "ref_conv pf c ap =
     (case scan_conv c of
        None \<Rightarrow> None
      | Some (k, n) \<Rightarrow>
          Some (case va_take k ap of
                  Inl e \<Rightarrow> None
                | Inr ap' \<Rightarrow>
                    (let out = pf (CHR ''%'' # take n c) ap in
                     if Suc n < 14 \<and> n \<le> length c \<and> NUL \<notin> set out then Some (n, out, ap') else None)))"

lemma ref_conv_pos: "ref_conv pf c ap = Some (Some (n, out, ap')) \<Longrightarrow> 0 < n"
  by (auto simp: ref_conv_def Let_def split: option.splits sum.splits if_splits dest: scan_conv_pos)

function ref_loop :: "(string \<Rightarrow> vararg list \<Rightarrow> string) \<Rightarrow> string \<Rightarrow> vararg list \<Rightarrow> string list \<Rightarrow> string \<Rightarrow> bool \<Rightarrow> fmt_ref" where
  "ref_loop pf [] ap done' cur touched = FWords (done' @ (if touched then [cur] else []))"
| "ref_loop pf (ch # c) ap done' cur touched =
     (if ch \<noteq> CHR ''%'' \<or> c = [] then
        (if ch \<noteq> CHR '' '' then ref_loop pf c ap done' (cur @ [ch]) True
         else if touched then ref_loop pf c ap (done' @ [cur]) [] False
         else ref_loop pf c ap done' cur False)
      else if hd c = CHR ''s'' then
        (case ap of VStr t # ap' \<Rightarrow> ref_loop pf (tl c) ap' done' (cur @ c_str t) True | _ \<Rightarrow> FStuck)
      else if hd c = CHR ''b'' then
        (case ap of
           VStr t # VSize n # ap' \<Rightarrow> if n \<le> length t then ref_loop pf (tl c) ap' done' (cur @ take n t) True else FStuck
         | _ \<Rightarrow> FStuck)
      else if hd c = CHR ''%'' then ref_loop pf (tl c) ap done' (cur @ ''%'') True
      else
        (case ref_conv pf c ap of
           None \<Rightarrow> FBad (done' @ [cur])
         | Some None \<Rightarrow> FStuck
         | Some (Some (n, out, ap')) \<Rightarrow> ref_loop pf (drop n c) ap' done' (cur @ out) True))"
  by pat_completeness auto
termination
  by (relation "measure (\<lambda>(pf, c, ap, done', cur, touched). length c)") (auto dest!: ref_conv_pos)

declare ref_loop.simps [simp del]

definition ref_format :: "(string \<Rightarrow> vararg list \<Rightarrow> string) \<Rightarrow> string \<Rightarrow> vararg list \<Rightarrow> fmt_ref" where
  "ref_format pf format ap = ref_loop pf format ap [] [] False"

definition ref_size :: "fmt_ref \<Rightarrow> nat" where
  "ref_size r = (case r of FWords ws \<Rightarrow> length (bulks ws) | FBad ws \<Rightarrow> length (bulks ws) | FStuck \<Rightarrow> 0)"

lemma ref_grows:
  "ref_loop pf c ap done' cur touched \<noteq> FStuck \<Longrightarrow> touched \<or> cur = [] \<Longrightarrow>
   length (bulks done') + length cur \<le> ref_size (ref_loop pf c ap done' cur touched)"
proof (induction pf c ap done' cur touched rule: ref_loop.induct)
  case (1 pf ap done' cur touched)
  then show ?case by (auto simp: ref_loop.simps ref_size_def line_def)
next
  case (2 pf ch c ap done' cur touched)
  note eq = ref_loop.simps(2) [of pf ch c ap done' cur touched]
  consider (char) "ch \<noteq> CHR ''%'' \<or> c = []" "ch \<noteq> CHR '' ''" | (blank) "ch = CHR '' ''"
    | (str) "ch = CHR ''%''" "c \<noteq> []" "hd c = CHR ''s''" | (bin) "ch = CHR ''%''" "c \<noteq> []" "hd c = CHR ''b''"
    | (pct) "ch = CHR ''%''" "c \<noteq> []" "hd c = CHR ''%''"
    | (conv) "ch = CHR ''%''" "c \<noteq> []" "hd c \<noteq> CHR ''s''" "hd c \<noteq> CHR ''b''" "hd c \<noteq> CHR ''%''" by blast
  then show ?case
  proof cases
    case char
    with "2.IH"(1) "2.prems" show ?thesis unfolding eq by auto
  next
    case blank
    with "2.IH"(2,3) "2.prems" show ?thesis unfolding eq by (cases touched) (auto simp: line_def)
  next
    case str
    with "2.prems"(1) obtain t ap' where "ap = VStr t # ap'" unfolding eq by (auto split: list.splits vararg.splits)
    with str "2.IH"(4) "2.prems" show ?thesis unfolding eq by auto
  next
    case bin
    with "2.prems"(1) obtain t n ap' where "ap = VStr t # VSize n # ap'" "n \<le> length t"
      unfolding eq by (auto split: list.splits vararg.splits if_splits)
    with bin "2.IH"(5) [of "VStr t" "VSize n # ap'" t "VSize n" ap' n] "2.prems" show ?thesis unfolding eq by auto
  next
    case pct
    with "2.IH"(6) "2.prems" show ?thesis unfolding eq by auto
  next
    case conv
    show ?thesis
    proof (cases "ref_conv pf c ap")
      case None
      with conv show ?thesis unfolding eq by (simp add: ref_size_def line_def)
    next
      case (Some r)
      with conv "2.prems"(1) obtain n out ap' where "r = Some (n, out, ap')" unfolding eq by (auto split: option.splits)
      with conv Some "2.IH"(7) [of r "(n, out, ap')" n "(out, ap')" out ap'] "2.prems" show ?thesis unfolding eq by auto
    qed
  qed
qed

subsection \<open>The formatter implements the specification\<close>

definition fmt_inv :: "fmt_state \<Rightarrow> bool" where
  "fmt_inv st \<longleftrightarrow> sds_ok (f_cur st) \<and> list_all sds_ok (f_args st) \<and> (\<not> f_touched st \<longrightarrow> content (f_cur st) = []) \<and>
     f_totlen st = int (length (bulks (map content (f_args st))))"

text \<open>The specification from a state of the formatter on.\<close>

definition ref_from :: "(string \<Rightarrow> vararg list \<Rightarrow> string) \<Rightarrow> string \<Rightarrow> vararg list \<Rightarrow> fmt_state \<Rightarrow> fmt_ref" where
  "ref_from pf c ap st = ref_loop pf c ap (map content (f_args st)) (content (f_cur st)) (f_touched st)"

definition meets :: "fmt_end result \<Rightarrow> fmt_ref \<Rightarrow> bool" where
  "meets r R \<longleftrightarrow>
     (case R of
        FWords ws \<Rightarrow> (\<exists>st. r = Inr (Formatted st) \<and> fmt_inv st \<and> all_words st = ws)
      | FBad ws \<Rightarrow> r = Inr FormatErr
      | FStuck \<Rightarrow> True)"

lemma fmt_inv_size:
  assumes "fmt_inv st" "ref_from pf c ap st \<noteq> FStuck"
  shows "length (bulks (map content (f_args st))) + sdslen (f_cur st) \<le> ref_size (ref_from pf c ap st)"
  using ref_grows [of pf c ap "map content (f_args st)" "content (f_cur st)" "f_touched st"] assms length_content [of "f_cur st"]
  by (auto simp: ref_from_def fmt_inv_def)

text \<open>An append, and the end of an argument.\<close>

lemma append_step:
  assumes y: "sdslen (f_cur st) + length t < 2 ^ 30 \<Longrightarrow> yields m (content (f_cur st) @ t)" and inv: "fmt_inv st"
    and R: "R = ref_loop pf c ap (map content (f_args st)) (content (f_cur st) @ t) True" "R \<noteq> FStuck" "ref_size R < 2 ^ 30"
    and k: "\<And>st1. fmt_inv st1 \<Longrightarrow> ref_from pf c ap st1 = R \<Longrightarrow> meets (k st1) R"
  shows "meets (with_arg m st k) R"
proof -
  have "sdslen (f_cur st) + length t < 2 ^ 30"
    using ref_grows [of pf c ap "map content (f_args st)" "content (f_cur st) @ t" True] R inv length_content [of "f_cur st"]
    by (simp add: fmt_inv_def)
  with y obtain s where s: "m = Inr (Some s)" "sds_ok s" "content s = content (f_cur st) @ t" by (auto simp: yields_def)
  have "fmt_inv (st\<lparr>f_cur := s, f_touched := True\<rparr>)" using inv s by (simp add: fmt_inv_def)
  with k [of "st\<lparr>f_cur := s, f_touched := True\<rparr>"] s R(1) show ?thesis by (simp add: with_arg_def ref_from_def)
qed

lemma push_inv:
  assumes A: "\<And>n. al_ok A n" and inv: "fmt_inv st" and small: "length (bulks (map content (f_args st) @ [content (f_cur st)])) < 2 ^ 30"
  shows "\<exists>st1. push_arg A st = Some st1 \<and> f_args st1 = f_args st @ [f_cur st] \<and>
    f_totlen st1 = int (length (bulks (map content (f_args st1))))"
proof -
  have len: "sdslen (f_cur st) = length (content (f_cur st))" using inv by (simp add: fmt_inv_def length_content)
  have "add_int (int (length (bulks (map content (f_args st))))) (bulklen (sdslen (f_cur st))) =
      int (length (bulks (map content (f_args st))) + bulklen (sdslen (f_cur st)))"
    using small by (intro add_int_small) (simp add: len bulklen_encode del: encode.simps)
  then show ?thesis using A inv by (simp add: push_arg_def fmt_inv_def len bulklen_encode del: encode.simps)
qed

lemma fresh_arg:
  assumes A: "\<And>n. al_ok A n"
  shows "\<exists>s. sdsempty A = Inr (Some s) \<and> sds_ok s \<and> content s = []"
  using sdsempty_ok [of A] A by (auto simp: yields_def)

lemma format_loop_meets:
  assumes A: "\<And>n. al_ok A n"
  shows "fmt_inv st \<Longrightarrow> ref_from pf c ap st \<noteq> FStuck \<Longrightarrow> ref_size (ref_from pf c ap st) < 2 ^ 30 \<Longrightarrow>
    meets (format_loop A pf c ap st) (ref_from pf c ap st)"
proof (induction "length c" arbitrary: c ap st rule: less_induct)
  case less
  show ?case
  proof (cases c)
    case Nil
    with less.prems(1) show ?thesis by (auto simp: ref_from_def ref_loop.simps(1) meets_def all_words_def)
  next
    case (Cons ch c')
    let ?as = "map content (f_args st)" and ?cur = "content (f_cur st)"
    have ok: "sds_ok (f_cur st)" using less.prems(1) by (simp add: fmt_inv_def)
    have ref: "ref_from pf c ap st = ref_loop pf (ch # c') ap ?as ?cur (f_touched st)" by (simp add: Cons ref_from_def)
    note eq = ref_loop.simps(2) [of pf ch c' ap ?as ?cur "f_touched st"]
    have rest: "meets (format_loop A pf d ap' st1) (ref_from pf c ap st)"
      if "length d < length c" "fmt_inv st1" "ref_from pf d ap' st1 = ref_from pf c ap st" for d ap' st1
      using less.hyps [OF that(1,2), of ap'] less.prems(2,3) unfolding that(3) by blast
    have app: "meets (with_arg m st (format_loop A pf d ap')) (ref_from pf c ap st)"
      if "length d < length c" "sdslen (f_cur st) + length t < 2 ^ 30 \<Longrightarrow> yields m (?cur @ t)"
        "ref_from pf c ap st = ref_loop pf d ap' ?as (?cur @ t) True" for m d ap' t
      by (rule append_step [OF that(2) less.prems(1) that(3) less.prems(2,3)], assumption) (rule rest [OF that(1)])
    consider (char) "ch \<noteq> CHR ''%'' \<or> c' = []" "ch \<noteq> CHR '' ''" | (blank) "ch = CHR '' ''"
      | (str) "ch = CHR ''%''" "c' \<noteq> []" "hd c' = CHR ''s''" | (bin) "ch = CHR ''%''" "c' \<noteq> []" "hd c' = CHR ''b''"
      | (pct) "ch = CHR ''%''" "c' \<noteq> []" "hd c' = CHR ''%''"
      | (conv) "ch = CHR ''%''" "c' \<noteq> []" "hd c' \<noteq> CHR ''s''" "hd c' \<noteq> CHR ''b''" "hd c' \<noteq> CHR ''%''" by blast
    then show ?thesis
    proof cases
      case char
      have "format_loop A pf c ap st = with_arg (sdscatlen A (f_cur st) [ch] 1) st (format_loop A pf c' ap)" using Cons char by simp
      moreover have "ref_from pf c ap st = ref_loop pf c' ap ?as (?cur @ [ch]) True" using ref eq char by simp
      ultimately show ?thesis using app [of c' "[ch]"] sdscatlen_ok [OF ok, of 1 "[ch]" A] A Cons by simp
    next
      case blank
      show ?thesis
      proof (cases "f_touched st")
        case False
        have "format_loop A pf c ap st = format_loop A pf c' ap st" using Cons blank False by simp
        moreover have "ref_from pf c' ap st = ref_from pf c ap st" using ref eq blank False by (simp add: ref_from_def)
        ultimately show ?thesis using rest [of c' st ap] less.prems(1) Cons by simp
      next
        case True
        have r: "ref_from pf c ap st = ref_loop pf c' ap (?as @ [?cur]) [] False" using ref eq blank True by simp
        from ref_grows [of pf c' ap "?as @ [?cur]" "[]" False] less.prems(2,3) have "length (bulks (?as @ [?cur])) < 2 ^ 30"
          unfolding r by simp
        from push_inv [OF A less.prems(1) this] obtain st1 where
          1: "push_arg A st = Some st1" "f_args st1 = f_args st @ [f_cur st]" "f_totlen st1 = int (length (bulks (map content (f_args st1))))"
          by blast
        obtain e where e: "sdsempty A = Inr (Some e)" "sds_ok e" "content e = []" using fresh_arg [OF A] by blast
        let ?st = "st1\<lparr>f_cur := e, f_touched := False\<rparr>"
        have "fmt_inv ?st" using less.prems(1) 1 e ok by (simp add: fmt_inv_def)
        moreover have "ref_from pf c' ap ?st = ref_from pf c ap st" using r 1(2) e(3) by (simp add: ref_from_def)
        moreover have "format_loop A pf c ap st = format_loop A pf c' ap ?st" using Cons blank True 1(1) e(1) by simp
        ultimately show ?thesis using rest [of c' ?st ap] Cons by simp
      qed
    next
      case str
      then obtain t ap' where ap: "ap = VStr t # ap'" using ref eq less.prems(2) by (auto split: list.splits vararg.splits)
      have "format_loop A pf c ap st = with_arg (if c_str t \<noteq> [] then sdscatlen A (f_cur st) t (length (c_str t)) else Inr (Some (f_cur st))) st
          (format_loop A pf (tl c') ap')" using Cons str ap by simp
      moreover have "ref_from pf c ap st = ref_loop pf (tl c') ap' ?as (?cur @ c_str t) True" using ref eq str ap by simp
      moreover have "yields (if c_str t \<noteq> [] then sdscatlen A (f_cur st) t (length (c_str t)) else Inr (Some (f_cur st))) (?cur @ c_str t)"
        if "sdslen (f_cur st) + length (c_str t) < 2 ^ 30" using sdscat_ok [OF ok that, of A] A ok by (simp add: sdscat_def yields_def)
      ultimately show ?thesis using app [of "tl c'" "c_str t"] Cons by simp
    next
      case bin
      then obtain t n ap' where ap: "ap = VStr t # VSize n # ap'" "n \<le> length t"
        using ref eq less.prems(2) by (auto split: list.splits vararg.splits if_splits)
      have "format_loop A pf c ap st = with_arg (if 0 < n then sdscatlen A (f_cur st) t n else Inr (Some (f_cur st))) st
          (format_loop A pf (tl c') ap')" using Cons bin ap by simp
      moreover have "ref_from pf c ap st = ref_loop pf (tl c') ap' ?as (?cur @ take n t) True" using ref eq bin ap by simp
      moreover have "yields (if 0 < n then sdscatlen A (f_cur st) t n else Inr (Some (f_cur st))) (?cur @ take n t)"
        if "sdslen (f_cur st) + length (take n t) < 2 ^ 30"
        using sdscatlen_ok [OF ok ap(2), of A] that ap(2) A ok by (simp add: yields_def)
      ultimately show ?thesis using app [of "tl c'" "take n t"] Cons by simp
    next
      case pct
      have "format_loop A pf c ap st = with_arg (sdscat A (f_cur st) ''%'') st (format_loop A pf (tl c') ap)" using Cons pct by simp
      moreover have "ref_from pf c ap st = ref_loop pf (tl c') ap ?as (?cur @ ''%'') True" using ref eq pct by simp
      moreover have "c_str ''%'' = ''%''" by (simp add: c_str_def)
      ultimately show ?thesis using app [of "tl c'" "''%''"] sdscat_ok [OF ok, of "''%''" A] A Cons by simp
    next
      case conv
      show ?thesis
      proof (cases "scan_conv c'")
        case None
        have "format_loop A pf c ap st = Inr FormatErr" using Cons conv None by simp
        moreover have "ref_from pf c ap st = FBad (?as @ [?cur])" using ref eq conv None by (simp add: ref_conv_def)
        ultimately show ?thesis by (simp add: meets_def)
      next
        case (Some kn)
        then obtain k n where kn: "scan_conv c' = Some (k, n)" by (cases kn) auto
        let ?out = "pf (CHR ''%'' # take n c') ap"
        from kn conv ref eq less.prems(2) obtain ap' where
          ap: "va_take k ap = Inr ap'" "Suc n < 14" "n \<le> length c'" "NUL \<notin> set ?out"
          by (auto simp: ref_conv_def Let_def split: sum.splits if_splits)
        have "with_arg m st (\<lambda>st1. if length c' < n then Inl InvalidAccess else format_loop A pf (drop n c') ap' st1) =
            with_arg m st (format_loop A pf (drop n c') ap')" for m using ap(3) by (simp add: not_less [symmetric])
        then have "format_loop A pf c ap st = with_arg (sdscatvprintf A (f_cur st) ?out) st (format_loop A pf (drop n c') ap')"
          using Cons conv kn ap(1,2) by simp
        moreover have "ref_from pf c ap st = ref_loop pf (drop n c') ap' ?as (?cur @ ?out) True"
          using ref eq conv kn ap by (simp add: ref_conv_def)
        moreover have "length (drop n c') < length c" using Cons by simp
        moreover have "yields (sdscatvprintf A (f_cur st) ?out) (?cur @ ?out)" if "sdslen (f_cur st) + length ?out < 2 ^ 30"
          using sdscatprintf_ok [OF A ap(4) ok that] by (simp add: sdscatprintf_def)
        ultimately show ?thesis using app by simp
      qed
    qed
  qed
qed

lemma finish_meets:
  assumes A: "\<And>n. al_ok A n" and e: "sdsempty A = Inr (Some e)"
    and st: "format_loop A pf format ap \<lparr>f_cur = e, f_touched = False, f_args = [], f_totlen = 0\<rparr> = Inr (Formatted st)"
      "fmt_inv st" "length (bulks (all_words st)) < 2 ^ 30"
  shows "redisvFormatCommand A pf format ap = Inr (int (length (command (all_words st))), command (all_words st) @ [NUL])"
proof -
  have "\<exists>st1. (if f_touched st then push_arg A st else Some st) = Some st1 \<and> map content (f_args st1) = all_words st \<and>
    list_all sds_ok (f_args st1) \<and> f_totlen st1 = int (length (bulks (map content (f_args st1))))"
  proof (cases "f_touched st")
    case True
    then have "length (bulks (map content (f_args st) @ [content (f_cur st)])) < 2 ^ 30" using st(3) by (simp add: all_words_def)
    from push_inv [OF A st(2) this] obtain st1 where
      1: "push_arg A st = Some st1" "f_args st1 = f_args st @ [f_cur st]" "f_totlen st1 = int (length (bulks (map content (f_args st1))))"
      by blast
    moreover have "list_all sds_ok (f_args st1)" "map content (f_args st1) = all_words st"
      using st(2) 1(2) True by (simp_all add: fmt_inv_def all_words_def)
    ultimately show ?thesis using True by metis
  next
    case False
    then show ?thesis using st(2) by (auto simp: all_words_def fmt_inv_def)
  qed
  then obtain st1 where 1: "(if f_touched st then push_arg A st else Some st) = Some st1" "map content (f_args st1) = all_words st"
    "list_all sds_ok (f_args st1)" "f_totlen st1 = int (length (bulks (map content (f_args st1))))" by blast
  have "length (bulks (map content (f_args st1))) < 2 ^ 30" using st(3) 1(2) by simp
  note emit = emit_sds_args [OF A 1(3) this]
  show ?thesis unfolding redisvFormatCommand_def e rbind_simps option.case st(1) fmt_end.case 1(1,4)
    unfolding emit using 1(2) by simp
qed

lemma redisvFormatCommand_meets:
  assumes A: "\<And>n. al_ok A n" and "ref_size (ref_format pf format ap) < 2 ^ 30"
  shows "ref_format pf format ap = FWords ws \<Longrightarrow> redisvFormatCommand A pf format ap = Inr (int (length (command ws)), command ws @ [NUL])"
    "ref_format pf format ap = FBad ws \<Longrightarrow> redisvFormatCommand A pf format ap = Inr (- 2, [])"
proof -
  obtain e where e: "sdsempty A = Inr (Some e)" "sds_ok e" "content e = []" using fresh_arg [OF A] by blast
  let ?st = "\<lparr>f_cur = e, f_touched = False, f_args = [], f_totlen = 0\<rparr>"
  have inv: "fmt_inv ?st" and ref: "ref_from pf format ap ?st = ref_format pf format ap"
    using e by (simp_all add: fmt_inv_def ref_from_def ref_format_def)
  have m: "ref_format pf format ap \<noteq> FStuck \<Longrightarrow> meets (format_loop A pf format ap ?st) (ref_format pf format ap)"
    using format_loop_meets [OF A inv, of pf format ap] assms(2) unfolding ref by simp
  show "redisvFormatCommand A pf format ap = Inr (int (length (command ws)), command ws @ [NUL])" if w: "ref_format pf format ap = FWords ws"
  proof -
    from m w obtain st where "format_loop A pf format ap ?st = Inr (Formatted st)" "fmt_inv st" "all_words st = ws"
      by (auto simp: meets_def)
    with finish_meets [OF A e(1), of pf format ap st] assms(2) w show ?thesis by (simp add: ref_size_def)
  qed
  show "redisvFormatCommand A pf format ap = Inr (- 2, [])" if "ref_format pf format ap = FBad ws"
    using m that e(1) by (simp add: meets_def redisvFormatCommand_def)
qed



end
