(* ===== verification/Redis_Self_Test.thy ===== *)
theory Redis_Self_Test
  imports Redis_Format_Ref "HOL-Library.Code_Target_Nat"
begin

text \<open>
  The parts of the test program of hiredis (\<^verbatim>\<open>redis/hiredis/test.c\<close>) that need no server: the calls in their
  order with the conditions they check, run on the model.
\<close>

subsection \<open>Formats\<close>

text \<open>\<^verbatim>\<open>strncmp\<close> with 0 as its result.\<close>

definition strncmp_eq :: "string \<Rightarrow> string \<Rightarrow> nat \<Rightarrow> bool" where
  "strncmp_eq s t n = (c_str (take n s) = c_str (take n t))"

definition lines :: "string list \<Rightarrow> string" where
  "lines ls = concat (map (\<lambda>l. l @ [CR, LF]) ls)"

definition format_case ::
  "allocator \<Rightarrow> (string \<Rightarrow> vararg list \<Rightarrow> string) \<Rightarrow> string \<times> vararg list \<times> string list \<times> int \<Rightarrow> bool" where
  "format_case A pf t =
     (case t of (format, ap, expected, tot) \<Rightarrow>
        (case redisFormatCommand A pf format ap of
           Inl e \<Rightarrow> False
         | Inr (len, cmd) \<Rightarrow> strncmp_eq cmd (lines expected) (nat len) \<and> len = tot))"

definition interpolation_cases :: "(string \<times> vararg list \<times> string list \<times> int) list" where
  "interpolation_cases =
     [(''SET foo bar'', [], [''*3'', ''$3'', ''SET'', ''$3'', ''foo'', ''$3'', ''bar''], 4+4+(3+2)+4+(3+2)+4+(3+2)),
      (''SET %s %s'', [VStr ''foo'', VStr ''bar''], [''*3'', ''$3'', ''SET'', ''$3'', ''foo'', ''$3'', ''bar''], 4+4+(3+2)+4+(3+2)+4+(3+2)),
      (''SET %s %s'', [VStr ''foo'', VStr ''''], [''*3'', ''$3'', ''SET'', ''$3'', ''foo'', ''$0'', ''''], 4+4+(3+2)+4+(3+2)+4+(0+2)),
      (''SET %s %s'', [VStr '''', VStr ''foo''], [''*3'', ''$3'', ''SET'', ''$0'', '''', ''$3'', ''foo''], 4+4+(3+2)+4+(0+2)+4+(3+2)),
      (''SET %b %b'', [VStr ''foo'', VSize 3, VStr [CHR ''b'', NUL, CHR ''r''], VSize 3],
         [''*3'', ''$3'', ''SET'', ''$3'', ''foo'', ''$3'', [CHR ''b'', NUL, CHR ''r'']], 4+4+(3+2)+4+(3+2)+4+(3+2)),
      (''SET %b %b'', [VStr ''foo'', VSize 3, VStr '''', VSize 0],
         [''*3'', ''$3'', ''SET'', ''$3'', ''foo'', ''$0'', ''''], 4+4+(3+2)+4+(3+2)+4+(0+2)),
      (''SET %% %%'', [], [''*3'', ''$3'', ''SET'', ''$1'', ''%'', ''$1'', ''%''], 4+4+(3+2)+4+(1+2)+4+(1+2))]"

text \<open>\<^verbatim>\<open>INTEGER_WIDTH_TEST\<close> and \<^verbatim>\<open>FLOAT_WIDTH_TEST\<close>.\<close>

definition integer_width :: "string \<Rightarrow> vararg \<Rightarrow> string \<times> vararg list \<times> string list \<times> int" where
  "integer_width fmt v =
     (''key:%08'' @ fmt @ '' str:%s'', [v, VStr ''hello''], [''*2'', ''$12'', ''key:00000123'', ''$9'', ''str:hello''], 4+5+(12+2)+4+(9+2))"

definition float_width :: "string \<times> vararg list \<times> string list \<times> int" where
  "float_width =
     (''key:%08.3f str:%s'', [VDouble 123, VStr ''hello''], [''*2'', ''$12'', ''key:0123.000'', ''$9'', ''str:hello''], 4+5+(12+2)+4+(9+2))"

definition width_cases :: "(string \<times> vararg list \<times> string list \<times> int) list" where
  "width_cases =
     [integer_width ''d'' (VInt 123), integer_width ''hhd'' (VInt 123), integer_width ''hd'' (VInt 123),
      integer_width ''ld'' (VLong 123), integer_width ''lld'' (VLongLong 123), integer_width ''u'' (VInt 123),
      integer_width ''hhu'' (VInt 123), integer_width ''hu'' (VInt 123), integer_width ''lu'' (VLong 123),
      integer_width ''llu'' (VLongLong 123), float_width, float_width]"

definition test_argv :: "allocator \<Rightarrow> nat list option \<Rightarrow> string list \<Rightarrow> int \<Rightarrow> bool" where
  "test_argv A lens expected tot =
     (case redisFormatCommandArgv A [''SET'', ''foo'' @ NUL # ''xxx'', ''bar''] lens of
        Inl e \<Rightarrow> False
      | Inr (len, cmd) \<Rightarrow> strncmp_eq cmd (lines expected) (nat len) \<and> len = tot)"

definition test_format_commands :: "allocator \<Rightarrow> (string \<Rightarrow> vararg list \<Rightarrow> string) \<Rightarrow> bool list" where
  "test_format_commands A pf =
     map (format_case A pf) interpolation_cases @ map (format_case A pf) width_cases @
     [(case redisFormatCommand A pf ''key:%08p %b'' [VSize 1234, VStr ''foo'', VSize 3] of Inl e \<Rightarrow> False | Inr (len, cmd) \<Rightarrow> len = - 1),
      test_argv A None [''*3'', ''$3'', ''SET'', ''$3'', ''foo'', ''$3'', ''bar''] (4+4+(3+2)+4+(3+2)+4+(3+2)),
      test_argv A (Some [3, 7, 3]) [''*3'', ''$3'', ''SET'', ''$7'', ''foo'' @ NUL # ''xxx'', ''$3'', ''bar'']
        (4+4+(3+2)+4+(7+2)+4+(3+2))]"

text \<open>What \<^verbatim>\<open>vsnprintf\<close> prints for these conversions.\<close>

definition test_printf :: "string \<Rightarrow> vararg list \<Rightarrow> string" where
  "test_printf conv ap = (if last conv = CHR ''f'' then ''0123.000'' else ''00000123'')"

lemma interpolation_cases_pass: "map (format_case any_memory test_printf) interpolation_cases = replicate 7 True"
  by code_simp

lemma width_cases_pass: "map (format_case any_memory test_printf) width_cases = replicate 12 True"
  by code_simp

lemma invalid_format_fails: "redisFormatCommand any_memory test_printf ''key:%08p %b'' [VSize 1234, VStr ''foo'', VSize 3] = Inr (- 1, [])"
  by code_simp

lemma argv_cases_pass:
  "test_argv any_memory None [''*3'', ''$3'', ''SET'', ''$3'', ''foo'', ''$3'', ''bar''] (4+4+(3+2)+4+(3+2)+4+(3+2))"
  "test_argv any_memory (Some [3, 7, 3]) [''*3'', ''$3'', ''SET'', ''$7'', ''foo'' @ NUL # ''xxx'', ''$3'', ''bar'']
     (4+4+(3+2)+4+(7+2)+4+(3+2))"
  by code_simp+

text \<open>All 22 conditions of the format tests hold.\<close>

theorem test_format_commands_passes: "test_format_commands any_memory test_printf = replicate 22 True"
proof -
  have "replicate 22 True = replicate 7 True @ replicate 12 True @ [True, True, True]" by code_simp
  then show ?thesis
    by (simp only: test_format_commands_def interpolation_cases_pass width_cases_pass invalid_format_fails argv_cases_pass) simp
qed

end
