(* ===== verification/Redis_Reader_Test.thy ===== *)
theory Redis_Reader_Test
  imports Redis_Context "HOL-Library.Code_Target_Nat"
begin

text \<open>
  The tests of the reply reader and of the null arguments in the test program of hiredis
  (\<^verbatim>\<open>redis/hiredis/test.c\<close>), run on the model with the default reply functions. A test gives the
  condition it checks and the heap of reply objects it leaves; a failing \<^verbatim>\<open>assert\<close> is \<open>AssertFailure\<close>.
\<close>

subsection \<open>Comparing without case\<close>

definition to_lower :: "char \<Rightarrow> char" where
  "to_lower c = (if 65 \<le> (of_char c :: nat) \<and> (of_char c :: nat) \<le> 90 then char_of ((of_char c :: nat) + 32) else c)"

definition strcasecmp_eq :: "string \<Rightarrow> string \<Rightarrow> bool" where
  "strcasecmp_eq s t = (map to_lower (c_str s) = map to_lower (c_str t))"

definition strncasecmp_eq :: "string \<Rightarrow> string \<Rightarrow> nat \<Rightarrow> bool" where
  "strncasecmp_eq s t n = strcasecmp_eq (take n s) (take n t)"

subsection \<open>Steps the tests share\<close>

definition with_reader :: "allocator \<Rightarrow> (redisReader \<Rightarrow> 'a result) \<Rightarrow> 'a result" where
  "with_reader A k =
     rbind (redisReaderCreateWithFunctions A) (\<lambda>r. case r of None \<Rightarrow> Inl InvalidAccess | Some r \<Rightarrow> k r)"

fun feed_all :: "allocator \<Rightarrow> reply_fns \<Rightarrow> string list \<Rightarrow> redisReader \<Rightarrow> reply_heap \<Rightarrow> (redisReader \<times> reply_heap) result" where
  "feed_all A fn [] r h = Inr (r, h)"
| "feed_all A fn (b # bs) r h = rbind (redisReaderFeed A fn r b h) (\<lambda>(r', h', ok). feed_all A fn bs r' h')"

text \<open>Feed the chunks, ask for a reply, then go on with the reader, the reply pointer and the return code.\<close>

definition fed ::
  "allocator \<Rightarrow> reply_fns \<Rightarrow> string list \<Rightarrow> redisReader \<Rightarrow> reply_heap \<Rightarrow>
   (redisReader \<Rightarrow> reply_heap \<Rightarrow> nat \<Rightarrow> bool \<Rightarrow> 'a result) \<Rightarrow> 'a result" where
  "fed A fn chunks r h k =
     rbind (feed_all A fn chunks r h) (\<lambda>(r1, h1).
     rbind (redisReaderGetReply fn r1 h1) (\<lambda>(r2, h2, reply, ok). k r2 h2 reply ok))"

definition finish :: "reply_fns \<Rightarrow> redisReader \<Rightarrow> reply_heap \<Rightarrow> bool \<Rightarrow> (bool \<times> reply_heap) result" where
  "finish fn r h cond = rbind (redisReaderFree fn r h) (\<lambda>h'. Inr (cond, h'))"

definition must :: "bool \<Rightarrow> 'a result \<Rightarrow> 'a result" where
  "must b m = (if b then m else Inl AssertFailure)"

subsection \<open>\<^verbatim>\<open>test_reply_reader\<close>\<close>

type_synonym reader_test = "allocator \<Rightarrow> reply_heap \<Rightarrow> (bool \<times> reply_heap) result"

definition test_error_handling :: reader_test where
  "test_error_handling A h =
     (let fn = Some (defaultFunctions A) in
      with_reader A (\<lambda>r.
      fed A fn [''@foo'' @ [CR, LF]] r h (\<lambda>r h reply ok.
      finish fn r h (\<not> ok \<and> strcasecmp_eq (rd_errstr r) (''Protocol error, got '' @ CHR 34 # ''@'' @ CHR 34 # '' as reply type byte'')))))"

definition test_memory_cleanup :: reader_test where
  "test_memory_cleanup A h =
     (let fn = Some (defaultFunctions A) in
      with_reader A (\<lambda>r.
      fed A fn [''*2'' @ [CR, LF], ''$5'' @ [CR, LF] @ ''hello'' @ [CR, LF], ''@foo'' @ [CR, LF]] r h (\<lambda>r h reply ok.
      finish fn r h (\<not> ok \<and> strcasecmp_eq (rd_errstr r) (''Protocol error, got '' @ CHR 34 # ''@'' @ CHR 34 # '' as reply type byte'')))))"

definition test_nested_depth :: reader_test where
  "test_nested_depth A h =
     (let fn = Some (defaultFunctions A) in
      with_reader A (\<lambda>r.
      fed A fn (replicate 9 (''*1'' @ [CR, LF])) r h (\<lambda>r h reply ok.
      finish fn r h (\<not> ok \<and> strncasecmp_eq (rd_errstr r) ''No support for'' 14))))"

definition test_null_functions :: reader_test where
  "test_null_functions A h =
     with_reader A (\<lambda>r.
     fed A None [''+OK'' @ [CR, LF]] r h (\<lambda>r h reply ok.
     finish None r h (ok \<and> int reply = REDIS_REPLY_STATUS)))"

definition test_split_newline :: reader_test where
  "test_split_newline A h =
     with_reader A (\<lambda>r.
     fed A None [''+OK'' @ [CR]] r h (\<lambda>r h reply ok.
     must (ok \<and> reply = 0)
       (fed A None [[LF]] r h (\<lambda>r h reply ok.
        finish None r h (ok \<and> int reply = REDIS_REPLY_STATUS)))))"

definition test_keep_error :: reader_test where
  "test_keep_error A h =
     with_reader A (\<lambda>r.
     fed A None [''x''] r h (\<lambda>r h reply ok.
     must (\<not> ok)
       (fed A None [] r h (\<lambda>r h reply ok.
        finish None r h (\<not> ok \<and> reply = 0)))))"

definition test_empty_multi_bulk :: reader_test where
  "test_empty_multi_bulk A h =
     (let fn = Some (defaultFunctions A) in
      with_reader A (\<lambda>r.
      fed A fn [''*0'' @ [CR, LF]] r h (\<lambda>r h reply ok.
      rbind (if ok then rbind (reply_object h reply) (\<lambda>o'. Inr (ry_type o' = REDIS_REPLY_ARRAY \<and> ry_elements o' = 0)) else Inr False) (\<lambda>cond.
      rbind (freeReplyObject reply h) (\<lambda>h'. finish fn r h' cond)))))"

fun run_tests :: "reader_test list \<Rightarrow> allocator \<Rightarrow> reply_heap \<Rightarrow> (bool list \<times> reply_heap) result" where
  "run_tests [] A h = Inr ([], h)"
| "run_tests (t # ts) A h =
     rbind (t A h) (\<lambda>(b, h1). rbind (run_tests ts A h1) (\<lambda>(bs, h2). Inr (b # bs, h2)))"

definition test_reply_reader :: "allocator \<Rightarrow> reply_heap \<Rightarrow> (bool list \<times> reply_heap) result" where
  "test_reply_reader =
     run_tests [test_error_handling, test_memory_cleanup, test_nested_depth, test_null_functions, test_split_newline,
       test_keep_error, test_empty_multi_bulk]"

text \<open>\<^verbatim>\<open>test_free_null\<close>: the conditions only look at the null pointers, which are passed by value.\<close>

definition test_free_null :: "reply_fns \<Rightarrow> reply_heap \<Rightarrow> (bool list \<times> reply_heap) result" where
  "test_free_null fn h =
     rbind (redisFree fn None h) (\<lambda>(fds, h1). rbind (freeReplyObject 0 h1) (\<lambda>h2. Inr ([True, True], h2)))"

subsection \<open>The tests pass and leave no object behind\<close>

definition passes :: "(bool list \<times> reply_heap) result \<Rightarrow> bool" where
  "passes m = (case m of Inl e \<Rightarrow> False | Inr (bs, h) \<Rightarrow> list_all id bs \<and> list_all (\<lambda>a. rh_objs h a = None) [0 ..< rh_next h])"

text \<open>All conditions hold, and every reply object has been freed.\<close>

theorem test_reply_reader_passes: "passes (test_reply_reader any_memory heap0)"
  by code_simp

theorem test_free_null_passes: "test_free_null fn h = Inr ([True, True], h)"
  by (simp add: test_free_null_def redisFree_def freeReplyObject_def)

end
