(* ===== verification/Dict.thy ===== *)
theory Dict
  imports Sds
begin

text \<open>
  The chained hash table of hiredis (\<^verbatim>\<open>redis/hiredis/dict.h\<close>, \<^verbatim>\<open>dict.c\<close>). A chain of \<^verbatim>\<open>dictEntry\<close> structures is
  the list of its keys and values; the functions of a \<^verbatim>\<open>dictType\<close> are a record, in which a destructor is
  the fact that there is one, and the operations that destroy keys or values return them in order.
  Memory that the code does not find is an \<open>InvalidAccess\<close> where the null pointer is used.
\<close>

unbundle bit_operations_syntax

subsection \<open>Types\<close>

type_synonym ('k, 'v) chain = "('k \<times> 'v) list"

record ('k, 'v) dictType =
  hashFunction :: "'k \<Rightarrow> u32"
  keyDup :: "('k \<Rightarrow> 'k) option"
  valDup :: "('v \<Rightarrow> 'v) option"
  keyCompare :: "('k \<Rightarrow> 'k \<Rightarrow> bool) option"
  keyDestructor :: bool
  valDestructor :: bool

record ('k, 'v) dict =
  dt_table :: "('k, 'v) chain list option"
  dt_size :: nat
  dt_sizemask :: nat
  dt_used :: nat

definition DICT_OK :: int where "DICT_OK = 0"
definition DICT_ERR :: int where "DICT_ERR = 1"

definition dictFreeEntryVal :: "('k, 'v) dictType \<Rightarrow> 'v \<Rightarrow> ('k + 'v) list" where
  "dictFreeEntryVal T v = (if valDestructor T then [Inr v] else [])"

definition dictFreeEntryKey :: "('k, 'v) dictType \<Rightarrow> 'k \<Rightarrow> ('k + 'v) list" where
  "dictFreeEntryKey T k = (if keyDestructor T then [Inl k] else [])"

definition dictSetHashVal :: "('k, 'v) dictType \<Rightarrow> 'v \<Rightarrow> 'v" where
  "dictSetHashVal T v = (case valDup T of None \<Rightarrow> v | Some dup \<Rightarrow> dup v)"

definition dictSetHashKey :: "('k, 'v) dictType \<Rightarrow> 'k \<Rightarrow> 'k" where
  "dictSetHashKey T k = (case keyDup T of None \<Rightarrow> k | Some dup \<Rightarrow> dup k)"

definition dictCompareHashKeys :: "('k, 'v) dictType \<Rightarrow> 'k \<Rightarrow> 'k \<Rightarrow> bool" where
  "dictCompareHashKeys T k1 k2 = (case keyCompare T of None \<Rightarrow> k1 = k2 | Some compare \<Rightarrow> compare k1 k2)"

subsection \<open>Hashing and sizes\<close>

text \<open>The buffer holds the \<^verbatim>\<open>len\<close> bytes to hash.\<close>

definition dictGenHashFunction :: "string \<Rightarrow> u32" where
  "dictGenHashFunction buf = foldl (\<lambda>hash c. push_bit 5 hash + hash + of_char c) 5381 buf"

definition dictReset :: "('k, 'v) dict" where
  "dictReset = \<lparr>dt_table = None, dt_size = 0, dt_sizemask = 0, dt_used = 0\<rparr>"

definition dictCreate :: "allocator \<Rightarrow> ('k, 'v) dict result" where
  "dictCreate A = (if al_ok A 48 then Inr dictReset else Inl InvalidAccess)"

text \<open>The loop starts at 4, so the doubled size grows.\<close>

function next_power :: "nat \<Rightarrow> nat \<Rightarrow> nat" where
  "next_power i sz = (if sz \<le> i \<or> i = 0 then i else next_power (2 * i) sz)"
  by pat_completeness auto
termination by (relation "measure (\<lambda>(i, sz). sz - i)") auto

declare next_power.simps [simp del]

definition dictNextPower :: "nat \<Rightarrow> nat" where
  "dictNextPower sz = (if 2 ^ 63 - 1 \<le> sz then 2 ^ 63 - 1 else next_power 4 sz)"

definition slot_of :: "('k, 'v) dictType \<Rightarrow> nat \<Rightarrow> 'k \<Rightarrow> nat" where
  "slot_of T msk key = unat (hashFunction T key) AND msk"

subsection \<open>Growing\<close>

fun move_chain ::
  "('k, 'v) dictType \<Rightarrow> nat \<Rightarrow> ('k, 'v) chain \<Rightarrow> ('k, 'v) chain list option \<times> int \<Rightarrow> (('k, 'v) chain list option \<times> int) result" where
  "move_chain T msk [] st = Inr st"
| "move_chain T msk (e # es) (n, left) =
     (let h = slot_of T msk (fst e) in
      case n of
        None \<Rightarrow> Inl InvalidAccess
      | Some t \<Rightarrow>
          if h < length t then move_chain T msk es (Some (t[h := e # t ! h]), left - 1) else Inl InvalidAccess)"

fun move_table ::
  "('k, 'v) dictType \<Rightarrow> nat \<Rightarrow> ('k, 'v) chain list \<Rightarrow> ('k, 'v) chain list option \<times> int \<Rightarrow> (('k, 'v) chain list option \<times> int) result" where
  "move_table T msk [] st = Inr st"
| "move_table T msk (c # cs) st =
     (if 0 < snd st then rbind (move_chain T msk c st) (move_table T msk cs) else Inr st)"

text \<open>The slots of a table; one that could not be allocated is not read while nothing is in use.\<close>

definition slots :: "('k, 'v) dict \<Rightarrow> ('k, 'v) chain list result" where
  "slots d =
     (case dt_table d of
        Some t \<Rightarrow> Inr t
      | None \<Rightarrow> if dt_size d = 0 \<or> dt_used d = 0 then Inr [] else Inl InvalidAccess)"

definition dictExpand :: "allocator \<Rightarrow> ('k, 'v) dictType \<Rightarrow> ('k, 'v) dict \<Rightarrow> nat \<Rightarrow> (('k, 'v) dict \<times> int) result" where
  "dictExpand A T d sz =
     (let realsize = dictNextPower sz in
      if sz < dt_used d then Inr (d, DICT_ERR)
      else
        rbind (slots d) (\<lambda>cs.
        rbind (move_table T (realsize - 1) cs
                 (if al_ok A (8 * realsize) then Some (replicate realsize []) else None, int (dt_used d))) (\<lambda>(t, left).
        if left \<noteq> 0 then Inl AssertFailure
        else Inr (\<lparr>dt_table = t, dt_size = realsize, dt_sizemask = realsize - 1, dt_used = dt_used d\<rparr>, DICT_OK))))"

definition dictExpandIfNeeded :: "allocator \<Rightarrow> ('k, 'v) dictType \<Rightarrow> ('k, 'v) dict \<Rightarrow> (('k, 'v) dict \<times> int) result" where
  "dictExpandIfNeeded A T d =
     (if dt_size d = 0 then dictExpand A T d 4
      else if dt_used d = dt_size d then dictExpand A T d (dt_size d * 2)
      else Inr (d, DICT_OK))"

subsection \<open>Lookup and update\<close>

definition chain_at :: "('k, 'v) dict \<Rightarrow> int \<Rightarrow> ('k, 'v) chain result" where
  "chain_at d i =
     (case dt_table d of
        None \<Rightarrow> Inl InvalidAccess
      | Some t \<Rightarrow> if 0 \<le> i \<and> nat i < length t then Inr (t ! nat i) else Inl InvalidAccess)"

definition set_chain :: "('k, 'v) dict \<Rightarrow> int \<Rightarrow> ('k, 'v) chain \<Rightarrow> ('k, 'v) dict" where
  "set_chain d i c = d\<lparr>dt_table := map_option (\<lambda>t. t[nat i := c]) (dt_table d)\<rparr>"

text \<open>The first entry of a chain with the key.\<close>

definition find_entry :: "('k, 'v) dictType \<Rightarrow> 'k \<Rightarrow> ('k, 'v) chain \<Rightarrow> ('k \<times> 'v) option" where
  "find_entry T key c = find (\<lambda>e. dictCompareHashKeys T key (fst e)) c"

text \<open>The index is an \<^verbatim>\<open>int\<close>, the slot an \<^verbatim>\<open>unsigned int\<close>.\<close>

definition dictKeyIndex :: "allocator \<Rightarrow> ('k, 'v) dictType \<Rightarrow> ('k, 'v) dict \<Rightarrow> 'k \<Rightarrow> (('k, 'v) dict \<times> int) result" where
  "dictKeyIndex A T d key =
     rbind (dictExpandIfNeeded A T d) (\<lambda>(d', st).
     if st = DICT_ERR then Inr (d', - 1)
     else
       (let h = slot_of T (dt_sizemask d') key in
        rbind (chain_at d' (int h)) (\<lambda>c.
        Inr (d', if find_entry T key c \<noteq> None then - 1 else to_int h))))"

definition dictAdd :: "allocator \<Rightarrow> ('k, 'v) dictType \<Rightarrow> ('k, 'v) dict \<Rightarrow> 'k \<Rightarrow> 'v \<Rightarrow> (('k, 'v) dict \<times> int) result" where
  "dictAdd A T d key val =
     rbind (dictKeyIndex A T d key) (\<lambda>(d', index).
     if index = - 1 then Inr (d', DICT_ERR)
     else if \<not> al_ok A 24 then Inl InvalidAccess
     else
       rbind (chain_at d' index) (\<lambda>c.
       Inr ((set_chain d' index ((dictSetHashKey T key, dictSetHashVal T val) # c))\<lparr>dt_used := dt_used d' + 1\<rparr>, DICT_OK)))"

definition dictFind :: "('k, 'v) dictType \<Rightarrow> ('k, 'v) dict \<Rightarrow> 'k \<Rightarrow> ('k \<times> 'v) option result" where
  "dictFind T d key =
     (if dt_size d = 0 then Inr None
      else rbind (chain_at d (int (slot_of T (dt_sizemask d) key))) (\<lambda>c. Inr (find_entry T key c)))"

fun set_first :: "('k, 'v) dictType \<Rightarrow> 'k \<Rightarrow> 'v \<Rightarrow> ('k, 'v) chain \<Rightarrow> ('k, 'v) chain" where
  "set_first T key val [] = []"
| "set_first T key val (e # es) =
     (if dictCompareHashKeys T key (fst e) then (fst e, dictSetHashVal T val) # es else e # set_first T key val es)"

definition dictReplace ::
  "allocator \<Rightarrow> ('k, 'v) dictType \<Rightarrow> ('k, 'v) dict \<Rightarrow> 'k \<Rightarrow> 'v \<Rightarrow> (('k, 'v) dict \<times> int \<times> ('k + 'v) list) result" where
  "dictReplace A T d key val =
     rbind (dictAdd A T d key val) (\<lambda>(d', st).
     if st = DICT_OK then Inr (d', 1, [])
     else
       rbind (dictFind T d' key) (\<lambda>entry.
       case entry of
         None \<Rightarrow> Inl InvalidAccess
       | Some (_, old) \<Rightarrow>
           (let i = int (slot_of T (dt_sizemask d') key) in
            rbind (chain_at d' i) (\<lambda>c.
            Inr (set_chain d' i (set_first T key val c), 0, dictFreeEntryVal T old)))))"

fun unlink_first :: "('k, 'v) dictType \<Rightarrow> 'k \<Rightarrow> ('k, 'v) chain \<Rightarrow> ('k, 'v) chain" where
  "unlink_first T key [] = []"
| "unlink_first T key (e # es) = (if dictCompareHashKeys T key (fst e) then es else e # unlink_first T key es)"

definition dictDelete ::
  "('k, 'v) dictType \<Rightarrow> ('k, 'v) dict \<Rightarrow> 'k \<Rightarrow> (('k, 'v) dict \<times> int \<times> ('k + 'v) list) result" where
  "dictDelete T d key =
     (if dt_size d = 0 then Inr (d, DICT_ERR, [])
      else
        (let i = int (slot_of T (dt_sizemask d) key) in
         rbind (chain_at d i) (\<lambda>c.
         case find_entry T key c of
           None \<Rightarrow> Inr (d, DICT_ERR, [])
         | Some (k, v) \<Rightarrow>
             Inr ((set_chain d i (unlink_first T key c))\<lparr>dt_used := unat (word_of_int (int (dt_used d) - 1) :: u64)\<rparr>,
                  DICT_OK, dictFreeEntryKey T k @ dictFreeEntryVal T v))))"

subsection \<open>Clearing\<close>

definition free_chain :: "('k, 'v) dictType \<Rightarrow> ('k, 'v) chain \<Rightarrow> ('k + 'v) list" where
  "free_chain T c = concat (map (\<lambda>(k, v). dictFreeEntryKey T k @ dictFreeEntryVal T v) c)"

text \<open>The counter \<^verbatim>\<open>ht->used\<close> goes down by one per entry and is read before each slot.\<close>

fun clear_table :: "('k, 'v) dictType \<Rightarrow> ('k, 'v) chain list \<Rightarrow> u64 \<Rightarrow> ('k + 'v) list" where
  "clear_table T [] left = []"
| "clear_table T (c # cs) left =
     (if 0 < left then free_chain T c @ clear_table T cs (left - word_of_nat (length c)) else [])"

definition dictClear :: "('k, 'v) dictType \<Rightarrow> ('k, 'v) dict \<Rightarrow> (('k, 'v) dict \<times> ('k + 'v) list) result" where
  "dictClear T d = rbind (slots d) (\<lambda>cs. Inr (dictReset, clear_table T cs (word_of_nat (dt_used d))))"

definition dictRelease :: "('k, 'v) dictType \<Rightarrow> ('k, 'v) dict \<Rightarrow> ('k + 'v) list result" where
  "dictRelease T d = rbind (dictClear T d) (\<lambda>(_, freed). Inr freed)"

subsection \<open>Iterating\<close>

text \<open>An entry pointer of the iterator is the rest of a chain from that entry on.\<close>

record ('k, 'v) dictIterator =
  it_index :: int
  it_entry :: "('k, 'v) chain"
  it_nextEntry :: "('k, 'v) chain"

definition dictGetIterator :: "allocator \<Rightarrow> ('k, 'v) dictIterator result" where
  "dictGetIterator A = (if al_ok A 32 then Inr \<lparr>it_index = - 1, it_entry = [], it_nextEntry = []\<rparr> else Inl InvalidAccess)"

function dictNext ::
  "('k, 'v) dict \<Rightarrow> ('k, 'v) dictIterator \<Rightarrow> (('k, 'v) dictIterator \<times> ('k \<times> 'v) option) result" where
  "dictNext d it =
     (if it_entry it = [] then
        (if to_int (dt_size d) \<le> it_index it + 1 then Inr (it\<lparr>it_index := it_index it + 1\<rparr>, None)
         else
           (case chain_at d (it_index it + 1) of
              Inl x \<Rightarrow> Inl x
            | Inr [] \<Rightarrow> dictNext d (it\<lparr>it_index := it_index it + 1\<rparr>)
            | Inr (e # es) \<Rightarrow> Inr (it\<lparr>it_index := it_index it + 1, it_entry := e # es, it_nextEntry := es\<rparr>, Some e)))
      else
        (case it_nextEntry it of
           [] \<Rightarrow> dictNext d (it\<lparr>it_entry := []\<rparr>)
         | e # es \<Rightarrow> Inr (it\<lparr>it_entry := e # es, it_nextEntry := es\<rparr>, Some e)))"
  by pat_completeness auto
termination
  by (relation "measures [\<lambda>(d, it). nat (to_int (dt_size d) - it_index it), \<lambda>(d, it). length (it_entry it)]") auto

declare dictNext.simps [simp del]

end
