(* ===== verification/Dict_Laws.thy ===== *)
theory Dict_Laws
  imports Dict
begin

text \<open>
  The hash table of hiredis implements a finite map. The table is a power of two of chains, every
  entry lies in the chain of its hash, keys are distinct, and the counter is the number of entries;
  growing keeps the map.
\<close>

subsection \<open>The invariant\<close>

definition home :: "('k, 'v) dictType \<Rightarrow> nat \<Rightarrow> 'k \<Rightarrow> nat" where
  "home T n k = unat (hashFunction T k) mod 2 ^ n"

lemma home_less [simp]: "home T n k < 2 ^ n"
  by (simp add: home_def)

lemma slot_of_home [simp]: "slot_of T (2 ^ n - Suc 0) k = home T n k"
  unfolding One_nat_def [symmetric]
  by (simp add: slot_of_def home_def del: One_nat_def flip: mask_eq_exp_minus_1 take_bit_eq_mask take_bit_eq_mod)

definition table_ok :: "('k, 'v) dictType \<Rightarrow> nat \<Rightarrow> ('k, 'v) chain list \<Rightarrow> bool" where
  "table_ok T n t \<longleftrightarrow> length t = 2 ^ n \<and> (\<forall>i < 2 ^ n. distinct (map fst (t ! i)) \<and> (\<forall>e \<in> set (t ! i). home T n (fst e) = i))"

definition dict_inv :: "('k, 'v) dictType \<Rightarrow> ('k, 'v) dict \<Rightarrow> bool" where
  "dict_inv T d \<longleftrightarrow>
     (case dt_table d of
        None \<Rightarrow> d = dictReset
      | Some t \<Rightarrow> \<exists>n \<ge> 2. table_ok T n t \<and> dt_size d = 2 ^ n \<and> dt_sizemask d = 2 ^ n - 1 \<and> dt_used d = length (concat t))"

definition entries :: "('k, 'v) dict \<Rightarrow> ('k \<times> 'v) list" where
  "entries d = (case dt_table d of None \<Rightarrow> [] | Some t \<Rightarrow> concat t)"

definition dict_map :: "('k, 'v) dict \<Rightarrow> 'k \<rightharpoonup> 'v" where
  "dict_map d = map_of (entries d)"

text \<open>The functions of the type compare keys by equality and copy without change.\<close>

definition plain_type :: "('k, 'v) dictType \<Rightarrow> bool" where
  "plain_type T \<longleftrightarrow> (\<forall>k1 k2. dictCompareHashKeys T k1 k2 \<longleftrightarrow> k1 = k2) \<and> (\<forall>k. dictSetHashKey T k = k) \<and> (\<forall>v. dictSetHashVal T v = v)"

subsection \<open>Chains\<close>

lemma map_of_concat_nth:
  "i < length t \<Longrightarrow> (\<And>j. j < length t \<Longrightarrow> j \<noteq> i \<Longrightarrow> k \<notin> fst ` set (t ! j)) \<Longrightarrow> map_of (concat t) k = map_of (t ! i) k"
proof (induction t arbitrary: i)
  case (Cons c t)
  show ?case
  proof (cases i)
    case 0
    have "k \<notin> fst ` set x" if x: "x \<in> set t" for x
    proof -
      obtain j where "j < length t" "t ! j = x" using x by (auto simp: in_set_conv_nth)
      then show ?thesis using Cons.prems(2) [of "Suc j"] 0 by simp
    qed
    then have "k \<notin> fst ` set (concat t)" by auto
    then have "map_of (concat t) k = None" by (simp only: map_of_eq_None_iff not_False_eq_True)
    then show ?thesis using 0 by (simp add: map_add_def split: option.split)
  next
    case (Suc j)
    have "k \<notin> fst ` set c" using Cons.prems(2) [of 0] Suc by simp
    then have "map_of c k = None" by (simp add: map_of_eq_None_iff)
    moreover have "map_of (concat t) k = map_of (t ! j) k"
      using Cons.IH [of j] Cons.prems(1) Cons.prems(2) [of "Suc l" for l] Suc by fastforce
    ultimately show ?thesis using Suc by (simp add: map_add_def split: option.split)
  qed
qed simp

lemma look: "table_ok T n t \<Longrightarrow> map_of (concat t) k = map_of (t ! home T n k) k"
  by (rule map_of_concat_nth) (auto simp: table_ok_def)

lemma look_update:
  assumes "table_ok T n t" "table_ok T n (t[i := c])" "i < 2 ^ n"
  shows "map_of (concat (t[i := c])) k = (if home T n k = i then map_of c k else map_of (concat t) k)"
  using look [OF assms(1)] look [OF assms(2)] assms by (simp add: table_ok_def)

lemma table_ok_update:
  "table_ok T n t \<Longrightarrow> distinct (map fst c) \<Longrightarrow> (\<forall>e \<in> set c. home T n (fst e) = i) \<Longrightarrow> table_ok T n (t[i := c])"
  by (cases "i < length t") (auto simp: table_ok_def nth_list_update)

lemma length_concat_update: "i < length t \<Longrightarrow> length (concat (t[i := c])) + length (t ! i) = length (concat t) + length c"
  by (induction t arbitrary: i) (auto split: nat.splits)

lemma chain_map: "plain_type T \<Longrightarrow> distinct (map fst c) \<Longrightarrow> find_entry T k c = map_option (Pair k) (map_of c k)"
  by (induction c) (auto simp: find_entry_def plain_type_def)

lemma set_first_map:
  "plain_type T \<Longrightarrow> map fst (set_first T k v c) = map fst c \<and> map_of (set_first T k v c) = (if k \<in> fst ` set c then (map_of c)(k \<mapsto> v) else map_of c)"
  by (induction c) (auto simp: plain_type_def fun_eq_iff)

lemma unlink_first_map:
  "plain_type T \<Longrightarrow> distinct (map fst c) \<Longrightarrow> set (unlink_first T k c) \<subseteq> set c \<and> distinct (map fst (unlink_first T k c)) \<and>
    map_of (unlink_first T k c) = (map_of c)(k := None)"
proof (induction c)
  case (Cons e c)
  then have "map_of c (fst e) = None" by (simp add: map_of_eq_None_iff)
  then show ?case using Cons by (auto simp: plain_type_def fun_eq_iff)
qed simp

lemma length_unlink_first: "find_entry T k c \<noteq> None \<Longrightarrow> Suc (length (unlink_first T k c)) = length c"
  by (induction c) (auto simp: find_entry_def split: if_splits)

lemma distinct_concat_fst:
  "(\<And>i. i < length s \<Longrightarrow> distinct (map fst (s ! i))) \<Longrightarrow>
    (\<And>i j k. i < length s \<Longrightarrow> j < length s \<Longrightarrow> k \<in> fst ` set (s ! i) \<Longrightarrow> k \<in> fst ` set (s ! j) \<Longrightarrow> i = j) \<Longrightarrow>
    distinct (map fst (concat s))"
proof (induction s)
  case (Cons c s)
  have "distinct (map fst c)" using Cons.prems(1) [of 0] by simp
  moreover have "distinct (map fst (concat s))"
  proof (rule Cons.IH)
    show "distinct (map fst (s ! i))" if "i < length s" for i using Cons.prems(1) [of "Suc i"] that by simp
    show "i = j" if "i < length s" "j < length s" "k \<in> fst ` set (s ! i)" "k \<in> fst ` set (s ! j)" for i j k
      using Cons.prems(2) [of "Suc i" "Suc j" k] that by simp
  qed
  moreover have "fst ` set c \<inter> fst ` set (concat s) = {}"
  proof (rule ccontr)
    assume "fst ` set c \<inter> fst ` set (concat s) \<noteq> {}"
    then obtain k where k: "k \<in> fst ` set c" "k \<in> fst ` set (concat s)" by (meson disjoint_iff)
    from k(2) obtain e where e: "e \<in> set (concat s)" "k = fst e" by (rule imageE)
    from e(1) obtain x where x: "x \<in> set s" "e \<in> set x" by auto
    from x(1) obtain j where "j < length s" "s ! j = x" by (auto simp: in_set_conv_nth)
    then show False using Cons.prems(2) [of 0 "Suc j" k] k(1) e(2) x(2) by simp
  qed
  ultimately show ?case by simp
qed simp

lemma distinct_concat_keys:
  assumes "table_ok T n t"
  shows "distinct (map fst (concat t))"
proof (rule distinct_concat_fst)
  show "distinct (map fst (t ! i))" if "i < length t" for i using assms that by (simp add: table_ok_def)
  show "i = j" if "i < length t" "j < length t" "k \<in> fst ` set (t ! i)" "k \<in> fst ` set (t ! j)" for i j k
  proof -
    have "home T n k = i" using that(1,3) assms by (auto simp: table_ok_def)
    moreover have "home T n k = j" using that(2,4) assms by (auto simp: table_ok_def)
    ultimately show ?thesis by simp
  qed
qed

subsection \<open>Growing\<close>

lemma move_table_chain:
  "left = int (length (concat cs)) \<Longrightarrow> move_table T m cs (n, left) = move_chain T m (concat cs) (n, left)"
proof (induction cs arbitrary: n left)
  case (Cons c cs)
  have app: "move_chain T m (es @ fs) st = rbind (move_chain T m es st) (move_chain T m fs)" for es fs st
    by (induction T m es st rule: move_chain.induct) (auto simp: Let_def split: option.split)
  have cnt: "move_chain T m es st = Inr st' \<Longrightarrow> snd st' = snd st - int (length es)" for es st st'
    by (induction T m es st rule: move_chain.induct) (auto simp: Let_def split: option.splits if_splits)
  show ?case
  proof (cases "concat (c # cs) = []")
    case True
    show ?thesis using Cons.prems unfolding True by simp
  next
    case False
    then have "0 < length (concat (c # cs))" by (simp only: length_greater_0_conv not_False_eq_True)
    then have "0 < left" using Cons.prems by linarith
    then show ?thesis using Cons app cnt [of c "(n, left)"] by (cases "move_chain T m c (n, left)") auto
  qed
qed simp

lemma move_chain_ok:
  "table_ok T n t \<Longrightarrow> distinct (map fst es) \<Longrightarrow> (\<forall>e \<in> set es. fst e \<notin> fst ` set (concat t)) \<Longrightarrow>
    \<exists>t'. move_chain T (2 ^ n - 1) es (Some t, left) = Inr (Some t', left - int (length es)) \<and> table_ok T n t' \<and>
      map_of (concat t') = map_of (concat t) ++ map_of es \<and> length (concat t') = length (concat t) + length es"
proof (induction es arbitrary: t left)
  case (Cons e es)
  let ?h = "home T n (fst e)"
  let ?t = "t[?h := e # t ! ?h]"
  have h: "?h < length t" using Cons.prems(1) by (simp add: table_ok_def)
  have "set (t ! ?h) \<subseteq> set (concat t)" using nth_mem [OF h] by auto
  moreover have "fst e \<notin> fst ` set (concat t)" using Cons.prems(3) by simp
  ultimately have new: "fst e \<notin> fst ` set (t ! ?h)" by blast
  have ok: "table_ok T n ?t" using Cons.prems(1) new by (intro table_ok_update) (auto simp: table_ok_def)
  have at: "map_of (concat ?t) = (map_of (concat t))(fst e \<mapsto> snd e)"
    using look_update [OF Cons.prems(1) ok home_less] look [OF Cons.prems(1)] by (cases e) (auto simp: fun_eq_iff)
  have keys: "fst ` set (concat ?t) = insert (fst e) (fst ` set (concat t))"
    using arg_cong [OF at, of dom] unfolding dom_map_of_conv_image_fst dom_fun_upd by simp
  have len: "length (concat ?t) = Suc (length (concat t))" using length_concat_update [OF h, of "e # t ! ?h"] by simp
  have "fst e' \<notin> fst ` set (concat ?t)" if "e' \<in> set es" for e'
  proof -
    have "fst e' \<in> fst ` set es" using that by (rule imageI)
    moreover have "fst e \<notin> fst ` set es" using Cons.prems(2) by simp
    ultimately have "fst e' \<noteq> fst e" by metis
    then show ?thesis using that Cons.prems(3) unfolding keys by simp
  qed
  then have "distinct (map fst es)" "\<forall>e \<in> set es. fst e \<notin> fst ` set (concat ?t)" using Cons.prems(2) by auto
  from Cons.IH [OF ok this, of "left - 1"] obtain t' where
    t': "move_chain T (2 ^ n - 1) es (Some ?t, left - 1) = Inr (Some t', left - 1 - int (length es))" "table_ok T n t'"
      "map_of (concat t') = map_of (concat ?t) ++ map_of es" "length (concat t') = length (concat ?t) + length es" by blast
  have m: "map_of (concat t') = map_of (concat t) ++ map_of (e # es)"
    using t'(3) Cons.prems(2) map_of_eq_None_iff [of es "fst e"] unfolding at by (cases e) (auto simp: fun_eq_iff map_add_def split: option.split)
  show ?case
  proof (intro exI conjI)
    show "move_chain T (2 ^ n - 1) (e # es) (Some t, left) = Inr (Some t', left - int (length (e # es)))"
      using t'(1) h by (simp add: algebra_simps)
    show "map_of (concat t') = map_of (concat t) ++ map_of (e # es)" by (rule m)
  qed (use t'(2,4) len in simp_all)
qed simp

lemma next_power_exp: "m \<le> n \<Longrightarrow> next_power (2 ^ m) (2 ^ n) = 2 ^ n"
proof (induction "n - m" arbitrary: m)
  case (Suc k)
  then have "m < n" by simp
  then have "next_power (2 ^ m) (2 ^ n) = next_power (2 ^ Suc m) (2 ^ n)" by (subst next_power.simps) simp
  then show ?case using Suc(1) [of "Suc m"] Suc(2) \<open>m < n\<close> by simp
qed (simp add: next_power.simps)

lemma dictNextPower_exp:
  assumes "2 \<le> n" "n < 63"
  shows "dictNextPower (2 ^ n) = 2 ^ n"
proof -
  have "(2::nat) ^ n \<le> 2 ^ 62" using assms(2) by (intro power_increasing) simp_all
  then show ?thesis using next_power_exp [OF assms(1)] by (simp add: dictNextPower_def)
qed

lemma dictExpand_ok:
  assumes A: "\<And>m. al_ok A m" and d: "dict_inv T d" and n: "2 \<le> n" "n < 63" "dt_used d \<le> 2 ^ n"
  shows "\<exists>d'. dictExpand A T d (2 ^ n) = Inr (d', DICT_OK) \<and> dict_inv T d' \<and> dict_map d' = dict_map d \<and>
    dt_size d' = 2 ^ n \<and> dt_used d' = dt_used d"
proof -
  define cs where "cs = (case dt_table d of None \<Rightarrow> [] | Some t \<Rightarrow> t)"
  have cs: "slots d = Inr cs" "dt_used d = length (concat cs)" "distinct (map fst (concat cs))" "map_of (concat cs) = dict_map d"
    using d distinct_concat_keys by (auto simp: cs_def dict_inv_def slots_def dictReset_def dict_map_def entries_def split: option.splits)
  let ?t = "replicate (2 ^ n) ([] :: ('a, 'b) chain)"
  have empty: "concat ?t = []" by simp
  have ok: "table_ok T n ?t" by (simp add: table_ok_def)
  have "\<exists>t'. move_chain T (2 ^ n - 1) (concat cs) (Some ?t, int (dt_used d)) = Inr (Some t', int (dt_used d) - int (length (concat cs))) \<and>
      table_ok T n t' \<and> map_of (concat t') = map_of (concat ?t) ++ map_of (concat cs) \<and> length (concat t') = length (concat ?t) + length (concat cs)"
    by (rule move_chain_ok [OF ok cs(3)]) (simp add: empty)
  then obtain t' where t': "move_chain T (2 ^ n - 1) (concat cs) (Some ?t, int (dt_used d)) = Inr (Some t', 0)" "table_ok T n t'"
    "map_of (concat t') = dict_map d" "length (concat t') = dt_used d"
    using cs(2,4) empty by auto
  then have "move_table T (2 ^ n - 1) cs (Some ?t, int (dt_used d)) = Inr (Some t', 0)" using cs(2) by (simp add: move_table_chain)
  then have "dictExpand A T d (2 ^ n) = Inr (\<lparr>dt_table = Some t', dt_size = 2 ^ n, dt_sizemask = 2 ^ n - 1, dt_used = dt_used d\<rparr>, DICT_OK)"
    using A cs(1) n(3) dictNextPower_exp [OF n(1,2)] by (simp add: dictExpand_def Let_def)
  then show ?thesis using n(1) t'(2-4) by (auto simp: dict_inv_def dict_map_def [of "dict.make _ _ _ _", unfolded dict.defs] entries_def)
qed

text \<open>A table in use: \<open>2\<^sup>n\<close> chains.\<close>

definition in_use :: "('k, 'v) dictType \<Rightarrow> ('k, 'v) dict \<Rightarrow> nat \<Rightarrow> ('k, 'v) chain list \<Rightarrow> bool" where
  "in_use T d n t \<longleftrightarrow> d = \<lparr>dt_table = Some t, dt_size = 2 ^ n, dt_sizemask = 2 ^ n - 1, dt_used = length (concat t)\<rparr> \<and> table_ok T n t \<and> 2 \<le> n"

lemma dict_inv_cases:
  assumes "dict_inv T d"
  obtains "d = dictReset" | n t where "in_use T d n t"
  using assms by (cases "dt_table d"; cases d) (auto simp: dict_inv_def in_use_def)

lemma in_useD:
  assumes "in_use T d n t"
  shows "dict_inv T d" "dict_map d = map_of (concat t)" "dt_size d = 2 ^ n" "dt_used d = length (concat t)"
    "chain_at d (int (slot_of T (dt_sizemask d) k)) = Inr (t ! home T n k)" "dict_map d k = map_of (t ! home T n k) k"
    "distinct (map fst (t ! home T n k))"
  using assms look [of T n t k]
  by (auto simp: in_use_def dict_inv_def dict_map_def entries_def chain_at_def table_ok_def)

lemma dictExpandIfNeeded_ok:
  assumes A: "\<And>m. al_ok A m" and d: "dict_inv T d" and used: "dt_used d < 2 ^ 30" "dt_size d \<le> 2 ^ 30"
  shows "\<exists>d' n t. dictExpandIfNeeded A T d = Inr (d', DICT_OK) \<and> in_use T d' n t \<and> dict_map d' = dict_map d \<and> dt_used d' = dt_used d \<and> n \<le> 30"
proof -
  have grow: ?thesis if n: "2 \<le> n" "n \<le> 30" "dt_used d \<le> 2 ^ n" and e: "dictExpandIfNeeded A T d = dictExpand A T d (2 ^ n)" for n
  proof -
    from dictExpand_ok [OF A d n(1) _ n(3)] n(2) obtain d' where
      d': "dictExpand A T d (2 ^ n) = Inr (d', DICT_OK)" "dict_inv T d'" "dict_map d' = dict_map d" "dt_size d' = 2 ^ n" "dt_used d' = dt_used d"
      by auto
    from d'(2) d'(4) obtain n' t where t: "in_use T d' n' t" by (elim dict_inv_cases) (simp_all add: dictReset_def)
    then have "n' = n" using in_useD(3) [OF t] d'(4) by simp
    then show ?thesis using d' t e n(2) by auto
  qed
  from d show ?thesis
  proof (cases rule: dict_inv_cases)
    case 1
    show ?thesis by (rule grow [of 2]) (simp_all add: 1 dictReset_def dictExpandIfNeeded_def)
  next
    case (2 n t)
    note facts = in_useD [OF 2]
    show ?thesis
    proof (cases "dt_used d = dt_size d")
      case True
      then have "n < 30" using used facts(3) power_less_imp_less_exp [of "2::nat" n 30] by simp
      then show ?thesis by (intro grow [of "Suc n"])
        (use 2 True facts(3) in \<open>simp_all add: dictExpandIfNeeded_def in_use_def mult.commute\<close>)
    next
      case False
      have "n \<le> 30" using used facts(3) power_le_imp_le_exp [of "2::nat" n 30] by simp
      then show ?thesis using 2 False facts(3) by (auto simp: dictExpandIfNeeded_def)
    qed
  qed
qed

subsection \<open>The operations\<close>

lemma dictFind_ok:
  assumes "plain_type T" "dict_inv T d"
  shows "dictFind T d k = Inr (map_option (Pair k) (dict_map d k))"
  using assms(2)
proof (cases rule: dict_inv_cases)
  case 1
  then show ?thesis by (simp add: dictFind_def dictReset_def dict_map_def entries_def)
next
  case (2 n t)
  note facts = in_useD [OF 2]
  show ?thesis using facts(3) facts(5-7) [of k] chain_map [OF assms(1) facts(7)] by (simp add: dictFind_def)
qed

text \<open>Exchanging the chain of a key.\<close>

lemma set_chain_ok:
  assumes d: "in_use T d n t" and c: "distinct (map fst c)" "\<forall>e \<in> set c. home T n (fst e) = home T n k"
    and m: "length c + length (concat t) = length (t ! home T n k) + u" "map_of c = (map_of (t ! home T n k))(k := v)"
  shows "\<exists>t'. in_use T ((set_chain d (int (home T n k)) c)\<lparr>dt_used := u\<rparr>) n t' \<and>
    dict_map ((set_chain d (int (home T n k)) c)\<lparr>dt_used := u\<rparr>) = (dict_map d)(k := v)"
proof -
  let ?i = "home T n k"
  let ?t = "t[?i := c]"
  have t: "table_ok T n t" "?i < length t" using d by (simp_all add: in_use_def table_ok_def)
  have ok: "table_ok T n ?t" by (rule table_ok_update [OF t(1) c])
  have "length (concat ?t) = u" using length_concat_update [OF t(2), of c] m(1) by simp
  then have use: "in_use T ((set_chain d (int ?i) c)\<lparr>dt_used := u\<rparr>) n ?t" using d ok by (simp add: in_use_def set_chain_def)
  have "map_of (concat ?t) = (map_of (concat t))(k := v)"
    using look_update [OF t(1) ok home_less] look [OF t(1)] m(2) by (auto simp: fun_eq_iff)
  then show ?thesis using use in_useD(2) [OF use] in_useD(2) [OF d] by auto
qed

lemma dictAdd_ok:
  assumes A: "\<And>m. al_ok A m" and T: "plain_type T" and d: "dict_inv T d" and used: "dt_used d < 2 ^ 30" "dt_size d \<le> 2 ^ 30"
  shows "\<exists>d'. dictAdd A T d k v = Inr (d', if dict_map d k = None then DICT_OK else DICT_ERR) \<and> dict_inv T d' \<and>
    dict_map d' = (if dict_map d k = None then (dict_map d)(k \<mapsto> v) else dict_map d) \<and>
    dt_used d' = (if dict_map d k = None then Suc (dt_used d) else dt_used d)"
proof -
  from dictExpandIfNeeded_ok [OF A d used] obtain d1 n t where
    d1: "dictExpandIfNeeded A T d = Inr (d1, DICT_OK)" "in_use T d1 n t" "dict_map d1 = dict_map d" "dt_used d1 = dt_used d" "n \<le> 30" by blast
  note facts = in_useD [OF d1(2)]
  let ?c = "t ! home T n k"
  have h: "home T n k < 2 ^ 31" using home_less [of T n k] d1(5) power_increasing [of n 31 "2::nat"] by linarith
  then have idx: "to_int (home T n k) = int (home T n k)" by (rule to_int_small)
  have slot: "slot_of T (dt_sizemask d1) k = home T n k" using d1(2) by (simp add: in_use_def)
  have found: "find_entry T k ?c = map_option (Pair k) (dict_map d k)" using chain_map [OF T facts(7)] facts(6) [of k] d1(3) by simp
  have key: "dictKeyIndex A T d k = Inr (d1, if dict_map d k = None then int (home T n k) else - 1)"
    using d1(1) facts(5) [of k] found idx slot by (simp add: dictKeyIndex_def DICT_OK_def DICT_ERR_def)
  show ?thesis
  proof (cases "dict_map d k")
    case (Some w)
    then show ?thesis using key facts(1) d1(3,4) by (simp add: dictAdd_def)
  next
    case None
    then have new: "k \<notin> fst ` set ?c" using facts(6) [of k] d1(3) by (metis map_of_eq_None_iff)
    have homes: "\<forall>e \<in> set ?c. home T n (fst e) = home T n k" using d1(2) by (simp add: in_use_def table_ok_def)
    from set_chain_ok [OF d1(2), of "(k, v) # ?c" k "Suc (dt_used d)" "Some v"] new homes facts(4,7) d1(3,4) obtain t' where
      "in_use T ((set_chain d1 (int (home T n k)) ((k, v) # ?c))\<lparr>dt_used := Suc (dt_used d)\<rparr>) n t'"
      "dict_map ((set_chain d1 (int (home T n k)) ((k, v) # ?c))\<lparr>dt_used := Suc (dt_used d)\<rparr>) = (dict_map d)(k \<mapsto> v)" by auto
    then show ?thesis using key None A facts(5) [of k] slot T d1(4) in_useD(1) by (auto simp: dictAdd_def plain_type_def)
  qed
qed

lemma dictReplace_ok:
  assumes A: "\<And>m. al_ok A m" and T: "plain_type T" and d: "dict_inv T d" and used: "dt_used d < 2 ^ 30" "dt_size d \<le> 2 ^ 30"
  shows "\<exists>d'. dictReplace A T d k v = Inr (d', case dict_map d k of None \<Rightarrow> (1, []) | Some old \<Rightarrow> (0, dictFreeEntryVal T old)) \<and>
    dict_inv T d' \<and> dict_map d' = (dict_map d)(k \<mapsto> v)"
proof -
  from dictAdd_ok [OF assms, of k v] obtain d1 where
    d1: "dictAdd A T d k v = Inr (d1, if dict_map d k = None then DICT_OK else DICT_ERR)" "dict_inv T d1"
      "dict_map d1 = (if dict_map d k = None then (dict_map d)(k \<mapsto> v) else dict_map d)" by blast
  show ?thesis
  proof (cases "dict_map d k")
    case None
    then show ?thesis using d1 by (simp add: dictReplace_def)
  next
    case (Some old)
    then have m: "dict_map d1 = dict_map d" "dict_map d1 k = Some old" using d1(3) by simp_all
    from d1(2) obtain n t where t: "in_use T d1 n t"
    proof (cases rule: dict_inv_cases)
      case 1
      then show ?thesis using m(2) by (simp add: dictReset_def dict_map_def entries_def)
    qed
    note facts = in_useD [OF t]
    let ?c = "t ! home T n k"
    have slot: "slot_of T (dt_sizemask d1) k = home T n k" using t by (simp add: in_use_def)
    have mem: "k \<in> fst ` set ?c" using facts(6) [of k] m(2) by (metis map_of_eq_None_iff option.distinct(1))
    have keys: "map fst (set_first T k v ?c) = map fst ?c" "map_of (set_first T k v ?c) = (map_of ?c)(k \<mapsto> v)"
      using set_first_map [OF T, of k v ?c] mem by simp_all
    have "fst ` set (set_first T k v ?c) = fst ` set ?c" using arg_cong [OF keys(1), of set] by simp
    moreover have "\<forall>k' \<in> fst ` set ?c. home T n k' = home T n k" using t by (auto simp: in_use_def table_ok_def)
    ultimately have "\<forall>e \<in> set (set_first T k v ?c). home T n (fst e) = home T n k" by (metis imageI)
    moreover have "length (set_first T k v ?c) = length ?c" using arg_cong [OF keys(1), of length] by simp
    ultimately obtain t' where
      "in_use T ((set_chain d1 (int (home T n k)) (set_first T k v ?c))\<lparr>dt_used := dt_used d1\<rparr>) n t'"
      "dict_map ((set_chain d1 (int (home T n k)) (set_first T k v ?c))\<lparr>dt_used := dt_used d1\<rparr>) = (dict_map d1)(k \<mapsto> v)"
      using set_chain_ok [OF t, of "set_first T k v ?c" k "dt_used d1" "Some v"] keys facts(4,7) by auto
    moreover have "(set_chain d1 i c)\<lparr>dt_used := dt_used d1\<rparr> = set_chain d1 i c" for i c by (simp add: set_chain_def)
    ultimately show ?thesis using Some d1(1) dictFind_ok [OF T d1(2), of k] m slot facts(5) [of k] in_useD(1)
      by (auto simp: dictReplace_def DICT_OK_def DICT_ERR_def)
  qed
qed

lemma dictDelete_ok:
  assumes T: "plain_type T" and d: "dict_inv T d" and used: "dt_used d < 2 ^ 64"
  shows "\<exists>d'. dictDelete T d k = Inr (d', case dict_map d k of
        None \<Rightarrow> (DICT_ERR, []) | Some v \<Rightarrow> (DICT_OK, dictFreeEntryKey T k @ dictFreeEntryVal T v)) \<and>
    dict_inv T d' \<and> dict_map d' = (dict_map d)(k := None)"
  using d
proof (cases rule: dict_inv_cases)
  case 1
  then show ?thesis using d by (simp add: dictDelete_def dictReset_def dict_map_def entries_def fun_eq_iff)
next
  case (2 n t)
  note facts = in_useD [OF 2]
  let ?c = "t ! home T n k"
  have slot: "slot_of T (dt_sizemask d) k = home T n k" using 2 by (simp add: in_use_def)
  have found: "find_entry T k ?c = map_option (Pair k) (dict_map d k)" using chain_map [OF T facts(7)] facts(6) [of k] by simp
  show ?thesis
  proof (cases "dict_map d k")
    case None
    then show ?thesis using facts(1,3) facts(5) [of k] found by (simp add: dictDelete_def fun_upd_idem)
  next
    case (Some v)
    have len: "Suc (length (unlink_first T k ?c)) = length ?c" using length_unlink_first [of T k ?c] found Some by simp
    have "length ?c \<le> length (concat t)"
      using 2 member_le_sum_list [of "length ?c" "map length t"] by (simp add: in_use_def table_ok_def length_concat)
    then have u: "Suc (dt_used d - 1) = dt_used d" "length ?c \<le> dt_used d" using len facts(4) by linarith+
    have "unat (word_of_int (int (dt_used d) - 1) :: u64) = dt_used d - 1"
    proof -
      have e: "int (dt_used d) - 1 = int (dt_used d - 1)" using u(1) by linarith
      show ?thesis unfolding e of_int_of_nat_eq unat_of_nat using used by simp
    qed
    moreover have homes: "\<forall>e \<in> set ?c. home T n (fst e) = home T n k" using 2 by (simp add: in_use_def table_ok_def)
    note un = unlink_first_map [OF T facts(7) [of k], of k]
    have un': "distinct (map fst (unlink_first T k ?c))" "map_of (unlink_first T k ?c) = (map_of ?c)(k := None)"
      "\<forall>e \<in> set (unlink_first T k ?c). home T n (fst e) = home T n k" using un homes by blast+
    have count: "length (unlink_first T k ?c) + length (concat t) = length ?c + (dt_used d - 1)" using len u facts(4) by linarith
    obtain t' where
      "in_use T ((set_chain d (int (home T n k)) (unlink_first T k ?c))\<lparr>dt_used := dt_used d - 1\<rparr>) n t'"
      "dict_map ((set_chain d (int (home T n k)) (unlink_first T k ?c))\<lparr>dt_used := dt_used d - 1\<rparr>) = (dict_map d)(k := None)"
      using set_chain_ok [OF 2 un'(1,3) count un'(2)] by blast
    ultimately show ?thesis using Some found facts(3) facts(5) [of k] slot in_useD(1) by (auto simp: dictDelete_def)
  qed
qed

subsection \<open>Iterating and releasing\<close>

text \<open>What an iterator has still to return.\<close>

definition remaining :: "('k, 'v) chain list \<Rightarrow> ('k, 'v) dictIterator \<Rightarrow> ('k \<times> 'v) list" where
  "remaining t it = (if it_entry it = [] then [] else it_nextEntry it) @ concat (drop (nat (it_index it + 1)) t)"

definition it_ok :: "nat \<Rightarrow> ('k, 'v) dictIterator \<Rightarrow> bool" where
  "it_ok n it \<longleftrightarrow> - 1 \<le> it_index it \<and> it_index it < 2 ^ n"

lemma dictNext_ok:
  "in_use T d n t \<Longrightarrow> n \<le> 30 \<Longrightarrow> it_ok n it \<Longrightarrow>
    case remaining t it of
      [] \<Rightarrow> \<exists>it'. dictNext d it = Inr (it', None)
    | e # es \<Rightarrow> \<exists>it'. dictNext d it = Inr (it', Some e) \<and> remaining t it' = es \<and> it_ok n it'"
proof (induction d it rule: dictNext.induct)
  case (1 d it)
  let ?i = "it_index it + 1"
  have t: "length t = 2 ^ n" "dt_table d = Some t" "dt_size d = 2 ^ n" using "1.prems"(1) by (simp_all add: in_use_def table_ok_def)
  have "(2 :: nat) ^ n \<le> 2 ^ 30" using "1.prems"(2) by (intro power_increasing) simp_all
  then have sz: "to_int (dt_size d) = 2 ^ n" using to_int_small [of "2 ^ n"] t(3) by simp
  show ?case
  proof (cases "it_entry it = []")
    case empty: True
    show ?thesis
    proof (cases "?i < 2 ^ n")
      case False
      then have "2 ^ n \<le> nat ?i" using "1.prems"(3) by (simp add: it_ok_def le_nat_iff)
      then have "remaining t it = []" using empty t(1) by (simp add: remaining_def)
      then show ?thesis using empty False sz by (subst dictNext.simps) simp
    next
      case True
      then have i: "nat ?i < length t" "0 \<le> ?i" "nat (?i + 1) = Suc (nat ?i)"
        using "1.prems"(3) t(1) by (simp_all add: it_ok_def nat_less_iff)
      have at: "chain_at d ?i = Inr (t ! nat ?i)" using i t(2) by (simp add: chain_at_def)
      have rem: "remaining t it = t ! nat ?i @ concat (drop (Suc (nat ?i)) t)"
        using empty Cons_nth_drop_Suc [OF i(1)] by (simp add: remaining_def) (metis concat.simps(2))
      show ?thesis
      proof (cases "t ! nat ?i")
        case Nil
        let ?it = "it\<lparr>it_index := ?i\<rparr>"
        have r: "remaining t it = remaining t ?it" using rem Nil empty i(3) by (simp add: remaining_def)
        have eq: "dictNext d it = dictNext d ?it" using empty True sz at Nil by (subst dictNext.simps) simp
        have "it_ok n ?it" using True i(2) by (simp add: it_ok_def)
        then show ?thesis unfolding eq r using "1.IH"(1) [OF empty _ _ Nil] "1.prems"(1,2) True sz at by simp
      next
        case (Cons e es)
        let ?it = "it\<lparr>it_index := ?i, it_entry := e # es, it_nextEntry := es\<rparr>"
        have "dictNext d it = Inr (?it, Some e)" using empty True sz at Cons by (subst dictNext.simps) simp
        moreover have "it_ok n ?it" "remaining t ?it = es @ concat (drop (Suc (nat ?i)) t)"
          using True i(2,3) by (simp_all add: it_ok_def remaining_def)
        ultimately show ?thesis using rem Cons by simp
      qed
    qed
  next
    case False
    show ?thesis
    proof (cases "it_nextEntry it")
      case Nil
      let ?it = "it\<lparr>it_entry := []\<rparr>"
      have r: "remaining t it = remaining t ?it" using Nil False by (simp add: remaining_def)
      have eq: "dictNext d it = dictNext d ?it" using False Nil by (subst dictNext.simps) simp
      show ?thesis unfolding eq r using "1.IH"(2) [OF False Nil] "1.prems" by (simp add: it_ok_def)
    next
      case (Cons e es)
      then show ?thesis using False "1.prems"(3) by (subst dictNext.simps) (simp add: remaining_def it_ok_def)
    qed
  qed
qed

text \<open>The loop \<^verbatim>\<open>while ((de = dictNext(it)) != NULL)\<close>, for at most \<open>n\<close> calls.\<close>

fun iterate :: "nat \<Rightarrow> ('k, 'v) dict \<Rightarrow> ('k, 'v) dictIterator \<Rightarrow> ('k \<times> 'v) list option result" where
  "iterate 0 d it = Inr None"
| "iterate (Suc n) d it =
     rbind (dictNext d it) (\<lambda>(it', r).
     case r of None \<Rightarrow> Inr (Some []) | Some e \<Rightarrow> rbind (iterate n d it') (\<lambda>es. Inr (map_option ((#) e) es)))"

lemma iterate_ok:
  "in_use T d n t \<Longrightarrow> n \<le> 30 \<Longrightarrow> it_ok n it \<Longrightarrow> length (remaining t it) < m \<Longrightarrow> iterate m d it = Inr (Some (remaining t it))"
proof (induction m arbitrary: it)
  case (Suc m)
  note step = dictNext_ok [OF Suc.prems(1-3)]
  show ?case
  proof (cases "remaining t it")
    case Nil
    then show ?thesis using step by auto
  next
    case (Cons e es)
    then obtain it' where "dictNext d it = Inr (it', Some e)" "remaining t it' = es" "it_ok n it'" using step by auto
    then show ?thesis using Suc.IH [OF Suc.prems(1,2), of it'] Suc.prems(4) Cons by simp
  qed
qed simp

lemma iterate_entries:
  assumes "dict_inv T d" "dt_size d \<le> 2 ^ 30"
  shows "iterate (Suc (dt_used d)) d \<lparr>it_index = - 1, it_entry = [], it_nextEntry = []\<rparr> = Inr (Some (entries d))"
  using assms(1)
proof (cases rule: dict_inv_cases)
  case 1
  then show ?thesis by (simp add: dictReset_def entries_def dictNext.simps to_int_small)
next
  case (2 n t)
  have "n \<le> 30" using assms(2) in_useD(3) [OF 2] power_le_imp_le_exp [of "2::nat" n 30] by simp
  moreover have "entries d = concat t" "dt_used d = length (concat t)" using 2 by (simp_all add: in_use_def entries_def)
  moreover have "- 1 < (2 :: int) ^ n" by (rule less_trans [of _ 0]) simp_all
  ultimately show ?thesis using iterate_ok [OF 2, of "\<lparr>it_index = - 1, it_entry = [], it_nextEntry = []\<rparr>" "Suc (dt_used d)"]
    by (simp add: it_ok_def remaining_def)
qed

lemma clear_table_ok: "length (concat cs) < 2 ^ 64 \<Longrightarrow> clear_table T cs (word_of_nat (length (concat cs))) = free_chain T (concat cs)"
proof (induction cs)
  case (Cons c cs)
  show ?case
  proof (cases "concat (c # cs) = []")
    case True
    show ?thesis unfolding True by (simp add: free_chain_def)
  next
    case False
    then have "0 < length (concat (c # cs))" by (simp only: length_greater_0_conv not_False_eq_True)
    then have "(0 :: u64) < word_of_nat (length (concat (c # cs)))"
      using Cons.prems by (simp only: word_less_nat_alt unat_of_nat unat_0) simp
    moreover have "(word_of_nat (length (concat (c # cs))) :: u64) - word_of_nat (length c) = word_of_nat (length (concat cs))" by simp
    ultimately have "clear_table T (c # cs) (word_of_nat (length (concat (c # cs)))) = free_chain T c @ clear_table T cs (word_of_nat (length (concat cs)))"
      by (simp del: concat.simps)
    then show ?thesis using Cons by (simp add: free_chain_def)
  qed
qed (simp add: free_chain_def)

lemma dictRelease_ok:
  assumes "dict_inv T d" "dt_used d < 2 ^ 64"
  shows "dictRelease T d = Inr (free_chain T (entries d))"
  using assms(1)
proof (cases rule: dict_inv_cases)
  case 1
  then show ?thesis by (simp add: dictRelease_def dictClear_def dictReset_def slots_def entries_def free_chain_def)
next
  case (2 n t)
  then have "slots d = Inr t" "dt_used d = length (concat t)" "entries d = concat t" by (simp_all add: in_use_def slots_def entries_def)
  then show ?thesis using clear_table_ok [of t T] assms(2) by (simp add: dictRelease_def dictClear_def)
qed

subsection \<open>The hash table is a map\<close>

text \<open>
  C5. The hash table of hiredis refines a finite map. For a type that compares keys by equality, on a
  table in good order of at most \<open>2\<^sup>3\<^sup>0\<close> slots, lookup returns what the map holds; adding fails exactly on a
  key that is there; replacing reports whether the key is new and destroys exactly the old value;
  deleting destroys exactly the removed key and value; each operation leaves a table in good order
  that holds the updated map, whether or not the table grew.
\<close>

theorem dict_refines:
  assumes "\<And>m. al_ok A m" and "plain_type T" and "dict_inv T d" and "dt_used d < 2 ^ 30" "dt_size d \<le> 2 ^ 30"
  shows "dictFind T d k = Inr (map_option (Pair k) (dict_map d k)) \<and>
    (\<exists>d'. dictAdd A T d k v = Inr (d', if dict_map d k = None then DICT_OK else DICT_ERR) \<and> dict_inv T d' \<and>
      dict_map d' = (if dict_map d k = None then (dict_map d)(k \<mapsto> v) else dict_map d)) \<and>
    (\<exists>d'. dictReplace A T d k v = Inr (d', case dict_map d k of None \<Rightarrow> (1, []) | Some old \<Rightarrow> (0, dictFreeEntryVal T old)) \<and>
      dict_inv T d' \<and> dict_map d' = (dict_map d)(k \<mapsto> v)) \<and>
    (\<exists>d'. dictDelete T d k = Inr (d', case dict_map d k of
        None \<Rightarrow> (DICT_ERR, []) | Some v \<Rightarrow> (DICT_OK, dictFreeEntryKey T k @ dictFreeEntryVal T v)) \<and>
      dict_inv T d' \<and> dict_map d' = (dict_map d)(k := None))"
proof -
  have "dt_used d < 2 ^ 64" using assms(4) by simp
  then show ?thesis using dictFind_ok [OF assms(2,3), of k] dictAdd_ok [OF assms, of k v] dictReplace_ok [OF assms, of k v]
      dictDelete_ok [OF assms(2,3), of k] by blast
qed

text \<open>
  C40. Every entry exactly once. The loop over an iterator ends after one call more than there are
  entries and has then returned each entry of the map once; \<^verbatim>\<open>dictRelease\<close> destroys the key and the value
  of each entry once and no others.
\<close>

theorem dict_visited_once:
  assumes "al_ok A 32" and "dict_inv T d" and "dt_used d < 2 ^ 30" "dt_size d \<le> 2 ^ 30"
  shows "\<exists>it es. dictGetIterator A = Inr it \<and> iterate (Suc (dt_used d)) d it = Inr (Some es) \<and>
    distinct (map fst es) \<and> map_of es = dict_map d \<and>
    dictRelease T d = Inr (concat (map (\<lambda>(k, v). dictFreeEntryKey T k @ dictFreeEntryVal T v) es))"
proof -
  have "distinct (map fst (entries d))" using assms(2)
  proof (cases rule: dict_inv_cases)
    case (2 n t)
    then show ?thesis using distinct_concat_keys [of T n t] by (simp add: in_use_def entries_def)
  qed (simp add: dictReset_def entries_def)
  moreover have "dt_used d < 2 ^ 64" using assms(3) by simp
  ultimately show ?thesis using assms(1) iterate_entries [OF assms(2,4)] dictRelease_ok [OF assms(2)]
    by (simp add: dictGetIterator_def dict_map_def free_chain_def)
qed

definition sample_type :: "(string, nat) dictType" where
  "sample_type = \<lparr>hashFunction = dictGenHashFunction, keyDup = None, valDup = None, keyCompare = None,
     keyDestructor = True, valDestructor = True\<rparr>"

lemma sample_plain: "plain_type sample_type"
  by (simp add: plain_type_def sample_type_def dictCompareHashKeys_def dictSetHashKey_def dictSetHashVal_def)

lemma dict_inv_reset: "dict_inv T dictReset"
  by (simp add: dict_inv_def dictReset_def)

lemma reset_empty: "dict_map dictReset = Map.empty" "dt_used dictReset = 0" "dt_size dictReset = 0"
  by (simp_all add: dict_map_def entries_def dictReset_def)

theorem dict_refines_witness:
  "\<exists>d. dictAdd any_memory sample_type dictReset ''a'' 1 = Inr (d, DICT_OK) \<and> dict_map d = [''a'' \<mapsto> 1]"
proof -
  have A: "\<And>m. al_ok any_memory m" by (simp add: any_memory_def)
  from dict_refines [OF A sample_plain dict_inv_reset, of "''a''" 1] show ?thesis by (auto simp: reset_empty)
qed

theorem dict_visited_once_witness:
  "\<exists>d it es. dict_map d = [''a'' \<mapsto> 1] \<and> iterate 2 d it = Inr (Some es) \<and> map_of es = [''a'' \<mapsto> 1] \<and>
    dictRelease sample_type d = Inr (concat (map (\<lambda>(k, v). [Inl k, Inr v]) es))"
proof -
  have A: "\<And>m. al_ok any_memory m" by (simp add: any_memory_def)
  obtain d where d: "dict_inv sample_type d" "dict_map d = [''a'' \<mapsto> 1]" "dt_used d = 1" "dt_size d \<le> 2 ^ 30"
  proof -
    let ?d = "\<lparr>dt_table = Some [[], [], [(''a'', 1 :: nat)], []], dt_size = 4, dt_sizemask = 3, dt_used = 1\<rparr>"
    have "home sample_type 2 ''a'' = 2"
      by (simp add: home_def sample_type_def dictGenHashFunction_def push_bit_eq_mult unat_word_ariths)
    then have "table_ok sample_type 2 [[], [], [(''a'', 1)], []]" by (auto simp: table_ok_def numeral_eq_Suc less_Suc_eq nth_Cons')
    then have "dict_inv sample_type ?d" by (auto simp: dict_inv_def intro!: exI [of _ 2])
    then show thesis by (rule that) (simp_all add: dict_map_def entries_def)
  qed
  from dict_visited_once [OF A d(1) _ d(4)] d(2,3) obtain it es where
    "iterate (Suc 1) d it = Inr (Some es)" "map_of es = [''a'' \<mapsto> 1]"
    "dictRelease sample_type d = Inr (concat (map (\<lambda>(k, v). dictFreeEntryKey sample_type k @ dictFreeEntryVal sample_type v) es))" by auto
  then show ?thesis using d(2) by (auto simp: dictFreeEntryKey_def dictFreeEntryVal_def sample_type_def numeral_2_eq_2)
qed

end
