(* ===== verification/Redis_Async.thy ===== *)
theory Redis_Async
  imports Redis_Command Redis_Connect Dict_Laws
begin

text \<open>
  The asynchronous interface of hiredis (\<^verbatim>\<open>redis/hiredis/async.h\<close>, \<^verbatim>\<open>async.c\<close>). The state holds the asynchronous
  context (none once it is freed: every later use is an \<open>InvalidAccess\<close>), the socket, the reply
  objects, a log of what the library called, and the state of the user's program. A function
  pointer is a number, 0 the null pointer; what the user's callbacks do is a parameter: a callback
  reads the reply and calls functions of the interface on the context it is given.
\<close>

subsection \<open>Data\<close>

record redisCallback =
  cb_fn :: nat
  cb_privdata :: nat

datatype ev_hook = EvAddRead | EvDelRead | EvAddWrite | EvDelWrite | EvCleanup

text \<open>A callback list is the list of its elements from \<^verbatim>\<open>head\<close> to \<^verbatim>\<open>tail\<close>; a dictionary key is the bytes of
  its dynamic string.\<close>

record redisAsyncContext =
  ac_c :: redisContext
  ac_err :: int
  ac_ev :: "ev_hook set"
  ac_onDisconnect :: nat
  ac_onConnect :: nat
  ac_replies :: "redisCallback list"
  ac_invalid :: "redisCallback list"
  ac_channels :: "(string, redisCallback) dict"
  ac_patterns :: "(string, redisCallback) dict"

datatype async_event =
    Ran redisCallback nat
  | Hook ev_hook
  | ConnectStatus nat bool
  | DisconnectStatus nat bool
  | Closed int

record 's async_state =
  as_ac :: "redisAsyncContext option"
  as_so :: socket
  as_h :: reply_heap
  as_log :: "async_event list"
  as_user :: 's
  as_os :: os

text \<open>What a callback may do with the context.\<close>

datatype async_action =
    DoCommand nat nat string
  | DoDisconnect
  | DoFree
  | DoSetDisconnectCallback nat

record 's async_user =
  us_callback :: "nat \<Rightarrow> reply_heap \<Rightarrow> nat \<Rightarrow> nat \<Rightarrow> 's \<Rightarrow> async_action list \<times> 's"
  us_status :: "nat \<Rightarrow> bool \<Rightarrow> 's \<Rightarrow> 's"

definition logged :: "async_event list \<Rightarrow> 's async_state \<Rightarrow> 's async_state" where
  "logged es w = w\<lparr>as_log := as_log w @ es\<rparr>"

definition set_flags :: "(redis_flag set \<Rightarrow> redis_flag set) \<Rightarrow> redisAsyncContext \<Rightarrow> redisAsyncContext" where
  "set_flags f ac = ac\<lparr>ac_c := (ac_c ac)\<lparr>rc_flags := f (rc_flags (ac_c ac))\<rparr>\<rparr>"

definition has_flag :: "redis_flag \<Rightarrow> redisAsyncContext \<Rightarrow> bool" where
  "has_flag f ac \<longleftrightarrow> f \<in> rc_flags (ac_c ac)"

definition with_ac :: "'s async_state \<Rightarrow> (redisAsyncContext \<Rightarrow> 'a result) \<Rightarrow> 'a result" where
  "with_ac w k = (case as_ac w of None \<Rightarrow> Inl InvalidAccess | Some ac \<Rightarrow> k ac)"

definition put_ac :: "redisAsyncContext \<Rightarrow> 's async_state \<Rightarrow> 's async_state" where
  "put_ac ac w = w\<lparr>as_ac := Some ac\<rparr>"

text \<open>The macros \<^verbatim>\<open>_EL_ADD_READ\<close> and so on call a hook that is set.\<close>

definition call_hook :: "ev_hook \<Rightarrow> redisAsyncContext \<Rightarrow> 's async_state \<Rightarrow> 's async_state" where
  "call_hook h ac w = (if h \<in> ac_ev ac then logged [Hook h] w else w)"

subsection \<open>The dictionaries of callbacks\<close>

definition callbackHash :: "string \<Rightarrow> u32" where
  "callbackHash key = dictGenHashFunction key"

definition callbackValDup :: "redisCallback \<Rightarrow> redisCallback" where
  "callbackValDup src = src"

definition callbackKeyCompare :: "string \<Rightarrow> string \<Rightarrow> bool" where
  "callbackKeyCompare key1 key2 = (length key1 = length key2 \<and> take (length key1) key1 = take (length key1) key2)"

definition callbackDict :: "(string, redisCallback) dictType" where
  "callbackDict =
     \<lparr>hashFunction = callbackHash, keyDup = None, valDup = Some callbackValDup, keyCompare = Some callbackKeyCompare,
      keyDestructor = True, valDestructor = True\<rparr>"

text \<open>A released dictionary: every use of it fails.\<close>

definition released_dict :: "(string, redisCallback) dict" where
  "released_dict = \<lparr>dt_table = None, dt_size = 1, dt_sizemask = 0, dt_used = 1\<rparr>"

subsection \<open>Opening\<close>

definition redisAsyncInitialize :: "allocator \<Rightarrow> redisContext \<Rightarrow> redisAsyncContext option result" where
  "redisAsyncInitialize A c =
     (if \<not> al_ok A 376 then Inr None
      else
        rbind (dictCreate A) (\<lambda>channels.
        rbind (dictCreate A) (\<lambda>patterns.
        Inr (Some \<lparr>ac_c = c\<lparr>rc_flags := rc_flags c - {CONNECTED}\<rparr>, ac_err = 0, ac_ev = {}, ac_onDisconnect = 0, ac_onConnect = 0,
                   ac_replies = [], ac_invalid = [], ac_channels = channels, ac_patterns = patterns\<rparr>))))"

definition redisAsyncCopyError :: "redisAsyncContext \<Rightarrow> redisAsyncContext" where
  "redisAsyncCopyError ac = ac\<lparr>ac_err := rc_err (ac_c ac)\<rparr>"

text \<open>Both functions that connect give the context up when it cannot be enlarged.\<close>

definition async_of ::
  "allocator \<Rightarrow> reply_fns \<Rightarrow> connection \<Rightarrow> reply_heap \<Rightarrow> (redisAsyncContext option \<times> os \<times> reply_heap) result" where
  "async_of A fn conn h =
     rbind conn (\<lambda>(c, w).
     case c of
       None \<Rightarrow> Inr (None, w, h)
     | Some c \<Rightarrow>
         rbind (redisAsyncInitialize A c) (\<lambda>ac.
         case ac of
           None \<Rightarrow> rbind (redisFree fn (Some c) h) (\<lambda>(fds, h'). Inr (None, fold sys_close fds w, h'))
         | Some ac \<Rightarrow> Inr (Some (redisAsyncCopyError ac), w, h)))"

definition redisAsyncConnect ::
  "allocator \<Rightarrow> net_env \<Rightarrow> reply_fns \<Rightarrow> string \<Rightarrow> int \<Rightarrow> os \<Rightarrow> reply_heap \<Rightarrow> (redisAsyncContext option \<times> os \<times> reply_heap) result" where
  "redisAsyncConnect A N fn ip port w h = async_of A fn (redisConnectNonBlock A N ip port w) h"

definition redisAsyncConnectUnix ::
  "allocator \<Rightarrow> net_env \<Rightarrow> reply_fns \<Rightarrow> string \<Rightarrow> os \<Rightarrow> reply_heap \<Rightarrow> (redisAsyncContext option \<times> os \<times> reply_heap) result" where
  "redisAsyncConnectUnix A N fn path w h = async_of A fn (redisConnectUnixNonBlock A N path w) h"

text \<open>The functions that bind a source address do not test what they get.\<close>

definition async_bound :: "allocator \<Rightarrow> connection \<Rightarrow> (redisAsyncContext option \<times> os) result" where
  "async_bound A conn =
     rbind conn (\<lambda>(c, w).
     case c of
       None \<Rightarrow> Inl InvalidAccess
     | Some c \<Rightarrow> rbind (redisAsyncInitialize A c) (\<lambda>ac. Inr (map_option redisAsyncCopyError ac, w)))"

definition redisAsyncConnectBind ::
  "allocator \<Rightarrow> net_env \<Rightarrow> string \<Rightarrow> int \<Rightarrow> string \<Rightarrow> os \<Rightarrow> (redisAsyncContext option \<times> os) result" where
  "redisAsyncConnectBind A N ip port source_addr w = async_bound A (redisConnectBindNonBlock A N ip port source_addr w)"

definition redisAsyncConnectBindWithReuse ::
  "allocator \<Rightarrow> net_env \<Rightarrow> string \<Rightarrow> int \<Rightarrow> string \<Rightarrow> os \<Rightarrow> (redisAsyncContext option \<times> os) result" where
  "redisAsyncConnectBindWithReuse A N ip port source_addr w =
     async_bound A (redisConnectBindNonBlockWithReuse A N ip port source_addr w)"

definition redisAsyncSetConnectCallback :: "nat \<Rightarrow> 's async_state \<Rightarrow> ('s async_state \<times> bool) result" where
  "redisAsyncSetConnectCallback fn w =
     with_ac w (\<lambda>ac.
     if ac_onConnect ac = 0 then
       (let ac' = ac\<lparr>ac_onConnect := fn\<rparr> in Inr (call_hook EvAddWrite ac' (put_ac ac' w), True))
     else Inr (w, False))"

definition redisAsyncSetDisconnectCallback :: "nat \<Rightarrow> 's async_state \<Rightarrow> ('s async_state \<times> bool) result" where
  "redisAsyncSetDisconnectCallback fn w =
     with_ac w (\<lambda>ac.
     if ac_onDisconnect ac = 0 then Inr (put_ac (ac\<lparr>ac_onDisconnect := fn\<rparr>) w, True) else Inr (w, False))"

subsection \<open>Callback lists\<close>

text \<open>The result tells whether there was memory.\<close>

definition redisPushCallback :: "allocator \<Rightarrow> redisCallback list \<Rightarrow> redisCallback \<Rightarrow> redisCallback list \<times> bool" where
  "redisPushCallback A cbs source = (if al_ok A 24 then (cbs @ [source], True) else (cbs, False))"

fun redisShiftCallback :: "redisCallback list \<Rightarrow> (redisCallback \<times> redisCallback list) option" where
  "redisShiftCallback [] = None"
| "redisShiftCallback (cb # cbs) = Some (cb, cbs)"

subsection \<open>Commands\<close>

text \<open>\<^verbatim>\<open>strchr\<close> from a position of a buffer, for a character other than NUL.\<close>

definition strchr_from :: "string \<Rightarrow> nat \<Rightarrow> char \<Rightarrow> nat option result" where
  "strchr_from buf start ch =
     (let i = start + length (takeWhile (\<lambda>x. x \<noteq> ch \<and> x \<noteq> NUL) (drop start buf)) in
      if i < length buf then Inr (if buf ! i = ch then Some i else None) else Inl InvalidAccess)"

text \<open>\<^verbatim>\<open>strtol\<close> in base 10, cast to \<^verbatim>\<open>int\<close>.\<close>

definition strtol_int :: "string \<Rightarrow> int" where
  "strtol_int s =
     (let (neg, t) = split_sign (dropWhile isspace s);
          v = (if neg then - int (digits_val (takeWhile isdigit t)) else int (digits_val (takeWhile isdigit t))) in
      sint (word_of_int (max (- (2 ^ 63)) (min (2 ^ 63 - 1) v)) :: u32))"

text \<open>The position behind the argument, the position of its bytes, and its length.\<close>

definition nextArgument :: "string \<Rightarrow> nat \<Rightarrow> (nat \<times> nat \<times> int) option result" where
  "nextArgument buf start =
     (if length buf \<le> start then Inl InvalidAccess
      else
        rbind (if buf ! start \<noteq> CHR ''$'' then strchr_from buf start (CHR ''$'') else Inr (Some start)) (\<lambda>p.
        case p of
          None \<Rightarrow> Inr None
        | Some p \<Rightarrow>
            (let len = strtol_int (drop (p + 1) buf) in
             rbind (strchr_from buf p CR) (\<lambda>q.
             case q of
               None \<Rightarrow> Inl AssertFailure
             | Some q \<Rightarrow>
                 (let nxt = int q + 2 + len + 2 in
                  if 0 \<le> nxt \<and> nxt \<le> int (length buf) then Inr (Some (nat nxt, q + 2, len)) else Inl InvalidAccess)))))"

text \<open>\<^verbatim>\<open>strncasecmp(s, t, strlen(t)) == 0\<close> for a lower-case \<^verbatim>\<open>t\<close>.\<close>

definition starts_with_word :: "string \<Rightarrow> string \<Rightarrow> bool" where
  "starts_with_word s t \<longleftrightarrow> map tolower (take (length t) s) = t"

definition subs_of :: "bool \<Rightarrow> redisAsyncContext \<Rightarrow> (string, redisCallback) dict" where
  "subs_of pvariant ac = (if pvariant then ac_patterns ac else ac_channels ac)"

definition set_subs :: "bool \<Rightarrow> (string, redisCallback) dict \<Rightarrow> redisAsyncContext \<Rightarrow> redisAsyncContext" where
  "set_subs pvariant d ac = (if pvariant then ac\<lparr>ac_patterns := d\<rparr> else ac\<lparr>ac_channels := d\<rparr>)"

text \<open>The loop over the channels of a subscription. The next position depends on the position only, so
  a loop of more steps than the buffer has positions comes back to one and never ends.\<close>

fun add_subscriptions ::
  "allocator \<Rightarrow> bool \<Rightarrow> redisCallback \<Rightarrow> string \<Rightarrow> nat \<Rightarrow> nat \<Rightarrow> redisAsyncContext \<Rightarrow> redisAsyncContext result" where
  "add_subscriptions A pvariant cb cmd 0 p ac = Inl Deadlock"
| "add_subscriptions A pvariant cb cmd (Suc n) p ac =
     rbind (nextArgument cmd p) (\<lambda>r.
     case r of
       None \<Rightarrow> Inr ac
     | Some (p', astr, alen) \<Rightarrow>
         if alen < 0 \<or> \<not> al_ok A (nat alen + 9) then Inl InvalidAccess
         else
           rbind (peek (drop astr cmd) (nat alen)) (\<lambda>sname.
           rbind (dictReplace A callbackDict (subs_of pvariant ac) sname cb) (\<lambda>(d, _).
           add_subscriptions A pvariant cb cmd n p' (set_subs pvariant d ac))))"

text \<open>Registering the callback; \<open>None\<close> is the refusal to unsubscribe.\<close>

definition register_callback ::
  "allocator \<Rightarrow> redisCallback \<Rightarrow> string \<Rightarrow> nat \<Rightarrow> bool \<Rightarrow> string \<Rightarrow> redisAsyncContext \<Rightarrow> redisAsyncContext option result" where
  "register_callback A cb cmd p pvariant name ac =
     (if cmd ! p = CHR ''$'' \<and> starts_with_word name (''subscribe'' @ [CR, LF]) then
        rbind (add_subscriptions A pvariant cb cmd (Suc (length cmd)) p (set_flags (insert SUBSCRIBED) ac)) (\<lambda>ac'. Inr (Some ac'))
      else if starts_with_word name (''unsubscribe'' @ [CR, LF]) then
        Inr (if has_flag SUBSCRIBED ac then Some ac else None)
      else if starts_with_word name (''monitor'' @ [CR, LF]) then
        (let ac' = set_flags (insert MONITORING) ac in
         Inr (Some (ac'\<lparr>ac_replies := fst (redisPushCallback A (ac_replies ac') cb)\<rparr>)))
      else if has_flag SUBSCRIBED ac then Inr (Some (ac\<lparr>ac_invalid := fst (redisPushCallback A (ac_invalid ac) cb)\<rparr>))
      else Inr (Some (ac\<lparr>ac_replies := fst (redisPushCallback A (ac_replies ac) cb)\<rparr>)))"

definition asyncCommand ::
  "allocator \<Rightarrow> nat \<Rightarrow> nat \<Rightarrow> string \<Rightarrow> nat \<Rightarrow> 's async_state \<Rightarrow> ('s async_state \<times> bool) result" where
  "asyncCommand A fn privdata cmd len w =
     with_ac w (\<lambda>ac.
     if has_flag DISCONNECTING ac \<or> has_flag FREEING ac then Inr (w, False)
     else
       rbind (nextArgument cmd 0) (\<lambda>r.
       case r of
         None \<Rightarrow> Inl AssertFailure
       | Some (p, cstr, clen) \<Rightarrow>
           if length cmd \<le> p \<or> length cmd \<le> cstr then Inl InvalidAccess
           else
             (let pvariant = (tolower (cmd ! cstr) = CHR ''p''); name = drop (if pvariant then cstr + 1 else cstr) cmd in
              rbind (register_callback A \<lparr>cb_fn = fn, cb_privdata = privdata\<rparr> cmd p pvariant name ac) (\<lambda>r.
              case r of
                None \<Rightarrow> Inr (w, False)
              | Some ac1 \<Rightarrow>
                  rbind (appendCommand A (ac_c ac1) cmd len) (\<lambda>(c, _).
                  let ac2 = ac1\<lparr>ac_c := c\<rparr> in Inr (call_hook EvAddWrite ac2 (put_ac ac2 w), True))))))"

definition redisvAsyncCommand ::
  "allocator \<Rightarrow> (string \<Rightarrow> vararg list \<Rightarrow> string) \<Rightarrow> nat \<Rightarrow> nat \<Rightarrow> string \<Rightarrow> vararg list \<Rightarrow> 's async_state \<Rightarrow> ('s async_state \<times> bool) result" where
  "redisvAsyncCommand A pf fn privdata format ap w =
     rbind (redisvFormatCommand A pf format ap) (\<lambda>(len, cmd).
     if len < 0 then Inr (w, False) else asyncCommand A fn privdata cmd (nat len) w)"

definition redisAsyncCommand ::
  "allocator \<Rightarrow> (string \<Rightarrow> vararg list \<Rightarrow> string) \<Rightarrow> nat \<Rightarrow> nat \<Rightarrow> string \<Rightarrow> vararg list \<Rightarrow> 's async_state \<Rightarrow> ('s async_state \<times> bool) result" where
  "redisAsyncCommand A pf fn privdata format ap w = redisvAsyncCommand A pf fn privdata format ap w"

text \<open>The length is not tested: without memory the command is not initialised.\<close>

definition redisAsyncCommandArgv ::
  "allocator \<Rightarrow> nat \<Rightarrow> nat \<Rightarrow> string list \<Rightarrow> nat list option \<Rightarrow> 's async_state \<Rightarrow> ('s async_state \<times> bool) result" where
  "redisAsyncCommandArgv A fn privdata argv argvlen w =
     rbind (redisFormatSdsCommandArgv A argv argvlen) (\<lambda>(len, cmd).
     case cmd of None \<Rightarrow> Inl InvalidAccess | Some s \<Rightarrow> asyncCommand A fn privdata (sd_buf s) (nat len) w)"

definition redisAsyncFormattedCommand ::
  "allocator \<Rightarrow> nat \<Rightarrow> nat \<Rightarrow> string \<Rightarrow> nat \<Rightarrow> 's async_state \<Rightarrow> ('s async_state \<times> bool) result" where
  "redisAsyncFormattedCommand A fn privdata cmd len w = asyncCommand A fn privdata cmd len w"

subsection \<open>Running callbacks\<close>

text \<open>The actions of a callback. While \<^verbatim>\<open>REDIS_IN_CALLBACK\<close> is set, \<^verbatim>\<open>redisAsyncFree\<close> and \<^verbatim>\<open>redisAsyncDisconnect\<close>
  only set their flag.\<close>

fun do_action :: "allocator \<Rightarrow> async_action \<Rightarrow> 's async_state \<Rightarrow> 's async_state result" where
  "do_action A (DoCommand fn privdata cmd) w =
     rbind (redisAsyncFormattedCommand A fn privdata (cmd @ [NUL]) (length cmd) w) (\<lambda>(w', _). Inr w')"
| "do_action A DoDisconnect w = with_ac w (\<lambda>ac. Inr (put_ac (set_flags (insert DISCONNECTING) ac) w))"
| "do_action A DoFree w = with_ac w (\<lambda>ac. Inr (put_ac (set_flags (insert FREEING) ac) w))"
| "do_action A (DoSetDisconnectCallback fn) w = rbind (redisAsyncSetDisconnectCallback fn w) (\<lambda>(w', _). Inr w')"

fun do_actions :: "allocator \<Rightarrow> async_action list \<Rightarrow> 's async_state \<Rightarrow> 's async_state result" where
  "do_actions A [] w = Inr w"
| "do_actions A (a # as) w = rbind (do_action A a w) (do_actions A as)"

definition redisRunCallback ::
  "allocator \<Rightarrow> 's async_user \<Rightarrow> redisCallback \<Rightarrow> nat \<Rightarrow> 's async_state \<Rightarrow> 's async_state result" where
  "redisRunCallback A P cb reply w =
     with_ac w (\<lambda>ac.
     if cb_fn cb = 0 then Inr w
     else
       (let (acts, u) = us_callback P (cb_fn cb) (as_h w) reply (cb_privdata cb) (as_user w) in
        rbind (do_actions A acts ((logged [Ran cb reply] (put_ac (set_flags (insert IN_CALLBACK) ac) w))\<lparr>as_user := u\<rparr>)) (\<lambda>w1.
        with_ac w1 (\<lambda>ac1. Inr (put_ac (set_flags (\<lambda>F. F - {IN_CALLBACK}) ac1) w1)))))"

subsection \<open>Freeing and disconnecting\<close>

text \<open>Loops over callbacks may go on for ever (\<open>None\<close>), when callbacks register callbacks.\<close>

definition obind :: "'a result option \<Rightarrow> ('a \<Rightarrow> 'b result option) \<Rightarrow> 'b result option" where
  "obind m f = (case m of None \<Rightarrow> None | Some (Inl e) \<Rightarrow> Some (Inl e) | Some (Inr x) \<Rightarrow> f x)"

lemma obind_simps [simp]: "obind None f = None" "obind (Some (Inl e)) f = Some (Inl e)" "obind (Some (Inr x)) f = f x"
  by (simp_all add: obind_def)

partial_function (option) run_list ::
  "allocator \<Rightarrow> 's async_user \<Rightarrow> (redisAsyncContext \<Rightarrow> redisCallback list) \<Rightarrow> (redisCallback list \<Rightarrow> redisAsyncContext \<Rightarrow> redisAsyncContext) \<Rightarrow>
   's async_state \<Rightarrow> 's async_state result option" where
  "run_list A P get_list set_list w =
     (case as_ac w of
        None \<Rightarrow> Some (Inl InvalidAccess)
      | Some ac \<Rightarrow>
          (case redisShiftCallback (get_list ac) of
             None \<Rightarrow> Some (Inr w)
           | Some p \<Rightarrow>
               (case redisRunCallback A P (fst p) 0 (put_ac (set_list (snd p) ac) w) of
                  Inl e \<Rightarrow> Some (Inl e)
                | Inr w' \<Rightarrow> run_list A P get_list set_list w')))"

partial_function (option) run_subs ::
  "allocator \<Rightarrow> 's async_user \<Rightarrow> bool \<Rightarrow> (string, redisCallback) dictIterator \<Rightarrow> 's async_state \<Rightarrow> 's async_state result option" where
  "run_subs A P pvariant it w =
     (case as_ac w of
        None \<Rightarrow> Some (Inl InvalidAccess)
      | Some ac \<Rightarrow>
          (case dictNext (subs_of pvariant ac) it of
             Inl e \<Rightarrow> Some (Inl e)
           | Inr r \<Rightarrow>
               (case snd r of
                  None \<Rightarrow> Some (Inr w)
                | Some de \<Rightarrow>
                    (case redisRunCallback A P (snd de) 0 w of
                       Inl e \<Rightarrow> Some (Inl e)
                     | Inr w' \<Rightarrow> run_subs A P pvariant (fst r) w'))))"

definition free_subs :: "allocator \<Rightarrow> 's async_user \<Rightarrow> bool \<Rightarrow> 's async_state \<Rightarrow> 's async_state result option" where
  "free_subs A P pvariant w =
     obind (Some (dictGetIterator A)) (\<lambda>it.
     obind (run_subs A P pvariant it w) (\<lambda>w1.
     Some (with_ac w1 (\<lambda>ac.
       rbind (dictRelease callbackDict (subs_of pvariant ac)) (\<lambda>_. Inr (put_ac (set_subs pvariant released_dict ac) w1))))))"

text \<open>The end of \<^verbatim>\<open>__redisAsyncFree\<close>: the event library, the disconnect callback, the context itself.\<close>

definition cleanup_self :: "reply_fns \<Rightarrow> 's async_user \<Rightarrow> 's async_state \<Rightarrow> 's async_state result" where
  "cleanup_self fn P w =
     with_ac w (\<lambda>ac.
     let w1 = call_hook EvCleanup ac w;
         status = (has_flag FREEING ac \<or> ac_err ac = 0);
         w2 = (if ac_onDisconnect ac \<noteq> 0 \<and> has_flag CONNECTED ac
               then logged [DisconnectStatus (ac_onDisconnect ac) status] (w1\<lparr>as_user := us_status P (ac_onDisconnect ac) status (as_user w1)\<rparr>)
               else w1) in
     rbind (redisFree fn (Some (ac_c ac)) (as_h w2)) (\<lambda>(closed, h).
     Inr (logged (map Closed closed) (w2\<lparr>as_ac := None, as_h := h\<rparr>))))"

definition asyncFree :: "allocator \<Rightarrow> reply_fns \<Rightarrow> 's async_user \<Rightarrow> 's async_state \<Rightarrow> 's async_state result option" where
  "asyncFree A fn P w =
     obind (run_list A P ac_replies (\<lambda>cbs. ac_replies_update (\<lambda>_. cbs)) w) (\<lambda>w1.
     obind (run_list A P ac_invalid (\<lambda>cbs. ac_invalid_update (\<lambda>_. cbs)) w1) (\<lambda>w2.
     obind (free_subs A P False w2) (\<lambda>w3.
     obind (free_subs A P True w3) (\<lambda>w4.
     Some (cleanup_self fn P w4)))))"

definition redisAsyncFree :: "allocator \<Rightarrow> reply_fns \<Rightarrow> 's async_user \<Rightarrow> 's async_state \<Rightarrow> 's async_state result option" where
  "redisAsyncFree A fn P w =
     (case as_ac w of
        None \<Rightarrow> Some (Inl InvalidAccess)
      | Some ac \<Rightarrow>
          (let w' = put_ac (set_flags (insert FREEING) ac) w in
           if \<not> has_flag IN_CALLBACK ac then asyncFree A fn P w' else Some (Inr w')))"

definition asyncDisconnect :: "allocator \<Rightarrow> reply_fns \<Rightarrow> 's async_user \<Rightarrow> 's async_state \<Rightarrow> 's async_state result option" where
  "asyncDisconnect A fn P w =
     (case as_ac w of
        None \<Rightarrow> Some (Inl InvalidAccess)
      | Some ac \<Rightarrow>
          (let ac1 = redisAsyncCopyError ac in
           if ac_err ac1 = 0 then
             (if redisShiftCallback (ac_replies ac1) = None then asyncFree A fn P (put_ac ac1 w) else Some (Inl AssertFailure))
           else asyncFree A fn P (put_ac (set_flags (insert DISCONNECTING) ac1) w)))"

definition redisAsyncDisconnect :: "allocator \<Rightarrow> reply_fns \<Rightarrow> 's async_user \<Rightarrow> 's async_state \<Rightarrow> 's async_state result option" where
  "redisAsyncDisconnect A fn P w =
     (case as_ac w of
        None \<Rightarrow> Some (Inl InvalidAccess)
      | Some ac \<Rightarrow>
          (let w' = put_ac (set_flags (insert DISCONNECTING) ac) w in
           if \<not> has_flag IN_CALLBACK ac \<and> ac_replies ac = [] then asyncDisconnect A fn P w' else Some (Inr w')))"

subsection \<open>Replies\<close>

definition element_obj :: "reply_heap \<Rightarrow> redisReply \<Rightarrow> nat \<Rightarrow> redisReply result" where
  "element_obj h r i =
     (case ry_element r of
        None \<Rightarrow> Inl InvalidAccess
      | Some es \<Rightarrow> if i < length es then reply_object h (es ! i) else Inl InvalidAccess)"

definition str_of :: "redisReply \<Rightarrow> string result" where
  "str_of r = (case ry_str r of None \<Rightarrow> Inl InvalidAccess | Some s \<Rightarrow> if s = [] then Inl InvalidAccess else Inr s)"

definition redisGetSubscribeCallback ::
  "allocator \<Rightarrow> reply_heap \<Rightarrow> nat \<Rightarrow> redisCallback \<Rightarrow> redisAsyncContext \<Rightarrow> (redisAsyncContext \<times> redisCallback) result" where
  "redisGetSubscribeCallback A h reply dstcb ac =
     rbind (reply_object h reply) (\<lambda>r.
     if ry_type r = REDIS_REPLY_ARRAY then
       (if ry_elements r < 2 then Inl AssertFailure
        else
          rbind (element_obj h r 0) (\<lambda>e0.
          if ry_type e0 \<noteq> REDIS_REPLY_STRING then Inl AssertFailure
          else
            rbind (str_of e0) (\<lambda>stype.
            let pvariant = (tolower (hd stype) = CHR ''p''); callbacks = subs_of pvariant ac in
            rbind (element_obj h r 1) (\<lambda>e1.
            if ry_type e1 \<noteq> REDIS_REPLY_STRING then Inl AssertFailure
            else
              rbind (str_of e1) (\<lambda>nm.
              rbind (peek nm (nat (ry_len e1))) (\<lambda>sname.
              if \<not> al_ok A (length sname + 9) then Inl InvalidAccess
              else
                rbind (dictFind callbackDict callbacks sname) (\<lambda>de.
                case de of
                  None \<Rightarrow> Inr (ac, dstcb)
                | Some (_, cb) \<Rightarrow>
                    if map tolower (c_str (if pvariant then tl stype else stype)) = ''unsubscribe'' then
                      rbind (dictDelete callbackDict callbacks sname) (\<lambda>(d, _).
                      rbind (element_obj h r 2) (\<lambda>e2.
                      if ry_type e2 \<noteq> REDIS_REPLY_INTEGER then Inl AssertFailure
                      else
                        Inr ((if ry_integer e2 = 0 then set_flags (\<lambda>F. F - {SUBSCRIBED}) else id) (set_subs pvariant d ac), cb)))
                    else Inr (ac, cb))))))))
     else
       (case redisShiftCallback (ac_invalid ac) of
          None \<Rightarrow> Inr (ac, dstcb)
        | Some (cb, cbs) \<Rightarrow> Inr (ac\<lparr>ac_invalid := cbs\<rparr>, cb)))"

definition free_object :: "reply_fns \<Rightarrow> nat \<Rightarrow> 's async_state \<Rightarrow> 's async_state result" where
  "free_object fn reply w =
     (case fn_of fn freeObject of
        None \<Rightarrow> Inl InvalidAccess
      | Some f \<Rightarrow> rbind (f reply (as_h w)) (\<lambda>h. Inr (w\<lparr>as_h := h\<rparr>)))"

text \<open>What one reply leads to: the next turn of the loop, a disconnect, or the deferred free.\<close>

datatype 's turn = Next redisCallback "'s async_state" | ThenDisconnect "'s async_state" | ThenFree "'s async_state"

definition run_reply ::
  "allocator \<Rightarrow> reply_fns \<Rightarrow> 's async_user \<Rightarrow> redisCallback \<Rightarrow> nat \<Rightarrow> 's async_state \<Rightarrow> 's turn result" where
  "run_reply A fn P cb reply w =
     (if cb_fn cb \<noteq> 0 then
        rbind (redisRunCallback A P cb reply w) (\<lambda>w1.
        rbind (free_object fn reply w1) (\<lambda>w2.
        with_ac w2 (\<lambda>ac. Inr (if has_flag FREEING ac then ThenFree w2 else Next cb w2))))
      else rbind (free_object fn reply w) (\<lambda>w2. Inr (Next cb w2)))"

definition dispatch ::
  "allocator \<Rightarrow> reply_fns \<Rightarrow> 's async_user \<Rightarrow> redisCallback \<Rightarrow> nat \<Rightarrow> redisAsyncContext \<Rightarrow> 's async_state \<Rightarrow> 's turn result" where
  "dispatch A fn P cb reply ac w =
     (case redisShiftCallback (ac_replies ac) of
        Some (cb', cbs) \<Rightarrow> run_reply A fn P cb' reply (put_ac (ac\<lparr>ac_replies := cbs\<rparr>) w)
      | None \<Rightarrow>
          rbind (reply_object (as_h w) reply) (\<lambda>r.
          if ry_type r = REDIS_REPLY_ERROR then
            rbind (str_of r) (\<lambda>s.
            rbind (free_object fn reply (put_ac (ac\<lparr>ac_c := (ac_c ac)\<lparr>rc_err := REDIS_ERR_OTHER, rc_errstr := take 127 (c_str s)\<rparr>\<rparr>) w))
              (\<lambda>w1. Inr (ThenDisconnect w1)))
          else if \<not> has_flag SUBSCRIBED ac \<and> \<not> has_flag MONITORING ac then Inl AssertFailure
          else if has_flag SUBSCRIBED ac then
            rbind (redisGetSubscribeCallback A (as_h w) reply cb ac) (\<lambda>(ac', cb'). run_reply A fn P cb' reply (put_ac ac' w))
          else run_reply A fn P cb reply w))"

text \<open>No more replies for now.\<close>

definition no_reply ::
  "allocator \<Rightarrow> reply_fns \<Rightarrow> 's async_user \<Rightarrow> redisCallback \<Rightarrow> redisAsyncContext \<Rightarrow> 's async_state \<Rightarrow> 's async_state result option" where
  "no_reply A fn P cb ac w =
     (let stop = (if has_flag MONITORING ac
                  then put_ac (ac\<lparr>ac_replies := fst (redisPushCallback A (ac_replies ac) cb)\<rparr>) w else w) in
      if has_flag DISCONNECTING ac then
        (case rc_obuf (ac_c ac) of
           None \<Rightarrow> Some (Inl InvalidAccess)
         | Some obuf \<Rightarrow> if sdslen obuf = 0 \<and> ac_replies ac = [] then asyncDisconnect A fn P w else Some (Inr stop))
      else Some (Inr stop))"

partial_function (option) callbacks_loop ::
  "allocator \<Rightarrow> reply_fns \<Rightarrow> 's async_user \<Rightarrow> redisCallback \<Rightarrow> 's async_state \<Rightarrow> 's async_state result option" where
  "callbacks_loop A fn P cb w =
     (case as_ac w of
        None \<Rightarrow> Some (Inl InvalidAccess)
      | Some ac \<Rightarrow>
          (case redisGetReply A fn (ac_c ac) (as_so w) (as_h w) of
             Inl e \<Rightarrow> Some (Inl e)
           | Inr (c, so, h, reply, ok) \<Rightarrow>
               (let ac1 = ac\<lparr>ac_c := c\<rparr>; w1 = w\<lparr>as_ac := Some ac1, as_so := so, as_h := h\<rparr> in
                if \<not> ok then asyncDisconnect A fn P w1
                else if reply = 0 then no_reply A fn P cb ac1 w1
                else
                  (case dispatch A fn P cb reply ac1 w1 of
                     Inl e \<Rightarrow> Some (Inl e)
                   | Inr (Next cb' w2) \<Rightarrow> callbacks_loop A fn P cb' w2
                   | Inr (ThenDisconnect w2) \<Rightarrow> asyncDisconnect A fn P w2
                   | Inr (ThenFree w2) \<Rightarrow> asyncFree A fn P w2))))"

definition redisProcessCallbacks ::
  "allocator \<Rightarrow> reply_fns \<Rightarrow> 's async_user \<Rightarrow> 's async_state \<Rightarrow> 's async_state result option" where
  "redisProcessCallbacks A fn P w = callbacks_loop A fn P \<lparr>cb_fn = 0, cb_privdata = 0\<rparr> w"

subsection \<open>Events\<close>

definition asyncHandleConnect ::
  "allocator \<Rightarrow> net_env \<Rightarrow> reply_fns \<Rightarrow> 's async_user \<Rightarrow> 's async_state \<Rightarrow> ('s async_state \<times> bool) result option" where
  "asyncHandleConnect A N fn P w =
     (case as_ac w of
        None \<Rightarrow> Some (Inl InvalidAccess)
      | Some ac \<Rightarrow>
          obind (Some (redisCheckSocketError N (ac_c ac) (as_os w))) (\<lambda>(c, sys, connected).
          let ac1 = ac\<lparr>ac_c := c\<rparr>; w1 = (put_ac ac1 w)\<lparr>as_os := sys\<rparr>;
              notify = (\<lambda>ok w. if ac_onConnect ac1 \<noteq> 0
                 then logged [ConnectStatus (ac_onConnect ac1) ok] (w\<lparr>as_user := us_status P (ac_onConnect ac1) ok (as_user w)\<rparr>) else w) in
          if connected then Some (Inr (notify True (put_ac (set_flags (insert CONNECTED) ac1) w1), True))
          else if os_errno sys = EINPROGRESS then Some (Inr (w1, True))
          else obind (asyncDisconnect A fn P (notify False w1)) (\<lambda>w2. Some (Inr (w2, False)))))"

text \<open>Both handlers first finish a connection that is still being opened.\<close>

definition once_connected ::
  "allocator \<Rightarrow> net_env \<Rightarrow> reply_fns \<Rightarrow> 's async_user \<Rightarrow> 's async_state \<Rightarrow>
   (redisAsyncContext \<Rightarrow> 's async_state \<Rightarrow> 's async_state result option) \<Rightarrow> 's async_state result option" where
  "once_connected A N fn P w k =
     (case as_ac w of
        None \<Rightarrow> Some (Inl InvalidAccess)
      | Some ac \<Rightarrow>
          if has_flag CONNECTED ac then k ac w
          else
            obind (asyncHandleConnect A N fn P w) (\<lambda>(w1, ok).
            if \<not> ok then Some (Inr w1)
            else (case as_ac w1 of
                    None \<Rightarrow> Some (Inl InvalidAccess)
                  | Some ac1 \<Rightarrow> if \<not> has_flag CONNECTED ac1 then Some (Inr w1) else k ac1 w1)))"

definition redisAsyncHandleRead ::
  "allocator \<Rightarrow> net_env \<Rightarrow> reply_fns \<Rightarrow> 's async_user \<Rightarrow> 's async_state \<Rightarrow> 's async_state result option" where
  "redisAsyncHandleRead A N fn P w =
     once_connected A N fn P w (\<lambda>ac w1.
     obind (Some (redisBufferRead A fn (ac_c ac) (as_so w1) (as_h w1))) (\<lambda>(c, so, h, ok).
     let ac1 = ac\<lparr>ac_c := c\<rparr>; w2 = w1\<lparr>as_ac := Some ac1, as_so := so, as_h := h\<rparr> in
     if \<not> ok then asyncDisconnect A fn P w2 else redisProcessCallbacks A fn P (call_hook EvAddRead ac1 w2)))"

definition redisAsyncHandleWrite ::
  "allocator \<Rightarrow> net_env \<Rightarrow> reply_fns \<Rightarrow> 's async_user \<Rightarrow> 's async_state \<Rightarrow> 's async_state result option" where
  "redisAsyncHandleWrite A N fn P w =
     once_connected A N fn P w (\<lambda>ac w1.
     obind (Some (redisBufferWrite A (ac_c ac) (as_so w1))) (\<lambda>(c, so, wdone, ok).
     let ac1 = ac\<lparr>ac_c := c\<rparr>; w2 = w1\<lparr>as_ac := Some ac1, as_so := so\<rparr> in
     if \<not> ok then asyncDisconnect A fn P w2
     else Some (Inr (call_hook EvAddRead ac1 (call_hook (if wdone then EvDelWrite else EvAddWrite) ac1 w2)))))"

end
