(* ===== verification/Redis_Async_Laws.thy ===== *)
theory Redis_Async_Laws
  imports Redis_Async
begin

text \<open>
  Two promises of the asynchronous interface: freeing a context runs every callback that is still
  waiting exactly once, whatever the callbacks do, and replies go to the regular callbacks in the
  order of the commands.
\<close>

subsection \<open>Callbacks on a closing context\<close>

definition closing :: "redisAsyncContext \<Rightarrow> bool" where
  "closing ac \<longleftrightarrow> has_flag DISCONNECTING ac \<or> has_flag FREEING ac"

text \<open>What a callback can change of a closing context: flags are set, and the disconnect callback.\<close>

definition same_connection :: "redisContext \<Rightarrow> redisContext \<Rightarrow> bool" where
  "same_connection c c' \<longleftrightarrow> rc_err c' = rc_err c \<and> rc_errstr c' = rc_errstr c \<and> rc_fd c' = rc_fd c \<and> rc_obuf c' = rc_obuf c \<and>
     rc_reader c' = rc_reader c \<and> rc_connection_type c' = rc_connection_type c"

definition more_flags :: "redis_flag set \<Rightarrow> redis_flag set \<Rightarrow> bool" where
  "more_flags F F' \<longleftrightarrow> F - {IN_CALLBACK} \<subseteq> F' \<and> F' \<subseteq> F \<union> {IN_CALLBACK, DISCONNECTING, FREEING}"

definition quiet :: "redisAsyncContext \<Rightarrow> redisAsyncContext \<Rightarrow> bool" where
  "quiet ac ac' \<longleftrightarrow> same_connection (ac_c ac) (ac_c ac') \<and> more_flags (rc_flags (ac_c ac)) (rc_flags (ac_c ac')) \<and>
     ac_err ac' = ac_err ac \<and> ac_ev ac' = ac_ev ac \<and> ac_onConnect ac' = ac_onConnect ac \<and> ac_replies ac' = ac_replies ac \<and>
     ac_invalid ac' = ac_invalid ac \<and> ac_channels ac' = ac_channels ac \<and> ac_patterns ac' = ac_patterns ac"

lemma quiet_refl [simp]: "quiet ac ac"
  by (auto simp: quiet_def same_connection_def more_flags_def)

lemma more_flags_trans: "more_flags F F' \<Longrightarrow> more_flags F' F'' \<Longrightarrow> more_flags F F''"
  unfolding more_flags_def by blast

lemma quiet_trans: "quiet ac ac' \<Longrightarrow> quiet ac' ac'' \<Longrightarrow> quiet ac ac''"
  using more_flags_trans by (auto simp: quiet_def same_connection_def)

lemma quiet_flags: "(\<And>F. more_flags F (g F)) \<Longrightarrow> quiet ac (set_flags g ac)"
  by (simp add: quiet_def set_flags_def same_connection_def)

lemma quiet_flag_ops [simp]:
  "quiet ac (set_flags (insert DISCONNECTING) ac)" "quiet ac (set_flags (insert FREEING) ac)" "quiet ac (set_flags (insert IN_CALLBACK) ac)"
  "quiet ac (set_flags (\<lambda>F. F - {IN_CALLBACK}) ac)" "quiet ac (ac\<lparr>ac_onDisconnect := n\<rparr>)"
  by (auto intro!: quiet_flags simp: more_flags_def) (auto simp: quiet_def same_connection_def more_flags_def)

lemma quiet_closing: "quiet ac ac' \<Longrightarrow> closing ac \<Longrightarrow> closing ac'"
  by (auto simp: quiet_def closing_def has_flag_def more_flags_def)

lemma quiet_same:
  assumes "quiet ac ac'"
  shows "subs_of pv ac' = subs_of pv ac" "ac_ev ac' = ac_ev ac" "ac_err ac' = ac_err ac"
    "redisFree fn (Some (ac_c ac')) h = redisFree fn (Some (ac_c ac)) h" "has_flag CONNECTED ac' = has_flag CONNECTED ac"
  using assms by (auto simp: quiet_def subs_of_def redisFree_def same_connection_def has_flag_def more_flags_def)

lemma quiet_freeing: "quiet ac ac' \<Longrightarrow> has_flag FREEING ac \<Longrightarrow> has_flag FREEING ac'"
  by (auto simp: quiet_def has_flag_def more_flags_def)

lemma put_same: "as_ac w = Some ac \<Longrightarrow> put_ac ac w = w"
  by (simp add: put_ac_def)

lemma do_action_quiet:
  assumes "as_ac w = Some ac" "closing ac"
  shows "\<exists>ac'. do_action A a w = Inr (put_ac ac' w) \<and> quiet ac ac'"
proof -
  have "\<exists>ac'. Inr w = Inr (put_ac ac' w) \<and> quiet ac ac'" using put_same [OF assms(1)] by (metis quiet_refl)
  then show ?thesis using assms
    by (cases a) (auto simp: redisAsyncFormattedCommand_def asyncCommand_def with_ac_def closing_def redisAsyncSetDisconnectCallback_def)
qed

lemma do_actions_quiet:
  "as_ac w = Some ac \<Longrightarrow> closing ac \<Longrightarrow> \<exists>ac'. do_actions A as w = Inr (put_ac ac' w) \<and> quiet ac ac'"
proof (induction "as" arbitrary: w ac)
  case Nil
  then show ?case using put_same [of w ac] by (metis do_actions.simps(1) quiet_refl)
next
  case (Cons a "as")
  from do_action_quiet [OF Cons.prems] obtain ac1 where
    1: "do_action A a w = Inr (put_ac ac1 w)" "quiet ac ac1" by blast
  from Cons.IH [of "put_ac ac1 w" ac1] quiet_closing [OF 1(2) Cons.prems(2)] obtain ac2 where
    2: "do_actions A as (put_ac ac1 w) = Inr (put_ac ac2 (put_ac ac1 w))" "quiet ac1 ac2" by (auto simp: put_ac_def)
  then show ?case using 1 quiet_trans [OF 1(2) 2(2)] by (auto simp: put_ac_def)
qed

definition null_runs :: "redisCallback list \<Rightarrow> async_event list" where
  "null_runs cbs = map (\<lambda>cb. Ran cb 0) (filter (\<lambda>cb. cb_fn cb \<noteq> 0) cbs)"

lemma null_runs_simps [simp]: "null_runs [] = []" "null_runs (cb # cbs) = (if cb_fn cb \<noteq> 0 then [Ran cb 0] else []) @ null_runs cbs" "null_runs (cbs @ cbs') = null_runs cbs @ null_runs cbs'"
  by (simp_all add: null_runs_def)

text \<open>The state after callbacks of a closing context ran.\<close>

definition after :: "'s async_state \<Rightarrow> redisAsyncContext \<Rightarrow> async_event list \<Rightarrow> 's async_state \<Rightarrow> bool" where
  "after w ac es w' \<longleftrightarrow> (\<exists>ac' u. w' = w\<lparr>as_ac := Some ac', as_log := as_log w @ es, as_user := u\<rparr> \<and> quiet ac ac')"

lemma after_refl: "as_ac w = Some ac \<Longrightarrow> after w ac [] w"
  unfolding after_def by (rule exI [of _ ac], rule exI [of _ "as_user w"]) simp

lemma after_trans: "after w ac es w1 \<Longrightarrow> as_ac w1 = Some ac1 \<Longrightarrow> after w1 ac1 es' w2 \<Longrightarrow> after w ac (es @ es') w2"
  using quiet_trans by (fastforce simp: after_def)

lemma run_callback_quiet:
  assumes "as_ac w = Some ac" "closing ac"
  shows "\<exists>w'. redisRunCallback A P cb 0 w = Inr w' \<and> after w ac (null_runs [cb]) w'"
proof (cases "cb_fn cb = 0")
  case True
  then show ?thesis using assms after_refl [of w ac] by (simp add: redisRunCallback_def with_ac_def)
next
  case False
  obtain acts u where cbk: "us_callback P (cb_fn cb) (as_h w) 0 (cb_privdata cb) (as_user w) = (acts, u)" by fastforce
  let ?ac = "set_flags (insert IN_CALLBACK) ac"
  let ?w = "(logged [Ran cb 0] (put_ac ?ac w))\<lparr>as_user := u\<rparr>"
  have q: "quiet ac ?ac" by simp
  from do_actions_quiet [of ?w ?ac A acts] quiet_closing [OF q assms(2)] obtain ac1 where
    1: "do_actions A acts ?w = Inr (put_ac ac1 ?w)" "quiet ?ac ac1" by (auto simp: put_ac_def logged_def)
  have "quiet ac1 (set_flags (\<lambda>F. F - {IN_CALLBACK}) ac1)" by simp
  then have "quiet ac (set_flags (\<lambda>F. F - {IN_CALLBACK}) ac1)" using q 1(2) quiet_trans by blast
  then have "after w ac (null_runs [cb]) (put_ac (set_flags (\<lambda>F. F - {IN_CALLBACK}) ac1) (put_ac ac1 ?w))" unfolding after_def using False
    by (intro exI [of _ "set_flags (\<lambda>F. F - {IN_CALLBACK}) ac1"] exI [of _ u]) (simp add: put_ac_def logged_def)
  moreover have "redisRunCallback A P cb 0 w = Inr (put_ac (set_flags (\<lambda>F. F - {IN_CALLBACK}) ac1) (put_ac ac1 ?w))"
    using False assms(1) cbk 1(1) by (simp add: redisRunCallback_def with_ac_def put_ac_def)
  ultimately show ?thesis by blast
qed

subsection \<open>Lists of callbacks\<close>

locale callback_list =
  fixes get_list :: "redisAsyncContext \<Rightarrow> redisCallback list"
    and set_list :: "redisCallback list \<Rightarrow> redisAsyncContext \<Rightarrow> redisAsyncContext"
  assumes get_set: "get_list (set_list cbs ac) = cbs"
    and set_set: "set_list cbs (set_list cbs' ac) = set_list cbs ac"
    and get_quiet: "quiet ac ac' \<Longrightarrow> get_list ac' = get_list ac"
    and set_quiet: "quiet ac ac' \<Longrightarrow> quiet (set_list cbs ac) (set_list cbs ac')"
    and set_closing: "closing (set_list cbs ac) = closing ac"
    and set_get: "set_list (get_list ac) ac = ac"
begin

lemma run_list_all:
  "as_ac w = Some ac \<Longrightarrow> closing ac \<Longrightarrow> get_list ac = cbs \<Longrightarrow>
    \<exists>w'. run_list A P get_list set_list w = Some (Inr w') \<and> after w (set_list [] ac) (null_runs cbs) w'"
proof (induction cbs arbitrary: w ac)
  case Nil
  then have "set_list [] ac = ac" using set_get [of ac] by simp
  then show ?case using Nil after_refl [of w ac] by (subst run_list.simps) simp
next
  case (Cons cb cbs)
  let ?ac = "set_list cbs ac"
  from run_callback_quiet [of "put_ac ?ac w" ?ac A P cb] Cons.prems(2) obtain w1 where
    1: "redisRunCallback A P cb 0 (put_ac ?ac w) = Inr w1" "after (put_ac ?ac w) ?ac (null_runs [cb]) w1" by (auto simp: put_ac_def set_closing)
  then obtain ac1 where ac1: "as_ac w1 = Some ac1" "quiet ?ac ac1" by (auto simp: after_def)
  have "closing ac1" "get_list ac1 = cbs" using ac1(2) quiet_closing Cons.prems(2) get_quiet [OF ac1(2)] by (simp_all add: set_closing get_set)
  from Cons.IH [OF ac1(1) this] obtain w2 where
    2: "run_list A P get_list set_list w1 = Some (Inr w2)" "after w1 (set_list [] ac1) (null_runs cbs) w2" by blast
  have "quiet (set_list [] ac) (set_list [] ac1)" using set_quiet [OF ac1(2), of "[]"] by (simp add: set_set)
  then have "after w (set_list [] ac) (null_runs (cb # cbs)) w2"
    using 1(2) 2(2) quiet_trans by (fastforce simp: after_def put_ac_def)
  moreover have "run_list A P get_list set_list w = Some (Inr w2)"
    using Cons.prems(1,3) 1(1) 2(1) by (subst run_list.simps) simp
  ultimately show ?case by blast
qed

end

interpretation replies_list: callback_list ac_replies "\<lambda>cbs. ac_replies_update (\<lambda>_. cbs)"
  by unfold_locales (auto simp: quiet_def closing_def has_flag_def)

interpretation invalid_list: callback_list ac_invalid "\<lambda>cbs. ac_invalid_update (\<lambda>_. cbs)"
  by unfold_locales (auto simp: quiet_def closing_def has_flag_def)

subsection \<open>Subscriptions\<close>

lemma plain_callbackDict: "plain_type callbackDict"
  by (auto simp: plain_type_def callbackDict_def dictCompareHashKeys_def callbackKeyCompare_def dictSetHashKey_def dictSetHashVal_def
      callbackValDup_def)

lemma run_subs_all:
  "iterate m d it = Inr (Some es) \<Longrightarrow> as_ac w = Some ac \<Longrightarrow> closing ac \<Longrightarrow> subs_of pv ac = d \<Longrightarrow>
    \<exists>w'. run_subs A P pv it w = Some (Inr w') \<and> after w ac (null_runs (map snd es)) w'"
proof (induction m arbitrary: it es w ac)
  case (Suc m)
  obtain it' r where nx: "dictNext d it = Inr (it', r)" using Suc.prems(1) by (cases "dictNext d it") auto
  show ?case
  proof (cases r)
    case None
    then show ?thesis using Suc.prems nx after_refl [of w ac] by (subst run_subs.simps) auto
  next
    case (Some e)
    then obtain es' where es': "iterate m d it' = Inr (Some es')" "es = e # es'"
      using Suc.prems(1) nx by (auto simp: rbind_eq_Inr_iff map_option_case split: option.splits)
    from run_callback_quiet [OF Suc.prems(2,3), of A P "snd e"] obtain w1 where
      1: "redisRunCallback A P (snd e) 0 w = Inr w1" "after w ac (null_runs [snd e]) w1" by blast
    then obtain ac1 where ac1: "as_ac w1 = Some ac1" "quiet ac ac1" by (auto simp: after_def)
    from Suc.IH [OF es'(1) ac1(1) quiet_closing [OF ac1(2) Suc.prems(3)]] quiet_same(1) [OF ac1(2)] Suc.prems(4) obtain w2 where
      2: "run_subs A P pv it' w1 = Some (Inr w2)" "after w1 ac1 (null_runs (map snd es')) w2" by metis
    have "run_subs A P pv it w = Some (Inr w2)" using Suc.prems(2,4) nx Some 1(1) 2(1) by (subst run_subs.simps) simp
    moreover have "after w ac (null_runs (map snd es)) w2" using after_trans [OF 1(2) ac1(1) 2(2)] es'(2) by simp
    ultimately show ?thesis by blast
  qed
qed simp

definition subs_ok :: "(string, redisCallback) dict \<Rightarrow> bool" where
  "subs_ok d \<longleftrightarrow> dict_inv callbackDict d \<and> dt_used d < 2 ^ 30 \<and> dt_size d \<le> 2 ^ 30"

lemma free_subs_all:
  assumes A: "\<And>n. al_ok A n" and w: "as_ac w = Some ac" "closing ac" and d: "subs_ok (subs_of pv ac)"
  shows "\<exists>w'. free_subs A P pv w = Some (Inr w') \<and> after w (set_subs pv released_dict ac) (null_runs (map snd (entries (subs_of pv ac)))) w'"
proof -
  let ?d = "subs_of pv ac" and ?it = "\<lparr>it_index = - 1, it_entry = [], it_nextEntry = []\<rparr>"
  have it: "iterate (Suc (dt_used ?d)) ?d ?it = Inr (Some (entries ?d))" using d iterate_entries by (auto simp: subs_ok_def)
  from run_subs_all [OF it w refl, of A P] obtain w1 where
    1: "run_subs A P pv ?it w = Some (Inr w1)" "after w ac (null_runs (map snd (entries ?d))) w1" by blast
  then obtain ac1 where ac1: "as_ac w1 = Some ac1" "quiet ac ac1" by (auto simp: after_def)
  have rel: "dictRelease callbackDict (subs_of pv ac1) = Inr (free_chain callbackDict (entries ?d))"
    using d dictRelease_ok [of callbackDict ?d] quiet_same(1) [OF ac1(2)] by (simp add: subs_ok_def)
  have "quiet (set_subs pv released_dict ac) (set_subs pv released_dict ac1)" using ac1(2) by (simp add: quiet_def set_subs_def)
  then have "after w (set_subs pv released_dict ac) (null_runs (map snd (entries ?d))) (put_ac (set_subs pv released_dict ac1) w1)"
  proof -
    from 1(2) obtain u where "w1 = w\<lparr>as_ac := Some ac1, as_log := as_log w @ null_runs (map snd (entries ?d)), as_user := u\<rparr>"
      using ac1(1) by (auto simp: after_def)
    then show ?thesis using \<open>quiet (set_subs pv released_dict ac) (set_subs pv released_dict ac1)\<close> unfolding after_def put_ac_def
      by (intro exI [of _ "set_subs pv released_dict ac1"] exI [of _ u]) simp
  qed
  then show ?thesis using A 1(1) ac1(1) rel by (simp add: free_subs_def dictGetIterator_def with_ac_def)
qed

subsection \<open>Freeing a context\<close>

lemma afterD:
  assumes "after w ac es w'"
  obtains ac' where "as_ac w' = Some ac'" "quiet ac ac'" "as_log w' = as_log w @ es" "as_h w' = as_h w" "as_so w' = as_so w"
  using assms by (auto simp: after_def)

lemma cleanup_self_ok:
  assumes "as_ac w = Some ac" "redisFree fn (Some (ac_c ac)) (as_h w) = Inr (fds, h)"
  shows "\<exists>w' es. cleanup_self fn P w = Inr w' \<and> as_ac w' = None \<and> as_h w' = h \<and> as_so w' = as_so w \<and>
    as_log w' = as_log w @ (if EvCleanup \<in> ac_ev ac then [Hook EvCleanup] else []) @ es @ map Closed fds \<and>
    (es = [] \<or> has_flag CONNECTED ac \<and> (\<exists>n st. n \<noteq> 0 \<and> es = [DisconnectStatus n st] \<and> (has_flag FREEING ac \<or> ac_err ac = 0 \<longrightarrow> st)))"
  using assms by (auto simp: cleanup_self_def with_ac_def call_hook_def logged_def Let_def)

lemma asyncFree_all:
  assumes A: "\<And>n. al_ok A n" and w: "as_ac w = Some ac" "closing ac" and d: "subs_ok (ac_channels ac)" "subs_ok (ac_patterns ac)"
    and free: "redisFree fn (Some (ac_c ac)) (as_h w) = Inr (fds, h)"
  shows "\<exists>w' es. asyncFree A fn P w = Some (Inr w') \<and> as_ac w' = None \<and> as_h w' = h \<and> as_so w' = as_so w \<and>
    as_log w' = as_log w @ null_runs (ac_replies ac @ ac_invalid ac @ map snd (entries (ac_channels ac)) @ map snd (entries (ac_patterns ac))) @
      (if EvCleanup \<in> ac_ev ac then [Hook EvCleanup] else []) @ es @ map Closed fds \<and>
    (es = [] \<or> has_flag CONNECTED ac \<and> (\<exists>n st. n \<noteq> 0 \<and> es = [DisconnectStatus n st] \<and> (has_flag FREEING ac \<or> ac_err ac = 0 \<longrightarrow> st)))"
proof -
  from replies_list.run_list_all [OF w refl, of A P] obtain w1 where
    1: "run_list A P ac_replies (\<lambda>cbs. ac_replies_update (\<lambda>_. cbs)) w = Some (Inr w1)" "after w (ac\<lparr>ac_replies := []\<rparr>) (null_runs (ac_replies ac)) w1" by blast
  from 1(2) obtain ac1 where a1: "as_ac w1 = Some ac1" "quiet (ac\<lparr>ac_replies := []\<rparr>) ac1" "as_log w1 = as_log w @ null_runs (ac_replies ac)"
    "as_h w1 = as_h w" "as_so w1 = as_so w" by (rule afterD)
  have q1: "closing ac1" "ac_invalid ac1 = ac_invalid ac" "ac_channels ac1 = ac_channels ac" "ac_patterns ac1 = ac_patterns ac"
    using quiet_closing [OF a1(2)] w(2) a1(2) by (simp_all add: replies_list.set_closing quiet_def)
  from invalid_list.run_list_all [OF a1(1) q1(1) refl, of A P] obtain w2 where
    2: "run_list A P ac_invalid (\<lambda>cbs. ac_invalid_update (\<lambda>_. cbs)) w1 = Some (Inr w2)" "after w1 (ac1\<lparr>ac_invalid := []\<rparr>) (null_runs (ac_invalid ac1)) w2" by blast
  from 2(2) obtain ac2 where a2: "as_ac w2 = Some ac2" "quiet (ac1\<lparr>ac_invalid := []\<rparr>) ac2" "as_log w2 = as_log w1 @ null_runs (ac_invalid ac1)"
    "as_h w2 = as_h w1" "as_so w2 = as_so w1" by (rule afterD)
  have q2: "closing ac2" "subs_of False ac2 = ac_channels ac" "ac_patterns ac2 = ac_patterns ac"
    using quiet_closing [OF a2(2)] q1 a2(2) by (simp_all add: invalid_list.set_closing quiet_def subs_of_def)
  from free_subs_all [OF A a2(1) q2(1), of False P] d(1) q2(2) obtain w3 where
    3: "free_subs A P False w2 = Some (Inr w3)" "after w2 (set_subs False released_dict ac2) (null_runs (map snd (entries (ac_channels ac)))) w3" by auto
  from 3(2) obtain ac3 where a3: "as_ac w3 = Some ac3" "quiet (set_subs False released_dict ac2) ac3"
    "as_log w3 = as_log w2 @ null_runs (map snd (entries (ac_channels ac)))" "as_h w3 = as_h w2" "as_so w3 = as_so w2" by (rule afterD)
  have q3: "closing ac3" "subs_of True ac3 = ac_patterns ac"
    using quiet_closing [OF a3(2)] q2 a3(2) by (simp_all add: quiet_def subs_of_def set_subs_def closing_def has_flag_def)
  from free_subs_all [OF A a3(1) q3(1), of True P] d(2) q3(2) obtain w4 where
    4: "free_subs A P True w3 = Some (Inr w4)" "after w3 (set_subs True released_dict ac3) (null_runs (map snd (entries (ac_patterns ac)))) w4" by auto
  from 4(2) obtain ac4 where a4: "as_ac w4 = Some ac4" "quiet (set_subs True released_dict ac3) ac4"
    "as_log w4 = as_log w3 @ null_runs (map snd (entries (ac_patterns ac)))" "as_h w4 = as_h w3" "as_so w4 = as_so w3" by (rule afterD)
  have fr: "redisFree fn (Some (ac_c ac4)) (as_h w4) = Inr (fds, h)"
    using quiet_same(4) [OF a1(2)] quiet_same(4) [OF a2(2)] quiet_same(4) [OF a3(2)] quiet_same(4) [OF a4(2)] free a1(4) a2(4) a3(4) a4(4)
    by (simp add: set_subs_def)
  have flags: "has_flag CONNECTED ac4 = has_flag CONNECTED ac" "has_flag FREEING ac \<longrightarrow> has_flag FREEING ac4" "ac_ev ac4 = ac_ev ac" "ac_err ac4 = ac_err ac"
    using quiet_same(2,3,5) [OF a1(2)] quiet_same(2,3,5) [OF a2(2)] quiet_same(2,3,5) [OF a3(2)] quiet_same(2,3,5) [OF a4(2)]
      quiet_freeing [OF a1(2)] quiet_freeing [OF a2(2)] quiet_freeing [OF a3(2)] quiet_freeing [OF a4(2)]
    by (auto simp: set_subs_def has_flag_def)
  from cleanup_self_ok [OF a4(1) fr, of P] flags obtain w' es where
    5: "cleanup_self fn P w4 = Inr w'" "as_ac w' = None" "as_h w' = h" "as_so w' = as_so w4"
      "as_log w' = as_log w4 @ (if EvCleanup \<in> ac_ev ac then [Hook EvCleanup] else []) @ es @ map Closed fds"
      "es = [] \<or> has_flag CONNECTED ac \<and> (\<exists>n st. n \<noteq> 0 \<and> es = [DisconnectStatus n st] \<and> (has_flag FREEING ac \<or> ac_err ac = 0 \<longrightarrow> st))"
    by auto
  have "asyncFree A fn P w = Some (Inr w')" using 1(1) 2(1) 3(1) 4(1) 5(1) by (simp add: asyncFree_def)
  then show ?thesis using 5(2-6) a1(3,5) a2(3,5) a3(3,5) a4(3,5) q1(2) by auto
qed

text \<open>
  C14. Freeing an asynchronous context runs every callback that is still waiting exactly once. Whatever
  the callbacks do, \<^verbatim>\<open>redisAsyncFree\<close> outside a callback returns: the log gets the callbacks of pending
  commands in order, of invalid commands, of all channels and of all patterns, each with a null
  reply, then the clean-up hook, at most one disconnect callback with the status \<^verbatim>\<open>REDIS_OK\<close>, and the
  closed descriptor; the context is gone. Callbacks cannot prolong the loops, because new commands
  are refused.
\<close>

theorem redisAsyncFree_runs_all:
  assumes "\<And>n. al_ok A n" and "as_ac w = Some ac" and "\<not> has_flag IN_CALLBACK ac"
    and "subs_ok (ac_channels ac)" "subs_ok (ac_patterns ac)" and "redisFree fn (Some (ac_c ac)) (as_h w) = Inr (fds, h)"
  shows "\<exists>w' es. redisAsyncFree A fn P w = Some (Inr w') \<and> as_ac w' = None \<and> as_h w' = h \<and> as_so w' = as_so w \<and>
    as_log w' = as_log w @ null_runs (ac_replies ac @ ac_invalid ac @ map snd (entries (ac_channels ac)) @ map snd (entries (ac_patterns ac))) @
      (if EvCleanup \<in> ac_ev ac then [Hook EvCleanup] else []) @ es @ map Closed fds \<and>
    (es = [] \<or> has_flag CONNECTED ac \<and> (\<exists>n. n \<noteq> 0 \<and> es = [DisconnectStatus n True]))"
proof -
  let ?ac = "set_flags (insert FREEING) ac"
  have flags: "closing ?ac" "has_flag FREEING ?ac" "has_flag CONNECTED ?ac = has_flag CONNECTED ac" "ac_ev ?ac = ac_ev ac"
    by (simp_all add: closing_def has_flag_def set_flags_def)
  have lists: "ac_replies ?ac = ac_replies ac" "ac_invalid ?ac = ac_invalid ac" "ac_channels ?ac = ac_channels ac" "ac_patterns ?ac = ac_patterns ac"
    by (simp_all add: set_flags_def)
  have w: "as_ac (put_ac ?ac w) = Some ?ac" "as_h (put_ac ?ac w) = as_h w" "as_so (put_ac ?ac w) = as_so w" "as_log (put_ac ?ac w) = as_log w"
    by (simp_all add: put_ac_def)
  have "redisFree fn (Some (ac_c ?ac)) (as_h w) = Inr (fds, h)" using assms(6) quiet_same(4) [OF quiet_flag_ops(2)] by simp
  from asyncFree_all [OF assms(1) w(1) flags(1), unfolded lists w(2-4) flags(3,4), OF assms(4,5) this, of P] obtain w' es where
    w': "asyncFree A fn P (put_ac ?ac w) = Some (Inr w')" "as_ac w' = None" "as_h w' = h" "as_so w' = as_so w"
    "as_log w' = as_log w @ null_runs (ac_replies ac @ ac_invalid ac @ map snd (entries (ac_channels ac)) @ map snd (entries (ac_patterns ac))) @
      (if EvCleanup \<in> ac_ev ac then [Hook EvCleanup] else []) @ es @ map Closed fds"
    "es = [] \<or> has_flag CONNECTED ac \<and> (\<exists>n st. n \<noteq> 0 \<and> es = [DisconnectStatus n st] \<and> (has_flag FREEING ?ac \<or> ac_err ?ac = 0 \<longrightarrow> st))"
    by blast
  then have "es = [] \<or> has_flag CONNECTED ac \<and> (\<exists>n. n \<noteq> 0 \<and> es = [DisconnectStatus n True])" using flags(2) by auto
  with w' show ?thesis using assms(2,3) by (intro exI [of _ w'] exI [of _ es]) (simp add: redisAsyncFree_def Let_def)
qed

subsection \<open>Replies in order\<close>

definition holding :: "redisReader \<Rightarrow> string \<Rightarrow> bool" where
  "holding r bs \<longleftrightarrow> reader_ok r \<and>
     started (rd_privdata r) (pstate_of r) = \<lparr>ps_stack = [fresh_task (- 1) (rd_privdata r)], ps_reply = 0, ps_bytes = bs\<rparr>"

definition good_reply :: "reply \<Rightarrow> bool" where
  "good_reply v \<longleftrightarrow> wf_reply v \<and> depth v \<le> 8"

lemma holding_len: "holding r bs \<Longrightarrow> bs \<noteq> [] \<Longrightarrow> 0 < rd_len r"
proof -
  assume h: "holding r bs" "bs \<noteq> []"
  have "ps_bytes (started (rd_privdata r) (pstate_of r)) = unread r" by (simp add: started_def pstate_of_def)
  then have "unread r = bs" using h(1) by (simp add: holding_def)
  then show ?thesis using length_unread [of r] h by (cases "rd_len r") (simp_all add: holding_def)
qed

lemma holding_end:
  "reader_ok r \<Longrightarrow> pstate_of r = \<lparr>ps_stack = [], ps_reply = 0, ps_bytes = bs\<rparr> \<Longrightarrow> holding r bs"
  by (simp add: holding_def started_def)

lemma reader_next:
  assumes A: "\<And>n. al_ok A n" and r: "holding r (encode v @ rest)" and v: "good_reply v" and h: "heap_ok h"
  shows "\<exists>r' h'. redisReaderGetReply (Some (defaultFunctions A)) r h = Inr (r', h', rh_next h, True) \<and> holding r' rest \<and>
    rh_next h' = rh_next h + nodes v \<and> heap_ok h' \<and> (\<forall>x < rh_next h. rh_objs h' x = rh_objs h x) \<and> rep (rh_objs h') (rh_next h) v"
proof -
  let ?fn = "Some (defaultFunctions A)" and ?priv = "rd_privdata r"
  let ?p = "\<lparr>ps_stack = [fresh_task (- 1) ?priv], ps_reply = 0, ps_bytes = encode v\<rparr>"
  from parse_encode [OF _ _ h A, of v ?priv] v obtain h' where
    p: "parse_loop ?fn ?priv ?p h = Inr (Item \<lparr>ps_stack = [], ps_reply = rh_next h, ps_bytes = []\<rparr> h')"
    and h': "rh_next h' = rh_next h + nodes v" "heap_ok h'" "\<forall>x < rh_next h. rh_objs h' x = rh_objs h x" "rep (rh_objs h') (rh_next h) v"
    by (auto simp: good_reply_def)
  have "parse_loop ?fn ?priv (ext rest ?p) h = Inr (Item \<lparr>ps_stack = [], ps_reply = rh_next h, ps_bytes = rest\<rparr> h')"
    using parse_loop_settled [OF p, of rest] by (simp add: ext_def)
  then have "parse_loop ?fn ?priv (started ?priv (pstate_of r)) h = Inr (Item \<lparr>ps_stack = [], ps_reply = rh_next h, ps_bytes = rest\<rparr> h')"
    using r by (simp add: holding_def ext_def)
  from GetReply_Item [OF _ holding_len [OF r] fn_local_default this] r encode_not_Nil [of v] obtain r' where
    "redisReaderGetReply ?fn r h = Inr (r', h', rh_next h, True)" "reader_ok r'" "pstate_of r' = \<lparr>ps_stack = [], ps_reply = 0, ps_bytes = rest\<rparr>"
    by (auto simp: holding_def)
  then show ?thesis using holding_end h' by blast
qed

lemma reader_none:
  assumes r: "holding r []"
  shows "\<exists>r'. redisReaderGetReply (Some (defaultFunctions A)) r h = Inr (r', h, 0, True) \<and> holding r' []"
proof (cases "rd_len r = 0")
  case True
  then show ?thesis using r by (auto simp: redisReaderGetReply_def holding_def reader_ok_def)
next
  case False
  let ?fn = "Some (defaultFunctions A)" and ?p = "started (rd_privdata r) (pstate_of r)"
  have p: "?p = \<lparr>ps_stack = [fresh_task (- 1) (rd_privdata r)], ps_reply = 0, ps_bytes = []\<rparr>" and ok: "reader_ok r"
    using r by (simp_all add: holding_def)
  have "parse_loop ?fn (rd_privdata r) ?p h = Inr (Wait ?p h)"
    unfolding p by (subst parse_loop.simps) (simp add: parse_item_def fresh_task_def)
  from GetReply_Wait [OF ok _ fn_local_default this] False obtain r' where
    "redisReaderGetReply ?fn r h = Inr (r', h, 0, True)" "reader_ok r'" "pstate_of r' = ?p" "rd_privdata r' = rd_privdata r" by auto
  then show ?thesis using p by (simp add: holding_def started_def)
qed

text \<open>Each callback in turn sees its own reply.\<close>

fun served :: "'s async_user \<Rightarrow> redisCallback list \<Rightarrow> reply list \<Rightarrow> 's \<Rightarrow> 's \<Rightarrow> bool" where
  "served P [] [] u u' = (u' = u)"
| "served P (cb # cbs) (v # vs) u u' =
     (if cb_fn cb = 0 then served P cbs vs u u'
      else (\<exists>h a. a \<noteq> 0 \<and> rep (rh_objs h) a v \<and> served P cbs vs (snd (us_callback P (cb_fn cb) h a (cb_privdata cb) u)) u'))"
| "served P _ _ u u' = False"

definition calm :: "redisAsyncContext \<Rightarrow> bool" where
  "calm ac \<longleftrightarrow> rc_flags (ac_c ac) \<inter> {BLOCK, MONITORING, DISCONNECTING, FREEING, IN_CALLBACK} = {}"

text \<open>The callbacks of an onlooker only look at their replies.\<close>

definition onlooker :: "'s async_user \<Rightarrow> bool" where
  "onlooker P \<longleftrightarrow> (\<forall>fn h a p u. fst (us_callback P fn h a p u) = [])"

lemma run_callback_passive:
  assumes "onlooker P" "as_ac w = Some ac" "calm ac"
  shows "redisRunCallback A P cb a w =
    Inr (if cb_fn cb = 0 then w
         else w\<lparr>as_log := as_log w @ [Ran cb a], as_user := snd (us_callback P (cb_fn cb) (as_h w) a (cb_privdata cb) (as_user w))\<rparr>)"
proof -
  obtain u where u: "us_callback P (cb_fn cb) (as_h w) a (cb_privdata cb) (as_user w) = ([], u)"
    using assms(1) by (metis onlooker_def prod.collapse)
  have "set_flags (\<lambda>F. F - {IN_CALLBACK}) (set_flags (insert IN_CALLBACK) ac) = ac" using assms(3) by (simp add: set_flags_def calm_def)
  then show ?thesis using assms(2) u by (cases w) (simp add: redisRunCallback_def with_ac_def put_ac_def logged_def)
qed

text \<open>One turn of the loop of \<^verbatim>\<open>redisProcessCallbacks\<close> with a reply for a regular callback.\<close>

lemma callbacks_loop_turn:
  assumes A: "\<And>n. al_ok A n" and P: "onlooker P" and w: "as_ac w = Some ac" "calm ac" "ac_replies ac = cb' # cbs"
    and r: "rc_reader (ac_c ac) = Some r" "holding r (encode v @ rest)" and v: "good_reply v" and h: "heap_ok (as_h w)"
  shows "\<exists>w1 r' h1. callbacks_loop A (Some (defaultFunctions A)) P cb w = callbacks_loop A (Some (defaultFunctions A)) P cb' w1 \<and>
    as_ac w1 = Some (ac\<lparr>ac_c := (ac_c ac)\<lparr>rc_reader := Some r'\<rparr>, ac_replies := cbs\<rparr>) \<and> holding r' rest \<and> heap_ok (as_h w1) \<and>
    rh_objs (as_h w1) = rh_objs (as_h w) \<and> as_so w1 = as_so w \<and> rep (rh_objs h1) (rh_next (as_h w)) v \<and>
    as_log w1 = as_log w @ (if cb_fn cb' = 0 then [] else [Ran cb' (rh_next (as_h w))]) \<and>
    as_user w1 = (if cb_fn cb' = 0 then as_user w else snd (us_callback P (cb_fn cb') h1 (rh_next (as_h w)) (cb_privdata cb') (as_user w)))"
proof -
  let ?fn = "Some (defaultFunctions A)" and ?a = "rh_next (as_h w)"
  from reader_next [OF A r(2) v h] obtain r' h1 where
    n: "redisReaderGetReply ?fn r (as_h w) = Inr (r', h1, ?a, True)" "holding r' rest" "rh_next h1 = ?a + nodes v" "heap_ok h1"
      "\<forall>x < ?a. rh_objs h1 x = rh_objs (as_h w) x" "rep (rh_objs h1) ?a v" by blast
  from released [OF h n(3-6)] obtain h2 where h2: "freeReplyObject ?a h1 = Inr h2" "heap_ok h2" "rh_objs h2 = rh_objs (as_h w)" by blast
  let ?c = "(ac_c ac)\<lparr>rc_reader := Some r'\<rparr>"
  let ?ac = "ac\<lparr>ac_c := ?c\<rparr>"
  let ?w1 = "w\<lparr>as_ac := Some ?ac, as_h := h1\<rparr>"
  let ?ac2 = "ac\<lparr>ac_c := ?c, ac_replies := cbs\<rparr>"
  have g: "redisGetReply A ?fn (ac_c ac) (as_so w) (as_h w) = Inr (?c, as_so w, h1, ?a, True)"
    using n(1) r(1) w(2) heap_ok_next [OF h] by (simp add: redisGetReply_def redisGetReplyFromReader_def calm_def)
  have calm: "calm ?ac2" using w(2) by (simp add: calm_def)
  define u where "u = (if cb_fn cb' = 0 then as_user w else snd (us_callback P (cb_fn cb') h1 ?a (cb_privdata cb') (as_user w)))"
  define es where "es = (if cb_fn cb' = 0 then [] else [Ran cb' ?a])"
  let ?w2 = "w\<lparr>as_ac := Some ?ac2, as_h := h2, as_log := as_log w @ es, as_user := u\<rparr>"
  have "run_reply A ?fn P cb' ?a (put_ac ?ac2 ?w1) = Inr (Next cb' ?w2)"
    using run_callback_passive [OF P, of "put_ac ?ac2 ?w1" ?ac2 A cb' ?a] calm h2(1)
    by (auto simp: run_reply_def free_object_def with_ac_def put_ac_def u_def es_def calm_def has_flag_def)
  then have d: "dispatch A ?fn P cb ?a ?ac ?w1 = Inr (Next cb' ?w2)" using w(3) by (simp add: dispatch_def)
  have "callbacks_loop A ?fn P cb w = callbacks_loop A ?fn P cb' ?w2"
    using w(1) g d heap_ok_next [OF h] by (subst callbacks_loop.simps) (simp add: Let_def)
  then show ?thesis using n(2,6) h2(2,3)
    by (intro exI [of _ ?w2] exI [of _ r'] exI [of _ h1]) (simp add: u_def es_def)
qed

lemma callbacks_loop_end:
  assumes w: "as_ac w = Some ac" "calm ac" and r: "rc_reader (ac_c ac) = Some r" "holding r []"
  shows "\<exists>w' r'. callbacks_loop A (Some (defaultFunctions A)) P cb w = Some (Inr w') \<and> holding r' [] \<and>
    w' = w\<lparr>as_ac := Some (ac\<lparr>ac_c := (ac_c ac)\<lparr>rc_reader := Some r'\<rparr>\<rparr>)\<rparr>"
proof -
  let ?fn = "Some (defaultFunctions A)"
  obtain r' where n: "redisReaderGetReply ?fn r (as_h w) = Inr (r', as_h w, 0, True)" "holding r' []" using reader_none [OF r(2)] by blast
  have "redisGetReply A ?fn (ac_c ac) (as_so w) (as_h w) = Inr ((ac_c ac)\<lparr>rc_reader := Some r'\<rparr>, as_so w, as_h w, 0, True)"
    using n(1) r(1) w(2) by (simp add: redisGetReply_def redisGetReplyFromReader_def calm_def)
  then show ?thesis using w n(2) by (subst callbacks_loop.simps) (auto simp: no_reply_def has_flag_def calm_def Let_def)
qed

lemma callbacks_loop_all:
  assumes A: "\<And>n. al_ok A n" and P: "onlooker P"
  shows "length cbs = length vs \<Longrightarrow> list_all good_reply vs \<Longrightarrow> as_ac w = Some ac \<Longrightarrow> calm ac \<Longrightarrow> ac_replies ac = cbs @ later \<Longrightarrow>
    rc_reader (ac_c ac) = Some r \<Longrightarrow> holding r (concat (map encode vs)) \<Longrightarrow> heap_ok (as_h w) \<Longrightarrow>
    \<exists>w' r' as. callbacks_loop A (Some (defaultFunctions A)) P cb w = Some (Inr w') \<and> holding r' [] \<and>
      as_ac w' = Some (ac\<lparr>ac_c := (ac_c ac)\<lparr>rc_reader := Some r'\<rparr>, ac_replies := later\<rparr>) \<and> rh_objs (as_h w') = rh_objs (as_h w) \<and>
      served P cbs vs (as_user w) (as_user w') \<and> length as = length cbs \<and>
      as_log w' = as_log w @ map (\<lambda>(cb, a). Ran cb a) (filter (\<lambda>(cb, a). cb_fn cb \<noteq> 0) (zip cbs as))"
proof (induction cbs vs arbitrary: w ac r cb rule: list_induct2')
  case 1
  from 1 have r: "holding r []" and same: "ac\<lparr>ac_replies := later\<rparr> = ac" by simp_all
  from callbacks_loop_end [OF 1(3,4,6) r, of A P cb] obtain w' r' where
    e: "callbacks_loop A (Some (defaultFunctions A)) P cb w = Some (Inr w')" "holding r' []"
      "w' = w\<lparr>as_ac := Some (ac\<lparr>ac_c := (ac_c ac)\<lparr>rc_reader := Some r'\<rparr>\<rparr>)\<rparr>" by blast
  have "ac\<lparr>ac_c := (ac_c ac)\<lparr>rc_reader := Some r'\<rparr>, ac_replies := later\<rparr> = ac\<lparr>ac_c := (ac_c ac)\<lparr>rc_reader := Some r'\<rparr>\<rparr>"
    using 1(5) by simp
  then show ?case using e by (intro exI [of _ w'] exI [of _ r'] exI [of _ "[]"]) simp
next
  case (4 cb' cbs v vs)
  let ?fn = "Some (defaultFunctions A)" and ?a = "rh_next (as_h w)"
  from 4 have r: "holding r (encode v @ concat (map encode vs))" and v: "good_reply v" and rep: "ac_replies ac = cb' # (cbs @ later)" by simp_all
  from callbacks_loop_turn [OF A P "4.prems"(3,4) rep "4.prems"(6) r v "4.prems"(8), of cb] obtain w1 r1 h1 where
    1: "callbacks_loop A ?fn P cb w = callbacks_loop A ?fn P cb' w1"
      "as_ac w1 = Some (ac\<lparr>ac_c := (ac_c ac)\<lparr>rc_reader := Some r1\<rparr>, ac_replies := cbs @ later\<rparr>)" "holding r1 (concat (map encode vs))"
      "heap_ok (as_h w1)" "rh_objs (as_h w1) = rh_objs (as_h w)" "rep (rh_objs h1) ?a v"
      "as_log w1 = as_log w @ (if cb_fn cb' = 0 then [] else [Ran cb' ?a])"
      "as_user w1 = (if cb_fn cb' = 0 then as_user w else snd (us_callback P (cb_fn cb') h1 ?a (cb_privdata cb') (as_user w)))" by blast
  let ?ac1 = "ac\<lparr>ac_c := (ac_c ac)\<lparr>rc_reader := Some r1\<rparr>, ac_replies := cbs @ later\<rparr>"
  have "\<exists>w' r' as. callbacks_loop A ?fn P cb' w1 = Some (Inr w') \<and> holding r' [] \<and>
      as_ac w' = Some (?ac1\<lparr>ac_c := (ac_c ?ac1)\<lparr>rc_reader := Some r'\<rparr>, ac_replies := later\<rparr>) \<and> rh_objs (as_h w') = rh_objs (as_h w1) \<and>
      served P cbs vs (as_user w1) (as_user w') \<and> length as = length cbs \<and>
      as_log w' = as_log w1 @ map (\<lambda>(cb, a). Ran cb a) (filter (\<lambda>(cb, a). cb_fn cb \<noteq> 0) (zip cbs as))"
    by (rule "4.IH" [OF _ _ 1(2) _ _ _ 1(3,4)]) (use "4.prems" in \<open>simp_all add: calm_def\<close>)
  then obtain w' r' as where 2: "callbacks_loop A ?fn P cb' w1 = Some (Inr w')" "holding r' []"
      "as_ac w' = Some (ac\<lparr>ac_c := (ac_c ac)\<lparr>rc_reader := Some r'\<rparr>, ac_replies := later\<rparr>)" "rh_objs (as_h w') = rh_objs (as_h w1)"
      "served P cbs vs (as_user w1) (as_user w')" "length as = length cbs"
      "as_log w' = as_log w1 @ map (\<lambda>(cb, a). Ran cb a) (filter (\<lambda>(cb, a). cb_fn cb \<noteq> 0) (zip cbs as))" by auto
  have "served P (cb' # cbs) (v # vs) (as_user w) (as_user w')"
    using 1(6,8) 2(5) heap_ok_next [OF "4.prems"(8)] by (cases "cb_fn cb' = 0") auto
  then show ?case using 1(1,5,7) 2 by (intro exI [of _ w'] exI [of _ r'] exI [of _ "?a # as"]) (simp del: served.simps)
qed simp_all

text \<open>
  C15. Replies go to the regular callbacks in the order of the commands. When the reader holds the
  encodings of some replies and at least as many callbacks wait, \<^verbatim>\<open>redisProcessCallbacks\<close> returns: every
  waiting callback in turn is called once with an object that holds exactly its reply, the
  callbacks behind them still wait, every reply object is released, and the reader is empty. The
  callbacks are those of a program that looks at its replies and issues no call of its own.
\<close>

theorem replies_in_order:
  assumes "\<And>n. al_ok A n" and "onlooker P" and "as_ac w = Some ac" "calm ac"
    and "ac_replies ac = cbs @ later" "length cbs = length vs" "list_all good_reply vs"
    and "rc_reader (ac_c ac) = Some r" "holding r (concat (map encode vs))" and "heap_ok (as_h w)"
  shows "\<exists>w' r' as. redisProcessCallbacks A (Some (defaultFunctions A)) P w = Some (Inr w') \<and> holding r' [] \<and>
    as_ac w' = Some (ac\<lparr>ac_c := (ac_c ac)\<lparr>rc_reader := Some r'\<rparr>, ac_replies := later\<rparr>) \<and> rh_objs (as_h w') = rh_objs (as_h w) \<and>
    served P cbs vs (as_user w) (as_user w') \<and> length as = length cbs \<and>
    as_log w' = as_log w @ map (\<lambda>(cb, a). Ran cb a) (filter (\<lambda>(cb, a). cb_fn cb \<noteq> 0) (zip cbs as))"
  unfolding redisProcessCallbacks_def by (rule callbacks_loop_all [OF assms(1,2,6,7,3,4,5,8,9,10)])

subsection \<open>A context with two pending commands\<close>

definition sample_ac :: "redisReader \<Rightarrow> redisAsyncContext" where
  "sample_ac r =
     \<lparr>ac_c = \<lparr>rc_err = 0, rc_errstr = [], rc_fd = 3, rc_flags = {CONNECTED}, rc_obuf = None, rc_reader = Some r, rc_connection_type = CONN_TCP,
        rc_timeout = None, rc_host = None, rc_source_addr = None, rc_port = 0, rc_path = None\<rparr>,
      ac_err = 0, ac_ev = {EvCleanup}, ac_onDisconnect = 4, ac_onConnect = 0,
      ac_replies = [\<lparr>cb_fn = 1, cb_privdata = 7\<rparr>, \<lparr>cb_fn = 2, cb_privdata = 8\<rparr>], ac_invalid = [],
      ac_channels = dictReset, ac_patterns = dictReset\<rparr>"

definition sample_state :: "redisReader \<Rightarrow> (nat \<times> nat) list async_state" where
  "sample_state r =
     \<lparr>as_ac = Some (sample_ac r), as_so = \<lparr>so_reads = [], so_writes = [], so_sent = []\<rparr>, as_h = heap0, as_log = [], as_user = [],
      as_os = \<lparr>os_errno = 0, os_outcomes = [], os_resolved = [], os_calls = []\<rparr>\<rparr>"

text \<open>Callbacks that try to issue another command and to free the context once more.\<close>

definition eager_user :: "(nat \<times> nat) list async_user" where
  "eager_user =
     \<lparr>us_callback = (\<lambda>fn h a p u. ([DoCommand 9 9 (command [''PING'']), DoFree], u @ [(fn, p)])), us_status = (\<lambda>fn ok u. u)\<rparr>"

definition onlooking_user :: "(nat \<times> nat) list async_user" where
  "onlooking_user = \<lparr>us_callback = (\<lambda>fn h a p u. ([], u @ [(fn, p)])), us_status = (\<lambda>fn ok u. u)\<rparr>"

lemma sample_reader: "\<exists>r. reader_ok r \<and> rd_reply r = 0 \<and> holding r (encode (RStatus ''OK'') @ encode (RInteger 5))"
proof -
  have A: "\<And>n. al_ok any_memory n" by (simp add: any_memory_def)
  let ?b = "encode (RStatus ''OK'') @ encode (RInteger 5)"
  obtain r0 where r0: "reader_ok r0" "rd_len r0 = 0" "pstate_of r0 = \<lparr>ps_stack = [], ps_reply = 0, ps_bytes = []\<rparr>"
    using createReader_ok [of any_memory] A by blast
  have "?b \<noteq> []" "rd_len r0 + length ?b < 2 ^ 30" using r0(2) by (simp_all add: line_def int_to_string_def length_to_string)
  from redisReaderFeed_ok [OF r0(1) A this, of None "0 :: nat"] obtain r where
    r: "reader_ok r" "pstate_of r = ext ?b (pstate_of r0)" by blast
  then have "holding r ?b" using r0(3) by (intro holding_end) (simp_all add: ext_def)
  moreover have "rd_reply r = 0" using arg_cong [OF r(2), of ps_reply] r0(3) by (simp add: pstate_of_def ext_def)
  ultimately show ?thesis using r(1) by blast
qed

lemma subs_ok_reset: "subs_ok dictReset"
  by (simp add: subs_ok_def dict_inv_reset) (simp add: dictReset_def)

theorem redisAsyncFree_runs_all_witness:
  "\<exists>r w' es. redisAsyncFree any_memory (Some (defaultFunctions any_memory)) eager_user (sample_state r) = Some (Inr w') \<and> as_ac w' = None \<and>
    as_log w' = [Ran \<lparr>cb_fn = 1, cb_privdata = 7\<rparr> 0, Ran \<lparr>cb_fn = 2, cb_privdata = 8\<rparr> 0, Hook EvCleanup] @ es @ [Closed 3]"
proof -
  have A: "\<And>n. al_ok any_memory n" by (simp add: any_memory_def)
  obtain r :: redisReader where r: "rd_reply r = 0" using sample_reader by blast
  let ?w = "sample_state r" and ?fn = "Some (defaultFunctions any_memory)"
  have free: "redisFree ?fn (Some (ac_c (sample_ac r))) (as_h ?w) = Inr ([3], as_h ?w)"
    using r by (simp add: redisFree_def redisReaderFree_def sample_ac_def)
  have w: "as_ac ?w = Some (sample_ac r)" "\<not> has_flag IN_CALLBACK (sample_ac r)" by (simp_all add: sample_state_def sample_ac_def has_flag_def)
  have subs: "subs_ok (ac_channels (sample_ac r))" "subs_ok (ac_patterns (sample_ac r))" using subs_ok_reset by (simp_all add: sample_ac_def)
  have log: "as_log ?w @ null_runs (ac_replies (sample_ac r) @ ac_invalid (sample_ac r) @ map snd (entries (ac_channels (sample_ac r))) @
        map snd (entries (ac_patterns (sample_ac r)))) @ (if EvCleanup \<in> ac_ev (sample_ac r) then [Hook EvCleanup] else []) @ es @ map Closed [3] =
      [Ran \<lparr>cb_fn = 1, cb_privdata = 7\<rparr> 0, Ran \<lparr>cb_fn = 2, cb_privdata = 8\<rparr> 0, Hook EvCleanup] @ es @ [Closed 3]" for es
    by (simp add: sample_state_def sample_ac_def entries_def dictReset_def)
  show ?thesis using redisAsyncFree_runs_all [OF A w subs free, of eager_user] unfolding log by blast
qed

theorem replies_in_order_witness:
  "\<exists>r w' a b. redisProcessCallbacks any_memory (Some (defaultFunctions any_memory)) onlooking_user (sample_state r) = Some (Inr w') \<and>
    as_log w' = [Ran \<lparr>cb_fn = 1, cb_privdata = 7\<rparr> a, Ran \<lparr>cb_fn = 2, cb_privdata = 8\<rparr> b] \<and> as_user w' = [(1, 7), (2, 8)]"
proof -
  have A: "\<And>n. al_ok any_memory n" by (simp add: any_memory_def)
  let ?cbs = "[\<lparr>cb_fn = 1, cb_privdata = 7\<rparr>, \<lparr>cb_fn = 2, cb_privdata = 8\<rparr>]" and ?vs = "[RStatus ''OK'', RInteger 5]"
  obtain r where r: "holding r (concat (map encode ?vs))" using sample_reader by auto
  let ?w = "sample_state r"
  have P: "onlooker onlooking_user" by (simp add: onlooker_def onlooking_user_def)
  have w: "as_ac ?w = Some (sample_ac r)" "calm (sample_ac r)" "ac_replies (sample_ac r) = ?cbs @ []" "length ?cbs = length ?vs"
    "list_all good_reply ?vs" "rc_reader (ac_c (sample_ac r)) = Some r" "heap_ok (as_h ?w)"
    using heap_ok_heap0 by (simp_all add: sample_state_def sample_ac_def calm_def good_reply_def)
  from replies_in_order [OF A P w(1-6) r w(7)] obtain w' as where
    "redisProcessCallbacks any_memory (Some (defaultFunctions any_memory)) onlooking_user ?w = Some (Inr w')"
    "served onlooking_user ?cbs ?vs (as_user ?w) (as_user w')" "length as = length ?cbs"
    "as_log w' = as_log ?w @ map (\<lambda>(cb, a). Ran cb a) (filter (\<lambda>(cb, a). cb_fn cb \<noteq> 0) (zip ?cbs as))" by blast
  moreover from this(3) obtain a b where "as = [a, b]" by (auto simp: length_Suc_conv)
  ultimately show ?thesis by (auto simp: sample_state_def onlooking_user_def)
qed

end
