(* ===== verification/Spec2Isabelle.thy ===== *)
theory Spec2Isabelle
  imports Hashtable_Db_Laws Ceph_File_Db Real_Ceph_Db Xihu_Db Ycsbc Redis_Client_Laws Sds_Self_Test Redis_Self_Test
    Redis_Reader_Test Redis_Async_Laws
begin

text \<open>
  A verification development for YCSB-C, the C++ port of the Yahoo! Cloud Serving Benchmark, with
  its database bindings and the Redis client library hiredis that it is linked with.

  The program. \<^verbatim>\<open>ycsbc.cc\<close> reads the command line and property files, creates a database
  (\<^verbatim>\<open>db/db_factory.cc\<close>) and a workload (\<^verbatim>\<open>core/core_workload.cc\<close>), and runs two phases, load and
  transactions, each over several threads. A thread drives one \<^verbatim>\<open>Client\<close> (\<^verbatim>\<open>core/client.h\<close>), which asks the
  workload for operations, keys and values, drawn from generators (\<^verbatim>\<open>core/*_generator.h\<close>), and calls the
  database through the abstract class \<^verbatim>\<open>DB\<close> (\<^verbatim>\<open>core/db.h\<close>). The databases are tables in memory (\<^verbatim>\<open>db/hashtable_db.cc\<close>
  over \<^verbatim>\<open>lib/\<close>), blocks of a mapped file (\<^verbatim>\<open>db/ceph_db.h\<close>), of an RBD image (\<^verbatim>\<open>db/real_ceph_db.h\<close>) or of a remote
  block server (\<^verbatim>\<open>db/xihu_db.h\<close>), a database that prints (\<^verbatim>\<open>db/basic_db.h\<close>), and Redis (\<^verbatim>\<open>db/redis_db.cc\<close> over
  \<^verbatim>\<open>redis/redis_client.h\<close> over \<^verbatim>\<open>redis/hiredis\<close>).

  Conventions. A definition has the name of the function it models. A C or C++ structure is a record,
  an enumeration a datatype, a machine integer a word or an integer that is truncated where the code
  truncates it. A call returns \<open>Inr\<close> a value with the new state, or \<open>Inl\<close> what ended it: an exception, a failed
  assertion, \<^verbatim>\<open>exit\<close>, an access outside live memory, or waiting for ever (\<open>exn\<close> in \<open>Ycsb_Prelude\<close>). A loop that
  may not return is a \<open>partial_function (option)\<close>, with None for not returning; all other functions are
  total, by structural recursion or a measure. What lies outside the sources is an argument: the
  random engines, the clock, rounding, the containers of the C++ library and of TBB, librbd, eRPC, the
  outcomes of system calls, memory that may run out, and the callbacks of the user.

  \<^bold>\<open>Shared theories.\<close>
  \<open>Ycsb_Prelude\<close>: results, strings and numbers of the C and C++ libraries. \<open>Binary64\<close>: the operations on
  \<^verbatim>\<open>double\<close> over a rounding function, the locale \<open>fp_arith\<close> of what the proofs need of it, and its
  interpretation by rounding to binary64.

  \<^bold>\<open>The core.\<close>
  \<open>Utils\<close> (\<^verbatim>\<open>core/utils.h\<close>): hashes, trimming, truth values, random helpers.
  \<open>Properties\<close> (\<^verbatim>\<open>core/properties.h\<close>): the property map and its file format, which is read back.
  \<open>Generators\<close> and \<open>Generator_Laws\<close>: every generator with constructor, \<^verbatim>\<open>Next\<close> and \<^verbatim>\<open>Last\<close>. The locales \<open>generator\<close> and
  \<open>bounded_generator\<close> state the contract of the abstract class, with sequences of draws as their client;
  each generator interprets one of them. The laws are ranges over all sequences of draws, the
  intervals of the discrete generator and the coherence of the cached zeta value.
  \<open>Core_Workload\<close> and \<open>Workload_Laws\<close>: the workload object, \<^verbatim>\<open>Init\<close> from properties, and what the clients call. An ordered load
  writes every key once, transactions use loaded keys, the hashed order collides.
  \<open>Db_Client\<close> and \<open>Client_Laws\<close>: the class \<^verbatim>\<open>DB\<close> as a record of functions and the client. The locale \<open>database\<close> says that operations
  keep an invariant and return, \<open>ok_database\<close> that they succeed; clients, workers and threads are proved
  once inside them, and every block, printing and remote database interprets \<open>ok_database\<close>.
  \<open>Timer\<close>: \<^verbatim>\<open>core/timer.h\<close> and the arithmetic of the reports.
  \<open>Ycsbc\<close>: command line, factory, and \<^verbatim>\<open>main\<close> for any interleaving of the workers of a phase; \<^verbatim>\<open>main\<close> returns and
  loads the records.

  \<^bold>\<open>Databases in memory.\<close>
  \<open>Vmp_String\<close> (\<^verbatim>\<open>lib/string.h\<close>, \<^verbatim>\<open>lib/mem_alloc.h\<close>): hashed strings in an explicit heap. \<open>Hashtables\<close>: the tables of
  \<^verbatim>\<open>lib/\<close> over a container. The locale \<open>container\<close> is the contract of the C++ and TBB containers, interpreted by
  lists of elements; \<open>string_hashtable\<close> (\<open>Hashtable_Laws\<close>) is the contract of the tables, obtained
  for each of them by a sublocale. \<open>Hashtable_Db\<close>, \<open>Hashtable_Rows\<close>, \<open>Hashtable_Db_Laws\<close>: the two-level tables of \<^verbatim>\<open>db/hashtable_db.cc\<close>. The
  locales \<open>field_tables\<close> and \<open>hashtable_db\<close> prove, for any table class, that every operation implements the one of an abstract table
  of rows and keeps the ownership of strings, so that no freed string is read; they are interpreted
  on the three databases.

  \<^bold>\<open>Other databases.\<close>
  \<open>Basic_Db\<close>: output and lock. \<open>Ceph_Db\<close>: blocks of a mapped file, the variant that is compiled;
  operations stay inside the mapping. \<open>Ceph_File_Db\<close>: the variant without \<^verbatim>\<open>MMAP\<close>, whose file stream only appends.
  \<open>Real_Ceph_Db\<close>: asynchronous blocks; the completions of librbd are events, and the wait in \<^verbatim>\<open>Close\<close> is a step relation
  of the callbacks against \<^verbatim>\<open>main\<close> with its invariant, and a run that loses the wake-up.
  \<open>Xihu_Client\<close>, \<open>Xihu_Laws\<close>, \<open>Xihu_Db\<close>: pipelined transfers with continuations; a transfer is a copy for every order of the responses
  (locale \<open>transfer_run\<close>).

  \<^bold>\<open>Redis.\<close>
  \<open>Sds\<close>, \<open>Sds_Text\<close>, \<open>Sds_Args\<close> with \<open>Sds_Laws\<close> (\<^verbatim>\<open>sds.c\<close>): dynamic strings, with the invariant of header and buffer, the content
  of each operation, and splitting, joining and quoting as round trips.
  \<open>Redis_Reader\<close> (\<^verbatim>\<open>read.c\<close>): the incremental parser with its stack of tasks; \<open>Redis_Reader_Laws\<close> a reference parser on byte
  strings that it implements; \<open>Redis_Chunks\<close>: replies do not depend on how bytes arrive.
  \<open>Redis_Reply\<close> and \<open>Redis_Roundtrip\<close> (\<^verbatim>\<open>hiredis.c\<close>): reply objects in a heap; the encoding of a reply is read back and released.
  \<open>Redis_Format\<close>, \<open>Redis_Format_Laws\<close>: both formatters and the printf-like one, their lengths, and that they agree;
  \<open>Redis_Format_Ref\<close>: which arguments a format stands for, a specification on strings that the formatter implements.
  \<open>Redis_Context\<close>: contexts, buffered reads and writes, commands, over a socket given by the outcomes of its calls;
  \<open>Redis_Command\<close>: a command end to end.
  \<open>Redis_Net\<close> (\<^verbatim>\<open>net.c\<close>) and \<open>Redis_Connect\<close> (the connecting functions of \<^verbatim>\<open>hiredis.c\<close>): opening sockets over a state that holds
  the outcomes of the system calls and the calls made. \<open>Redis_Net_Laws\<close>: the locales \<open>socket_op\<close> and \<open>quiet_op\<close> state what an
  operation on an open socket keeps, for each operation of \<^verbatim>\<open>net.c\<close>; from it follow the absence of leaks,
  the reporting of errors, the mode of a connected socket, the length of the wait and the number of system calls.
  \<open>Redis_Db\<close>, \<open>Redis_Db_Laws\<close>, \<open>Redis_Client_Laws\<close> (\<^verbatim>\<open>redis_client.h\<close>, \<^verbatim>\<open>redis_db.cc\<close>): the constructor leaves a context from which commands
  start, the server receives exactly the commands of \<^verbatim>\<open>Update\<close>, and \<^verbatim>\<open>Read\<close> returns what it answers.
  \<open>Dict\<close> and \<open>Dict_Laws\<close> (\<^verbatim>\<open>dict.c\<close>): the chained table refines a finite map, and iteration visits each entry once.
  \<open>Redis_Async\<close> and \<open>Redis_Async_Laws\<close> (\<^verbatim>\<open>async.c\<close>): the asynchronous contexts with callbacks that may call back into the library; the locale
  \<open>callback_list\<close> is shared by the lists of waiting callbacks. Replies go to callbacks in order, and freeing runs every
  waiting callback once.
  \<open>Sds_Self_Test\<close>, \<open>Redis_Self_Test\<close>, \<open>Redis_Reader_Test\<close>: the test program at the end of \<^verbatim>\<open>sds.c\<close> and the tests of
  \<^verbatim>\<open>test.c\<close> that need no server, run on the model: all their conditions hold, and the reader leaves no
  reply object behind.

  \<^bold>\<open>Bounds.\<close>
  Theorems on hiredis assume texts below \<open>2 ^ 30\<close> bytes, the range in which the \<^verbatim>\<open>int\<close> fields of its headers do not
  overflow, and replies nested at most 8 deep, the depth of the task stack of \<^verbatim>\<open>read.c\<close>. Releasing a reply
  recurses as deep as the heap has objects, which suffices for the acyclic objects the reader builds.
  Subscriptions are read with as many steps as the command has bytes, one more than it can use, since each takes a byte.
  Connecting takes at most nine system calls for each address and repetition, ten attempts at most being
  made for an address that is not available. \<open>al_ok\<close> says which allocations succeed; where a theorem assumes that all do, the
  failing ones are still branches of the definitions.

  \<^bold>\<open>Not modelled.\<close>
  The adapters of hiredis to event libraries, its examples, the tests of \<^verbatim>\<open>test.c\<close> that talk to a server, and
  \<^verbatim>\<open>redis/sample.cc\<close>, which are not part of the benchmark; the experiments under \<^verbatim>\<open>mywork\<close> and \<^verbatim>\<open>mylearning\<close>, which are programs of their own. Messages on
  the error stream before the process exits are left out, as are the layout of memory and data races
  other than those of \<^verbatim>\<open>Close\<close>.
\<close>

end
